(* ===== verification/Prelude.thy ===== *)
theory Prelude
  imports Main "HOL-Library.Word" "HOL-Library.Char_ord" "HOL-Library.List_Lexorder"
begin

text \<open>
  Shared vocabulary of the development: the exceptions of the library as one
  datatype, results as sums, the C character classification of the "C" locale,
  characters as bytes, and the few list operations of \<open>std::string\<close> and
  Boost's string algorithms that several components call.
\<close>

unbundle bit_operations_syntax

section \<open>Collections of facts\<close>

named_theorems bind_simps \<open>inversion of a bound result\<close>
named_theorems ctype_simps \<open>definitions of the C character classes\<close>

section \<open>Exceptions and results\<close>

text \<open>
  What a call can end with besides a value. \<open>Undefined\<close> marks what C++ leaves
  undefined (an access outside an object), \<open>Assertion\<close> a failed \<open>assert\<close>.
\<close>

datatype exn =
    Runtime_error string
  | Zeep_exception string
  | Invalid_argument string
  | Out_of_range
  | Invalid_base64
  | Invalid_hex
  | Unauthorized
  | Invalid_password
  | Not_wf string
  | Invalid_document string
  | Source_exception string
  | Assertion
  | Undefined

type_synonym 'a res = "exn + 'a"

abbreviation ok :: "'a \<Rightarrow> 'a res" where
  "ok \<equiv> Inr"

abbreviation throw :: "exn \<Rightarrow> 'a res" where
  "throw \<equiv> Inl"

definition bind_res :: "'a res \<Rightarrow> ('a \<Rightarrow> 'b res) \<Rightarrow> 'b res" where
  "bind_res r f = (case r of Inl e \<Rightarrow> Inl e | Inr x \<Rightarrow> f x)"

lemma bind_res_ok [simp]: "bind_res (ok x) f = f x"
  by (simp add: bind_res_def)

lemma bind_res_throw [simp]: "bind_res (throw e) f = throw e"
  by (simp add: bind_res_def)

lemma bind_res_eq_ok [bind_simps]: "bind_res r f = ok y \<longleftrightarrow> (\<exists>x. r = ok x \<and> f x = ok y)"
  by (cases r) auto

lemma bind_res_eq_throw [bind_simps]:
  "bind_res r f = throw e \<longleftrightarrow> r = throw e \<or> (\<exists>x. r = ok x \<and> f x = throw e)"
  by (cases r) auto

lemma bind_res_cong [fundef_cong]:
  "r = r' \<Longrightarrow> (\<And>x. r' = ok x \<Longrightarrow> f x = g x) \<Longrightarrow> bind_res r f = bind_res r' g"
  by (cases r') auto

fun map_res :: "('a \<Rightarrow> 'b res) \<Rightarrow> 'a list \<Rightarrow> 'b list res" where
  "map_res f [] = ok []"
| "map_res f (x # xs) = bind_res (f x) (\<lambda>y. bind_res (map_res f xs) (\<lambda>ys. ok (y # ys)))"

definition is_ok :: "'a res \<Rightarrow> bool" where
  "is_ok r = (case r of Inl _ \<Rightarrow> False | Inr _ \<Rightarrow> True)"

lemma is_ok_simps [simp]: "is_ok (ok x)" "\<not> is_ok (throw e)"
  by (simp_all add: is_ok_def)

text \<open>A result that may be missing, and its sequencing.\<close>

definition seq :: "'a res option \<Rightarrow> ('a \<Rightarrow> 'b res option) \<Rightarrow> 'b res option" where
  "seq r f = (case r of None \<Rightarrow> None | Some (Inl e) \<Rightarrow> Some (throw e) | Some (Inr x) \<Rightarrow> f x)"

lemma seq_simps:
  "seq (Some (ok x)) f = f x" "seq (Some (throw e)) f = Some (throw e)" "seq None f = None"
  by (simp_all add: seq_def)

section \<open>Characters as bytes\<close>

type_synonym u8 = "8 word"
type_synonym u32 = "32 word"
type_synonym u64 = "64 word"

abbreviation code :: "char \<Rightarrow> nat" where
  "code c \<equiv> of_char c"

lemma code_less [simp]: "code c < 256"
  using of_char_mod_256 [of c] by (metis mod_less_divisor zero_less_numeral)

lemma code_le [simp]: "code c \<le> 255"
  using code_less [of c] by linarith

lemma char_of_code [simp]: "char_of (code c) = c"
  by simp

lemma code_char_of_less [simp]: "n < 256 \<Longrightarrow> code (char_of n) = n"
  by simp

lemma code_inject [simp]: "code c = code d \<longleftrightarrow> c = d"
  by (metis char_of_code)

text \<open>The unsigned byte a \<open>char\<close> holds, and back.\<close>

definition byte_of :: "char \<Rightarrow> u8" where
  "byte_of c = word_of_nat (code c)"

definition char_of_byte :: "u8 \<Rightarrow> char" where
  "char_of_byte w = char_of (unat w)"

lemma unat_byte_of [simp]: "unat (byte_of c) = code c"
  by (simp add: byte_of_def unat_of_nat)

lemma char_of_byte_of [simp]: "char_of_byte (byte_of c) = c"
  by (simp add: char_of_byte_def)

lemma byte_of_char_of_byte [simp]: "byte_of (char_of_byte w) = w"
proof -
  have "unat w < 256"
    using unsigned_less [of w, where ?'a = nat] by simp
  then show ?thesis
    by (simp add: byte_of_def char_of_byte_def)
qed

definition bytes_of :: "string \<Rightarrow> u8 list" where
  "bytes_of s = map byte_of s"

definition string_of_bytes :: "u8 list \<Rightarrow> string" where
  "string_of_bytes bs = map char_of_byte bs"

lemma length_bytes_of [simp]: "length (bytes_of s) = length s"
  by (simp add: bytes_of_def)

lemma length_string_of_bytes [simp]: "length (string_of_bytes bs) = length bs"
  by (simp add: string_of_bytes_def)

lemma string_of_bytes_of [simp]: "string_of_bytes (bytes_of s) = s"
  by (simp add: string_of_bytes_def bytes_of_def o_def)

lemma bytes_of_string_of_bytes [simp]: "bytes_of (string_of_bytes bs) = bs"
  by (simp add: string_of_bytes_def bytes_of_def o_def)

lemma bytes_of_append: "bytes_of (s @ t) = bytes_of s @ bytes_of t"
  by (simp add: bytes_of_def)

text \<open>
  \<open>char\<close> is signed on the platforms the library is built for, so a \<open>char\<close> that
  is converted to \<open>char32_t\<close> is sign extended.
\<close>

definition unicode_of_char :: "char \<Rightarrow> nat" where
  "unicode_of_char c = (if code c < 128 then code c else 2 ^ 32 - 256 + code c)"

section \<open>Bits of naturals\<close>

lemma byte_bit: "bit (n::nat) i \<Longrightarrow> n < 2 ^ k \<Longrightarrow> i < k"
  by (metis bit_take_bit_iff take_bit_nat_eq_self)

lemma mod_256_take_bit: "(n::nat) mod 256 = take_bit 8 n"
  by (simp add: take_bit_eq_mod)

lemma and_63_take_bit: "(n::nat) AND 63 = take_bit 6 n"
  by (simp add: take_bit_eq_mask mask_eq_exp_minus_1)

section \<open>The C locale's character classes\<close>

definition isdigit :: "char \<Rightarrow> bool" where
  [ctype_simps]: "isdigit c \<longleftrightarrow> 48 \<le> code c \<and> code c \<le> 57"

definition isupper :: "char \<Rightarrow> bool" where
  [ctype_simps]: "isupper c \<longleftrightarrow> 65 \<le> code c \<and> code c \<le> 90"

definition islower :: "char \<Rightarrow> bool" where
  [ctype_simps]: "islower c \<longleftrightarrow> 97 \<le> code c \<and> code c \<le> 122"

definition isalpha :: "char \<Rightarrow> bool" where
  [ctype_simps]: "isalpha c \<longleftrightarrow> isupper c \<or> islower c"

definition isxdigit :: "char \<Rightarrow> bool" where
  [ctype_simps]: "isxdigit c \<longleftrightarrow> isdigit c \<or> (65 \<le> code c \<and> code c \<le> 70)
     \<or> (97 \<le> code c \<and> code c \<le> 102)"

definition isspace :: "char \<Rightarrow> bool" where
  [ctype_simps]: "isspace c \<longleftrightarrow> code c = 32 \<or> (9 \<le> code c \<and> code c \<le> 13)"

definition iscntrl :: "char \<Rightarrow> bool" where
  [ctype_simps]: "iscntrl c \<longleftrightarrow> code c < 32 \<or> code c = 127"

definition toupper :: "char \<Rightarrow> char" where
  "toupper c = (if islower c then char_of (code c - 32) else c)"

definition tolower :: "char \<Rightarrow> char" where
  "tolower c = (if isupper c then char_of (code c + 32) else c)"

definition hex_digit_value :: "char \<Rightarrow> nat option" where
  "hex_digit_value c =
     (if 48 \<le> code c \<and> code c \<le> 57 then Some (code c - 48)
      else if 97 \<le> code c \<and> code c \<le> 102 then Some (code c - 97 + 10)
      else if 65 \<le> code c \<and> code c \<le> 70 then Some (code c - 65 + 10)
      else None)"

definition hex_chars :: string where
  "hex_chars = ''0123456789abcdef''"

lemma hex_digit_value_less: "hex_digit_value c = Some v \<Longrightarrow> v < 16"
  by (auto simp: hex_digit_value_def split: if_splits)

lemma isxdigit_iff: "isxdigit c \<longleftrightarrow> hex_digit_value c \<noteq> None"
  by (auto simp: ctype_simps hex_digit_value_def)

lemma length_hex_chars [simp]: "length hex_chars = 16"
  by (simp add: hex_chars_def)

lemma hex_digit_value_hex_chars_all:
  "list_all (\<lambda>n. hex_digit_value (hex_chars ! n) = Some n) [0..<16]"
  by code_simp

lemma hex_digit_value_hex_chars [simp]:
  "n < 16 \<Longrightarrow> hex_digit_value (hex_chars ! n) = Some n"
  using hex_digit_value_hex_chars_all by (simp add: list_all_iff del: upt.simps)

section \<open>Strings\<close>

text \<open>\<open>std::string::find\<close> of one character and of a string, from position 0.\<close>

fun find_char :: "char \<Rightarrow> string \<Rightarrow> nat option" where
  "find_char c [] = None"
| "find_char c (x # xs) = (if x = c then Some 0 else map_option Suc (find_char c xs))"

fun starts_with :: "string \<Rightarrow> string \<Rightarrow> bool" where
  "starts_with s [] = True"
| "starts_with [] (p # ps) = False"
| "starts_with (x # xs) (p # ps) = (x = p \<and> starts_with xs ps)"

fun find_string :: "string \<Rightarrow> string \<Rightarrow> nat option" where
  "find_string p [] = (if p = [] then Some 0 else None)"
| "find_string p (x # xs) =
     (if starts_with (x # xs) p then Some 0 else map_option Suc (find_string p xs))"

text \<open>Boost's \<open>split\<close> with \<open>is_any_of\<close> (no token compression) and \<open>trim\<close>.\<close>

fun split_on :: "(char \<Rightarrow> bool) \<Rightarrow> string \<Rightarrow> string list" where
  "split_on p [] = [[]]"
| "split_on p (x # xs) =
     (if p x then [] # split_on p xs
      else (case split_on p xs of [] \<Rightarrow> [[x]] | y # ys \<Rightarrow> (x # y) # ys))"

definition trim :: "string \<Rightarrow> string" where
  "trim s = rev (dropWhile isspace (rev (dropWhile isspace s)))"

lemma find_char_None [simp]: "find_char c s = None \<longleftrightarrow> c \<notin> set s"
  by (induction s) auto

lemma find_char_SomeD:
  "find_char c s = Some n \<Longrightarrow> n < length s \<and> s ! n = c \<and> c \<notin> set (take n s)"
  by (induction s arbitrary: n) (auto split: if_splits)

lemma find_char_append: "c \<notin> set s \<Longrightarrow> find_char c (s @ c # t) = Some (length s)"
  by (induction s) auto

lemma starts_with_append [simp]: "starts_with (p @ s) p"
  by (induction p) auto

lemma starts_with_iff: "starts_with s p \<longleftrightarrow> (\<exists>t. s = p @ t)"
  by (induction s p rule: starts_with.induct) auto

lemma split_on_ne [simp]: "split_on p s \<noteq> []"
  by (induction s) (auto split: list.splits)

lemma split_on_none: "\<forall>x \<in> set s. \<not> p x \<Longrightarrow> split_on p s = [s]"
  by (induction s) auto

lemma split_on_append:
  "\<forall>x \<in> set s. \<not> p x \<Longrightarrow> p d \<Longrightarrow> split_on p (s @ d # t) = s # split_on p t"
  by (induction s) auto

lemma trim_id: "s = [] \<or> (\<not> isspace (hd s) \<and> \<not> isspace (last s)) \<Longrightarrow> trim s = s"
proof (cases "s = []")
  case False
  assume "s = [] \<or> (\<not> isspace (hd s) \<and> \<not> isspace (last s))"
  with False have "dropWhile isspace s = s" "dropWhile isspace (rev s) = rev s"
    by (simp_all add: dropWhile_eq_self_iff hd_rev)
  then show ?thesis by (simp add: trim_def)
qed (simp add: trim_def)

lemma trim_space_Cons: "isspace c \<Longrightarrow> trim (c # s) = trim s"
  by (simp add: trim_def)

text \<open>Decimal rendering, as \<open>std::to_string\<close> gives it.\<close>

fun nat_to_string :: "nat \<Rightarrow> string" where
  "nat_to_string n =
     (if n < 10 then [char_of (48 + n)]
      else nat_to_string (n div 10) @ [char_of (48 + n mod 10)])"

declare nat_to_string.simps [simp del]

definition int_to_string :: "int \<Rightarrow> string" where
  "int_to_string i = (if i < 0 then CHR ''-'' # nat_to_string (nat (- i)) else nat_to_string (nat i))"

definition digit_val :: "char \<Rightarrow> nat" where
  "digit_val c = code c - 48"

lemma digit_char [simp]: "(d::nat) < 10 \<Longrightarrow> isdigit (char_of (48 + d))"
  by (simp add: isdigit_def)

lemma digit_val_char [simp]: "(d::nat) < 10 \<Longrightarrow> digit_val (char_of (48 + d)) = d"
  by (simp add: digit_val_def)

lemma nat_to_string_ne [simp]: "nat_to_string n \<noteq> []"
  by (subst nat_to_string.simps) simp

lemma nat_to_string_digits: "\<forall>c \<in> set (nat_to_string n). isdigit c"
proof (induction n rule: nat_to_string.induct)
  case (1 n)
  show ?case
  proof (cases "n < 10")
    case True
    then show ?thesis by (subst nat_to_string.simps) simp
  next
    case False
    with 1 show ?thesis by (subst nat_to_string.simps) auto
  qed
qed

lemma nat_to_string_value: "foldl (\<lambda>a c. 10 * a + digit_val c) 0 (nat_to_string n) = n"
proof (induction n rule: nat_to_string.induct)
  case (1 n)
  show ?case
  proof (cases "n < 10")
    case True
    then show ?thesis by (subst nat_to_string.simps) simp
  next
    case False
    with 1 show ?thesis by (subst nat_to_string.simps) simp
  qed
qed

lemma digit_val_zero: "isdigit c \<Longrightarrow> digit_val c = 0 \<longleftrightarrow> c = CHR ''0''"
proof -
  assume "isdigit c"
  then have "digit_val c = 0 \<longleftrightarrow> code c = code (CHR ''0'')"
    by (auto simp: isdigit_def digit_val_def)
  then show ?thesis by (simp only: code_inject)
qed

lemma nat_to_string_hd: "0 < n \<Longrightarrow> digit_val (hd (nat_to_string n)) \<noteq> 0"
proof (induction n rule: nat_to_string.induct)
  case (1 n)
  show ?case
  proof (cases "n < 10")
    case True
    then show ?thesis using 1(2) by (subst nat_to_string.simps) simp
  next
    case False
    then have "0 < n div 10" by simp
    with False 1 show ?thesis by (subst nat_to_string.simps) simp
  qed
qed

end
