(* ===== verification/Unicode_Support.thy ===== *)
theory Unicode_Support
  imports Prelude
begin

text \<open>
  \<open>include/zeep/unicode-support.hpp\<close>: the set of text encodings, case-insensitive
  comparison, UTF-8 encoding of one code point, removal of the last and decoding of
  the first code point of a UTF-8 string, and the hexadecimal rendering used in
  error messages. A read outside the string is \<open>Undefined\<close>.
\<close>

unbundle bit_operations_syntax

type_synonym unicode = "32 word"

datatype encoding_type = ASCII | UTF8 | UTF16BE | UTF16LE | ISO88591

definition is_single_byte_encoding :: "encoding_type \<Rightarrow> bool" where
  "is_single_byte_encoding enc \<longleftrightarrow> enc = ASCII \<or> enc = ISO88591 \<or> enc = UTF8"

text \<open>The loop over the index is structural recursion over the two strings.\<close>

fun iequals_loop :: "string \<Rightarrow> string \<Rightarrow> bool" where
  "iequals_loop (x # xs) (y # ys) = (toupper x = toupper y \<and> iequals_loop xs ys)"
| "iequals_loop _ _ = True"

definition iequals :: "string \<Rightarrow> string \<Rightarrow> bool" where
  "iequals a b = (length a = length b \<and> iequals_loop a b)"

text \<open>\<open>static_cast<char>\<close> keeps the low eight bits; a \<open>char\<close> read as a byte is widened.\<close>

definition chr32 :: "unicode \<Rightarrow> char" where
  "chr32 w = char_of (unat w)"

definition ord32 :: "char \<Rightarrow> unicode" where
  "ord32 c = word_of_nat (code c)"

definition utf8 :: "unicode \<Rightarrow> string" where
  "utf8 uc =
     (if uc < 0x80 then [chr32 uc]
      else if uc < 0x800 then
        [chr32 (0xC0 OR drop_bit 6 uc),
         chr32 (0x80 OR (uc AND 0x3F))]
      else if uc < 0x10000 then
        [chr32 (0xE0 OR drop_bit 12 uc),
         chr32 (0x80 OR (drop_bit 6 uc AND 0x3F)),
         chr32 (0x80 OR (uc AND 0x3F))]
      else
        [chr32 (0xF0 OR drop_bit 18 uc),
         chr32 (0x80 OR (drop_bit 12 uc AND 0x3F)),
         chr32 (0x80 OR (drop_bit 6 uc AND 0x3F)),
         chr32 (0x80 OR (uc AND 0x3F))])"

definition append_utf8 :: "string \<Rightarrow> unicode \<Rightarrow> string" where
  "append_utf8 s uc = s @ utf8 uc"

text \<open>
  The do-while loop of \<open>pop_last_char\<close> walks back from the end; its argument is
  the reversed string from the current character on. It stops at the first
  character of the string or at a character that is no continuation byte, and
  steps outside a string of one character.
\<close>

fun pop_loop :: "unicode \<Rightarrow> nat \<Rightarrow> string \<Rightarrow> (unicode \<times> nat \<times> string) res" where
  "pop_loop result sh [] = throw Undefined"
| "pop_loop result sh [c] = throw Undefined"
| "pop_loop result sh (c # d # rest) =
     (if sh \<ge> 30 then throw Undefined
      else let result' = result OR push_bit sh (ord32 c AND 0x3F); sh' = sh + 6 in
        if rest \<noteq> [] \<and> ord32 d AND 0xC0 = 0x80
        then pop_loop result' sh' (d # rest)
        else ok (result', sh', d # rest))"

text \<open>The \<open>switch\<close> on the number of bits read: what the lead byte contributes.\<close>

definition pop_lead :: "nat \<Rightarrow> unicode \<Rightarrow> unicode" where
  "pop_lead sh lead =
     (if sh = 6 then push_bit 6 (lead AND 0x1F)
      else if sh = 12 then push_bit 12 (lead AND 0x0F)
      else if sh = 18 then push_bit 18 (lead AND 0x07)
      else 0)"

definition pop_last_char :: "string \<Rightarrow> (unicode \<times> string) res" where
  "pop_last_char s =
     (if s = [] then ok (0, s)
      else if ord32 (last s) AND 0x80 = 0 then ok (ord32 (last s), butlast s)
      else bind_res (pop_loop 0 0 (rev s)) (\<lambda>(result, sh, rest).
        ok (result OR pop_lead sh (ord32 (hd rest)), rev (tl rest))))"

fun next_byte_of :: "string \<Rightarrow> (unicode \<times> string) res" where
  "next_byte_of [] = throw Undefined"
| "next_byte_of (c # s) = ok (ord32 c, s)"

definition get_first_char :: "string \<Rightarrow> (unicode \<times> string) res" where
  "get_first_char s =
     bind_res (next_byte_of s) (\<lambda>(result, p).
       if result > 0x7F then
         (if result AND 0xE0 = 0xC0 then
            bind_res (next_byte_of p) (\<lambda>(ch0, p).
              ok (push_bit 6 (result AND 0x1F) OR (ch0 AND 0x3F), p))
          else if result AND 0xF0 = 0xE0 then
            bind_res (next_byte_of p) (\<lambda>(ch0, p).
            bind_res (next_byte_of p) (\<lambda>(ch1, p).
              ok (push_bit 12 (result AND 0x0F) OR push_bit 6 (ch0 AND 0x3F) OR (ch1 AND 0x3F), p)))
          else if result AND 0xF8 = 0xF0 then
            bind_res (next_byte_of p) (\<lambda>(ch0, p).
            bind_res (next_byte_of p) (\<lambda>(ch1, p).
            bind_res (next_byte_of p) (\<lambda>(ch2, p).
              ok (push_bit 18 (result AND 0x07) OR push_bit 12 (ch0 AND 0x3F)
                  OR push_bit 6 (ch1 AND 0x3F) OR (ch2 AND 0x3F), p))))
          else ok (result, p))
       else ok (result, p))"

text \<open>The loop of \<open>to_hex\<close> runs once per non-zero nibble, at most eight times.\<close>

fun to_hex_loop :: "nat \<Rightarrow> nat \<Rightarrow> string \<Rightarrow> string" where
  "to_hex_loop 0 i acc = acc"
| "to_hex_loop (Suc k) i acc =
     (if i = 0 then acc else to_hex_loop k (i div 16) (hex_chars ! (i mod 16) # acc))"

definition to_hex :: "unicode \<Rightarrow> string" where
  "to_hex i = ''0x'' @ to_hex_loop 8 (unat i) []"

section \<open>Case-insensitive comparison\<close>

lemma iequals_iff: "iequals a b \<longleftrightarrow> map toupper a = map toupper b"
proof -
  have "length a = length b \<Longrightarrow> iequals_loop a b \<longleftrightarrow> map toupper a = map toupper b"
    by (induction a b rule: list_induct2) auto
  moreover have "map toupper a = map toupper b \<Longrightarrow> length a = length b"
    by (rule map_eq_imp_length_eq)
  ultimately show ?thesis by (auto simp: iequals_def)
qed

lemma iequals_refl [simp]: "iequals a a"
  by (simp add: iequals_iff)

lemma iequals_sym: "iequals a b \<Longrightarrow> iequals b a"
  by (simp add: iequals_iff)

lemma iequals_trans: "iequals a b \<Longrightarrow> iequals b c \<Longrightarrow> iequals a c"
  by (simp add: iequals_iff)

section \<open>UTF-8 round trips\<close>

lemma ord32_chr32: "ord32 (chr32 w) = w AND 0xFF"
proof -
  have "code (chr32 w) = unat w mod 256"
    by (simp add: chr32_def)
  then have "ord32 (chr32 w) = word_of_nat (take_bit 8 (unat w))"
    by (simp add: ord32_def take_bit_eq_mod)
  also have "\<dots> = take_bit 8 w"
    by (simp add: unsigned_take_bit_eq [symmetric])
  also have "\<dots> = w AND 0xFF"
    by (simp add: take_bit_eq_mask mask_eq_exp_minus_1)
  finally show ?thesis .
qed

lemma take_bit_small: "unat (x::'a::len word) < 2 ^ n \<Longrightarrow> take_bit n x = x"
proof -
  assume "unat x < 2 ^ n"
  then have "unat (take_bit n x) = unat x"
    by (simp add: unsigned_take_bit_eq take_bit_nat_eq_self)
  then show ?thesis by (rule unsigned_word_eqI)
qed

lemma and_mask_simps:
  "(w::unicode) AND 0x3F = take_bit 6 w" "w AND 0x1F = take_bit 5 w" "w AND 0x0F = take_bit 4 w"
  "w AND 0x07 = take_bit 3 w" "w AND 0xFF = take_bit 8 w"
  by (simp_all add: take_bit_eq_mask mask_eq_exp_minus_1)

lemma continuation_byte:
  "ord32 (chr32 (0x80 OR take_bit 6 x)) = 0x80 OR take_bit 6 x"
  "(0x80 OR take_bit 6 x) AND (0xC0::unicode) = 0x80"
  "(0x80 OR take_bit 6 x) AND (0x80::unicode) = 0x80"
  "take_bit 6 (0x80 OR take_bit 6 (x::unicode)) = take_bit 6 x"
  by (simp_all add: ord32_chr32 and_mask_simps [symmetric] bit.conj_disj_distrib2 and.assoc)

lemma two_byte: "(x::unicode) < 0x800 \<Longrightarrow> push_bit 6 (take_bit 5 (drop_bit 6 x)) OR take_bit 6 x = x"
proof -
  assume "x < 0x800"
  then have *: "take_bit 11 x = x" by (intro take_bit_small) (simp add: word_less_nat_alt)
  show ?thesis
    by (subst (3) * [symmetric], rule bit_eqI) (auto simp: bit_simps)
qed
lemma three_byte: "(x::unicode) < 0x10000 \<Longrightarrow>
   push_bit 12 (take_bit 4 (drop_bit 12 x)) OR push_bit 6 (take_bit 6 (drop_bit 6 x)) OR take_bit 6 x = x"
proof -
  assume "x < 0x10000"
  then have *: "take_bit 16 x = x" by (intro take_bit_small) (simp add: word_less_nat_alt)
  show ?thesis
  proof (subst (4) * [symmetric], rule bit_eqI)
    fix n
    show "bit (push_bit 12 (take_bit 4 (drop_bit 12 x)) OR push_bit 6 (take_bit 6 (drop_bit 6 x)) OR take_bit 6 x) n = bit (take_bit 16 x) n"
      by (cases "n < 6"; cases "n < 12") (auto simp: bit_simps)
  qed
qed

lemma four_byte: "(x::unicode) < 0x200000 \<Longrightarrow>
   push_bit 18 (take_bit 3 (drop_bit 18 x)) OR push_bit 12 (take_bit 6 (drop_bit 12 x))
     OR push_bit 6 (take_bit 6 (drop_bit 6 x)) OR take_bit 6 x = x"
proof -
  assume "x < 0x200000"
  then have *: "take_bit 21 x = x" by (intro take_bit_small) (simp add: word_less_nat_alt)
  show ?thesis
  proof (subst (5) * [symmetric], rule bit_eqI)
    fix n
    show "bit (push_bit 18 (take_bit 3 (drop_bit 18 x)) OR push_bit 12 (take_bit 6 (drop_bit 12 x))
     OR push_bit 6 (take_bit 6 (drop_bit 6 x)) OR take_bit 6 x) n = bit (take_bit 21 x) n"
      by (cases "n < 6"; cases "n < 12"; cases "n < 18") (auto simp: bit_simps)
  qed
qed

lemma lead_above_ascii: "(0x80::unicode) \<le> a \<Longrightarrow> 0x7F < a OR y"
proof -
  assume "0x80 \<le> a"
  have "take_bit 7 (a OR y) \<noteq> a OR y"
  proof 
    assume "take_bit 7 (a OR y) = a OR y"
    then have "take_bit 7 a = a"
     by (metis (no_types, lifting) bit_eq_iff bit_or_iff bit_take_bit_iff)
    then have "unat a = take_bit 7 (unat a)" by (metis unsigned_take_bit_eq)
    moreover have "take_bit 7 (unat a) < 2 ^ 7" by (rule take_bit_nat_less_exp)
    ultimately show False using \<open>0x80 \<le> a\<close> by (simp add: word_le_nat_alt)
  qed
  then have "\<not> unat (a OR y) < 2 ^ 7" using take_bit_small by blast
  then show ?thesis by (simp add: word_less_nat_alt)
qed

lemma lead2: "(x::unicode) < 0x800 \<Longrightarrow> drop_bit 6 x = take_bit 5 (drop_bit 6 x)"
  by (rule take_bit_small[symmetric]) (simp add: word_less_nat_alt drop_bit_eq_div unat_div div_less_iff_less_mult)
lemma lead3: "(x::unicode) < 0x10000 \<Longrightarrow> drop_bit 12 x = take_bit 4 (drop_bit 12 x)"
  by (rule take_bit_small[symmetric]) (simp add: word_less_nat_alt drop_bit_eq_div unat_div div_less_iff_less_mult)
lemma lead4: "(x::unicode) < 0x200000 \<Longrightarrow> drop_bit 18 x = take_bit 3 (drop_bit 18 x)"
  by (rule take_bit_small[symmetric]) (simp add: word_less_nat_alt drop_bit_eq_div unat_div div_less_iff_less_mult)

lemma lead_and:
  "(0xC0 OR take_bit 5 (y::unicode)) AND 0xFF = 0xC0 OR take_bit 5 y"
  "(0xC0 OR take_bit 5 (y::unicode)) AND 0xE0 = 0xC0"
  "(0xC0 OR take_bit 5 (y::unicode)) AND 0x1F = take_bit 5 y"
  "(0xE0 OR take_bit 4 (y::unicode)) AND 0xFF = 0xE0 OR take_bit 4 y"
  "(0xE0 OR take_bit 4 (y::unicode)) AND 0xE0 = 0xE0"
  "(0xE0 OR take_bit 4 (y::unicode)) AND 0xF0 = 0xE0"
  "(0xE0 OR take_bit 4 (y::unicode)) AND 0x0F = take_bit 4 y"
  "(0xF0 OR take_bit 3 (y::unicode)) AND 0xFF = 0xF0 OR take_bit 3 y"
  "(0xF0 OR take_bit 3 (y::unicode)) AND 0xE0 = 0xE0"
  "(0xF0 OR take_bit 3 (y::unicode)) AND 0xF0 = 0xF0"
  "(0xF0 OR take_bit 3 (y::unicode)) AND 0xF8 = 0xF0"
  "(0xF0 OR take_bit 3 (y::unicode)) AND 0x07 = take_bit 3 y"
  by (simp_all add: and_mask_simps [symmetric] bit.conj_disj_distrib2 and.assoc)

lemma lead_and_c0:
  "(0xC0 OR take_bit 5 (y::unicode)) AND 0xC0 = 0xC0"
  "(0xE0 OR take_bit 4 (y::unicode)) AND 0xC0 = 0xC0"
  "(0xF0 OR take_bit 3 (y::unicode)) AND 0xC0 = 0xC0"
  by (simp_all add: and_mask_simps [symmetric] bit.conj_disj_distrib2 and.assoc)

lemma pop_lead_bytes:
  "pop_lead 6 (0xC0 OR take_bit 5 y) = push_bit 6 (take_bit 5 y)"
  "pop_lead 12 (0xE0 OR take_bit 4 y) = push_bit 12 (take_bit 4 y)"
  "pop_lead 18 (0xF0 OR take_bit 3 y) = push_bit 18 (take_bit 3 y)"
  by (simp_all only: pop_lead_def lead_and) simp_all

lemma lead_bytes:
  "uc < 0x800 \<Longrightarrow> ord32 (chr32 (0xC0 OR drop_bit 6 uc)) = 0xC0 OR take_bit 5 (drop_bit 6 uc)"
  "uc < 0x10000 \<Longrightarrow> ord32 (chr32 (0xE0 OR drop_bit 12 uc)) = 0xE0 OR take_bit 4 (drop_bit 12 uc)"
  "uc < 0x200000 \<Longrightarrow> ord32 (chr32 (0xF0 OR drop_bit 18 uc)) = 0xF0 OR take_bit 3 (drop_bit 18 uc)"
  by (simp_all only: ord32_chr32)
    (subst lead2, assumption, simp only: lead_and, subst lead3, assumption, simp only: lead_and,
     subst lead4, assumption, simp only: lead_and)

lemma ascii_byte: "uc < 0x80 \<Longrightarrow> ord32 (chr32 uc) = uc"
  by (simp add: ord32_chr32 and_mask_simps take_bit_small word_less_nat_alt)

text \<open>
  C1. Decoding inverts encoding: for every code point UTF-8 can carry in four bytes,
  \<open>get_first_char\<close> reads back the code point \<open>append\<close> wrote and leaves exactly
  what follows it.
\<close>

theorem get_first_char_utf8: "uc < 0x200000 \<Longrightarrow> get_first_char (utf8 uc @ rest) = ok (uc, rest)"
proof -
  assume uc: "uc < 0x200000"
  consider "uc < 0x80" | "\<not> uc < 0x80" "uc < 0x800" | "\<not> uc < 0x800" "uc < 0x10000" | "\<not> uc < 0x10000" by blast
  then show ?thesis
  proof cases
    case 1
    then have "\<not> 0x7F < uc" by (simp add: word_less_nat_alt)
    with 1 show ?thesis by (simp add: utf8_def get_first_char_def ascii_byte)
  next
    case 2
    then show ?thesis
      by (simp add: utf8_def get_first_char_def lead_bytes lead_and continuation_byte lead_above_ascii and_mask_simps(1) two_byte)
  next
    case 3
    then have "\<not> uc < 0x80" by (auto simp: word_less_nat_alt)
    with 3 show ?thesis
      by (simp add: utf8_def get_first_char_def lead_bytes lead_and continuation_byte lead_above_ascii and_mask_simps(1) three_byte)
  next
    case 4
    then have "\<not> uc < 0x80" "\<not> uc < 0x800" by (auto simp: word_less_nat_alt)
    with 4 uc show ?thesis
      by (simp add: utf8_def get_first_char_def lead_bytes lead_and continuation_byte lead_above_ascii and_mask_simps(1) four_byte)
  qed
qed

lemma ascii_high: "uc < 0x80 \<Longrightarrow> uc AND (0x80::unicode) = 0"
proof -
  assume "uc < 0x80"
  then have *: "take_bit 7 uc = uc" by (intro take_bit_small) (simp add: word_less_nat_alt)
  show ?thesis
  by (subst * [symmetric]) (simp add: take_bit_eq_mask mask_eq_exp_minus_1 and.assoc)
qed

lemma bytes_from_end:
  "(x::unicode) < 0x800 \<Longrightarrow> take_bit 6 x OR push_bit 6 (take_bit 5 (drop_bit 6 x)) = x"
  "x < 0x10000 \<Longrightarrow> (take_bit 6 x OR push_bit 6 (take_bit 6 (drop_bit 6 x)))
     OR push_bit 12 (take_bit 4 (drop_bit 12 x)) = x"
  "x < 0x200000 \<Longrightarrow> ((take_bit 6 x OR push_bit 6 (take_bit 6 (drop_bit 6 x)))
     OR push_bit 12 (take_bit 6 (drop_bit 12 x))) OR push_bit 18 (take_bit 3 (drop_bit 18 x)) = x"
  using two_byte [of x] three_byte [of x] four_byte [of x] by (simp_all add: ac_simps)

theorem get_first_char_utf8_witness:
  "(0x20AC :: unicode) < 0x200000 \<and> get_first_char (utf8 0x20AC @ ''x'') = ok (0x20AC, ''x'')"
  using get_first_char_utf8 [of "0x20AC" "''x''"] by simp

text \<open>
  \<open>pop_last_char\<close> undoes \<open>append\<close>: it returns the appended code point and
  restores the string, whatever bytes the string ends in.
\<close>

lemma pop_last_char_append: "uc < 0x200000 \<Longrightarrow> pop_last_char (append_utf8 s uc) = ok (uc, s)"
proof -
  assume uc: "uc < 0x200000"
  consider "uc < 0x80" | "\<not> uc < 0x80" "uc < 0x800" | "\<not> uc < 0x800" "uc < 0x10000" | "\<not> uc < 0x10000" by blast
  then show ?thesis
  proof cases
    case 1
    then show ?thesis by (simp add: utf8_def append_utf8_def pop_last_char_def ascii_byte ascii_high)
  next
    case 2
    then show ?thesis
      by (simp add: utf8_def append_utf8_def pop_last_char_def lead_bytes lead_and continuation_byte lead_and_c0 pop_lead_bytes and_mask_simps(1) bytes_from_end Let_def)
  next
    case 3
    then have "\<not> uc < 0x80" by (auto simp: word_less_nat_alt)
    with 3 show ?thesis
      by (simp add: utf8_def append_utf8_def pop_last_char_def lead_bytes lead_and lead_and_c0 pop_lead_bytes continuation_byte and_mask_simps(1) bytes_from_end Let_def)
  next
    case 4
    then have "\<not> uc < 0x80" "\<not> uc < 0x800" by (auto simp: word_less_nat_alt)
    with 4 uc show ?thesis
      by (simp add: utf8_def append_utf8_def pop_last_char_def lead_bytes lead_and lead_and_c0 pop_lead_bytes continuation_byte and_mask_simps(1) bytes_from_end Let_def)
  qed
qed

lemma pop_last_char_append_witness:
  "(0x20AC :: unicode) < 0x200000 \<and> pop_last_char (append_utf8 ''ab'' 0x20AC) = ok (0x20AC, ''ab'')"
  using pop_last_char_append [of "0x20AC" "''ab''"] by simp

section \<open>Characters as code points\<close>

lemma unat_ord32: "unat (ord32 c) = code c"
proof -
  have "code c < 2 ^ 32" by (rule less_trans [OF code_less]) simp
  then show ?thesis by (simp add: ord32_def unat_of_nat)
qed

lemma chr32_ord32: "chr32 (ord32 c) = c"
  by (simp add: chr32_def unat_ord32)

lemma next_byte_less: "next_byte_of s = ok (b, t) \<Longrightarrow> length t < length s"
  by (cases s) simp_all

lemma get_first_char_less: "get_first_char s = ok (c, t) \<Longrightarrow> length t < length s"
  unfolding get_first_char_def
  by (auto simp: bind_res_eq_ok Let_def split: if_splits prod.splits dest!: next_byte_less)

end
