(* ===== verification/Char_Class.thy ===== *)
theory Char_Class
  imports Unicode_Support
begin

text \<open>
  \<open>lib-xml/src/character-classification.cpp\<close>: the character classes of the XML
  grammar and the checks of system literals and public identifiers. The two checks
  walk over \<open>char\<close>s and pass each one, sign extended, to the classifier.
\<close>

definition is_name_start_char :: "unicode \<Rightarrow> bool" where
  "is_name_start_char uc \<longleftrightarrow>
     uc = 0x3A \<or>
     (uc \<ge> 0x41 \<and> uc \<le> 0x5A) \<or>
     uc = 0x5F \<or>
     (uc \<ge> 0x61 \<and> uc \<le> 0x7A) \<or>
     (uc \<ge> 0x0C0 \<and> uc \<le> 0x0D6) \<or>
     (uc \<ge> 0x0D8 \<and> uc \<le> 0x0F6) \<or>
     (uc \<ge> 0x0F8 \<and> uc \<le> 0x02FF) \<or>
     (uc \<ge> 0x0370 \<and> uc \<le> 0x037D) \<or>
     (uc \<ge> 0x037F \<and> uc \<le> 0x01FFF) \<or>
     (uc \<ge> 0x0200C \<and> uc \<le> 0x0200D) \<or>
     (uc \<ge> 0x02070 \<and> uc \<le> 0x0218F) \<or>
     (uc \<ge> 0x02C00 \<and> uc \<le> 0x02FEF) \<or>
     (uc \<ge> 0x03001 \<and> uc \<le> 0x0D7FF) \<or>
     (uc \<ge> 0x0F900 \<and> uc \<le> 0x0FDCF) \<or>
     (uc \<ge> 0x0FDF0 \<and> uc \<le> 0x0FFFD) \<or>
     (uc \<ge> 0x010000 \<and> uc \<le> 0x0EFFFF)"

definition is_name_char :: "unicode \<Rightarrow> bool" where
  "is_name_char uc \<longleftrightarrow>
     uc = 0x2D \<or>
     uc = 0x2E \<or>
     (uc \<ge> 0x30 \<and> uc \<le> 0x39) \<or>
     uc = 0x0B7 \<or>
     is_name_start_char uc \<or>
     (uc \<ge> 0x00300 \<and> uc \<le> 0x0036F) \<or>
     (uc \<ge> 0x0203F \<and> uc \<le> 0x02040)"

definition is_valid_xml_1_0_char :: "unicode \<Rightarrow> bool" where
  "is_valid_xml_1_0_char uc \<longleftrightarrow>
     uc = 0x09 \<or>
     uc = 0x0A \<or>
     uc = 0x0D \<or>
     (uc \<ge> 0x020 \<and> uc \<le> 0x0D7FF) \<or>
     (uc \<ge> 0x0E000 \<and> uc \<le> 0x0FFFD) \<or>
     (uc \<ge> 0x010000 \<and> uc \<le> 0x010FFFF)"

definition is_valid_xml_1_1_char :: "unicode \<Rightarrow> bool" where
  "is_valid_xml_1_1_char uc \<longleftrightarrow>
     uc = 0x09 \<or>
     uc = 0x0A \<or>
     uc = 0x0D \<or>
     (uc \<ge> 0x020 \<and> uc < 0x07F) \<or>
     uc = 0x085 \<or>
     (uc \<ge> 0x0A0 \<and> uc \<le> 0x0D7FF) \<or>
     (uc \<ge> 0x0E000 \<and> uc \<le> 0x0FFFD) \<or>
     (uc \<ge> 0x010000 \<and> uc \<le> 0x010FFFF)"

definition is_valid_system_literal_char :: "unicode \<Rightarrow> bool" where
  "is_valid_system_literal_char uc \<longleftrightarrow>
     uc > 0x1F \<and> uc \<noteq> 0x20 \<and> uc \<noteq> 0x3C \<and> uc \<noteq> 0x3E \<and> uc \<noteq> 0x22 \<and> uc \<noteq> 0x23"

text \<open>A \<open>char\<close> passed as \<open>char32_t\<close>: negative values wrap to the top of the range.\<close>

definition unicode_of :: "char \<Rightarrow> unicode" where
  "unicode_of c = word_of_nat (unicode_of_char c)"

fun is_valid_system_literal :: "string \<Rightarrow> bool" where
  "is_valid_system_literal [] = True"
| "is_valid_system_literal (c # s) =
     (is_valid_system_literal_char (unicode_of c) \<and> is_valid_system_literal s)"

definition kPubChars :: string where
  "kPubChars = '' '' @ [CHR 0x0D, CHR 0x0A] @ ''-'' @ [CHR 0x27] @ ''()+,./:=?;!*#@$_%''"

definition is_valid_public_id_char :: "unicode \<Rightarrow> bool" where
  "is_valid_public_id_char uc \<longleftrightarrow>
     (uc \<ge> 0x61 \<and> uc \<le> 0x7A) \<or>
     (uc \<ge> 0x41 \<and> uc \<le> 0x5A) \<or>
     (uc \<ge> 0x30 \<and> uc \<le> 0x39) \<or>
     (uc < 128 \<and> find_char (chr32 uc) kPubChars \<noteq> None)"

fun is_valid_public_id :: "string \<Rightarrow> bool" where
  "is_valid_public_id [] = True"
| "is_valid_public_id (c # s) = (is_valid_public_id_char (unicode_of c) \<and> is_valid_public_id s)"

section \<open>Relations between the classes\<close>

lemma unat_unicode_of: "unat (unicode_of c) = unicode_of_char c"
proof -
  have "unicode_of_char c < 2 ^ 32"
    using code_less [of c] unfolding unicode_of_char_def by auto
  then show ?thesis
    by (simp add: unicode_of_def unat_of_nat take_bit_eq_mod)
qed

lemmas char_class_defs =
  is_name_start_char_def is_name_char_def is_valid_xml_1_0_char_def is_valid_xml_1_1_char_def

lemma name_start_char_is_name_char: "is_name_start_char uc \<Longrightarrow> is_name_char uc"
  by (simp add: is_name_char_def)

lemma name_char_is_xml_1_0_char: "is_name_char uc \<Longrightarrow> is_valid_xml_1_0_char uc"
  by (auto simp: char_class_defs word_le_nat_alt)

lemma xml_1_1_char_is_xml_1_0_char: "is_valid_xml_1_1_char uc \<Longrightarrow> is_valid_xml_1_0_char uc"
  by (auto simp: char_class_defs word_le_nat_alt word_less_nat_alt)

lemma name_char_below_2_20: "is_name_char uc \<Longrightarrow> unat uc \<le> 0xEFFFF"
  by (auto simp: char_class_defs word_le_nat_alt)

text \<open>
  A byte outside ASCII is sign extended to a value above every name character, so
  classifying a UTF-8 string byte by byte rejects every non-ASCII name.
\<close>

lemma high_byte_no_name_char: "128 \<le> code c \<Longrightarrow> \<not> is_name_char (unicode_of c)"
  using name_char_below_2_20 [of "unicode_of c"]
  by (auto simp: unat_unicode_of unicode_of_char_def)

lemma high_byte_no_name_start_char: "128 \<le> code c \<Longrightarrow> \<not> is_name_start_char (unicode_of c)"
  using high_byte_no_name_char name_start_char_is_name_char by blast

end
