(* ===== verification/Codec.thy ===== *)
theory Codec
  imports Prelude
begin

text \<open>
  The text encodings of \<open>lib-http/src/crypto.cpp\<close>: base64 with optional line
  wrapping, base64url, hexadecimal and the URL encoding. Bytes are the naturals
  below 256 that \<open>code\<close> gives, arithmetic on them is that of the \<open>int\<close> they are
  promoted to, and \<open>char_of\<close> keeps the low eight bits as \<open>static_cast<char>\<close> does.
\<close>

unbundle bit_operations_syntax

section \<open>base64\<close>

definition kBase64CharTable :: string where
  "kBase64CharTable = ''ABCDEFGHIJKLMNOPQRSTUVWXYZabcdefghijklmnopqrstuvwxyz0123456789+/''"

definition kBase64IndexTable :: "nat list" where
  "kBase64IndexTable =
     replicate 43 128 @ [62] @ replicate 3 128 @ [63] @ [52..<62] @ replicate 7 128
     @ [0..<26] @ replicate 6 128 @ [26..<52] @ replicate 5 128"

definition sextet :: "char \<Rightarrow> nat res" where
  "sextet ch =
     (if code ch < 43 \<or> code ch > 122 then throw Invalid_base64
      else ok (kBase64IndexTable ! code ch))"

text \<open>The groups of the encoding loop, without the wrapping.\<close>

fun encode_groups :: "string \<Rightarrow> string" where
  "encode_groups [] = []"
| "encode_groups [a] =
     (let i = code a in
      [kBase64CharTable ! (drop_bit 2 i),
       kBase64CharTable ! (push_bit 4 i AND 63),
       CHR ''='', CHR ''=''])"
| "encode_groups [a, b] =
     (let i1 = code a; i2 = code b in
      [kBase64CharTable ! (drop_bit 2 i1),
       kBase64CharTable ! ((push_bit 4 i1 OR drop_bit 4 i2) AND 63),
       kBase64CharTable ! (push_bit 2 i2 AND 63),
       CHR ''=''])"
| "encode_groups (a # b # c # data) =
     (let i1 = code a; i2 = code b; i3 = code c in
      [kBase64CharTable ! (drop_bit 2 i1),
       kBase64CharTable ! ((push_bit 4 i1 OR drop_bit 4 i2) AND 63),
       kBase64CharTable ! ((push_bit 2 i2 OR drop_bit 6 i3) AND 63),
       kBase64CharTable ! (i3 AND 63)]) @ encode_groups data"

text \<open>
  The inner loop over the four characters of a group: \<open>l\<close> counts the characters
  on the current line and runs on from group to group.
\<close>

fun wrap_chars :: "nat \<Rightarrow> nat \<Rightarrow> string \<Rightarrow> string" where
  "wrap_chars w l [] = []"
| "wrap_chars w l (c # s) =
     (if l = w then CHR 0x0A # c # wrap_chars w 1 s
      else c # wrap_chars w (l + 1) s)"

definition base64_reserved :: "nat \<Rightarrow> nat \<Rightarrow> nat" where
  "base64_reserved n w =
     (let m = 4 * (n div 3) + (if n mod 3 \<noteq> 0 then 4 else 0)
      in if w \<noteq> 0 then m + (m div w + 1) else m)"

text \<open>The result is compared with the reserved length by an \<open>assert\<close>.\<close>

definition encode_base64 :: "string \<Rightarrow> nat \<Rightarrow> string res" where
  "encode_base64 data wrap_width =
     (let s = encode_groups data;
          result = (if wrap_width = 0 then s else wrap_chars wrap_width 0 s @ [CHR 0x0A])
      in if length result = base64_reserved (length data) wrap_width then ok result
         else throw Assertion)"

definition is_base64_space :: "char \<Rightarrow> bool" where
  "is_base64_space ch \<longleftrightarrow> ch = CHR '' '' \<or> ch = CHR 0x09 \<or> ch = CHR 0x0A \<or> ch = CHR 0x0D"

text \<open>
  The loop that fills \<open>sxt\<close>: \<open>b\<close> sextets read, \<open>c\<close> bytes to write. A second
  \<open>=\<close> is read without a check for the end of the data.
\<close>

fun read_group :: "nat \<Rightarrow> nat \<Rightarrow> nat list \<Rightarrow> string \<Rightarrow> (nat \<times> nat \<times> nat list \<times> string) res" where
  "read_group b c sxt [] = ok (b, c, sxt, [])"
| "read_group b c sxt (ch # i) =
     (if b \<ge> 4 then ok (b, c, sxt, ch # i)
      else if is_base64_space ch then read_group b c sxt i
      else if ch = CHR ''='' then
        (if b = 2 then
           (case i of [] \<Rightarrow> throw Undefined
            | x # i' \<Rightarrow> if x = CHR ''='' then ok (4, 1, sxt, i') else throw Invalid_base64)
         else if b = 3 then ok (4, 2, sxt, i)
         else throw Invalid_base64)
      else bind_res (sextet ch) (\<lambda>v. read_group (b + 1) c (sxt[b := v]) i))"

lemma read_group_length:
  "read_group b c sxt s = ok (b', c', sxt', r) \<Longrightarrow> length r \<le> length s"
  by (induction b c sxt s rule: read_group.induct)
    (auto simp: bind_simps split: if_splits list.splits)

lemma read_group_shorter:
  "read_group 0 c sxt (ch # s) = ok (b', c', sxt', r) \<Longrightarrow> length r \<le> length s"
  by (auto simp: bind_simps split: if_splits dest: read_group_length)

definition group_bytes :: "nat \<Rightarrow> nat list \<Rightarrow> string" where
  "group_bytes c sxt =
     [char_of (push_bit 2 (sxt ! 0) OR drop_bit 4 (sxt ! 1))]
     @ (if c \<ge> 2 then [char_of (push_bit 4 (sxt ! 1) OR drop_bit 2 (sxt ! 2))] else [])
     @ (if c = 3 then [char_of (push_bit 6 (sxt ! 2) OR sxt ! 3)] else [])"

function decode_loop :: "string \<Rightarrow> string \<Rightarrow> string res" where
  "decode_loop result i =
     (if i = [] then ok result
      else bind_res (read_group 0 3 [0, 0, 0, 0] i) (\<lambda>(b, c, sxt, i').
        if b = 4 then decode_loop (result @ group_bytes c sxt) i'
        else if b \<noteq> 0 then throw Invalid_base64
        else decode_loop result i'))"
  by pat_completeness auto
termination
  by (relation "measure (\<lambda>(result, i). length i)")
    (auto simp: neq_Nil_conv le_imp_less_Suc dest!: read_group_shorter)

declare decode_loop.simps [simp del]

definition decode_base64 :: "string \<Rightarrow> string res" where
  "decode_base64 data = decode_loop [] data"

section \<open>base64url\<close>

definition replace_char :: "char \<Rightarrow> char \<Rightarrow> string \<Rightarrow> string" where
  "replace_char a b s = map (\<lambda>c. if c = a then b else c) s"

definition pop_padding :: "string \<Rightarrow> string" where
  "pop_padding s = rev (dropWhile (\<lambda>c. c = CHR ''='') (rev s))"

definition encode_base64url :: "string \<Rightarrow> string res" where
  "encode_base64url data =
     bind_res (encode_base64 data 0) (\<lambda>result.
       ok (replace_char CHR ''/'' CHR ''_'' (replace_char CHR ''+'' CHR ''-'' (pop_padding result))))"

definition decode_base64url :: "string \<Rightarrow> string res" where
  "decode_base64url data =
     (let data = replace_char CHR ''_'' CHR ''/'' (replace_char CHR ''-'' CHR ''+'' data);
          k = length data mod 4
      in if k = 0 then decode_base64 data
         else if k = 2 then decode_base64 (data @ ''=='')
         else if k = 3 then decode_base64 (data @ ''='')
         else throw Invalid_base64)"

section \<open>Hexadecimal\<close>

fun encode_hex :: "string \<Rightarrow> string" where
  "encode_hex [] = []"
| "encode_hex (b # data) =
     hex_chars ! (drop_bit 4 (code b)) # hex_chars ! (code b AND 15) # encode_hex data"

text \<open>
  The loop of \<open>decode_hex\<close>: the digit of position \<open>i + j\<close> is stored in \<open>n[i]\<close>,
  so both digits of the first byte go to \<open>n[0]\<close>, and from \<open>i = 2\<close> on the store
  is outside the two-element array.
\<close>

fun hex_digits_loop :: "nat \<Rightarrow> nat list \<Rightarrow> string \<Rightarrow> nat list res" where
  "hex_digits_loop i n [] = ok n"
| "hex_digits_loop i n (ch # chs) =
     (case hex_digit_value ch of None \<Rightarrow> throw Invalid_hex
      | Some v \<Rightarrow> if i < length n then hex_digits_loop i (n[i := v]) chs else throw Undefined)"

fun decode_hex_loop :: "nat \<Rightarrow> string \<Rightarrow> string res" where
  "decode_hex_loop i (x # y # data) =
     bind_res (hex_digits_loop i [0, 0] [x, y]) (\<lambda>n.
     bind_res (decode_hex_loop (i + 2) data) (\<lambda>rest.
       ok (char_of (push_bit 4 (n ! 0) OR n ! 1) # rest)))"
| "decode_hex_loop i _ = ok []"

definition decode_hex :: "string \<Rightarrow> string res" where
  "decode_hex data =
     (if length data mod 2 = 1 then throw Invalid_hex else decode_hex_loop 0 data)"

section \<open>URL encoding\<close>

text \<open>
  \<open>is >> std::hex >> value\<close> on a stream of two characters: leading white space is
  skipped, a sign is accepted, \<open>0x\<close> alone is no number, and the number ends at the
  first character that is no digit.
\<close>

definition stream_hex_digits :: "string \<Rightarrow> int option" where
  "stream_hex_digits s =
     (case s of
        [] \<Rightarrow> None
      | [a] \<Rightarrow> map_option int (hex_digit_value a)
      | a # b # _ \<Rightarrow>
          (case hex_digit_value a of
             None \<Rightarrow> None
           | Some u \<Rightarrow>
               (case hex_digit_value b of
                  Some v \<Rightarrow> Some (int (16 * u + v))
                | None \<Rightarrow> if a = CHR ''0'' \<and> (b = CHR ''x'' \<or> b = CHR ''X'') then None
                          else Some (int u))))"

definition stream_hex :: "string \<Rightarrow> int option" where
  "stream_hex s =
     (case dropWhile isspace s of
        [] \<Rightarrow> None
      | a # r \<Rightarrow> if a = CHR ''+'' then stream_hex_digits r
                else if a = CHR ''-'' then map_option uminus (stream_hex_digits r)
                else stream_hex_digits (a # r))"

fun decode_url :: "string \<Rightarrow> string" where
  "decode_url [] = []"
| "decode_url (c # s) =
     (if c = CHR ''%'' then
        (case s of
           a # b # s' \<Rightarrow>
             (case stream_hex [a, b] of
                Some value \<Rightarrow> char_of (nat (value mod 256)) # decode_url s'
              | None \<Rightarrow> decode_url s)
         | _ \<Rightarrow> decode_url s)
      else if c = CHR ''+'' then CHR '' '' # decode_url s
      else c # decode_url s)"

definition kURLAcceptable :: "nat list" where
  "kURLAcceptable =
    [0,0,0,0,0,0,0,0,0,0,7,6,0,7,7,4,
     7,7,7,7,7,7,7,7,7,7,0,0,0,0,0,0,
     7,7,7,7,7,7,7,7,7,7,7,7,7,7,7,7,
     7,7,7,7,7,7,7,7,7,7,7,0,0,0,0,7,
     0,7,7,7,7,7,7,7,7,7,7,7,7,7,7,7,
     7,7,7,7,7,7,7,7,7,7,7,0,0,0,0,0]"

definition url_acceptable :: "char \<Rightarrow> bool" where
  "url_acceptable c \<longleftrightarrow>
     (let a = code c in a \<ge> 32 \<and> a < 128 \<and> kURLAcceptable ! (a - 32) AND 4 \<noteq> 0)"

fun encode_url :: "string \<Rightarrow> string" where
  "encode_url [] = []"
| "encode_url (c # s) =
     (if \<not> url_acceptable c
      then CHR ''%'' # hex_chars ! (drop_bit 4 (code c)) # hex_chars ! (code c AND 15) # encode_url s
      else c # encode_url s)"

section \<open>Correctness\<close>

lemma base64_index_of_char:
  "map (\<lambda>c. kBase64IndexTable ! code c) kBase64CharTable = [0..<64]"
  by code_simp

lemma base64_char_facts:
  "\<forall>c \<in> set kBase64CharTable. 43 \<le> code c \<and> code c \<le> 122 \<and> \<not> is_base64_space c
     \<and> c \<noteq> CHR ''='' \<and> c \<noteq> CHR ''-'' \<and> c \<noteq> CHR ''_''"
  by (simp add: kBase64CharTable_def is_base64_space_def)

lemma length_base64_table [simp]: "length kBase64CharTable = 64"
  by (simp add: kBase64CharTable_def)

lemma base64_table:
  assumes n: "n < 64"
  shows "sextet (kBase64CharTable ! n) = ok n" "\<not> is_base64_space (kBase64CharTable ! n)"
    "kBase64CharTable ! n \<noteq> CHR ''=''" "kBase64CharTable ! n \<noteq> CHR ''-''"
    "kBase64CharTable ! n \<noteq> CHR ''_''"
proof -
  have "map (\<lambda>c. kBase64IndexTable ! code c) kBase64CharTable ! n = [0..<64] ! n"
    by (simp only: base64_index_of_char)
  then have "kBase64IndexTable ! code (kBase64CharTable ! n) = n"
    using n by (simp del: upt.simps)
  moreover have "kBase64CharTable ! n \<in> set kBase64CharTable"
    using n by simp
  note base64_char_facts [rule_format, OF this]
  ultimately show "sextet (kBase64CharTable ! n) = ok n" "\<not> is_base64_space (kBase64CharTable ! n)"
    "kBase64CharTable ! n \<noteq> CHR ''=''" "kBase64CharTable ! n \<noteq> CHR ''-''"
    "kBase64CharTable ! n \<noteq> CHR ''_''"
    by (auto simp: sextet_def)
qed

lemma drop_bit_byte: "i < 256 \<Longrightarrow> drop_bit 2 i < (64::nat)" "i < 256 \<Longrightarrow> drop_bit 4 i < (16::nat)"
  by (simp_all add: drop_bit_eq_div div_less_iff_less_mult)

lemma and_15_take_bit: "(n::nat) AND 15 = take_bit 4 n"
  by (simp add: take_bit_eq_mask mask_eq_exp_minus_1)

lemma and_3_take_bit: "(n::nat) AND 3 = take_bit 2 n"
  by (simp add: take_bit_eq_mask mask_eq_exp_minus_1)

lemma and_63_less [simp]: "(n::nat) AND 63 < 64" "(n::nat) AND 15 < 16"
proof -
  have "n AND 63 = n mod 64" "n AND 15 = n mod 16"
    by (simp_all add: and_63_take_bit and_15_take_bit take_bit_eq_mod)
  then show "(n::nat) AND 63 < 64" "(n::nat) AND 15 < 16" by simp_all
qed

lemma byte_bits_iff: "(i::nat) < 256 \<Longrightarrow> bit i n \<Longrightarrow> n < 8"
  using byte_bit [of i n 8] by simp

lemma Suc_Suc_diff: "2 \<le> n \<Longrightarrow> Suc (Suc (n - 2)) = n"
  by simp

lemma sextets_byte1:
  "i < 256 \<Longrightarrow> j < 256 \<Longrightarrow>
   push_bit 2 (drop_bit 2 i) OR drop_bit 4 ((push_bit 4 i OR drop_bit 4 j) AND 63) = (i::nat)"
  "i < 256 \<Longrightarrow> push_bit 2 (drop_bit 2 i) OR drop_bit 4 (push_bit 4 i AND 63) = (i::nat)"
  by (rule bit_eqI; auto simp: bit_simps and_63_take_bit and_3_take_bit not_less Suc_Suc_diff dest: byte_bits_iff)+

lemma char_of_eqI: "take_bit 8 n = (i::nat) \<Longrightarrow> char_of n = char_of i"
  using char_of_take_bit_eq [of 8 n] by simp

lemma sextets_byte2:
  "j < 256 \<Longrightarrow> k < 256 \<Longrightarrow>
   char_of (push_bit 4 ((push_bit 4 i OR drop_bit 4 j) AND 63) OR drop_bit 2 ((push_bit 2 j OR drop_bit 6 k) AND 63)) = char_of (j::nat)"
  "j < 256 \<Longrightarrow>
   char_of (push_bit 4 ((push_bit 4 i OR drop_bit 4 j) AND 63) OR drop_bit 2 (push_bit 2 j AND 63)) = char_of (j::nat)"
  by (rule char_of_eqI, rule bit_eqI; auto simp: bit_simps and_63_take_bit dest: byte_bits_iff)+

lemma sextets_byte3:
  "k < 256 \<Longrightarrow>
   char_of (push_bit 6 ((push_bit 2 j OR drop_bit 6 k) AND 63) OR (k AND 63)) = char_of (k::nat)"
  by (rule char_of_eqI, rule bit_eqI; auto simp: bit_simps and_63_take_bit dest: byte_bits_iff)

lemma read_group_full [simp]:
  "read_group 4 c sxt s = ok (4, c, sxt, s)" "read_group (Suc (Suc (Suc (Suc 0)))) c sxt s = ok (4, c, sxt, s)"
  by (cases s; simp add: eval_nat_numeral)+

lemma read_sextet:
  "n < 64 \<Longrightarrow> b < 4 \<Longrightarrow>
    read_group b c sxt (kBase64CharTable ! n # s) = read_group (b + 1) c (sxt[b := n]) s"
  by (simp add: base64_table)

lemma read_space: "is_base64_space ch \<Longrightarrow> read_group b c sxt (ch # s) = (if b \<ge> 4 then ok (b, c, sxt, ch # s) else read_group b c sxt s)"
  by simp

lemma newline_space [simp]: "is_base64_space (CHR 0x0A)"
  by (simp add: is_base64_space_def)

declare read_group.simps(2) [simp del]

definition line_pos :: "nat \<Rightarrow> nat \<Rightarrow> nat" where
  "line_pos w l = (if l = w then 1 else l + 1)"

lemma wrap_chars_Cons:
  "wrap_chars w l (c # s) = (if l = w then [CHR 0x0A] else []) @ c # wrap_chars w (line_pos w l) s"
  by (simp add: line_pos_def)

declare wrap_chars.simps(2) [simp del]

lemma read_sextet_wrapped:
  "n < 64 \<Longrightarrow> b < 4 \<Longrightarrow>
    read_group b c sxt (wrap_chars w l (kBase64CharTable ! n # s) @ t)
      = read_group (b + 1) c (sxt[b := n]) (wrap_chars w (line_pos w l) s @ t)"
  by (simp add: wrap_chars_Cons read_sextet read_space)

lemma read_pad1:
  "read_group (Suc (Suc (Suc 0))) c sxt (wrap_chars w l [CHR ''=''] @ t) = ok (4, 2, sxt, t)"
  by (simp add: wrap_chars_Cons read_group.simps(2) is_base64_space_def)

lemma read_pad2:
  "line_pos w l \<noteq> w \<Longrightarrow>
    read_group (Suc (Suc 0)) c sxt (wrap_chars w l [CHR ''='', CHR ''=''] @ t) = ok (4, 1, sxt, t)"
  by (simp add: wrap_chars_Cons read_group.simps(2) is_base64_space_def)

lemma read_pad2_broken:
  "line_pos w l = w \<Longrightarrow>
    read_group (Suc (Suc 0)) c sxt (wrap_chars w l [CHR ''='', CHR ''=''] @ t) = throw Invalid_base64"
  by (simp add: wrap_chars_Cons read_group.simps(2) is_base64_space_def)

fun pad_unbroken :: "nat \<Rightarrow> nat \<Rightarrow> string \<Rightarrow> bool" where
  "pad_unbroken w l (a # b # c # data) = pad_unbroken w ((line_pos w ^^ 4) l) data"
| "pad_unbroken w l [a] = ((line_pos w ^^ 3) l \<noteq> w)"
| "pad_unbroken w l _ = True"

lemma decode_spaces: "\<forall>c \<in> set t. is_base64_space c \<Longrightarrow> decode_loop result t = ok result"
proof -
  assume "\<forall>c \<in> set t. is_base64_space c"
  then have "read_group 0 3 [0, 0, 0, 0] t = ok (0, 3, [0, 0, 0, 0], [])"
    by (induction t) (auto simp: read_space)
  then show ?thesis
    by (subst decode_loop.simps) (simp add: decode_loop.simps [of result "[]"])
qed

lemma wrap_chars_ne [simp]: "wrap_chars w l s = [] \<longleftrightarrow> s = []"
  by (cases s) (simp_all add: wrap_chars_Cons)

lemma group_bytes_sextets:
  "group_bytes 3 [drop_bit 2 (code a), (push_bit 4 (code a) OR drop_bit 4 (code b)) AND 63,
     (push_bit 2 (code b) OR drop_bit 6 (code c)) AND 63, code c AND 63] = [a, b, c]"
  "group_bytes 2 [drop_bit 2 (code a), (push_bit 4 (code a) OR drop_bit 4 (code b)) AND 63,
     push_bit 2 (code b) AND 63, 0] = [a, b]"
  "group_bytes (Suc 0) [drop_bit 2 (code a), push_bit 4 (code a) AND 63, 0, 0] = [a]"
  by (simp_all add: group_bytes_def sextets_byte1 sextets_byte2 sextets_byte3 del: push_bit_and drop_bit_and)

lemmas sextet_simps = read_sextet_wrapped drop_bit_byte group_bytes_sextets

lemma funpow_num: "(f ^^ 4) l = f (f (f (f l)))" "(f ^^ 3) l = f (f (f l))"
  by (simp_all add: eval_nat_numeral)

lemma decode_wrapped:
  "pad_unbroken w l data \<Longrightarrow> \<forall>c \<in> set t. is_base64_space c \<Longrightarrow>
   decode_loop result (wrap_chars w l (encode_groups data) @ t) = ok (result @ data)"
proof (induction data arbitrary: result l rule: encode_groups.induct)
  case 1
  then show ?case by (simp add: decode_spaces)
next
  case (2 a)
  then show ?case
    by (subst decode_loop.simps) (simp add: Let_def sextet_simps funpow_num read_pad2 decode_spaces)
next
  case (3 a b)
  then show ?case
    by (subst decode_loop.simps) (simp add: Let_def sextet_simps read_pad1 decode_spaces)
next
  case (4 a b c data)
  then show ?case
    by (subst decode_loop.simps) (simp add: Let_def sextet_simps funpow_num)
qed

lemma line_pos_pow: "0 < w \<Longrightarrow> 0 < k \<Longrightarrow> (line_pos w ^^ k) 0 = (k - 1) mod w + 1"
proof (induction k)
  case 0
  then show ?case by simp
next
  case (Suc k)
  show ?case
  proof (cases k)
    case 0
    with Suc.prems show ?thesis by (simp add: line_pos_def)
  next
    case (Suc j)
    with Suc.IH Suc.prems have "(line_pos w ^^ k) 0 = j mod w + 1" by simp
    then have "(line_pos w ^^ Suc k) 0 = line_pos w (j mod w + 1)" by simp
    also have "\<dots> = Suc j mod w + 1" by (simp add: line_pos_def mod_Suc)
    finally show ?thesis using Suc by simp
  qed
qed

lemma pad_unbroken_pow:
  "pad_unbroken w ((line_pos w ^^ k) 0) data \<longleftrightarrow>
     (length data mod 3 = 1 \<longrightarrow> (line_pos w ^^ (k + 4 * (length data div 3) + 3)) 0 \<noteq> w)"
proof (induction data arbitrary: k rule: encode_groups.induct)
  case (2 a)
  have "(line_pos w ^^ 3) ((line_pos w ^^ k) 0) = (line_pos w ^^ (k + 3)) 0"
    by (simp add: add.commute [of k] funpow_add)
  then show ?case by simp
next
  case (4 a b c data)
  have "(line_pos w ^^ 4) ((line_pos w ^^ k) 0) = (line_pos w ^^ (k + 4)) 0"
    by (simp add: add.commute [of k] funpow_add)
  moreover have l: "length (a # b # c # data) = length data + 3" by simp
  moreover have "length (a # b # c # data) mod 3 = length data mod 3"
    "length (a # b # c # data) div 3 = length data div 3 + 1"
    by (simp_all only: l) simp_all
  moreover have "k + 4 + 4 * n + 3 = k + 4 * (n + 1) + 3" for n by simp
  ultimately show ?case using 4 [of "k + 4"] by (simp only: pad_unbroken.simps)
qed simp_all

lemma pad_unbroken_iff:
  "0 < w \<Longrightarrow> pad_unbroken w 0 data \<longleftrightarrow>
     (length data mod 3 = 1 \<longrightarrow> (4 * (length data div 3) + 3) mod w \<noteq> 0)"
  using pad_unbroken_pow [of w 0 data]
proof -
  let ?k = "4 * (length data div 3) + 3" and ?j = "4 * (length data div 3) + 2"
  assume w: "0 < w"
  have k: "?k = Suc ?j" by simp
  with w have "(line_pos w ^^ ?k) 0 = ?j mod w + 1"
    by (simp only: line_pos_pow) simp
  moreover have "?j mod w + 1 = w \<longleftrightarrow> ?k mod w = 0"
    unfolding k mod_Suc by simp
  ultimately show ?thesis
    using pad_unbroken_pow [of w 0 data] by simp
qed

lemma decode_wrapped_broken:
  "\<not> pad_unbroken w l data \<Longrightarrow>
   decode_loop result (wrap_chars w l (encode_groups data) @ t) = throw Invalid_base64"
proof (induction data arbitrary: result l rule: encode_groups.induct)
  case (2 a)
  then show ?case
    by (subst decode_loop.simps) (simp add: Let_def sextet_simps funpow_num read_pad2_broken)
next
  case (4 a b c data)
  then show ?case
    by (subst decode_loop.simps) (simp add: Let_def sextet_simps funpow_num)
qed simp_all

lemma length_encode_groups:
  "length (encode_groups data) = 4 * (length data div 3) + (if length data mod 3 \<noteq> 0 then 4 else 0)"
proof (induction data rule: encode_groups.induct)
  case (4 a b c data)
  have l: "length (a # b # c # data) = length data + 3" by simp
  have "(length data + 3) div 3 = length data div 3 + 1" "(length data + 3) mod 3 = length data mod 3"
    by presburger+
  then show ?case unfolding l using 4 by (simp add: Let_def)
qed (simp_all add: Let_def)

lemma wrap_chars_wide: "l + length s \<le> w \<Longrightarrow> wrap_chars w l s = s"
  by (induction s arbitrary: l) (auto simp: wrap_chars_Cons line_pos_def)

lemma length_wrap_chars:
  "0 < w \<Longrightarrow> l \<le> w \<Longrightarrow> length (wrap_chars w l s) = length s + (if s = [] then 0 else (l + length s - 1) div w)"
proof (induction s arbitrary: l)
  case (Cons c s)
  have "line_pos w l \<le> w" using Cons.prems by (simp add: line_pos_def)
  note IH = Cons.IH [OF Cons.prems(1) this]
  show ?case
  proof (cases "l = w")
    case True
    then have "line_pos w l = 1" by (simp add: line_pos_def)
    note IH' = IH [unfolded this add_diff_cancel_left']
    have "length (wrap_chars w 1 s) = length s + length s div w"
      by (cases "s = []") (simp only: wrap_chars.simps list.size div_0 add_0, simp only: IH' if_False)
    moreover have "(w + length s) div w = Suc (length s div w)"
      using div_add_self1 [of w "length s"] Cons.prems(1) by simp
    ultimately show ?thesis using True by (simp add: wrap_chars_Cons line_pos_def)
  next
    case False
    then have "line_pos w l = l + 1" "l < w" using Cons.prems by (simp_all add: line_pos_def)
    note IH' = IH [unfolded this(1)]
    have "length (wrap_chars w (l + 1) s) = length s + (l + length s) div w"
    proof (cases "s = []")
      case True
      then show ?thesis using \<open>l < w\<close> by simp
    next
      case False
      have "l + 1 + length s - 1 = l + length s" by simp
      then show ?thesis using False by (simp only: IH' if_False)
    qed
    then show ?thesis using False by (simp add: wrap_chars_Cons line_pos_def)
  qed
qed simp

lemma encode_base64_unwrapped [simp]: "encode_base64 data 0 = ok (encode_groups data)"
  by (simp add: encode_base64_def base64_reserved_def length_encode_groups)

lemma div_pred: "0 < w \<Longrightarrow> 0 < L \<Longrightarrow> (L - 1) div w = L div w \<longleftrightarrow> L mod w \<noteq> (0::nat)"
  using div_Suc [of "L - 1" w] by (auto split: if_splits)

lemma groups_of_three: "4 * (n div 3) + (if n mod 3 \<noteq> 0 then 4 else 0) = 4 * ((n + 2) div (3::nat))"
proof -
  define q r where "q = n div 3" and "r = n mod 3"
  then have n: "n = 3 * q + r" "r < 3" by simp_all
  then consider "r = 0" | "r = 1" | "r = 2" by linarith
  then have "(n + 2) div 3 = q + (if r \<noteq> 0 then 1 else 0)"
    by cases (simp_all add: n)
  then show ?thesis by (simp add: q_def r_def)
qed

lemma encode_base64_cases:
  "encode_base64 data w =
     (let m = 4 * ((length data + 2) div 3) in
      if w \<noteq> 0 \<and> data \<noteq> [] \<and> m mod w = 0 then throw Assertion
      else ok (if w = 0 then encode_groups data else wrap_chars w 0 (encode_groups data) @ [CHR 0x0A]))"
proof -
  define M where "M = 4 * ((length data + 2) div 3)"
  have m: "4 * (length data div 3) + (if length data mod 3 \<noteq> 0 then 4 else 0) = M"
    unfolding M_def by (rule groups_of_three)
  have ne: "data \<noteq> [] \<longleftrightarrow> 0 < M"
    by (cases data) (simp_all add: M_def)
  have len: "length (encode_groups data) = M"
    by (simp only: length_encode_groups m)
  then have e: "encode_groups data = [] \<longleftrightarrow> M = 0"
    by (metis length_0_conv)
  have res: "base64_reserved (length data) w = (if w \<noteq> 0 then M + (M div w + 1) else M)"
    by (simp only: base64_reserved_def Let_def m)
  show ?thesis
    unfolding Let_def M_def [symmetric]
    using div_pred [of w M] ne
    by (auto simp: encode_base64_def Let_def length_wrap_chars len e res)
qed

text \<open>
  When the encoder's length assertion holds: it fails exactly for non-empty data
  whose encoded length is a multiple of the wrap width, and otherwise the result is
  the encoded groups, wrapped and ended by a newline when a width is given.
\<close>

lemma encode_base64_assertion:
  "encode_base64 data w =
     (let m = 4 * ((length data + 2) div 3) in
      if w \<noteq> 0 \<and> data \<noteq> [] \<and> m mod w = 0 then throw Assertion
      else ok (if w = 0 then encode_groups data else wrap_chars w 0 (encode_groups data) @ [CHR 0x0A]))"
  by (rule encode_base64_cases)

lemma decode_groups: "decode_base64 (encode_groups data) = ok data"
proof -
  have "pad_unbroken (length (encode_groups data) + 4) 0 data"
    by (subst pad_unbroken_iff) (auto simp: length_encode_groups)
  from decode_wrapped [OF this, of "[]" "[]"] show ?thesis
    by (simp add: decode_base64_def wrap_chars_wide)
qed

text \<open>
  C2. The decoder inverts the encoder for every wrap width, except that a line break
  between the two padding characters makes the decoder throw.
\<close>

theorem decode_encode_base64:
  assumes "encode_base64 data w = ok s"
  shows "decode_base64 s =
     (if w \<noteq> 0 \<and> length data mod 3 = 1 \<and> (4 * (length data div 3) + 3) mod w = 0
      then throw Invalid_base64 else ok data)"
proof (cases "w = 0")
  case True
  with assms show ?thesis using decode_groups [of data] by auto
next
  case False
  then have s: "s = wrap_chars w 0 (encode_groups data) @ [CHR 0x0A]"
    using assms by (auto simp: encode_base64_cases Let_def split: if_splits)
  show ?thesis
  proof (cases "pad_unbroken w 0 data")
    case True
    with decode_wrapped [OF True, of "[CHR 0x0A]" "[]"] False show ?thesis
      by (auto simp: s decode_base64_def pad_unbroken_iff)
  next
    case False
    with decode_wrapped_broken [OF False, of "[]" "[CHR 0x0A]"] \<open>w \<noteq> 0\<close> show ?thesis
      by (auto simp: s decode_base64_def pad_unbroken_iff)
  qed
qed

theorem decode_encode_base64_witness:
  "\<exists>s. encode_base64 ''Man'' 3 = ok s \<and> decode_base64 s = ok ''Man''"
proof -
  have "encode_base64 ''Man'' 3 = ok (wrap_chars 3 0 (encode_groups ''Man'') @ [CHR 0x0A])"
    by (simp add: encode_base64_def base64_reserved_def length_wrap_chars length_encode_groups)
  then show ?thesis
    using decode_encode_base64 [of "''Man''" 3] by simp
qed



lemma base64_table_mem: "n < 64 \<Longrightarrow> kBase64CharTable ! n \<in> set kBase64CharTable"
  by simp

lemma encode_groups_split:
  "\<exists>core. encode_groups data = core @ replicate ((3 - length data mod 3) mod 3) CHR ''=''
     \<and> set core \<subseteq> set kBase64CharTable"
proof (induction data rule: encode_groups.induct)
  case (2 a)
  have "encode_groups [a] = [kBase64CharTable ! (drop_bit 2 (code a)),
      kBase64CharTable ! (push_bit 4 (code a) AND 63)] @ replicate ((3 - length [a] mod 3) mod 3) CHR ''=''"
    by (simp add: Let_def numeral_2_eq_2)
  moreover have "set [kBase64CharTable ! (drop_bit 2 (code a)),
      kBase64CharTable ! (push_bit 4 (code a) AND 63)] \<subseteq> set kBase64CharTable"
    by (auto intro!: base64_table_mem simp: drop_bit_byte)
  ultimately show ?case by blast
next
  case (3 a b)
  let ?core = "[kBase64CharTable ! (drop_bit 2 (code a)),
      kBase64CharTable ! ((push_bit 4 (code a) OR drop_bit 4 (code b)) AND 63),
      kBase64CharTable ! (push_bit 2 (code b) AND 63)]"
  have "encode_groups [a, b] = ?core @ replicate ((3 - length [a, b] mod 3) mod 3) CHR ''=''"
    by (simp add: Let_def)
  moreover have "set ?core \<subseteq> set kBase64CharTable"
    by (auto intro!: base64_table_mem simp: drop_bit_byte)
  ultimately show ?case by blast
next
  case (4 a b c data)
  then obtain core where core: "encode_groups data = core @ replicate ((3 - length data mod 3) mod 3) CHR ''=''"
    "set core \<subseteq> set kBase64CharTable" by blast
  have l: "length (a # b # c # data) mod 3 = length data mod 3"
    by (simp only: list.size) presburger
  let ?core = "[kBase64CharTable ! (drop_bit 2 (code a)),
      kBase64CharTable ! ((push_bit 4 (code a) OR drop_bit 4 (code b)) AND 63),
      kBase64CharTable ! ((push_bit 2 (code b) OR drop_bit 6 (code c)) AND 63),
      kBase64CharTable ! (code c AND 63)] @ core"
  have "encode_groups (a # b # c # data) = ?core @ replicate ((3 - length (a # b # c # data) mod 3) mod 3) CHR ''=''"
    unfolding l by (simp add: Let_def core(1))
  moreover have "set ?core \<subseteq> set kBase64CharTable"
    using core(2) by (auto intro!: base64_table_mem simp: drop_bit_byte)
  ultimately show ?case by blast
qed simp

lemma pop_padding_core: "CHR ''='' \<notin> set core \<Longrightarrow> pop_padding (core @ replicate n CHR ''='') = core"
proof -
  assume "CHR ''='' \<notin> set core"
  then have "dropWhile (\<lambda>c. c = CHR ''='') (rev core) = rev core"
    by (cases "rev core") (auto simp: dropWhile_eq_self_iff rev_eq_Cons_iff)
  then show ?thesis
    by (simp add: pop_padding_def dropWhile_append)
qed

lemma replace_back:
  "CHR ''-'' \<notin> set s \<Longrightarrow> CHR ''_'' \<notin> set s \<Longrightarrow>
   replace_char CHR ''_'' CHR ''/'' (replace_char CHR ''-'' CHR ''+''
     (replace_char CHR ''/'' CHR ''_'' (replace_char CHR ''+'' CHR ''-'' s))) = s"
  by (induction s) (auto simp: replace_char_def)

lemma length_replace_char [simp]: "length (replace_char a b s) = length s"
  by (simp add: replace_char_def)

lemma encode_base64url_ok: "\<exists>t. encode_base64url data = ok t"
  by (simp add: encode_base64url_def)

section \<open>The interface of a text codec\<close>

text \<open>
  What the callers of an encoding rely on: encoding is total and decoding gives the
  encoded string back. Passwords and tokens are compared in encoded form, which is
  sound because encoding is then injective.
\<close>

locale text_codec =
  fixes enc :: "string \<Rightarrow> string res"
    and dec :: "string \<Rightarrow> string res"
  assumes enc_total: "\<exists>t. enc s = ok t"
    and dec_enc: "enc s = ok t \<Longrightarrow> dec t = ok s"
begin

lemma roundtrip: "bind_res (enc s) dec = ok s"
  using enc_total [of s] dec_enc by auto

lemma enc_inject: "enc s = enc s' \<longleftrightarrow> s = s'"
  using enc_total [of s] by (metis dec_enc sum.inject(2))

end

lemma padding_lengths:
  fixes c n r :: nat
  assumes "c + (3 - r) mod 3 = 4 * n + (if r \<noteq> 0 then 4 else 0)" "r < 3"
  shows "c mod 4 = 0 \<and> (3 - r) mod 3 = 0 \<or> c mod 4 = 3 \<and> (3 - r) mod 3 = 1 \<or> c mod 4 = 2 \<and> (3 - r) mod 3 = 2"
proof -
  consider "r = 0" | "r = 1" | "r = 2" using assms(2) by linarith
  then show ?thesis
  proof cases
    case 2
    with assms(1) have "c = 4 * n + 2" by simp
    then have "c mod 4 = 2" by presburger
    with 2 show ?thesis by simp
  next
    case 3
    with assms(1) have "c = 4 * n + 3" by simp
    then have "c mod 4 = 3" by presburger
    with 3 show ?thesis by simp
  qed (use assms(1) in simp)
qed

text \<open>The unpadded text: characters of the table but for the two that are replaced.\<close>

lemma encode_base64url_core:
  fixes data :: string
  defines "p \<equiv> (3 - length data mod 3) mod 3"
  obtains core where "encode_groups data = core @ replicate p CHR ''=''" "set core \<subseteq> set kBase64CharTable"
    and "encode_base64url data = ok (replace_char CHR ''/'' CHR ''_'' (replace_char CHR ''+'' CHR ''-'' core))"
    and "length core mod 4 = 0 \<and> p = 0 \<or> length core mod 4 = 3 \<and> p = 1 \<or> length core mod 4 = 2 \<and> p = 2"
proof -
  obtain core where core: "encode_groups data = core @ replicate p CHR ''=''"
    "set core \<subseteq> set kBase64CharTable" using encode_groups_split unfolding p_def by blast
  from core(2) base64_char_facts have no: "CHR ''='' \<notin> set core" by blast
  have enc: "encode_base64url data = ok (replace_char CHR ''/'' CHR ''_'' (replace_char CHR ''+'' CHR ''-'' core))"
    by (simp add: encode_base64url_def core(1) pop_padding_core no)
  have "length core + p = length (encode_groups data)"
    by (simp only: core(1) length_append length_replicate)
  then have "length core + p = 4 * (length data div 3) + (if length data mod 3 \<noteq> 0 then 4 else 0)"
    by (simp only: length_encode_groups)
  then have "length core mod 4 = 0 \<and> p = 0 \<or> length core mod 4 = 3 \<and> p = 1 \<or> length core mod 4 = 2 \<and> p = 2"
    unfolding p_def by (rule padding_lengths) simp
  then show ?thesis using core enc by (intro that)
qed

lemma base64url_decodes: "bind_res (encode_base64url data) decode_base64url = ok data"
proof -
  let ?p = "(3 - length data mod 3) mod 3"
  obtain core where core: "encode_groups data = core @ replicate ?p CHR ''=''" "set core \<subseteq> set kBase64CharTable"
    and enc: "encode_base64url data = ok (replace_char CHR ''/'' CHR ''_'' (replace_char CHR ''+'' CHR ''-'' core))"
    and len: "length core mod 4 = 0 \<and> ?p = 0 \<or> length core mod 4 = 3 \<and> ?p = 1 \<or> length core mod 4 = 2 \<and> ?p = 2"
    using encode_base64url_core [of data] by blast
  from core(2) base64_char_facts have no: "CHR ''-'' \<notin> set core" "CHR ''_'' \<notin> set core" by blast+
  have "decode_base64url (replace_char CHR ''/'' CHR ''_'' (replace_char CHR ''+'' CHR ''-'' core))
      = decode_base64 (core @ replicate ?p CHR ''='')"
    using len by (elim disjE conjE) (simp_all add: decode_base64url_def Let_def replace_back no numeral_2_eq_2)
  also have "\<dots> = ok data"
    unfolding core(1) [symmetric] by (rule decode_groups)
  finally show ?thesis by (simp add: enc)
qed

interpretation base64: text_codec "\<lambda>s. encode_base64 s 0" decode_base64
  by unfold_locales (auto simp: decode_groups)

interpretation base64url: text_codec encode_base64url decode_base64url
proof unfold_locales
  fix s t
  show "\<exists>t. encode_base64url s = ok t" by (rule encode_base64url_ok)
  show "decode_base64url t = ok s" if "encode_base64url s = ok t"
    using base64url_decodes [of s] that by simp
qed

text \<open>
  base64url round trip: the unpadded, URL-safe text decodes to the data, for every
  byte string.
\<close>

lemma decode_encode_base64url:
  "bind_res (encode_base64url data) decode_base64url = ok data"
  by (rule base64url.roundtrip)


text \<open>
  What \<open>decode_hex\<close> makes of \<open>encode_hex\<close>'s output: of one byte it returns only the
  low half, shifted up, and from two bytes on it stores outside its array.
\<close>

lemma decode_hex_encode_hex:
  "decode_hex (encode_hex s) =
     (case s of [] \<Rightarrow> ok [] | [c] \<Rightarrow> ok [char_of (16 * (code c mod 16))] | _ \<Rightarrow> throw Undefined)"
proof -
  have len: "length (encode_hex s) mod 2 = 0" for s
    by (induction s) auto
  have d: "code c AND 15 = code c mod 16" for c
    by (simp add: and_15_take_bit take_bit_eq_mod)
  show ?thesis
    by (auto simp: decode_hex_def len drop_bit_byte push_bit_eq_mult d split: list.split)
qed

lemma stream_hex_byte:
  "u < 16 \<Longrightarrow> v < 16 \<Longrightarrow> stream_hex [hex_chars ! u, hex_chars ! v] = Some (int (16 * u + v))"
proof -
  assume u: "u < 16" and v: "v < 16"
  have "list_all (\<lambda>c. \<not> isspace c \<and> c \<noteq> CHR ''+'' \<and> c \<noteq> CHR ''-'') hex_chars"
    by (simp add: hex_chars_def isspace_def)
  then have "\<not> isspace (hex_chars ! u) \<and> hex_chars ! u \<noteq> CHR ''+'' \<and> hex_chars ! u \<noteq> CHR ''-''"
    using u by (simp add: list_all_iff)
  then show ?thesis
    using u v by (simp add: stream_hex_def stream_hex_digits_def)
qed

lemma percent_not_acceptable [simp]: "\<not> url_acceptable CHR ''%''"
  by (simp add: url_acceptable_def kURLAcceptable_def)

lemma plus_acceptable [simp]: "url_acceptable CHR ''+''"
  by (simp add: url_acceptable_def kURLAcceptable_def)

text \<open>What a space becomes of the \<open>+\<close> of a component that is encoded and decoded.\<close>

definition plus_to_space :: "string \<Rightarrow> string" where
  "plus_to_space = map (\<lambda>c. if c = CHR ''+'' then CHR '' '' else c)"

lemma decode_encode_url:
  "decode_url (encode_url s) = plus_to_space s"
proof (induction s)
  case (Cons c s)
  have *: "16 * drop_bit 4 (code c) + (code c AND 15) = code c"
    by (simp add: and_15_take_bit take_bit_eq_mod drop_bit_eq_div)
  have "stream_hex [hex_chars ! drop_bit 4 (code c), hex_chars ! (code c AND 15)] = Some (int (code c))"
    by (subst stream_hex_byte) (simp_all add: drop_bit_byte *)
  then show ?case
    using Cons * by (cases "url_acceptable c") (auto simp: plus_to_space_def)
qed (simp add: plus_to_space_def)

text \<open>
  C3. Decoding an encoded URL component gives the component back, but for \<open>+\<close>, which the
  encoder leaves as it is and the decoder turns into a space.
\<close>

theorem decode_url_encode_url:
  "decode_url (encode_url s) = map (\<lambda>c. if c = CHR ''+'' then CHR '' '' else c) s"
  using decode_encode_url [of s] by (simp add: plus_to_space_def)

lemma acceptable_excludes: "url_acceptable c \<Longrightarrow> c \<notin> set ''&;=?#%''"
  by (auto simp: url_acceptable_def kURLAcceptable_def)

lemma hex_chars_acceptable: "n < 16 \<Longrightarrow> url_acceptable (hex_chars ! n)"
proof -
  have "list_all url_acceptable hex_chars" by code_simp
  then show "n < 16 \<Longrightarrow> url_acceptable (hex_chars ! n)" by (simp add: list_all_iff)
qed

lemma encode_url_chars: "\<forall>c \<in> set (encode_url s). c = CHR ''%'' \<or> url_acceptable c"
proof (induction s)
  case (Cons c s)
  have "code c AND 15 < 16" by (simp add: and_15_take_bit take_bit_eq_mod)
  moreover have "drop_bit 4 (code c) < 16" by (simp add: drop_bit_byte)
  ultimately show ?case using Cons hex_chars_acceptable by auto
qed simp

lemma encode_url_excludes:
  "c \<in> set ''&;=?#'' \<Longrightarrow> c \<notin> set (encode_url s)"
proof
  assume c: "c \<in> set ''&;=?#''" and "c \<in> set (encode_url s)"
  then have "c = CHR ''%'' \<or> url_acceptable c" using encode_url_chars [of s] by blast
  moreover have "c \<noteq> CHR ''%''" using c by auto
  moreover have "\<not> url_acceptable c" using acceptable_excludes [of c] c by auto
  ultimately show False by blast
qed

text \<open>
  The decoder accepts a character that is not in the base64 alphabet and decodes it
  as a sextet of 128.
\<close>

lemma decode_base64_outside_alphabet:
  "CHR '','' \<notin> set kBase64CharTable
   \<and> decode_base64 ''QU,D'' = ok [CHR ''A'', CHR 0x60, CHR 0x03]"
proof -
  have "read_group 0 3 [0, 0, 0, 0] ''QU,D'' = ok (4, 3, [16, 20, 128, 3], [])"
  proof -
    have "kBase64CharTable ! 16 = CHR ''Q''" "kBase64CharTable ! 20 = CHR ''U''" "kBase64CharTable ! 3 = CHR ''D''"
      by (simp_all add: kBase64CharTable_def)
    then have "sextet CHR ''Q'' = ok 16" "sextet CHR ''U'' = ok 20" "sextet CHR ''D'' = ok 3"
      using base64_table(1) [of 16] base64_table(1) [of 20] base64_table(1) [of 3] by simp_all
    moreover have "sextet CHR '','' = ok 128"
      by (simp add: sextet_def kBase64IndexTable_def nth_append)
    ultimately show ?thesis
      by (simp add: read_group.simps(2) is_base64_space_def)
  qed
  moreover have "group_bytes 3 [16, 20, 128, 3] = [CHR ''A'', CHR 0x60, CHR 0x03]"
    by (simp add: group_bytes_def char_of_def bit_Suc_0_iff)
  ultimately show ?thesis
    by (simp add: decode_base64_def decode_loop.simps kBase64CharTable_def)
qed

end
