(* ===== verification/Hash.thy ===== *)
theory Hash
  imports Prelude
begin

text \<open>
  The hash functions of \<open>lib-http/src/crypto.cpp\<close>: the compression functions of MD5,
  SHA-1 and SHA-256 (\<open>md5_hash_impl\<close>, \<open>sha1_hash_impl\<close>, \<open>sha256_hash_impl\<close>) and the
  buffering \<open>hash_base\<close> over any of them. The class template parameter is the record
  \<open>hash_impl\<close>; the byte order is the little endian branch of the code. The proofs
  about buffering are done once, in the locale \<open>hash_function\<close>, and interpreted for
  the three hashes; its clients see it as \<open>streaming\<close>.
\<close>

unbundle bit_operations_syntax

section \<open>Rotations\<close>

definition rotl32 :: "u32 \<Rightarrow> nat \<Rightarrow> u32" where
  "rotl32 n c = (let c = c mod 32 in push_bit c n OR drop_bit ((32 - c) mod 32) n)"

definition rotr32 :: "u32 \<Rightarrow> nat \<Rightarrow> u32" where
  "rotr32 n c = (let c = c mod 32 in drop_bit c n OR push_bit ((32 - c) mod 32) n)"

section \<open>Words and bytes\<close>

text \<open>Four bytes as a word, the first byte being the lowest or the highest.\<close>

fun le_word :: "u8 list \<Rightarrow> u32" where
  "le_word (a # b # c # d # _) =
     ucast a OR push_bit 8 (ucast b) OR push_bit 16 (ucast c) OR push_bit 24 (ucast d)"
| "le_word _ = 0"

fun be_word :: "u8 list \<Rightarrow> u32" where
  "be_word (a # b # c # d # _) =
     push_bit 24 (ucast a) OR push_bit 16 (ucast b) OR push_bit 8 (ucast c) OR ucast d"
| "be_word _ = 0"

fun words_of :: "(u8 list \<Rightarrow> u32) \<Rightarrow> nat \<Rightarrow> u8 list \<Rightarrow> u32 list" where
  "words_of f 0 data = []"
| "words_of f (Suc n) data = f (take 4 data) # words_of f n (drop 4 data)"

definition le_bytes :: "u32 \<Rightarrow> u8 list" where
  "le_bytes w = map (\<lambda>j. ucast (drop_bit (8 * j) w)) [0, 1, 2, 3]"

definition be_bytes :: "u32 \<Rightarrow> u8 list" where
  "be_bytes w = map (\<lambda>j. ucast (drop_bit (8 * j) w)) [3, 2, 1, 0]"

definition le_bit_length :: "u64 \<Rightarrow> u8 list" where
  "le_bit_length l = map (\<lambda>j. ucast (drop_bit (8 * j) l)) [0, 1, 2, 3, 4, 5, 6, 7]"

definition be_bit_length :: "u64 \<Rightarrow> u8 list" where
  "be_bit_length l = map (\<lambda>j. ucast (drop_bit (8 * j) l)) [7, 6, 5, 4, 3, 2, 1, 0]"

section \<open>MD5\<close>

definition F1 :: "u32 \<Rightarrow> u32 \<Rightarrow> u32 \<Rightarrow> u32" where
  "F1 x y z = z XOR (x AND (y XOR z))"

definition F2 :: "u32 \<Rightarrow> u32 \<Rightarrow> u32 \<Rightarrow> u32" where
  "F2 x y z = F1 z x y"

definition F3 :: "u32 \<Rightarrow> u32 \<Rightarrow> u32 \<Rightarrow> u32" where
  "F3 x y z = x XOR y XOR z"

definition F4 :: "u32 \<Rightarrow> u32 \<Rightarrow> u32 \<Rightarrow> u32" where
  "F4 x y z = y XOR (x OR NOT z)"

text \<open>
  One \<open>STEP\<close> updates its first register from the other three. The calls of the
  transform go round the registers as \<open>(a, b, c, d)\<close>, \<open>(d, a, b, c)\<close>,
  \<open>(c, d, a, b)\<close>, \<open>(b, c, d, a)\<close>, so a step also turns the tuple by one place;
  the table lists function, input word, constant and shift of the 64 calls.
\<close>

type_synonym md5_regs = "u32 \<times> u32 \<times> u32 \<times> u32"

definition md5_step ::
  "u32 list \<Rightarrow> (u32 \<Rightarrow> u32 \<Rightarrow> u32 \<Rightarrow> u32) \<times> nat \<times> u32 \<times> nat \<Rightarrow> md5_regs \<Rightarrow> md5_regs" where
  "md5_step inw st regs =
     (let (F, i, k, s) = st; (w, x, y, z) = regs;
          w = w + F x y z + (inw ! i + k);
          w = rotl32 w s;
          w = w + x
      in (z, w, x, y))"

definition md5_steps :: "((u32 \<Rightarrow> u32 \<Rightarrow> u32 \<Rightarrow> u32) \<times> nat \<times> u32 \<times> nat) list" where
  "md5_steps =
    [
     (F1, 0, 0xd76aa478, 7), (F1, 1, 0xe8c7b756, 12), (F1, 2, 0x242070db, 17), (F1, 3, 0xc1bdceee, 22),
     (F1, 4, 0xf57c0faf, 7), (F1, 5, 0x4787c62a, 12), (F1, 6, 0xa8304613, 17), (F1, 7, 0xfd469501, 22),
     (F1, 8, 0x698098d8, 7), (F1, 9, 0x8b44f7af, 12), (F1, 10, 0xffff5bb1, 17), (F1, 11, 0x895cd7be, 22),
     (F1, 12, 0x6b901122, 7), (F1, 13, 0xfd987193, 12), (F1, 14, 0xa679438e, 17), (F1, 15, 0x49b40821, 22),
     (F2, 1, 0xf61e2562, 5), (F2, 6, 0xc040b340, 9), (F2, 11, 0x265e5a51, 14), (F2, 0, 0xe9b6c7aa, 20),
     (F2, 5, 0xd62f105d, 5), (F2, 10, 0x02441453, 9), (F2, 15, 0xd8a1e681, 14), (F2, 4, 0xe7d3fbc8, 20),
     (F2, 9, 0x21e1cde6, 5), (F2, 14, 0xc33707d6, 9), (F2, 3, 0xf4d50d87, 14), (F2, 8, 0x455a14ed, 20),
     (F2, 13, 0xa9e3e905, 5), (F2, 2, 0xfcefa3f8, 9), (F2, 7, 0x676f02d9, 14), (F2, 12, 0x8d2a4c8a, 20),
     (F3, 5, 0xfffa3942, 4), (F3, 8, 0x8771f681, 11), (F3, 11, 0x6d9d6122, 16), (F3, 14, 0xfde5380c, 23),
     (F3, 1, 0xa4beea44, 4), (F3, 4, 0x4bdecfa9, 11), (F3, 7, 0xf6bb4b60, 16), (F3, 10, 0xbebfbc70, 23),
     (F3, 13, 0x289b7ec6, 4), (F3, 0, 0xeaa127fa, 11), (F3, 3, 0xd4ef3085, 16), (F3, 6, 0x04881d05, 23),
     (F3, 9, 0xd9d4d039, 4), (F3, 12, 0xe6db99e5, 11), (F3, 15, 0x1fa27cf8, 16), (F3, 2, 0xc4ac5665, 23),
     (F4, 0, 0xf4292244, 6), (F4, 7, 0x432aff97, 10), (F4, 14, 0xab9423a7, 15), (F4, 5, 0xfc93a039, 21),
     (F4, 12, 0x655b59c3, 6), (F4, 3, 0x8f0ccc92, 10), (F4, 10, 0xffeff47d, 15), (F4, 1, 0x85845dd1, 21),
     (F4, 8, 0x6fa87e4f, 6), (F4, 15, 0xfe2ce6e0, 10), (F4, 6, 0xa3014314, 15), (F4, 13, 0x4e0811a1, 21),
     (F4, 4, 0xf7537e82, 6), (F4, 11, 0xbd3af235, 10), (F4, 2, 0x2ad7d2bb, 15), (F4, 9, 0xeb86d391, 21)
    ]"

definition md5_init :: "u32 list" where
  "md5_init = [0x67452301, 0xefcdab89, 0x98badcfe, 0x10325476]"

definition md5_transform :: "u32 list \<Rightarrow> u8 list \<Rightarrow> u32 list" where
  "md5_transform h data =
     (let inw = words_of le_word 16 data;
          (a, b, c, d) = fold (md5_step inw) md5_steps (h ! 0, h ! 1, h ! 2, h ! 3)
      in [h ! 0 + a, h ! 1 + b, h ! 2 + c, h ! 3 + d])"

definition md5_final :: "u32 list \<Rightarrow> u8 list" where
  "md5_final h = concat (map le_bytes h)"

section \<open>SHA-1\<close>

fun sha1_expand :: "nat \<Rightarrow> u32 list \<Rightarrow> u32 list" where
  "sha1_expand 0 w = w"
| "sha1_expand (Suc n) w =
     (let i = length w
      in sha1_expand n (w @ [rotl32 (w ! (i - 3) XOR w ! (i - 8) XOR w ! (i - 14) XOR w ! (i - 16)) 1]))"

type_synonym sha1_regs = "u32 \<times> u32 \<times> u32 \<times> u32 \<times> u32"

definition sha1_round :: "u32 list \<Rightarrow> nat \<Rightarrow> sha1_regs \<Rightarrow> sha1_regs" where
  "sha1_round w i wv =
     (let (wv0, wv1, wv2, wv3, wv4) = wv;
          (f, k) =
            (if i < 20 then ((wv1 AND wv2) OR (NOT wv1 AND wv3), 0x5A827999)
             else if i < 40 then (wv1 XOR wv2 XOR wv3, 0x6ED9EBA1)
             else if i < 60 then ((wv1 AND wv2) OR (wv1 AND wv3) OR (wv2 AND wv3), 0x8F1BBCDC)
             else (wv1 XOR wv2 XOR wv3, 0xCA62C1D6));
          t = rotl32 wv0 5 + f + wv4 + k + w ! i
      in (t, wv0, rotl32 wv1 30, wv2, wv3))"

definition sha1_init :: "u32 list" where
  "sha1_init = [0x67452301, 0xEFCDAB89, 0x98BADCFE, 0x10325476, 0xC3D2E1F0]"

definition sha1_transform :: "u32 list \<Rightarrow> u8 list \<Rightarrow> u32 list" where
  "sha1_transform h data =
     (let w = sha1_expand 64 (words_of be_word 16 data);
          (wv0, wv1, wv2, wv3, wv4) =
            fold (sha1_round w) [0..<80] (h ! 0, h ! 1, h ! 2, h ! 3, h ! 4)
      in [h ! 0 + wv0, h ! 1 + wv1, h ! 2 + wv2, h ! 3 + wv3, h ! 4 + wv4])"

definition sha1_final :: "u32 list \<Rightarrow> u8 list" where
  "sha1_final h = concat (map be_bytes h)"

section \<open>SHA-256\<close>

text \<open>The round constants, in the rows of the source.\<close>

definition sha256_k :: "u32 list" where
  "sha256_k = concat
    [[0x428a2f98, 0x71374491, 0xb5c0fbcf, 0xe9b5dba5, 0x3956c25b, 0x59f111f1, 0x923f82a4, 0xab1c5ed5],
     [0xd807aa98, 0x12835b01, 0x243185be, 0x550c7dc3, 0x72be5d74, 0x80deb1fe, 0x9bdc06a7, 0xc19bf174],
     [0xe49b69c1, 0xefbe4786, 0x0fc19dc6, 0x240ca1cc, 0x2de92c6f, 0x4a7484aa, 0x5cb0a9dc, 0x76f988da],
     [0x983e5152, 0xa831c66d, 0xb00327c8, 0xbf597fc7, 0xc6e00bf3, 0xd5a79147, 0x06ca6351, 0x14292967],
     [0x27b70a85, 0x2e1b2138, 0x4d2c6dfc, 0x53380d13, 0x650a7354, 0x766a0abb, 0x81c2c92e, 0x92722c85],
     [0xa2bfe8a1, 0xa81a664b, 0xc24b8b70, 0xc76c51a3, 0xd192e819, 0xd6990624, 0xf40e3585, 0x106aa070],
     [0x19a4c116, 0x1e376c08, 0x2748774c, 0x34b0bcb5, 0x391c0cb3, 0x4ed8aa4a, 0x5b9cca4f, 0x682e6ff3],
     [0x748f82ee, 0x78a5636f, 0x84c87814, 0x8cc70208, 0x90befffa, 0xa4506ceb, 0xbef9a3f7, 0xc67178f2]]"

fun sha256_expand :: "nat \<Rightarrow> u32 list \<Rightarrow> u32 list" where
  "sha256_expand 0 w = w"
| "sha256_expand (Suc n) w =
     (let i = length w;
          s0 = rotr32 (w ! (i - 15)) 7 XOR rotr32 (w ! (i - 15)) 18 XOR drop_bit 3 (w ! (i - 15));
          s1 = rotr32 (w ! (i - 2)) 17 XOR rotr32 (w ! (i - 2)) 19 XOR drop_bit 10 (w ! (i - 2))
      in sha256_expand n (w @ [w ! (i - 16) + s0 + w ! (i - 7) + s1]))"

type_synonym sha256_regs = "u32 \<times> u32 \<times> u32 \<times> u32 \<times> u32 \<times> u32 \<times> u32 \<times> u32"

definition sha256_round :: "u32 list \<Rightarrow> nat \<Rightarrow> sha256_regs \<Rightarrow> sha256_regs" where
  "sha256_round w i wv =
     (let (wv0, wv1, wv2, wv3, wv4, wv5, wv6, wv7) = wv;
          S1 = rotr32 wv4 6 XOR rotr32 wv4 11 XOR rotr32 wv4 25;
          chh = (wv4 AND wv5) XOR (NOT wv4 AND wv6);
          t1 = wv7 + S1 + chh + sha256_k ! i + w ! i;
          S0 = rotr32 wv0 2 XOR rotr32 wv0 13 XOR rotr32 wv0 22;
          maj = (wv0 AND wv1) XOR (wv0 AND wv2) XOR (wv1 AND wv2);
          t2 = S0 + maj
      in (t1 + t2, wv0, wv1, wv2, wv3 + t1, wv4, wv5, wv6))"

definition sha256_init :: "u32 list" where
  "sha256_init =
    [0x6a09e667, 0xbb67ae85, 0x3c6ef372, 0xa54ff53a, 0x510e527f, 0x9b05688c, 0x1f83d9ab, 0x5be0cd19]"

definition sha256_transform :: "u32 list \<Rightarrow> u8 list \<Rightarrow> u32 list" where
  "sha256_transform h data =
     (let w = sha256_expand 48 (words_of be_word 16 data);
          (wv0, wv1, wv2, wv3, wv4, wv5, wv6, wv7) =
            fold (sha256_round w) [0..<64] (h ! 0, h ! 1, h ! 2, h ! 3, h ! 4, h ! 5, h ! 6, h ! 7)
      in [h ! 0 + wv0, h ! 1 + wv1, h ! 2 + wv2, h ! 3 + wv3,
          h ! 4 + wv4, h ! 5 + wv5, h ! 6 + wv6, h ! 7 + wv7])"

definition sha256_final :: "u32 list \<Rightarrow> u8 list" where
  "sha256_final h = concat (map be_bytes h)"

section \<open>The buffering hash\<close>

record hash_impl =
  hi_init :: "u32 list"
  hi_transform :: "u32 list \<Rightarrow> u8 list \<Rightarrow> u32 list"
  hi_write_bit_length :: "u64 \<Rightarrow> u8 list"
  hi_final :: "u32 list \<Rightarrow> u8 list"
  hi_digest_size :: nat

definition block_size :: nat where
  "block_size = 64"

definition md5_hash_impl :: hash_impl where
  "md5_hash_impl = \<lparr>hi_init = md5_init, hi_transform = md5_transform,
     hi_write_bit_length = le_bit_length, hi_final = md5_final, hi_digest_size = 16\<rparr>"

definition sha1_hash_impl :: hash_impl where
  "sha1_hash_impl = \<lparr>hi_init = sha1_init, hi_transform = sha1_transform,
     hi_write_bit_length = be_bit_length, hi_final = sha1_final, hi_digest_size = 20\<rparr>"

definition sha256_hash_impl :: hash_impl where
  "sha256_hash_impl = \<lparr>hi_init = sha256_init, hi_transform = sha256_transform,
     hi_write_bit_length = be_bit_length, hi_final = sha256_final, hi_digest_size = 32\<rparr>"

text \<open>
  \<open>m_data\<close> is the block buffer of 64 bytes, of which the first \<open>m_data_length\<close> are
  in use; the constructor leaves the buffer as it finds it, here as zeros.
\<close>

record hash_base =
  m_h :: "u32 list"
  m_data :: "u8 list"
  m_data_length :: nat
  m_bit_length :: u64

definition hash_init :: "hash_impl \<Rightarrow> hash_base \<Rightarrow> hash_base" where
  "hash_init I h = h\<lparr>m_h := hi_init I, m_data_length := 0, m_bit_length := 0\<rparr>"

definition hash_new :: "hash_impl \<Rightarrow> hash_base" where
  "hash_new I = hash_init I \<lparr>m_h = [], m_data = replicate block_size 0, m_data_length = 0, m_bit_length = 0\<rparr>"

text \<open>\<open>memcpy\<close> of \<open>bs\<close> into a buffer at an offset.\<close>

definition memcpy_at :: "u8 list \<Rightarrow> nat \<Rightarrow> u8 list \<Rightarrow> u8 list" where
  "memcpy_at buf ofs bs = take ofs buf @ bs @ drop (ofs + length bs) buf"

text \<open>The \<open>while\<close> loop over whole blocks: the state and the bytes left over.\<close>

function absorb :: "(u32 list \<Rightarrow> u8 list \<Rightarrow> u32 list) \<Rightarrow> u32 list \<Rightarrow> u8 list \<Rightarrow> u32 list \<times> u8 list" where
  "absorb tr h p =
     (if block_size \<le> length p then absorb tr (tr h (take block_size p)) (drop block_size p)
      else (h, p))"
  by pat_completeness auto
termination
  by (relation "measure (\<lambda>(tr, h, p). length p)") (auto simp: block_size_def)

declare absorb.simps [simp del]

definition hash_update :: "hash_impl \<Rightarrow> hash_base \<Rightarrow> u8 list \<Rightarrow> hash_base" where
  "hash_update I h p =
     (let h = h\<lparr>m_bit_length := m_bit_length h + word_of_nat (length p) * 8\<rparr>;
          (h, p) =
            (if m_data_length h > 0 then
               (let n = block_size - m_data_length h;
                    n = (if n > length p then length p else n);
                    h = h\<lparr>m_data := memcpy_at (m_data h) (m_data_length h) (take n p),
                          m_data_length := m_data_length h + n\<rparr>;
                    h = (if m_data_length h = block_size
                         then h\<lparr>m_h := hi_transform I (m_h h) (m_data h), m_data_length := 0\<rparr>
                         else h)
                in (h, drop n p))
             else (h, p));
          (s, p) = absorb (hi_transform I) (m_h h) p;
          h = h\<lparr>m_h := s\<rparr>
      in if length p > 0
         then h\<lparr>m_data := memcpy_at (m_data h) 0 p, m_data_length := m_data_length h + length p\<rparr>
         else h)"

definition hash_final :: "hash_impl \<Rightarrow> hash_base \<Rightarrow> u8 list \<times> hash_base" where
  "hash_final I h =
     (let n = m_data_length h + 1;
          d = take n ((m_data h)[m_data_length h := 0x80]) @ replicate (block_size - n) 0;
          (s, d) = (if block_size - n < 8
                    then (hi_transform I (m_h h) d,
                          replicate (block_size - 8) 0 @ drop (block_size - 8) d)
                    else (m_h h, d));
          d = memcpy_at d (block_size - 8) (hi_write_bit_length I (m_bit_length h));
          s = hi_transform I s d;
          h = h\<lparr>m_h := s, m_data := replicate block_size 0\<rparr>
      in (hi_final I s, hash_init I h))"

definition hash_string :: "hash_impl \<Rightarrow> string \<Rightarrow> string" where
  "hash_string I data =
     string_of_bytes (fst (hash_final I (hash_update I (hash_init I (hash_new I)) (bytes_of data))))"

definition md5 :: "string \<Rightarrow> string" where
  "md5 = hash_string md5_hash_impl"

definition sha1 :: "string \<Rightarrow> string" where
  "sha1 = hash_string sha1_hash_impl"

definition sha256 :: "string \<Rightarrow> string" where
  "sha256 = hash_string sha256_hash_impl"

text \<open>
  \<open>sha1\<close> of a \<open>streambuf\<close>: reads of up to 256 bytes while any are available.
\<close>

function sha1_stream_loop :: "hash_base \<Rightarrow> u8 list \<Rightarrow> hash_base" where
  "sha1_stream_loop h data =
     (if data = [] then h
      else sha1_stream_loop (hash_update sha1_hash_impl h (take 256 data)) (drop 256 data))"
  by pat_completeness auto
termination
  by (relation "measure (\<lambda>(h, data). length data)") auto

declare sha1_stream_loop.simps [simp del]

definition sha1_streambuf :: "string \<Rightarrow> string" where
  "sha1_streambuf data =
     string_of_bytes (fst (hash_final sha1_hash_impl
       (sha1_stream_loop (hash_init sha1_hash_impl (hash_new sha1_hash_impl)) (bytes_of data))))"

section \<open>Rotations undo each other\<close>

lemma rotl32_bit: "n < 32 \<Longrightarrow> bit (rotl32 w c) n \<longleftrightarrow> bit w ((n + (32 - c mod 32)) mod 32)"
proof -
  assume n: "n < 32"
  define k where "k = c mod 32"
  then have k: "k < 32" by simp
  show ?thesis
  proof (cases "k = 0")
    case True
    with n show ?thesis by (simp add: rotl32_def Let_def bit_simps k_def [symmetric])
  next
    case False
    then have "(32 - k) mod 32 = 32 - k" by simp
    moreover have "(n + (32 - k)) mod 32 = (if n < k then n + (32 - k) else n - k)"
      using n k by (auto simp: mod_if)
    ultimately show ?thesis
      using n k by (auto simp: rotl32_def Let_def bit_simps k_def [symmetric] not_less add.commute
        dest: bit_imp_le_length)
  qed
qed

lemma rotr32_bit: "n < 32 \<Longrightarrow> bit (rotr32 w c) n \<longleftrightarrow> bit w ((n + c mod 32) mod 32)"
proof -
  assume n: "n < 32"
  define k where "k = c mod 32"
  then have k: "k < 32" by simp
  show ?thesis
  proof (cases "k = 0")
    case True
    with n show ?thesis by (simp add: rotr32_def Let_def bit_simps k_def [symmetric])
  next
    case False
    then have "(32 - k) mod 32 = 32 - k" by simp
    moreover have "(n + k) mod 32 = (if n + k < 32 then n + k else n - (32 - k))"
      using n k by (auto simp: mod_if)
    ultimately show ?thesis
      using n k by (auto simp: rotr32_def Let_def bit_simps k_def [symmetric] not_less add.commute
        dest: bit_imp_le_length)
  qed
qed

lemma rotr32_rotl32_inverse: "rotr32 (rotl32 w c) c = w"
proof (rule bit_word_eqI)
  fix n assume "n < LENGTH(32)"
  then have n: "n < 32" by simp
  obtain k where k: "k = c mod 32" "k < 32" by simp
  have "((n + k) mod 32 + (32 - k)) mod 32 = n"
    using n k(2) by (cases "n + k < 32") (simp_all add: mod_if)
  then show "bit (rotr32 (rotl32 w c) c) n = bit w n"
    using n k by (simp add: rotr32_bit rotl32_bit)
qed

section \<open>Absorbing whole blocks\<close>

lemma absorb_small: "length p < block_size \<Longrightarrow> absorb tr h p = (h, p)"
  by (simp add: absorb.simps)

lemma absorb_block:
  "length b = block_size \<Longrightarrow> absorb tr h (b @ p) = absorb tr (tr h b) p"
  by (subst absorb.simps) simp

lemma absorb_rest: "length (snd (absorb tr h p)) = length p mod block_size"
proof (induction tr h p rule: absorb.induct)
  case (1 tr h p)
  then show ?case
    by (subst absorb.simps) (auto simp: le_mod_geq block_size_def)
qed

lemma absorb_append:
  "absorb tr h (p @ q) = (case absorb tr h p of (s, r) \<Rightarrow> absorb tr s (r @ q))"
proof (induction tr h p rule: absorb.induct)
  case (1 tr h p)
  show ?case
  proof (cases "block_size \<le> length p")
    case True
    have "absorb tr h (p @ q) = absorb tr h (take block_size p @ (drop block_size p @ q))"
      by (simp add: append_assoc [symmetric])
    also have "\<dots> = absorb tr (tr h (take block_size p)) (drop block_size p @ q)"
      using True by (intro absorb_block) simp
    also have "\<dots> = (case absorb tr h p of (s, r) \<Rightarrow> absorb tr s (r @ q))"
      using True 1 by (simp add: absorb.simps [of tr h p])
    finally show ?thesis .
  qed (simp add: absorb_small)
qed

section \<open>What the buffer stands for\<close>

text \<open>
  \<open>hash_repr I h m\<close>: the object has taken in exactly the message \<open>m\<close>. Its state
  is that of the whole blocks of \<open>m\<close>, its buffer starts with the bytes after
  them, and the bit counter is \<open>8 * length m\<close> modulo \<open>2 ^ 64\<close>.
\<close>

definition hash_repr :: "hash_impl \<Rightarrow> hash_base \<Rightarrow> u8 list \<Rightarrow> bool" where
  "hash_repr I h m \<longleftrightarrow>
     absorb (hi_transform I) (hi_init I) m = (m_h h, take (m_data_length h) (m_data h))
     \<and> m_data_length h = length m mod block_size
     \<and> length (m_data h) = block_size
     \<and> m_bit_length h = word_of_nat (length m) * 8"

text \<open>The padding of RFC 1321 and FIPS 180: a one bit, zeros, the length in bits.\<close>

definition padding :: "hash_impl \<Rightarrow> nat \<Rightarrow> u8 list" where
  "padding I n = 0x80 # replicate ((119 - n mod 64) mod 64) 0
     @ hi_write_bit_length I (word_of_nat n * 8)"

definition digest :: "hash_impl \<Rightarrow> u8 list \<Rightarrow> u8 list" where
  "digest I m = hi_final I (fst (absorb (hi_transform I) (hi_init I) (m @ padding I (length m))))"

lemma hash_repr_init: "length (m_data h) = block_size \<Longrightarrow> hash_repr I (hash_init I h) []"
  by (simp add: hash_repr_def hash_init_def absorb_small block_size_def)

lemma hash_repr_new: "hash_repr I (hash_new I) []"
  unfolding hash_new_def by (rule hash_repr_init) simp

lemma hash_update_bulk:
  assumes "m_data_length h = 0" "length (m_data h) = block_size"
  shows "hash_update I h p =
    (let (s, r) = absorb (hi_transform I) (m_h h) p
     in h\<lparr>m_bit_length := m_bit_length h + word_of_nat (length p) * 8, m_h := s,
          m_data := memcpy_at (m_data h) 0 r, m_data_length := length r\<rparr>)"
  using assms by (auto simp: hash_update_def Let_def memcpy_at_def split: prod.split)

lemma hash_update_small:
  assumes "0 < m_data_length h" "length p < block_size - m_data_length h"
  shows "hash_update I h p =
    h\<lparr>m_bit_length := m_bit_length h + word_of_nat (length p) * 8,
      m_data := memcpy_at (m_data h) (m_data_length h) p,
      m_data_length := m_data_length h + length p\<rparr>"
proof -
  have "\<not> m_data_length h + length p = block_size" "\<not> block_size - m_data_length h < length p"
    using assms by simp_all
  moreover have "absorb tr s [] = (s, [])" for tr s
    by (simp add: absorb_small block_size_def)
  ultimately show ?thesis
    using assms by (simp add: hash_update_def Let_def min_def)
qed

lemma hash_update_fill:
  assumes "0 < m_data_length h" "m_data_length h < block_size" "block_size - m_data_length h \<le> length p"
  shows "hash_update I h p =
    (let b = memcpy_at (m_data h) (m_data_length h) (take (block_size - m_data_length h) p);
         (s, r) = absorb (hi_transform I) (hi_transform I (m_h h) b) (drop (block_size - m_data_length h) p)
     in h\<lparr>m_bit_length := m_bit_length h + word_of_nat (length p) * 8, m_h := s,
          m_data := memcpy_at b 0 r, m_data_length := length r\<rparr>)"
proof -
  have n: "(if block_size - m_data_length h > length p then length p else block_size - m_data_length h)
      = block_size - m_data_length h"
    using assms by simp
  have full: "m_data_length h + (block_size - m_data_length h) = block_size"
    using assms by simp
  show ?thesis
    using assms(1)
    by (simp add: hash_update_def Let_def n full memcpy_at_def split: prod.split)
qed

lemma absorb_repr:
  assumes "hash_repr I h m"
  shows "absorb (hi_transform I) (hi_init I) (m @ p)
      = absorb (hi_transform I) (m_h h) (take (m_data_length h) (m_data h) @ p)"
  using assms by (subst absorb_append) (simp add: hash_repr_def)

lemma absorb_repr_rest:
  assumes "hash_repr I h m"
    and "absorb (hi_transform I) (m_h h) (take (m_data_length h) (m_data h) @ p) = (s, r)"
  shows "length r = length (m @ p) mod block_size" "length r < block_size"
  using absorb_rest [of "hi_transform I" "hi_init I" "m @ p"] assms
  by (simp_all add: absorb_repr [OF assms(1)] block_size_def)

lemma hash_update_repr_bulk:
  assumes h: "hash_repr I h m" and z: "m_data_length h = 0"
  shows "hash_repr I (hash_update I h p) (m @ p)"
proof -
  obtain s r where sr: "absorb (hi_transform I) (m_h h) p = (s, r)" by force
  have r: "length r = (length m + length p) mod block_size" "length r < block_size"
    using absorb_repr_rest [OF h, of p s r] sr z by simp_all
  show ?thesis
    using h z sr r absorb_repr [OF h, of p]
    by (simp add: hash_repr_def hash_update_bulk memcpy_at_def distrib_right)
qed

lemma hash_update_repr_small:
  assumes h: "hash_repr I h m" and small: "0 < m_data_length h" "length p < block_size - m_data_length h"
  shows "hash_repr I (hash_update I h p) (m @ p)"
proof -
  have len: "length (take (m_data_length h) (m_data h) @ p) = m_data_length h + length p"
    using h small by (simp add: hash_repr_def)
  then have abs: "absorb (hi_transform I) (hi_init I) (m @ p) = (m_h h, take (m_data_length h) (m_data h) @ p)"
    using small by (simp add: absorb_repr [OF h] absorb_small)
  then have "m_data_length h + length p = (length m + length p) mod block_size"
    using absorb_rest [of "hi_transform I" "hi_init I" "m @ p"] len by simp
  with abs h small show ?thesis
    by (simp add: hash_update_small) (simp add: hash_repr_def memcpy_at_def distrib_right)
qed

lemma hash_update_repr_fill:
  assumes h: "hash_repr I h m" and fill: "0 < m_data_length h" "block_size - m_data_length h \<le> length p"
  shows "hash_repr I (hash_update I h p) (m @ p)"
proof -
  define k where "k = block_size - m_data_length h"
  define blk where "blk = take (m_data_length h) (m_data h) @ take k p"
  have dl: "m_data_length h < block_size" "length (m_data h) = block_size"
    using h by (simp_all add: hash_repr_def block_size_def)
  with fill have blk: "length blk = block_size" "memcpy_at (m_data h) (m_data_length h) (take k p) = blk"
      "take (m_data_length h) (m_data h) @ p = blk @ drop k p"
    by (simp_all add: blk_def k_def memcpy_at_def)
  obtain s r where sr: "absorb (hi_transform I) (hi_transform I (m_h h) blk) (drop k p) = (s, r)" by force
  then have sr': "absorb (hi_transform I) (m_h h) (take (m_data_length h) (m_data h) @ p) = (s, r)"
    by (simp add: blk absorb_block)
  have r: "length r = length (m @ p) mod block_size" "length r < block_size"
    by (rule absorb_repr_rest [OF h sr'])+
  have "hash_update I h p =
      h\<lparr>m_bit_length := m_bit_length h + word_of_nat (length p) * 8, m_h := s,
        m_data := memcpy_at blk 0 r, m_data_length := length r\<rparr>"
    using hash_update_fill [OF fill(1) dl(1) fill(2)] sr blk(2) by (simp add: k_def)
  moreover have "m_bit_length h = word_of_nat (length m) * 8"
    using h by (simp add: hash_repr_def)
  ultimately show ?thesis
    using r blk(1) absorb_repr [OF h, of p] sr' by (simp add: hash_repr_def memcpy_at_def distrib_right)
qed

lemma hash_update_repr: "hash_repr I h m \<Longrightarrow> hash_repr I (hash_update I h p) (m @ p)"
  using hash_update_repr_bulk hash_update_repr_small hash_update_repr_fill
  by (metis gr0I leI)

lemma hash_final_one:
  assumes dl: "m_data_length h = dl" "dl < 56" and b: "length (hi_write_bit_length I (m_bit_length h)) = 8"
    and d: "take (Suc dl) ((m_data h)[dl := 0x80]) = buf @ [0x80]" and buf: "length buf = dl"
  shows "fst (hash_final I h) = hi_final I (hi_transform I (m_h h)
    (buf @ 0x80 # replicate (55 - dl) 0 @ hi_write_bit_length I (m_bit_length h)))"
proof -
  have "replicate (63 - dl) 0 = replicate (55 - dl) 0 @ replicate 8 (0 :: u8)"
    using dl by (simp flip: replicate_add)
  then have "take 56 (buf @ 0x80 # replicate (63 - dl) 0)
      = take 56 ((buf @ 0x80 # replicate (55 - dl) 0) @ replicate 8 (0 :: u8))"
    by (simp del: replicate.simps)
  also have "\<dots> = buf @ 0x80 # replicate (55 - dl) 0"
    using dl buf by (simp only: take_append) simp
  finally have "take 56 (buf @ 0x80 # replicate (63 - dl) 0) = buf @ 0x80 # replicate (55 - dl) (0 :: u8)" .
  moreover have "\<not> 64 - Suc dl < 8" using dl by simp
  ultimately show ?thesis
    using dl(1) b d buf by (simp add: hash_final_def Let_def block_size_def memcpy_at_def)
qed

lemma hash_final_two:
  assumes dl: "m_data_length h = dl" "56 \<le> dl" "dl < 64"
    and b: "length (hi_write_bit_length I (m_bit_length h)) = 8"
    and d: "take (Suc dl) ((m_data h)[dl := 0x80]) = buf @ [0x80]" and buf: "length buf = dl"
  shows "fst (hash_final I h) = hi_final I
    (hi_transform I (hi_transform I (m_h h) (buf @ 0x80 # replicate (63 - dl) 0))
      (replicate 56 0 @ hi_write_bit_length I (m_bit_length h)))"
proof -
  have "64 - Suc dl < 8" using dl by simp
  moreover have "length (buf @ 0x80 # replicate (63 - dl) (0 :: u8)) = 64" using buf dl by simp
  ultimately show ?thesis
    using dl(1) b d by (simp add: hash_final_def Let_def block_size_def memcpy_at_def del: replicate.simps(2))
qed

lemma absorb_one: "length b = block_size \<Longrightarrow> absorb tr h b = (tr h b, [])"
  using absorb_block [of b tr h "[]"] by (simp add: absorb_small block_size_def)

lemma absorb_two:
  "length a = block_size \<Longrightarrow> length b = block_size \<Longrightarrow> absorb tr h (a @ b) = (tr (tr h a) b, [])"
  by (simp add: absorb_block absorb_one)

lemma hash_final_repr:
  assumes h: "hash_repr I h m" and wbl: "\<And>l. length (hi_write_bit_length I l) = 8"
  shows "fst (hash_final I h) = digest I m"
proof -
  define dl where "dl = m_data_length h"
  define b where "b = hi_write_bit_length I (m_bit_length h)"
  define buf where "buf = take dl (m_data h)"
  have len: "dl < 64" "length m mod 64 = dl" "length (m_data h) = 64" and b: "length b = 8" "length buf = dl"
    and bits: "m_bit_length h = word_of_nat (length m) * 8"
    using h wbl by (simp_all add: hash_repr_def dl_def block_size_def b_def buf_def)
  have pad: "padding I (length m) = 0x80 # replicate ((119 - dl) mod 64) 0 @ b"
    by (simp add: padding_def len(2) b_def bits)
  have dig: "digest I m = hi_final I (fst (absorb (hi_transform I) (m_h h) (buf @ padding I (length m))))"
    by (simp add: digest_def absorb_repr [OF h] buf_def dl_def)
  have d: "take (Suc dl) ((m_data h)[dl := 0x80]) = buf @ [0x80]"
    using len(1,3) by (simp add: buf_def take_Suc_conv_app_nth)
  show ?thesis
  proof (cases "dl < 56")
    case True
    then have "(119 - dl) mod 64 = 55 - dl" by (simp add: mod_if)
    then have "absorb (hi_transform I) (m_h h) (buf @ padding I (length m)) = 
        (hi_transform I (m_h h) (buf @ 0x80 # replicate (55 - dl) 0 @ b), [])"
      using True b by (subst absorb_one) (simp_all add: pad block_size_def)
    then show ?thesis
      using hash_final_one [OF dl_def [symmetric] True wbl d b(2)] by (simp add: dig b_def)
  next
    case False
    then have "(119 - dl) mod 64 = (63 - dl) + 56" using len(1) by simp
    then have "replicate ((119 - dl) mod 64) 0 = replicate (63 - dl) 0 @ replicate 56 (0 :: u8)"
      by (simp only: replicate_add)
    then have "buf @ padding I (length m) = (buf @ 0x80 # replicate (63 - dl) 0) @ (replicate 56 0 @ b)"
      unfolding pad by (simp only: append_assoc append_Cons)
    then have "absorb (hi_transform I) (m_h h) (buf @ padding I (length m)) =
        (hi_transform I (hi_transform I (m_h h) (buf @ 0x80 # replicate (63 - dl) 0)) (replicate 56 0 @ b), [])"
      using len(1) b by (simp only:) (subst absorb_two, simp_all add: block_size_def)
    then show ?thesis
      using hash_final_two [OF dl_def [symmetric] _ len(1) wbl d b(2)] False by (simp add: dig b_def)
  qed
qed

lemma hash_final_reset: "hash_repr I (snd (hash_final I h)) []"
  by (simp add: hash_final_def Let_def hash_repr_init)

section \<open>Streaming digests\<close>

text \<open>
  The contract of an object that takes a message in pieces and gives a digest at
  the end: what the clients of a hash or of a MAC rely on. \<open>idle\<close> is the state
  before the first piece, \<open>repr s m\<close> says that \<open>m\<close> has been taken in.
\<close>

locale streaming =
  fixes upd :: "'s \<Rightarrow> u8 list \<Rightarrow> 's"
    and fin :: "'s \<Rightarrow> u8 list \<times> 's"
    and idle :: "'s \<Rightarrow> bool"
    and repr :: "'s \<Rightarrow> u8 list \<Rightarrow> bool"
    and dig :: "u8 list \<Rightarrow> u8 list"
  assumes upd_idle: "idle s \<Longrightarrow> repr (upd s p) p"
    and upd_repr: "repr s m \<Longrightarrow> repr (upd s p) (m @ p)"
    and fin_dig: "repr s m \<Longrightarrow> fst (fin s) = dig m"
    and fin_idle: "repr s m \<Longrightarrow> idle (snd (fin s))"
begin

lemma fold_repr: "repr s m \<Longrightarrow> repr (fold (\<lambda>p s. upd s p) ps s) (m @ concat ps)"
proof (induction ps arbitrary: s m)
  case (Cons p ps)
  then have "repr (fold (\<lambda>p s. upd s p) ps (upd s p)) ((m @ p) @ concat ps)"
    by (blast intro: upd_repr)
  then show ?case by simp
qed simp

lemma fold_idle: "idle s \<Longrightarrow> ps \<noteq> [] \<Longrightarrow> repr (fold (\<lambda>p s. upd s p) ps s) (concat ps)"
proof (cases ps)
  case (Cons p qs)
  assume "idle s"
  then show ?thesis using fold_repr [OF upd_idle [of s p], of qs] Cons by simp
qed simp

lemma chunks: "idle s \<Longrightarrow> ps \<noteq> [] \<Longrightarrow> fst (fin (fold (\<lambda>p s. upd s p) ps s)) = dig (concat ps)"
  by (blast intro: fin_dig fold_idle)

lemma one_shot: "idle s \<Longrightarrow> fst (fin (upd s p)) = dig p"
  by (blast intro: fin_dig upd_idle)

lemma reusable: "idle s \<Longrightarrow> ps \<noteq> [] \<Longrightarrow> idle (snd (fin (fold (\<lambda>p s. upd s p) ps s)))"
  by (blast intro: fin_idle fold_idle)

end

text \<open>What \<open>hash_base\<close> needs of the class it extends.\<close>

locale hash_function =
  fixes I :: hash_impl
  assumes bit_length_size: "length (hi_write_bit_length I l) = 8"
    and digest_size: "length (hi_final I (fst (absorb (hi_transform I) (hi_init I) m))) = hi_digest_size I"
    and digest_pos: "0 < hi_digest_size I"
    and digest_block: "hi_digest_size I < block_size"

sublocale hash_function \<subseteq> streaming "hash_update I" "hash_final I" "\<lambda>h. hash_repr I h []" "hash_repr I" "digest I"
  by unfold_locales
    (auto intro: hash_update_repr [where m = "[]", simplified] hash_update_repr hash_final_repr hash_final_reset
       simp: bit_length_size)

context hash_function
begin

lemma length_digest: "length (digest I m) = hi_digest_size I"
  by (simp add: digest_def digest_size)

lemma new_idle: "hash_repr I (hash_new I) []" "hash_repr I (hash_init I (hash_new I)) []"
  by (rule hash_repr_new) (rule hash_repr_init, simp add: hash_new_def hash_init_def)

lemma hash_string_digest: "hash_string I s = string_of_bytes (digest I (bytes_of s))"
  by (simp add: hash_string_def one_shot new_idle)

lemma padded_blocks: "length (m @ padding I (length m)) mod block_size = 0"
proof -
  define r where "r = length m mod 64"
  have r: "r < 64" by (simp add: r_def)
  have "(r + (9 + (119 - r) mod 64)) mod 64 = 0"
  proof (cases "r < 56")
    case True
    then have "(119 - r) mod 64 = 55 - r" by (simp add: mod_if)
    with True show ?thesis by simp
  next
    case False
    then have "(119 - r) mod 64 = 119 - r" using r by simp
    with r show ?thesis by simp
  qed
  then have "(length m + (9 + (119 - r) mod 64)) mod 64 = 0"
    unfolding r_def by (simp only: mod_add_left_eq)
  then show ?thesis
    by (simp add: padding_def bit_length_size block_size_def r_def)
qed

lemma all_absorbed: "snd (absorb (hi_transform I) (hi_init I) (m @ padding I (length m))) = []"
  using absorb_rest [of "hi_transform I" "hi_init I" "m @ padding I (length m)"]
  by (simp only: length_0_conv [symmetric] padded_blocks)

end

lemma absorb_invariant:
  "P h \<Longrightarrow> (\<And>h b. P h \<Longrightarrow> P (tr h b)) \<Longrightarrow> P (fst (absorb tr h p))"
proof (induction tr h p rule: absorb.induct)
  case (1 tr h p)
  then show ?case by (subst absorb.simps) auto
qed

lemma length_transform:
  "length (md5_transform h d) = 4" "length (sha1_transform h d) = 5" "length (sha256_transform h d) = 8"
  by (simp_all add: md5_transform_def sha1_transform_def sha256_transform_def Let_def split: prod.split)

lemma length_absorbed:
  "length (fst (absorb md5_transform md5_init m)) = 4"
  "length (fst (absorb sha1_transform sha1_init m)) = 5"
  "length (fst (absorb sha256_transform sha256_init m)) = 8"
  by (rule absorb_invariant [where P = "\<lambda>h. length h = _"];
    simp add: length_transform md5_init_def sha1_init_def sha256_init_def)+

lemma length_bytes_concat: "length (concat (map le_bytes h)) = 4 * length h" "length (concat (map be_bytes h)) = 4 * length h"
  by (induction h) (simp_all add: le_bytes_def be_bytes_def)

interpretation md5h: hash_function md5_hash_impl
  by unfold_locales
    (simp_all add: md5_hash_impl_def le_bit_length_def md5_final_def length_bytes_concat length_absorbed block_size_def)

interpretation sha1h: hash_function sha1_hash_impl
  by unfold_locales
    (simp_all add: sha1_hash_impl_def be_bit_length_def sha1_final_def length_bytes_concat length_absorbed block_size_def)

interpretation sha256h: hash_function sha256_hash_impl
  by unfold_locales
    (simp_all add: sha256_hash_impl_def be_bit_length_def sha256_final_def length_bytes_concat length_absorbed block_size_def)

lemma sha1_stream_loop_repr:
  "hash_repr sha1_hash_impl h m \<Longrightarrow> hash_repr sha1_hash_impl (sha1_stream_loop h data) (m @ data)"
proof (induction h data arbitrary: m rule: sha1_stream_loop.induct)
  case (1 h data)
  show ?case
  proof (cases "data = []")
    case True
    with 1(2) show ?thesis by (simp add: sha1_stream_loop.simps)
  next
    case False
    have "hash_repr sha1_hash_impl (sha1_stream_loop (hash_update sha1_hash_impl h (take 256 data)) (drop 256 data))
        ((m @ take 256 data) @ drop 256 data)"
      by (intro 1(1) False hash_update_repr 1(2))
    with False show ?thesis by (simp add: sha1_stream_loop.simps [of h data])
  qed
qed

text \<open>
  C4. The incremental interface is sound: however a message is cut into pieces, the three
  hashes return the Merkle-Damgard digest of the concatenation (initial value,
  compression of every 64-byte block of the padded message, serialised state), and
  the object can be used again as if it were new.
\<close>

theorem hash_update_chunks:
  "fst (hash_final md5_hash_impl (fold (\<lambda>p h. hash_update md5_hash_impl h p) (p # ps) (hash_new md5_hash_impl)))
     = digest md5_hash_impl (concat (p # ps))
   \<and> fst (hash_final sha1_hash_impl (fold (\<lambda>p h. hash_update sha1_hash_impl h p) (p # ps) (hash_new sha1_hash_impl)))
     = digest sha1_hash_impl (concat (p # ps))
   \<and> fst (hash_final sha256_hash_impl (fold (\<lambda>p h. hash_update sha256_hash_impl h p) (p # ps) (hash_new sha256_hash_impl)))
     = digest sha256_hash_impl (concat (p # ps))"
  using md5h.chunks [OF md5h.new_idle(1), of "p # ps"] sha1h.chunks [OF sha1h.new_idle(1), of "p # ps"]
    sha256h.chunks [OF sha256h.new_idle(1), of "p # ps"] by blast

text \<open>
  Hashing a stream in buffers of 256 bytes gives the digest of its whole content.
\<close>

lemma sha1_streambuf_eq: "sha1_streambuf data = sha1 data"
  using sha1_stream_loop_repr [OF sha1h.new_idle(2), of "bytes_of data"]
  by (simp add: sha1_streambuf_def sha1_def sha1h.hash_string_digest sha1h.fin_dig)


end
