(* ===== verification/Mac.thy ===== *)
theory Mac
  imports Hash
begin

text \<open>
  The keyed hash \<open>HMAC\<close> and the key derivation \<open>pbkdf2\<close> of
  \<open>lib-http/src/crypto.cpp\<close>, with the three hashes they are instantiated with.
  Both rest on the \<open>streaming\<close> contract of the theory \<open>Hash\<close> and are compared with
  RFC 2104 and RFC 8018.
\<close>

unbundle bit_operations_syntax

section \<open>HMAC\<close>

record hmac =
  m_ipad :: "u8 list"
  m_opad :: "u8 list"
  m_inner_updated :: bool
  m_inner :: hash_base

text \<open>The loop that combines the key with both pads.\<close>

fun xor_key :: "u8 list \<Rightarrow> u8 list \<Rightarrow> u8 list" where
  "xor_key pad [] = pad"
| "xor_key [] key = []"
| "xor_key (p # pad) (k # key) = (p XOR k) # xor_key pad key"

text \<open>
  A key of more than a block is replaced by its digest, but \<open>key\<close> is a
  \<open>string_view\<close>: after the assignment it refers to the temporary that
  \<open>keyHash.final()\<close> returned, which no longer exists when the loop reads it. A key
  of exactly a block fails the assertion.
\<close>

definition hmac_new :: "hash_impl \<Rightarrow> u8 list \<Rightarrow> hmac res" where
  "hmac_new I key =
     (if length key > block_size then
        (if hi_digest_size I < block_size then throw Undefined else throw Assertion)
      else if \<not> length key < block_size then throw Assertion
      else ok \<lparr>m_ipad = xor_key (replicate block_size 0x36) key,
               m_opad = xor_key (replicate block_size 0x5c) key,
               m_inner_updated = False, m_inner = hash_new I\<rparr>)"

definition hmac_update :: "hash_impl \<Rightarrow> hmac \<Rightarrow> u8 list \<Rightarrow> hmac" where
  "hmac_update I s data =
     (let s = (if \<not> m_inner_updated s
               then s\<lparr>m_inner := hash_update I (m_inner s) (m_ipad s), m_inner_updated := True\<rparr>
               else s)
      in s\<lparr>m_inner := hash_update I (m_inner s) data\<rparr>)"

definition hmac_final :: "hash_impl \<Rightarrow> hmac \<Rightarrow> u8 list \<times> hmac" where
  "hmac_final I s =
     (let outer = hash_update I (hash_new I) (m_opad s);
          (d, inner) = hash_final I (m_inner s);
          outer = hash_update I outer d
      in (fst (hash_final I outer), s\<lparr>m_inner := inner, m_inner_updated := False\<rparr>))"

definition hmac_string :: "hash_impl \<Rightarrow> string \<Rightarrow> string \<Rightarrow> string res" where
  "hmac_string I message key =
     bind_res (hmac_new I (bytes_of key)) (\<lambda>s.
       ok (string_of_bytes (fst (hmac_final I (hmac_update I s (bytes_of message))))))"

definition hmac_sha1 :: "string \<Rightarrow> string \<Rightarrow> string res" where
  "hmac_sha1 = hmac_string sha1_hash_impl"

definition hmac_sha256 :: "string \<Rightarrow> string \<Rightarrow> string res" where
  "hmac_sha256 = hmac_string sha256_hash_impl"

definition hmac_md5 :: "string \<Rightarrow> string \<Rightarrow> string res" where
  "hmac_md5 = hmac_string md5_hash_impl"

section \<open>PBKDF2\<close>

text \<open>The four bytes of the block counter, most significant first.\<close>

definition counter_bytes :: "u32 \<Rightarrow> u8 list" where
  "counter_bytes i = map (\<lambda>j. ucast (drop_bit ((3 - j) * 8) i)) [0..<4]"

text \<open>\<open>derived[i] ^= buffer[i]\<close> for the positions of the buffer.\<close>

fun xor_into :: "u8 list \<Rightarrow> u8 list \<Rightarrow> u8 list" where
  "xor_into (d # ds) (b # bs) = (d XOR b) # xor_into ds bs"
| "xor_into ds _ = ds"

text \<open>
  The template argument is the pair of operations of the MAC. \<open>n\<close> iterations of
  the inner loop are left.
\<close>

fun pbkdf2_iterate ::
  "('s \<Rightarrow> u8 list \<Rightarrow> 's) \<Rightarrow> ('s \<Rightarrow> u8 list \<times> 's) \<Rightarrow> nat \<Rightarrow> 's \<Rightarrow> u8 list \<Rightarrow> u8 list \<Rightarrow> u8 list \<times> 's" where
  "pbkdf2_iterate upd fin 0 s buffer derived = (derived, s)"
| "pbkdf2_iterate upd fin (Suc n) s buffer derived =
     (let (buffer, s) = fin (upd s buffer)
      in pbkdf2_iterate upd fin n s buffer (xor_into derived buffer))"

text \<open>
  The outer loop runs until there are \<open>keyLength\<close> bytes, which is never for a MAC of
  no bytes; the first argument bounds the number of blocks.
\<close>

fun pbkdf2_loop ::
  "nat \<Rightarrow> ('s \<Rightarrow> u8 list \<Rightarrow> 's) \<Rightarrow> ('s \<Rightarrow> u8 list \<times> 's) \<Rightarrow> u8 list \<Rightarrow> nat \<Rightarrow> nat \<Rightarrow> 's \<Rightarrow> u32 \<Rightarrow> u8 list
     \<Rightarrow> u8 list option" where
  "pbkdf2_loop 0 upd fin salt iterations keyLength s i result = None"
| "pbkdf2_loop (Suc k) upd fin salt iterations keyLength s i result =
     (if length result < keyLength then
        (let s = upd s salt;
             s = fold (\<lambda>b s. upd s [b]) (counter_bytes i) s;
             (derived, s) = fin s;
             (derived, s) = pbkdf2_iterate upd fin (iterations - 1) s derived derived
         in pbkdf2_loop k upd fin salt iterations keyLength s (i + 1) (result @ derived))
      else Some (take keyLength result))"

definition pbkdf2 :: "hash_impl \<Rightarrow> string \<Rightarrow> string \<Rightarrow> nat \<Rightarrow> nat \<Rightarrow> string option res" where
  "pbkdf2 I salt password iterations keyLength =
     bind_res (hmac_new I (bytes_of password)) (\<lambda>s.
       ok (map_option string_of_bytes
         (pbkdf2_loop (Suc keyLength) (hmac_update I) (hmac_final I) (bytes_of salt) iterations keyLength s 1 [])))"

definition pbkdf2_hmac_sha1 :: "string \<Rightarrow> string \<Rightarrow> nat \<Rightarrow> nat \<Rightarrow> string option res" where
  "pbkdf2_hmac_sha1 = pbkdf2 sha1_hash_impl"

definition pbkdf2_hmac_sha256 :: "string \<Rightarrow> string \<Rightarrow> nat \<Rightarrow> nat \<Rightarrow> string option res" where
  "pbkdf2_hmac_sha256 = pbkdf2 sha256_hash_impl"

section \<open>Specifications\<close>

text \<open>
  RFC 2104 for a key of at most a block: \<open>H (K XOR opad, H (K XOR ipad, text))\<close> with
  the key padded with zeros.
\<close>

definition hmac_spec :: "hash_impl \<Rightarrow> u8 list \<Rightarrow> u8 list \<Rightarrow> u8 list" where
  "hmac_spec I key m =
     (let k = key @ replicate (block_size - length key) 0
      in digest I (map (\<lambda>x. x XOR 0x5c) k @ digest I (map (\<lambda>x. x XOR 0x36) k @ m)))"

text \<open>RFC 8018, section 5.2: \<open>U\<close>, \<open>F\<close> and the derived key.\<close>

fun pbkdf2_U :: "(u8 list \<Rightarrow> u8 list) \<Rightarrow> u8 list \<Rightarrow> nat \<Rightarrow> u8 list" where
  "pbkdf2_U prf m 0 = prf m"
| "pbkdf2_U prf m (Suc c) = prf (pbkdf2_U prf m c)"

definition pbkdf2_F :: "(u8 list \<Rightarrow> u8 list) \<Rightarrow> u8 list \<Rightarrow> nat \<Rightarrow> nat \<Rightarrow> u8 list" where
  "pbkdf2_F prf salt c i =
     (let m = salt @ be_bytes (word_of_nat i)
      in foldl (map2 (XOR)) (pbkdf2_U prf m 0) (map (pbkdf2_U prf m) [1..<c]))"

definition pbkdf2_spec :: "(u8 list \<Rightarrow> u8 list) \<Rightarrow> nat \<Rightarrow> u8 list \<Rightarrow> nat \<Rightarrow> nat \<Rightarrow> u8 list" where
  "pbkdf2_spec prf hLen salt c dkLen =
     take dkLen (concat (map (pbkdf2_F prf salt c) [1..<Suc ((dkLen + hLen - 1) div hLen)]))"

section \<open>Correctness\<close>

lemma xor_key_eq:
  "length key \<le> n \<Longrightarrow> xor_key (replicate n p) key = map (\<lambda>x. x XOR p) (key @ replicate (n - length key) 0)"
proof (induction key arbitrary: n)
  case (Cons k key)
  then obtain n' where "n = Suc n'" by (cases n) auto
  with Cons show ?case by (simp add: xor.commute)
qed simp

lemma xor_into_eq: "length bs = length ds \<Longrightarrow> xor_into ds bs = map2 (XOR) ds bs"
  by (induction ds bs rule: xor_into.induct) auto

lemma counter_bytes_eq: "counter_bytes i = be_bytes i"
  by (simp add: counter_bytes_def be_bytes_def upt_rec)

definition hmac_idle :: "hash_impl \<Rightarrow> u8 list \<Rightarrow> hmac \<Rightarrow> bool" where
  "hmac_idle I key s \<longleftrightarrow>
     m_ipad s = xor_key (replicate block_size 0x36) key \<and> m_opad s = xor_key (replicate block_size 0x5c) key
     \<and> \<not> m_inner_updated s \<and> hash_repr I (m_inner s) []"

definition hmac_repr :: "hash_impl \<Rightarrow> u8 list \<Rightarrow> hmac \<Rightarrow> u8 list \<Rightarrow> bool" where
  "hmac_repr I key s m \<longleftrightarrow>
     m_ipad s = xor_key (replicate block_size 0x36) key \<and> m_opad s = xor_key (replicate block_size 0x5c) key
     \<and> m_inner_updated s \<and> hash_repr I (m_inner s) (m_ipad s @ m)"

lemma hmac_new_ok:
  "length key < block_size \<Longrightarrow> \<exists>s. hmac_new I key = ok s \<and> hmac_idle I key s"
  by (simp add: hmac_new_def hmac_idle_def hash_repr_new)

text \<open>What \<open>pbkdf2\<close> needs of its template argument: a streaming MAC of a fixed size.\<close>

locale prf_stream = streaming +
  fixes hLen :: nat
  assumes dig_len: "length (dig m) = hLen"
    and dig_pos: "0 < hLen"
begin

lemma length_U: "length (pbkdf2_U dig m c) = hLen"
  by (cases c) (simp_all add: dig_len)

lemma length_F: "length (pbkdf2_F dig salt c i) = hLen"
proof -
  have "length (foldl (map2 (XOR)) d (map (pbkdf2_U dig m) cs)) = hLen" if "length d = hLen" for d m cs
    using that by (induction cs arbitrary: d) (simp_all add: length_U)
  then show ?thesis unfolding pbkdf2_F_def Let_def by (metis length_U)
qed

lemma iterate:
  "idle s \<Longrightarrow> length derived = hLen \<Longrightarrow>
   \<exists>s'. idle s' \<and> pbkdf2_iterate upd fin n s (pbkdf2_U dig m c) derived
     = (foldl (map2 (XOR)) derived (map (pbkdf2_U dig m) [Suc c..<Suc c + n]), s')"
proof (induction n arbitrary: s derived c)
  case (Suc n)
  define b where "b = pbkdf2_U dig m (Suc c)"
  obtain s1 where s1: "fin (upd s (pbkdf2_U dig m c)) = (b, s1)" "idle s1"
    using one_shot [OF Suc.prems(1), of "pbkdf2_U dig m c"] fin_idle [OF upd_idle [OF Suc.prems(1)], of "pbkdf2_U dig m c"]
    by (cases "fin (upd s (pbkdf2_U dig m c))") (auto simp: b_def)
  have len: "length derived = length b" using Suc.prems(2) by (simp only: b_def length_U)
  then obtain s' where "idle s'" "pbkdf2_iterate upd fin n s1 (pbkdf2_U dig m (Suc c)) (map2 (XOR) derived b)
     = (foldl (map2 (XOR)) (map2 (XOR) derived b) (map (pbkdf2_U dig m) [Suc (Suc c)..<Suc (Suc c) + n]), s')"
    using Suc.IH [of s1 "map2 (XOR) derived b" "Suc c"] s1(2) Suc.prems(2) by auto
  moreover have "[Suc c..<Suc c + Suc n] = Suc c # [Suc (Suc c)..<Suc (Suc c) + n]"
    by (simp add: upt_conv_Cons)
  ultimately show ?case
    using s1(1) len by (auto simp: xor_into_eq b_def simp del: upt.simps pbkdf2_U.simps)
qed auto

lemma block_U:
  assumes "idle s"
  shows "\<exists>s'. idle s' \<and> fin (fold (\<lambda>b s. upd s [b]) (counter_bytes (word_of_nat i)) (upd s salt))
    = (pbkdf2_U dig (salt @ be_bytes (word_of_nat i)) 0, s')"
proof -
  have fold_bytes: "fold (\<lambda>b s. upd s [b]) bs t = fold (\<lambda>p s. upd s p) (map (\<lambda>b. [b]) bs) t" for bs t
    by (induction bs arbitrary: t) simp_all
  have "repr (fold (\<lambda>b s. upd s [b]) (counter_bytes (word_of_nat i)) (upd s salt)) (salt @ be_bytes (word_of_nat i))"
    using fold_repr [OF upd_idle [OF assms], of "map (\<lambda>b. [b]) (counter_bytes (word_of_nat i))" salt]
    by (simp add: fold_bytes counter_bytes_eq)
  from fin_dig [OF this] fin_idle [OF this] show ?thesis by (metis pbkdf2_U.simps(1) prod.collapse)
qed

lemma length_blocks: "length (concat (map (pbkdf2_F dig salt c) is)) = hLen * length is"
  by (induction "is") (simp_all add: length_F)

lemma enough_blocks:
  assumes "keyLength \<le> hLen * (i - 1)" "1 \<le> i"
  shows "take keyLength (concat (map (pbkdf2_F dig salt c) [1..<i])) = pbkdf2_spec dig hLen salt c keyLength"
proof -
  define l where "l = (keyLength + hLen - 1) div hLen"
  have "l < i"
  proof -
    have "keyLength + hLen - 1 < hLen * (i - 1) + hLen" using assms(1) dig_pos by simp
    also have "\<dots> = hLen * i" using assms(2) by (cases i) simp_all
    finally show ?thesis by (simp add: l_def less_mult_imp_div_less mult.commute)
  qed
  then have split: "[1..<i] = [1..<Suc l] @ [Suc l..<i]"
    using upt_add_eq_append [of 1 "Suc l" "i - Suc l"] by simp
  have "keyLength \<le> hLen * l"
  proof -
    have "keyLength + hLen - 1 = hLen * l + (keyLength + hLen - 1) mod hLen" by (simp add: l_def)
    moreover have "(keyLength + hLen - 1) mod hLen < hLen" using dig_pos by simp
    ultimately show ?thesis by linarith
  qed
  then have "keyLength \<le> length (concat (map (pbkdf2_F dig salt c) [1..<Suc l]))"
    by (simp only: length_blocks length_upt diff_Suc_1)
  then show ?thesis
    unfolding split pbkdf2_spec_def l_def [symmetric] by (simp del: upt.simps)
qed

lemma loop_spec:
  "idle s \<Longrightarrow> 1 \<le> i \<Longrightarrow> 0 < k \<Longrightarrow> keyLength < k + hLen * (i - 1) \<Longrightarrow>
   pbkdf2_loop k upd fin salt c keyLength s (word_of_nat i) (concat (map (pbkdf2_F dig salt c) [1..<i]))
     = Some (pbkdf2_spec dig hLen salt c keyLength)"
proof (induction k arbitrary: s i)
  case 0
  then show ?case by simp
next
  case (Suc k)
  let ?res = "\<lambda>i. concat (map (pbkdf2_F dig salt c) [1..<i])"
  have len: "length (?res i) = hLen * (i - 1)" by (simp only: length_blocks length_upt)
  show ?case
  proof (cases "hLen * (i - 1) < keyLength")
    case True
    obtain s1 where s1: "idle s1" "fin (fold (\<lambda>b s. upd s [b]) (counter_bytes (word_of_nat i)) (upd s salt))
        = (pbkdf2_U dig (salt @ be_bytes (word_of_nat i)) 0, s1)"
      using block_U [OF Suc.prems(1)] by blast
    obtain s2 where s2: "idle s2"
      "pbkdf2_iterate upd fin (c - 1) s1 (pbkdf2_U dig (salt @ be_bytes (word_of_nat i)) 0)
         (pbkdf2_U dig (salt @ be_bytes (word_of_nat i)) 0) = (pbkdf2_F dig salt c i, s2)"
      using iterate [OF s1(1) length_U, of "c - 1" "salt @ be_bytes (word_of_nat i)" 0
          "salt @ be_bytes (word_of_nat i)" 0]
      by (cases c) (auto simp: pbkdf2_F_def Let_def simp del: pbkdf2_U.simps)
    have res: "?res i @ pbkdf2_F dig salt c i = ?res (Suc i)"
      using Suc.prems(2) by simp
    have "keyLength < k + hLen * (Suc i - 1)"
      using Suc.prems(2,4) dig_pos by (cases i) auto
    moreover have "0 < k" using True Suc.prems(4) by simp
    ultimately have "pbkdf2_loop k upd fin salt c keyLength s2 (word_of_nat (Suc i)) (?res (Suc i))
        = Some (pbkdf2_spec dig hLen salt c keyLength)"
      by (intro Suc.IH s2(1)) simp_all
    then show ?thesis
      using True s1(2) s2(2) len res
      by (simp add: Let_def add.commute del: upt.simps pbkdf2_U.simps)
  next
    case False
    then show ?thesis using len enough_blocks [of keyLength i salt c] Suc.prems(2)
      by (simp del: upt.simps)
  qed
qed

lemma pbkdf2_correct:
  "idle s \<Longrightarrow> pbkdf2_loop (Suc keyLength) upd fin salt c keyLength s 1 [] = Some (pbkdf2_spec dig hLen salt c keyLength)"
  using loop_spec [of s 1 "Suc keyLength" keyLength salt c] by (simp del: pbkdf2_loop.simps)

end

text \<open>A key shorter than a block makes \<open>HMAC\<close> such a MAC, whatever the hash.\<close>

locale hmac_key = hash_function +
  fixes key :: "u8 list"
  assumes short_key: "length key < block_size"

sublocale hmac_key \<subseteq> mac: prf_stream "hmac_update I" "hmac_final I" "hmac_idle I key" "hmac_repr I key" "hmac_spec I key" "hi_digest_size I"
proof unfold_locales
  show "hmac_idle I key s \<Longrightarrow> hmac_repr I key (hmac_update I s p) p" for s p
    using upd_repr [OF upd_idle [of "m_inner s" "m_ipad s"], of p]
    by (simp add: hmac_idle_def hmac_repr_def hmac_update_def Let_def)
  show "hmac_repr I key s m \<Longrightarrow> hmac_repr I key (hmac_update I s p) (m @ p)" for s m p
    using upd_repr [of "m_inner s" "m_ipad s @ m" p]
    by (auto simp: hmac_repr_def hmac_update_def Let_def)
  show "hmac_repr I key s m \<Longrightarrow> fst (hmac_final I s) = hmac_spec I key m" for s m
    using short_key fin_dig [OF upd_repr [OF upd_idle [OF new_idle(1)]], of "m_opad s" "fst (hash_final I (m_inner s))"]
      fin_dig [of "m_inner s" "m_ipad s @ m"]
    by (auto simp: hmac_repr_def hmac_final_def hmac_spec_def xor_key_eq case_prod_beta)
  show "hmac_repr I key s m \<Longrightarrow> hmac_idle I key (snd (hmac_final I s))" for s m
    using fin_idle [of "m_inner s" "m_ipad s @ m"]
    by (auto simp: hmac_repr_def hmac_idle_def hmac_final_def case_prod_beta)
  show "length (hmac_spec I key m) = hi_digest_size I" for m
    by (simp add: hmac_spec_def length_digest)
qed (rule digest_pos)

context hmac_key
begin

lemma hmac_string_spec:
  assumes "bytes_of k = key"
  shows "hmac_string I m k = ok (string_of_bytes (hmac_spec I key (bytes_of m)))"
  using hmac_new_ok [OF short_key, of I] by (auto simp: hmac_string_def assms mac.one_shot)

lemma pbkdf2_spec_eq:
  assumes "bytes_of k = key"
  shows "pbkdf2 I salt k c n =
    ok (Some (string_of_bytes (pbkdf2_spec (hmac_spec I key) (hi_digest_size I) (bytes_of salt) c n)))"
  using hmac_new_ok [OF short_key, of I]
  by (auto simp: pbkdf2_def assms mac.pbkdf2_correct simp del: pbkdf2_loop.simps)

end

text \<open>
  The three instances. A key is cut to the 63 bytes the constructor takes, which
  leaves the shorter ones as they are.
\<close>

lemma short_keys:
  "hmac_key_axioms (take 63 key)"
  by (simp add: hmac_key_axioms_def block_size_def)

interpretation md5m: hmac_key md5_hash_impl "take 63 key" for key
  by (intro hmac_key.intro md5h.hash_function_axioms short_keys)

interpretation sha1m: hmac_key sha1_hash_impl "take 63 key" for key
  by (intro hmac_key.intro sha1h.hash_function_axioms short_keys)

interpretation sha256m: hmac_key sha256_hash_impl "take 63 key" for key
  by (intro hmac_key.intro sha256h.hash_function_axioms short_keys)

lemma take_key: "length (k :: string) < 64 \<Longrightarrow> take 63 (bytes_of k) = bytes_of k"
  by simp

text \<open>
  C6. For keys shorter than a block the three HMAC functions compute RFC 2104's HMAC of
  the message.
\<close>

theorem hmac_is_rfc2104:
  assumes "length key < 64"
  shows "hmac_md5 msg key = ok (string_of_bytes (hmac_spec md5_hash_impl (bytes_of key) (bytes_of msg)))
    \<and> hmac_sha1 msg key = ok (string_of_bytes (hmac_spec sha1_hash_impl (bytes_of key) (bytes_of msg)))
    \<and> hmac_sha256 msg key = ok (string_of_bytes (hmac_spec sha256_hash_impl (bytes_of key) (bytes_of msg)))"
  using md5m.hmac_string_spec [of key "bytes_of key" msg] sha1m.hmac_string_spec [of key "bytes_of key" msg]
    sha256m.hmac_string_spec [of key "bytes_of key" msg]
  by (simp only: take_key [OF assms] simp_thms hmac_md5_def hmac_sha1_def hmac_sha256_def)

theorem hmac_is_rfc2104_witness:
  "length ''key'' < 64 \<and> hmac_sha256 ''The quick brown fox'' ''key''
     = ok (string_of_bytes (hmac_spec sha256_hash_impl (bytes_of ''key'') (bytes_of ''The quick brown fox'')))"
  using hmac_is_rfc2104 [of "''key''" "''The quick brown fox''"] by simp

text \<open>
  One HMAC object serves any number of messages, each given in any number of pieces:
  from the state after the constructor, two messages in a row get their own codes, and
  the object is idle again.
\<close>

lemma hmac_incremental:
  assumes "length key < 64"
  shows "\<exists>s0 s1. hmac_new sha256_hash_impl (bytes_of key) = ok s0
    \<and> hmac_final sha256_hash_impl (fold (\<lambda>p s. hmac_update sha256_hash_impl s p) (p # ps) s0)
        = (hmac_spec sha256_hash_impl (bytes_of key) (concat (p # ps)), s1)
    \<and> fst (hmac_final sha256_hash_impl (fold (\<lambda>p s. hmac_update sha256_hash_impl s p) (q # qs) s1))
        = hmac_spec sha256_hash_impl (bytes_of key) (concat (q # qs))"
proof -
  let ?k = "bytes_of key"
  obtain s0 where new: "hmac_new sha256_hash_impl ?k = ok s0" "hmac_idle sha256_hash_impl ?k s0"
    using hmac_new_ok [of ?k sha256_hash_impl] assms by (auto simp: block_size_def)
  have "hmac_idle sha256_hash_impl (take 63 ?k) s0"
    by (simp only: take_key [OF assms] new(2))
  note this [THEN sha256m.mac.chunks, of "p # ps"] this [THEN sha256m.mac.reusable, of "p # ps"]
  then show ?thesis
    using sha256m.mac.chunks [of ?k _ "q # qs"] new(1)
    by (cases "hmac_final sha256_hash_impl (fold (\<lambda>p s. hmac_update sha256_hash_impl s p) (p # ps) s0)")
      (auto simp only: take_key [OF assms] list.distinct simp_thms fst_conv snd_conv prod.inject)
qed

lemma hmac_incremental_witness:
  "\<exists>s0 s1. hmac_new sha256_hash_impl (bytes_of ''k'') = ok s0
    \<and> hmac_final sha256_hash_impl (fold (\<lambda>p s. hmac_update sha256_hash_impl s p) [[1], [2, 3]] s0)
        = (hmac_spec sha256_hash_impl (bytes_of ''k'') (concat [[1], [2, 3]]), s1)
    \<and> fst (hmac_final sha256_hash_impl (fold (\<lambda>p s. hmac_update sha256_hash_impl s p) [[4]] s1))
        = hmac_spec sha256_hash_impl (bytes_of ''k'') (concat [[4]])"
  by (rule hmac_incremental) simp

text \<open>
  A key of exactly 64 bytes fails the assertion of the constructor, and a longer one
  makes it read a \<open>string_view\<close> of a destroyed temporary, for each of the three hashes.
\<close>

lemma hmac_long_keys:
  assumes "64 \<le> length key" and "I \<in> {md5_hash_impl, sha1_hash_impl, sha256_hash_impl}"
  shows "hmac_string I msg key = throw (if length key = 64 then Assertion else Undefined)"
  using assms
  by (auto simp: hmac_string_def hmac_new_def block_size_def md5_hash_impl_def sha1_hash_impl_def
      sha256_hash_impl_def)

lemma hmac_long_keys_witness:
  "hmac_string sha1_hash_impl ''m'' (replicate 64 CHR ''k'') = throw Assertion"
  using hmac_long_keys [of "replicate 64 CHR ''k''" sha1_hash_impl "''m''"] by simp

text \<open>
  C7. For passwords shorter than a block the key derivation terminates and returns the
  key of RFC 8018 (PBKDF2 with that HMAC) for every iteration count and length.
\<close>

theorem pbkdf2_is_rfc8018:
  assumes "length password < 64"
  shows "pbkdf2_hmac_sha1 salt password c n =
      ok (Some (string_of_bytes (pbkdf2_spec (hmac_spec sha1_hash_impl (bytes_of password)) 20 (bytes_of salt) c n)))
    \<and> pbkdf2_hmac_sha256 salt password c n =
      ok (Some (string_of_bytes (pbkdf2_spec (hmac_spec sha256_hash_impl (bytes_of password)) 32 (bytes_of salt) c n)))"
proof -
  have "hi_digest_size sha1_hash_impl = 20" "hi_digest_size sha256_hash_impl = 32"
    by (simp_all add: sha1_hash_impl_def sha256_hash_impl_def)
  then show ?thesis
    using sha1m.pbkdf2_spec_eq [of password "bytes_of password" salt c n]
      sha256m.pbkdf2_spec_eq [of password "bytes_of password" salt c n]
    by (simp only: take_key [OF assms] simp_thms pbkdf2_hmac_sha1_def pbkdf2_hmac_sha256_def)
qed

theorem pbkdf2_is_rfc8018_witness:
  "pbkdf2_hmac_sha256 ''salt'' ''secret'' 30000 32 =
     ok (Some (string_of_bytes
       (pbkdf2_spec (hmac_spec sha256_hash_impl (bytes_of ''secret'')) 32 (bytes_of ''salt'') 30000 32)))"
  by (rule pbkdf2_is_rfc8018 [THEN conjunct2]) simp

end
