(* ===== verification/Http_Header.thy ===== *)
theory Http_Header
  imports Prelude Unicode_Support
begin

text \<open>
  HTTP headers (\<open>zeep/http/header.hpp\<close>) and the header lists that requests and
  replies keep, with the two variants of removing a header that
  \<open>lib-http/src/request.cpp\<close> and \<open>lib-http/src/reply.cpp\<close> have. What the rest of the
  library relies on is stated as the locales \<open>header_store\<close> and \<open>erasing_store\<close>.
\<close>

record header =
  h_name :: string
  h_value :: string

definition kCRLF :: string where
  "kCRLF = [CHR 0x0D, CHR 0x0A]"

definition kNameValueSeparator :: string where
  "kNameValueSeparator = '': ''"

definition CRs :: char where
  "CRs = CHR 0x0D"

definition LFs :: char where
  "LFs = CHR 0x0A"

section \<open>Header lists\<close>

text \<open>The first header with that name gets the value; without one it is appended.\<close>

fun set_header :: "header list \<Rightarrow> string \<Rightarrow> string \<Rightarrow> header list" where
  "set_header [] name value = [\<lparr>h_name = name, h_value = value\<rparr>]"
| "set_header (h # hs) name value =
     (if iequals (h_name h) name then h\<lparr>h_value := value\<rparr> # hs
      else h # set_header hs name value)"

fun get_header :: "header list \<Rightarrow> string \<Rightarrow> string" where
  "get_header [] name = []"
| "get_header (h # hs) name = (if iequals (h_name h) name then h_value h else get_header hs name)"

text \<open>\<open>reply::remove_header\<close> ignores case, \<open>request::remove_header\<close> does not.\<close>

definition reply_remove_header :: "header list \<Rightarrow> string \<Rightarrow> header list" where
  "reply_remove_header hs name = filter (\<lambda>h. \<not> iequals (h_name h) name) hs"

definition request_remove_header :: "header list \<Rightarrow> string \<Rightarrow> header list" where
  "request_remove_header hs name = filter (\<lambda>h. h_name h \<noteq> name) hs"

section \<open>The interface\<close>

locale header_store =
  fixes set_h :: "'hs \<Rightarrow> string \<Rightarrow> string \<Rightarrow> 'hs"
    and get_h :: "'hs \<Rightarrow> string \<Rightarrow> string"
    and del_h :: "'hs \<Rightarrow> string \<Rightarrow> 'hs"
  assumes get_set: "iequals n m \<Longrightarrow> get_h (set_h hs n v) m = v"
    and get_set_other: "\<not> iequals n m \<Longrightarrow> get_h (set_h hs n v) m = get_h hs m"
    and get_del_other: "\<not> iequals n m \<Longrightarrow> get_h (del_h hs n) m = get_h hs m"
begin

lemma get_same: "get_h (set_h hs n v) n = v"
  by (simp add: get_set)

lemma last_set_wins: "get_h (set_h (set_h hs n v) n w) m = get_h (set_h hs n w) m"
  by (cases "iequals n m") (simp_all add: get_set get_set_other)

lemma set_commutes:
  "\<not> iequals n n' \<Longrightarrow> get_h (set_h (set_h hs n v) n' v') m = get_h (set_h (set_h hs n' v') n v) m"
  by (cases "iequals n m"; cases "iequals n' m")
    (auto simp: get_set get_set_other dest: iequals_sym iequals_trans)

end

locale erasing_store = header_store +
  assumes get_del: "iequals n m \<Longrightarrow> get_h (del_h hs n) m = []"
begin

lemma del_after_set: "get_h (del_h (set_h hs n v) n) n = []"
  by (simp add: get_del)

end

lemma iequals_swap: "iequals a b = iequals b a"
  by (auto dest: iequals_sym)

lemma get_set_header: "get_header (set_header hs n v) m = (if iequals n m then v else get_header hs m)"
  by (induction hs n v rule: set_header.induct) (auto dest: iequals_sym iequals_trans)

lemma get_reply_remove: "get_header (reply_remove_header hs n) m = (if iequals n m then [] else get_header hs m)"
  by (induction hs) (auto simp: reply_remove_header_def dest: iequals_sym iequals_trans)

lemma get_request_remove:
  "\<not> iequals n m \<Longrightarrow> get_header (request_remove_header hs n) m = get_header hs m"
  by (induction hs) (auto simp: request_remove_header_def)

interpretation reply_headers: erasing_store set_header get_header reply_remove_header
  by unfold_locales (simp_all add: get_set_header get_reply_remove)

interpretation request_headers: header_store set_header get_header request_remove_header
  by unfold_locales (simp_all add: get_set_header get_request_remove)

lemma set_header_ne [simp]: "set_header hs n v \<noteq> []"
  by (cases hs) auto

lemma set_header_absent:
  "\<forall>h \<in> set hs. \<not> iequals (h_name h) n \<Longrightarrow> set_header hs n v = hs @ [\<lparr>h_name = n, h_value = v\<rparr>]"
  by (induction hs) auto

lemma set_header_set:
  "h \<in> set (set_header hs n v) \<Longrightarrow> (\<exists>h' \<in> set hs. h_name h = h_name h' \<and> (h = h' \<or> h_value h = v)) \<or> h = \<lparr>h_name = n, h_value = v\<rparr>"
  by (induction hs n v rule: set_header.induct) (auto split: if_splits)

text \<open>
  Removing a header from a request compares names exactly: a header stored under
  another spelling of the name is found by \<open>get_header\<close> but survives
  \<open>remove_header\<close>, while a reply forgets it.
\<close>

lemma request_remove_is_case_sensitive:
  "get_header (request_remove_header (set_header [] n v) m) m = (if iequals n m \<and> n \<noteq> m then v else [])
   \<and> get_header (reply_remove_header (set_header hs n v) m) m = []"
  by (simp add: request_remove_header_def get_reply_remove)

end
