(* ===== verification/Http_Request.thy ===== *)
theory Http_Request
  imports Http_Header Codec "HOL-Library.Multiset"
begin

text \<open>
  The request of \<open>lib-http/src/request.cpp\<close> and \<open>zeep/http/request.hpp\<close>: its fields,
  headers, URL-encoded parameters, cookies and its serialisation. The local
  endpoint, the time stamp and the locale are not part of the model.
\<close>

record request =
  rq_method :: string
  rq_uri :: string
  rq_version :: string
  rq_headers :: "header list"
  rq_payload :: string

text \<open>The value of a \<open>char\<close>, which is signed.\<close>

definition schar :: "char \<Rightarrow> int" where
  "schar c = (if code c < 128 then int (code c) else int (code c) - 256)"

definition request_new ::
  "string \<Rightarrow> string \<Rightarrow> nat \<times> nat \<Rightarrow> header list \<Rightarrow> string \<Rightarrow> request" where
  "request_new method uri version headers payload =
     \<lparr>rq_method = method, rq_uri = uri,
      rq_version = [char_of (48 + fst version), CHR ''.'', char_of (48 + snd version)],
      rq_headers = headers, rq_payload = payload\<rparr>"

definition get_version :: "request \<Rightarrow> int \<times> int" where
  "get_version rq = (schar (rq_version rq ! 0) - 48, schar (rq_version rq ! 2) - 48)"

text \<open>\<open>get_version() >= std::make_tuple(1, 1)\<close> compares the tuples lexicographically.\<close>

definition keep_alive :: "request \<Rightarrow> bool" where
  "keep_alive rq \<longleftrightarrow>
     (let (major, minor) = get_version rq in major > 1 \<or> (major = 1 \<and> minor \<ge> 1))
     \<and> iequals (get_header (rq_headers rq) ''Connection'') ''keep-alive''"

definition request_set_header :: "request \<Rightarrow> string \<Rightarrow> string \<Rightarrow> request" where
  "request_set_header rq name value = rq\<lparr>rq_headers := set_header (rq_headers rq) name value\<rparr>"

definition request_set_content :: "request \<Rightarrow> string \<Rightarrow> string \<Rightarrow> request" where
  "request_set_content rq txt contentType =
     (let rq = request_set_header rq ''content-type'' contentType;
          rq = rq\<lparr>rq_payload := txt\<rparr>
      in request_set_header rq ''content-length'' (nat_to_string (length txt)))"

definition get_pathname :: "request \<Rightarrow> string" where
  "get_pathname rq =
     (case find_char CHR ''?'' (rq_uri rq) of None \<Rightarrow> rq_uri rq | Some s \<Rightarrow> take s (rq_uri rq))"

section \<open>URL-encoded parameters\<close>

definition is_param_sep :: "char \<Rightarrow> bool" where
  "is_param_sep c \<longleftrightarrow> c = CHR ''&'' \<or> c = CHR '';''"

text \<open>
  The loop over the segments between \<open>&\<close> and \<open>;\<close>; the string is what is left from
  position \<open>b\<close> on.
\<close>

function get_urlencode_parameter :: "string \<Rightarrow> string \<Rightarrow> string \<times> bool" where
  "get_urlencode_parameter s name =
     (let seg = takeWhile (\<lambda>c. \<not> is_param_sep c) s;
          rest = dropWhile (\<lambda>c. \<not> is_param_sep c) s;
          n = length seg; nlen = length name
      in if (n = nlen \<or> (n > nlen + 1 \<and> seg ! nlen = CHR ''='')) \<and> take nlen seg = name
         then (if n = nlen then (name, True) else (decode_url (drop (nlen + 1) seg), True))
         else (case rest of [] \<Rightarrow> ([], False) | _ # s' \<Rightarrow> get_urlencode_parameter s' name))"
  by pat_completeness auto
termination
proof (relation "measure (\<lambda>(s, name). length s)")
  show "wf (measure (\<lambda>(s, name). length s))" by simp
next
  fix s name :: string and seg rest :: string and n nlen :: nat and x s'
  assume "rest = dropWhile (\<lambda>c. \<not> is_param_sep c) s" "rest = x # s'"
  then have "length s' < length (dropWhile (\<lambda>c. \<not> is_param_sep c) s)" by (metis length_Cons lessI)
  then show "((s', name), (s, name)) \<in> measure (\<lambda>(s, name). length s)"
    using length_dropWhile_le [of "\<lambda>c. \<not> is_param_sep c" s] by simp
qed

declare get_urlencode_parameter.simps [simp del]

text \<open>
  The part of \<open>get_parameter_ex\<close> before the multipart content: the payload of a form,
  then the query of the URI.
\<close>

definition get_form_parameter :: "request \<Rightarrow> string \<Rightarrow> string \<times> bool" where
  "get_form_parameter rq name =
     (let contentType = get_header (rq_headers rq) ''Content-Type'';
          (result, found) =
            (if starts_with contentType ''application/x-www-form-urlencoded''
             then get_urlencode_parameter (rq_payload rq) name else ([], False))
      in if found then (result, True)
         else (case find_char CHR ''?'' (rq_uri rq) of
                 Some b \<Rightarrow> get_urlencode_parameter (drop (b + 1) (rq_uri rq)) name
               | None \<Rightarrow> (result, found)))"

text \<open>
  A \<open>std::multimap\<close> is the list of its entries in order: \<open>emplace\<close> puts an entry
  after those with the same key.
\<close>

type_synonym multimap = "(string \<times> string) list"

definition emplace :: "string \<Rightarrow> string \<Rightarrow> multimap \<Rightarrow> multimap" where
  "emplace k v m = takeWhile (\<lambda>(k', _). k' \<le> k) m @ (k, v) # dropWhile (\<lambda>(k', _). k' \<le> k) m"

text \<open>A parameter without \<open>=\<close> is entered with an empty name and an empty value.\<close>

definition split_param :: "string \<Rightarrow> string \<times> string" where
  "split_param param =
     (case find_char CHR ''='' param of
        Some d \<Rightarrow> (take d param, drop (d + 1) param) | None \<Rightarrow> ([], []))"

definition add_param :: "string \<Rightarrow> multimap \<Rightarrow> multimap" where
  "add_param param m =
     (if param = [] then m
      else (case split_param param of (name, value) \<Rightarrow> emplace (decode_url name) (decode_url value) m))"

function parameters_loop :: "string \<Rightarrow> multimap \<Rightarrow> multimap" where
  "parameters_loop ps m =
     (if ps = [] then m
      else let param = takeWhile (\<lambda>c. \<not> is_param_sep c) ps;
               rest = dropWhile (\<lambda>c. \<not> is_param_sep c) ps
           in parameters_loop (tl rest) (add_param param m))"
  by pat_completeness auto
termination
proof (relation "measure (\<lambda>(ps, m). length ps)")
  fix ps :: string and m :: multimap and param rest
  assume "ps \<noteq> []" "rest = dropWhile (\<lambda>c. \<not> is_param_sep c) ps"
  then show "((tl rest, add_param param m), (ps, m)) \<in> measure (\<lambda>(ps, m). length ps)"
    using length_dropWhile_le [of "\<lambda>c. \<not> is_param_sep c" ps]
    by (cases ps) auto
qed simp

declare parameters_loop.simps [simp del]

definition get_parameters :: "request \<Rightarrow> multimap" where
  "get_parameters rq =
     (let ps = (if rq_method rq = ''POST'' then
                  (if starts_with (get_header (rq_headers rq) ''Content-Type'') ''application/x-www-form-urlencoded''
                   then rq_payload rq else [])
                else if rq_method rq = ''GET'' \<or> rq_method rq = ''PUT'' then
                  (case find_char CHR ''?'' (rq_uri rq) of Some d \<Rightarrow> drop (d + 1) (rq_uri rq) | None \<Rightarrow> [])
                else [])
      in parameters_loop ps [])"

section \<open>Cookies\<close>

definition raw_cookies :: "string \<Rightarrow> (string \<times> string) list" where
  "raw_cookies value =
     concat (map (\<lambda>cookie. let cookie = trim cookie in
        case find_char CHR ''='' cookie of None \<Rightarrow> []
        | Some d \<Rightarrow> [(take d cookie, drop (d + 1) cookie)])
       (split_on (\<lambda>c. c = CHR '';'') value))"

fun request_get_cookie :: "header list \<Rightarrow> string \<Rightarrow> string" where
  "request_get_cookie [] name = []"
| "request_get_cookie (h # hs) name =
     (if h_name h \<noteq> ''Cookie'' then request_get_cookie hs name
      else (case map_of (raw_cookies (h_value h)) name of
              Some v \<Rightarrow> v | None \<Rightarrow> request_get_cookie hs name))"

text \<open>A \<open>std::map\<close> is its list of entries in the order of the keys.\<close>

fun map_assign :: "string \<Rightarrow> string \<Rightarrow> (string \<times> string) list \<Rightarrow> (string \<times> string) list" where
  "map_assign k v [] = [(k, v)]"
| "map_assign k v ((k', v') # m) =
     (if k < k' then (k, v) # (k', v') # m
      else if k = k' then (k, v) # m
      else (k', v') # map_assign k v m)"

fun join_cookies :: "(string \<times> string) list \<Rightarrow> string" where
  "join_cookies [] = []"
| "join_cookies [(k, v)] = k @ ''='' @ v"
| "join_cookies ((k, v) # m) = k @ ''='' @ v @ ''; '' @ join_cookies m"

definition cookie_map :: "header list \<Rightarrow> (string \<times> string) list" where
  "cookie_map hs =
     fold (\<lambda>h m. if iequals (h_name h) ''Cookie''
                 then fold (\<lambda>(k, v). map_assign k v) (raw_cookies (h_value h)) m else m) hs []"

definition request_set_cookie :: "header list \<Rightarrow> string \<Rightarrow> string \<Rightarrow> header list" where
  "request_set_cookie hs name value =
     (let cookies = cookie_map hs;
          hs = filter (\<lambda>h. \<not> iequals (h_name h) ''Cookie'') hs;
          cookies = map_assign name value cookies
      in set_header hs ''Cookie'' (join_cookies cookies))"

section \<open>Serialisation\<close>

definition header_lines :: "header list \<Rightarrow> string" where
  "header_lines hs = concat (map (\<lambda>h. h_name h @ kNameValueSeparator @ h_value h @ kCRLF) hs)"

definition request_to_buffers :: "request \<Rightarrow> string" where
  "request_to_buffers rq =
     rq_method rq @ '' '' @ rq_uri rq @ '' HTTP/'' @ rq_version rq @ kCRLF
     @ header_lines (rq_headers rq) @ kCRLF @ rq_payload rq"

section \<open>Cookies survive\<close>

text \<open>A pair that can be written into a \<open>Cookie\<close> header and found again.\<close>

definition clean_cookie :: "string \<times> string \<Rightarrow> bool" where
  "clean_cookie kv \<longleftrightarrow>
     CHR ''='' \<notin> set (fst kv) \<and> CHR '';'' \<notin> set (fst kv) \<and> (fst kv \<noteq> [] \<longrightarrow> \<not> isspace (hd (fst kv)))
     \<and> CHR '';'' \<notin> set (snd kv) \<and> (snd kv \<noteq> [] \<longrightarrow> \<not> isspace (last (snd kv)))"

definition cookie_text :: "string \<times> string \<Rightarrow> string" where
  "cookie_text kv = fst kv @ ''='' @ snd kv"

lemma not_space_literals [simp]: "\<not> isspace CHR ''=''" "isspace CHR '' ''"
  by (simp_all add: isspace_def)

lemma trim_cookie_text: "clean_cookie kv \<Longrightarrow> trim (cookie_text kv) = cookie_text kv"
  by (rule trim_id) (auto simp: cookie_text_def clean_cookie_def hd_append)

lemma raw_cookies_one:
  assumes "clean_cookie kv"
  shows "(let cookie = trim (cookie_text kv) in
        case find_char CHR ''='' cookie of None \<Rightarrow> []
        | Some d \<Rightarrow> [(take d cookie, drop (d + 1) cookie)]) = [kv]"
proof -
  have "CHR ''='' \<notin> set (fst kv)" using assms by (simp add: clean_cookie_def)
  then have "find_char CHR ''='' (cookie_text kv) = Some (length (fst kv))"
    using find_char_append [of "CHR ''=''" "fst kv" "snd kv"] by (simp add: cookie_text_def)
  then show ?thesis using trim_cookie_text [OF assms] by (simp add: cookie_text_def)
qed

lemma join_cookies_Cons:
  "join_cookies (kv # m) = cookie_text kv @ (if m = [] then [] else ''; '' @ join_cookies m)"
  by (cases m; cases kv) (simp_all add: cookie_text_def)

lemma split_cookies:
  "list_all clean_cookie m \<Longrightarrow> m \<noteq> [] \<Longrightarrow>
   map trim (split_on (\<lambda>c. c = CHR '';'') (join_cookies m)) = map (\<lambda>kv. trim (cookie_text kv)) m"
proof (induction m)
  case (Cons kv m)
  have kv: "\<forall>x \<in> set (cookie_text kv). x \<noteq> CHR '';''"
    using Cons.prems by (auto simp: cookie_text_def clean_cookie_def)
  show ?case
  proof (cases "m = []")
    case True
    then show ?thesis using split_on_none [OF kv] by (simp add: join_cookies_Cons)
  next
    case False
    obtain x xs where xs: "split_on (\<lambda>c. c = CHR '';'') (join_cookies m) = x # xs"
      by (cases "split_on (\<lambda>c. c = CHR '';'') (join_cookies m)") auto
    then have "split_on (\<lambda>c. c = CHR '';'') (join_cookies (kv # m)) = cookie_text kv # (CHR '' '' # x) # xs"
      using split_on_append [OF kv, where d = "CHR '';''" and t = "'' '' @ join_cookies m"] False
      by (simp add: join_cookies_Cons)
    then show ?thesis using Cons False xs by (simp add: trim_space_Cons)
  qed
qed simp

lemma raw_cookies_join: "list_all clean_cookie m \<Longrightarrow> m \<noteq> [] \<Longrightarrow> raw_cookies (join_cookies m) = m"
proof -
  assume m: "list_all clean_cookie m" "m \<noteq> []"
  let ?f = "\<lambda>cookie. case find_char CHR ''='' cookie of None \<Rightarrow> [] | Some d \<Rightarrow> [(take d cookie, drop (d + 1) cookie)]"
  have "raw_cookies (join_cookies m) = concat (map ?f (map trim (split_on (\<lambda>c. c = CHR '';'') (join_cookies m))))"
    by (simp add: raw_cookies_def Let_def comp_def)
  also have "\<dots> = concat (map (\<lambda>kv. ?f (trim (cookie_text kv))) m)"
    unfolding split_cookies [OF m] by (simp add: comp_def)
  also have "map (\<lambda>kv. ?f (trim (cookie_text kv))) m = map (\<lambda>kv. [kv]) m"
    using m(1) raw_cookies_one [unfolded Let_def] by (induction m) auto
  finally show ?thesis by simp
qed

lemma trim_ends:
  assumes ne: "trim s \<noteq> []"
  shows "\<not> isspace (hd (trim s)) \<and> \<not> isspace (last (trim s))"
proof
  let ?t = "dropWhile isspace s"
  have r: "dropWhile isspace (rev ?t) \<noteq> []" using ne by (simp add: trim_def)
  then have t: "?t \<noteq> []" by (cases "?t = []") simp_all
  obtain pre where "rev ?t = pre @ dropWhile isspace (rev ?t)" by (metis takeWhile_dropWhile_id)
  then have "?t = trim s @ rev pre" by (metis rev_append rev_rev_ident trim_def)
  then have "hd (trim s) = hd ?t" using ne by (metis hd_append2)
  then show "\<not> isspace (hd (trim s))" using hd_dropWhile [OF t] by simp
  show "\<not> isspace (last (trim s))" using hd_dropWhile [OF r] by (simp add: trim_def last_rev)
qed

lemma set_trim: "set (trim s) \<subseteq> set s"
  by (auto simp: trim_def dest!: set_dropWhileD)

lemma split_on_chars: "\<forall>t \<in> set (split_on p s). set t \<subseteq> {x \<in> set s. \<not> p x}"
proof (induction s)
  case (Cons x xs)
  obtain y ys where "split_on p xs = y # ys" by (cases "split_on p xs") auto
  with Cons show ?case by auto
qed simp

lemma raw_cookies_clean: "kv \<in> set (raw_cookies s) \<Longrightarrow> clean_cookie kv"
proof -
  assume "kv \<in> set (raw_cookies s)"
  then obtain t d where t: "t \<in> set (split_on (\<lambda>c. c = CHR '';'') s)" and d: "find_char CHR ''='' (trim t) = Some d"
    and kv: "kv = (take d (trim t), drop (d + 1) (trim t))"
  proof -
    from \<open>kv \<in> set (raw_cookies s)\<close> obtain t where t: "t \<in> set (split_on (\<lambda>c. c = CHR '';'') s)"
      and k: "kv \<in> set (case find_char CHR ''='' (trim t) of None \<Rightarrow> []
        | Some d \<Rightarrow> [(take d (trim t), drop (d + 1) (trim t))])"
      by (force simp: raw_cookies_def Let_def)
    show thesis
    proof (cases "find_char CHR ''='' (trim t)")
      case (Some d)
      with t k that show thesis by simp
    next
      case None
      with k show thesis by (simp del: find_char_None)
    qed
  qed
  have t': "CHR '';'' \<notin> set (trim t)" using split_on_chars [of "\<lambda>c. c = CHR '';''" s] t set_trim [of t] by auto
  from find_char_SomeD [OF d] have d': "d < length (trim t)" "trim t ! d = CHR ''=''" "CHR ''='' \<notin> set (take d (trim t))"
    by auto
  then have "trim t \<noteq> []" by (cases "trim t") simp_all
  then have ends: "\<not> isspace (hd (trim t))" "\<not> isspace (last (trim t))"
    using trim_ends [of t] by simp_all
  have "take d (trim t) \<noteq> [] \<Longrightarrow> hd (take d (trim t)) = hd (trim t)" by (cases d; cases "trim t") auto
  moreover have "drop (d + 1) (trim t) \<noteq> [] \<Longrightarrow> last (drop (d + 1) (trim t)) = last (trim t)"
    by (simp add: last_drop)
  ultimately show ?thesis
    using t' d' ends by (auto simp: clean_cookie_def kv dest: in_set_takeD in_set_dropD)
qed

lemma map_assign_clean: "list_all clean_cookie m \<Longrightarrow> clean_cookie (k, v) \<Longrightarrow> list_all clean_cookie (map_assign k v m)"
  by (induction k v m rule: map_assign.induct) auto

lemma map_assign_of: "map_of (map_assign k v m) = (map_of m)(k \<mapsto> v)"
  by (induction k v m rule: map_assign.induct) (auto simp: fun_eq_iff)

lemma map_assign_ne [simp]: "map_assign k v m \<noteq> []"
  by (induction k v m rule: map_assign.induct) auto

lemma fold_assign_clean:
  "list_all clean_cookie m \<Longrightarrow> \<forall>kv \<in> set xs. clean_cookie kv \<Longrightarrow> list_all clean_cookie (fold (\<lambda>(k, v). map_assign k v) xs m)"
  by (induction xs arbitrary: m) (auto intro: map_assign_clean)

lemma cookie_map_clean: "list_all clean_cookie (cookie_map hs)"
proof -
  have "list_all clean_cookie m \<Longrightarrow> list_all clean_cookie
     (fold (\<lambda>h m. if iequals (h_name h) ''Cookie''
                 then fold (\<lambda>(k, v). map_assign k v) (raw_cookies (h_value h)) m else m) hs m)" for m
    by (induction hs arbitrary: m) (auto intro!: fold_assign_clean raw_cookies_clean)
  then show ?thesis by (simp add: cookie_map_def)
qed

lemma get_cookie_skip:
  "\<forall>h \<in> set hs. h_name h \<noteq> ''Cookie'' \<Longrightarrow> request_get_cookie (hs @ gs) n = request_get_cookie gs n"
  by (induction hs) auto

text \<open>
  Setting a cookie on a request: \<open>get_cookie\<close> then finds the new value under its
  name, and under every other name what the \<open>Cookie\<close> headers, in whatever case they
  were written, held before.
\<close>

lemma request_cookie_roundtrip:
  assumes "clean_cookie (name, value)"
  shows "request_get_cookie (request_set_cookie hs name value) m =
    (if m = name then value else case map_of (cookie_map hs) m of Some v \<Rightarrow> v | None \<Rightarrow> [])"
proof -
  let ?cs = "map_assign name value (cookie_map hs)"
  let ?hs = "filter (\<lambda>h. \<not> iequals (h_name h) ''Cookie'') hs"
  have "request_set_cookie hs name value = ?hs @ [\<lparr>h_name = ''Cookie'', h_value = join_cookies ?cs\<rparr>]"
    by (simp add: request_set_cookie_def Let_def set_header_absent)
  moreover have "\<forall>h \<in> set ?hs. h_name h \<noteq> ''Cookie''" by auto
  moreover have "raw_cookies (join_cookies ?cs) = ?cs"
    using assms cookie_map_clean by (intro raw_cookies_join map_assign_clean) simp_all
  ultimately show ?thesis
    by (simp add: get_cookie_skip map_assign_of split: option.split)
qed

lemma request_cookie_roundtrip_witness:
  "request_get_cookie (request_set_cookie [\<lparr>h_name = ''cookie'', h_value = ''a=1; b=2''\<rparr>] ''b'' ''3'') ''b'' = ''3''"
  using request_cookie_roundtrip [of "''b''" "''3''" "[\<lparr>h_name = ''cookie'', h_value = ''a=1; b=2''\<rparr>]" "''b''"]
  by (simp add: clean_cookie_def isspace_def)

section \<open>Forms survive\<close>

text \<open>The text a form is submitted as.\<close>

fun form_text :: "(string \<times> string) list \<Rightarrow> string" where
  "form_text [] = []"
| "form_text [(k, v)] = encode_url k @ ''='' @ encode_url v"
| "form_text ((k, v) # kvs) = encode_url k @ ''='' @ encode_url v @ ''&'' @ form_text kvs"

abbreviation field_text :: "string \<times> string \<Rightarrow> string" where
  "field_text kv \<equiv> encode_url (fst kv) @ ''='' @ encode_url (snd kv)"

lemma form_text_Cons:
  "form_text (kv # kvs) = field_text kv @ (if kvs = [] then [] else CHR ''&'' # form_text kvs)"
  by (cases kvs; cases kv) simp_all

lemma field_no_sep: "\<forall>c \<in> set (field_text kv). \<not> is_param_sep c"
  using encode_url_excludes [of "CHR ''&''"] encode_url_excludes [of "CHR '';''"]
  by (auto simp: is_param_sep_def)

lemma segment_none: "\<forall>c \<in> set s. \<not> p c \<Longrightarrow> takeWhile (\<lambda>c. \<not> p c) s = s \<and> dropWhile (\<lambda>c. \<not> p c) s = []"
  by (induction s) auto

lemma segment_append:
  "\<forall>c \<in> set s. \<not> p c \<Longrightarrow> p d \<Longrightarrow>
   takeWhile (\<lambda>c. \<not> p c) (s @ d # t) = s \<and> dropWhile (\<lambda>c. \<not> p c) (s @ d # t) = d # t"
  by (induction s) auto

lemma amp_sep [simp]: "is_param_sep CHR ''&''"
  by (simp add: is_param_sep_def)

lemma split_field: "split_param (field_text kv) = (encode_url (fst kv), encode_url (snd kv))"
  using find_char_append [of "CHR ''=''" "encode_url (fst kv)" "encode_url (snd kv)"]
    encode_url_excludes [of "CHR ''=''" "fst kv"]
  by (simp add: split_param_def)

lemma add_field:
  "add_param (field_text kv) m = emplace (plus_to_space (fst kv)) (plus_to_space (snd kv)) m"
  using split_field [of kv] by (simp add: add_param_def decode_encode_url)

lemma parameters_loop_last:
  assumes "\<forall>c \<in> set s. \<not> is_param_sep c" and "s \<noteq> []"
  shows "parameters_loop s m = add_param s m"
proof -
  note seg = conjunct1 [OF segment_none [OF assms(1)]] conjunct2 [OF segment_none [OF assms(1)]]
  show ?thesis
    unfolding parameters_loop.simps [of s m] Let_def seg using assms(2)
    by (simp add: parameters_loop.simps [of "[]"])
qed

lemma parameters_loop_append:
  "\<forall>c \<in> set s. \<not> is_param_sep c \<Longrightarrow> parameters_loop (s @ CHR ''&'' # t) m = parameters_loop t (add_param s m)"
  using segment_append [of s is_param_sep "CHR ''&''" t] by (subst parameters_loop.simps) simp

lemma parameters_loop_form:
  "parameters_loop (form_text kvs) m =
     fold (\<lambda>kv. emplace (plus_to_space (fst kv)) (plus_to_space (snd kv))) kvs m"
proof (induction kvs arbitrary: m)
  case (Cons kv kvs)
  then show ?case
    using parameters_loop_last [OF field_no_sep, of kv m] parameters_loop_append [OF field_no_sep, of kv "form_text kvs" m]
      add_field [of kv m]
    by (simp add: form_text_Cons)
qed (simp add: parameters_loop.simps)

lemma emplace_mset: "mset (emplace k v m) = add_mset (k, v) (mset m)"
proof -
  have "mset m = mset (takeWhile (\<lambda>(k', _). k' \<le> k) m) + mset (dropWhile (\<lambda>(k', _). k' \<le> k) m)"
    by (metis mset_append takeWhile_dropWhile_id)
  then show ?thesis by (simp add: emplace_def)
qed

lemma emplace_sorted: "sorted (map fst m) \<Longrightarrow> sorted (map fst (emplace k v m))"
proof (induction m)
  case (Cons kv m)
  from Cons show ?case
    by (cases kv) (fastforce simp: emplace_def not_le dest: less_imp_le set_takeWhileD set_dropWhileD)
qed (simp add: emplace_def)

lemma emplace_filter:
  "sorted (map fst m) \<Longrightarrow> filter (\<lambda>x. fst x = n) (emplace k v m) = filter (\<lambda>x. fst x = n) m @ (if k = n then [(k, v)] else [])"
proof (induction m)
  case (Cons kv m)
  have none: "n < fst kv \<Longrightarrow> filter (\<lambda>x. fst x = n) m = []"
    using Cons.prems by (auto simp: filter_empty_conv)
  from Cons none show ?case by (cases kv) (auto simp: emplace_def not_le)
qed (simp add: emplace_def)

lemma fold_emplace_props:
  fixes m :: multimap
  assumes "sorted (map fst m)"
  shows "sorted (map fst (fold (\<lambda>kv. emplace (f kv) (g kv)) kvs m))
    \<and> mset (fold (\<lambda>kv. emplace (f kv) (g kv)) kvs m) = mset (m @ map (\<lambda>kv. (f kv, g kv)) kvs)
    \<and> filter (\<lambda>x. fst x = n) (fold (\<lambda>kv. emplace (f kv) (g kv)) kvs m)
      = filter (\<lambda>x. fst x = n) (m @ map (\<lambda>kv. (f kv, g kv)) kvs)"
  using assms
proof (induction kvs arbitrary: m)
  case (Cons kv kvs)
  from Cons.IH [OF emplace_sorted [OF Cons.prems, of "f kv" "g kv"]]
  show ?case using emplace_filter [OF Cons.prems, where k = "f kv" and v = "g kv" and n = n] by (simp add: emplace_mset)
qed simp

lemma fold_emplace:
  "fold (\<lambda>kv. emplace (f kv) (g kv)) kvs [] = sort_key fst (map (\<lambda>kv. (f kv, g kv)) kvs)"
proof (rule properties_for_sort_key [symmetric])
  note props = fold_emplace_props [where m = "[]" and f = f and g = g and kvs = kvs, simplified]
  show "mset (fold (\<lambda>kv. emplace (f kv) (g kv)) kvs []) = mset (map (\<lambda>kv. (f kv, g kv)) kvs)"
    using props by simp
  show "filter (\<lambda>x. fst k = fst x) (fold (\<lambda>kv. emplace (f kv) (g kv)) kvs [])
      = filter (\<lambda>x. fst k = fst x) (map (\<lambda>kv. (f kv, g kv)) kvs)" for k
    using props by (simp only: eq_commute [of "fst k"])
  show "sorted (map fst (fold (\<lambda>kv. emplace (f kv) (g kv)) kvs []))"
    using props by simp
qed

lemma form_parameters_of:
  assumes "CHR ''?'' \<notin> set path"
    and "rq_method rq = ''GET'' \<or> rq_method rq = ''PUT''" and "rq_uri rq = path @ ''?'' @ form_text kvs"
  shows "get_parameters rq = sort_key fst (map (\<lambda>(k, v). (plus_to_space k, plus_to_space v)) kvs)"
  using assms fold_emplace [where f = "\<lambda>kv. plus_to_space (fst kv)" and g = "\<lambda>kv. plus_to_space (snd kv)"]
  by (auto simp: get_parameters_def find_char_append parameters_loop_form split_beta')

lemma form_parameters_post:
  assumes "rq_method rq = ''POST''" and "rq_payload rq = form_text kvs"
    and "starts_with (get_header (rq_headers rq) ''Content-Type'') ''application/x-www-form-urlencoded''"
  shows "get_parameters rq = sort_key fst (map (\<lambda>(k, v). (plus_to_space k, plus_to_space v)) kvs)"
  using assms fold_emplace [where f = "\<lambda>kv. plus_to_space (fst kv)" and g = "\<lambda>kv. plus_to_space (snd kv)"]
  by (auto simp: get_parameters_def parameters_loop_form split_beta')

text \<open>
  C8. A form submitted in the query of a GET or in the payload of a POST: \<open>get_parameters\<close>
  holds its fields, decoded, ordered by name and the fields of one name in the order
  they were sent, but for \<open>+\<close>, which becomes a space.
\<close>

theorem form_parameters:
  assumes "rq_method rq = ''GET'' \<and> CHR ''?'' \<notin> set path \<and> rq_uri rq = path @ ''?'' @ form_text kvs
    \<or> rq_method rq = ''POST'' \<and> rq_payload rq = form_text kvs
      \<and> starts_with (get_header (rq_headers rq) ''Content-Type'') ''application/x-www-form-urlencoded''"
  shows "get_parameters rq = sort_key fst (map (\<lambda>(k, v). (plus_to_space k, plus_to_space v)) kvs)"
  using assms form_parameters_of [of path rq kvs] form_parameters_post [of rq kvs] by blast

theorem form_parameters_witness:
  "get_parameters (request_new ''GET'' ''/x?b=1&a=2&b=%3d'' (1, 1) [] []) =
   [(''a'', ''2''), (''b'', ''1''), (''b'', ''='')]"
proof -
  have "form_text [(''b'', ''1''), (''a'', ''2''), (''b'', ''='')] = ''b=1&a=2&b=%3d''"
    by code_simp
  then show ?thesis
    using form_parameters [of "request_new ''GET'' ''/x?b=1&a=2&b=%3d'' (1, 1) [] []" "''/x''"
        "[(''b'', ''1''), (''a'', ''2''), (''b'', ''='')]"]
    by (simp add: request_new_def plus_to_space_def)
qed

text \<open>What \<open>get_urlencode_parameter\<close> makes of a form.\<close>

lemma urlencode_parameter_step:
  assumes "\<forall>c \<in> set s. \<not> is_param_sep c" and "t = [] \<or> t = CHR ''&'' # r"
  shows "get_urlencode_parameter (s @ t) name =
     (if (length s = length name \<or> (length s > length name + 1 \<and> s ! length name = CHR ''='')) \<and> take (length name) s = name
      then (if length s = length name then name else decode_url (drop (length name + 1) s), True)
      else if t = [] then ([], False) else get_urlencode_parameter r name)"
proof -
  have "takeWhile (\<lambda>c. \<not> is_param_sep c) (s @ t) = s \<and> dropWhile (\<lambda>c. \<not> is_param_sep c) (s @ t) = t"
    using assms segment_none [of s is_param_sep] segment_append [of s is_param_sep "CHR ''&''" r] by auto
  then show ?thesis using assms(2) by (subst get_urlencode_parameter.simps) (auto simp: Let_def)
qed

lemma field_matches:
  assumes "CHR ''='' \<notin> set name" and "CHR ''='' \<notin> set k"
  shows "((length (k @ ''='' @ v) = length name \<or> (length (k @ ''='' @ v) > length name + 1
       \<and> (k @ ''='' @ v) ! length name = CHR ''='')) \<and> take (length name) (k @ ''='' @ v) = name)
     \<longleftrightarrow> k = name \<and> v \<noteq> []"
  using assms
proof (induction name arbitrary: k)
  case Nil
  then show ?case by (cases k) auto
next
  case (Cons c name)
  then show ?case by (cases k) auto
qed

lemma encode_url_empty [simp]: "encode_url s = [] \<longleftrightarrow> s = []"
  by (cases s) auto

lemma urlencode_parameter_form:
  assumes "name \<noteq> []" and "CHR ''='' \<notin> set name"
  shows "get_urlencode_parameter (form_text kvs) name =
     (case find (\<lambda>kv. encode_url (fst kv) = name \<and> snd kv \<noteq> []) kvs of
        Some kv \<Rightarrow> (plus_to_space (snd kv), True) | None \<Rightarrow> ([], False))"
proof (induction kvs)
  case Nil
  then show ?case using assms urlencode_parameter_step [of "[]" "[]" _ name] by simp
next
  case (Cons kv kvs)
  have eq: "CHR ''='' \<notin> set (encode_url (fst kv))" using encode_url_excludes by simp
  have t: "(if kvs = [] then [] else CHR ''&'' # form_text kvs) = []
      \<or> (if kvs = [] then [] else CHR ''&'' # form_text kvs) = CHR ''&'' # form_text kvs" by simp
  have "get_urlencode_parameter (form_text (kv # kvs)) name =
     (if encode_url (fst kv) = name \<and> encode_url (snd kv) \<noteq> []
      then (if length (field_text kv) = length name then name
            else decode_url (drop (length name + 1) (field_text kv)), True)
      else if (if kvs = [] then [] else CHR ''&'' # form_text kvs) = [] then ([], False)
      else get_urlencode_parameter (form_text kvs) name)"
    unfolding form_text_Cons urlencode_parameter_step [OF field_no_sep t]
      field_matches [OF assms(2) eq] ..
  then show ?case using Cons
    by (cases "kvs = []") (auto simp: decode_encode_url simp del: form_text.simps split: if_splits)
qed

text \<open>
  Looking up one parameter of a submitted form gives the decoded value of the first
  field of that encoded name whose value is not empty: a field that was sent with an
  empty value is reported as absent.
\<close>

lemma form_field_lookup:
  assumes "name \<noteq> []" and "CHR ''='' \<notin> set name"
    and "starts_with (get_header (rq_headers rq) ''Content-Type'') ''application/x-www-form-urlencoded''"
    and "rq_payload rq = form_text kvs" and "CHR ''?'' \<notin> set (rq_uri rq)"
  shows "get_form_parameter rq name =
     (case find (\<lambda>kv. encode_url (fst kv) = name \<and> snd kv \<noteq> []) kvs of
        Some kv \<Rightarrow> (plus_to_space (snd kv), True) | None \<Rightarrow> ([], False))"
proof -
  have "find_char CHR ''?'' (rq_uri rq) = None" using assms(5) by simp
  then show ?thesis
    using urlencode_parameter_form [OF assms(1,2), of kvs] assms(3,4)
    by (simp add: get_form_parameter_def del: find_char_None split: option.split prod.split)
qed

lemma form_field_lookup_witness:
  "get_form_parameter (request_new ''POST'' ''/'' (1, 1)
      [\<lparr>h_name = ''Content-Type'', h_value = ''application/x-www-form-urlencoded''\<rparr>] ''a=&b=2'') ''a''
   = ([], False)"
proof -
  have "form_text [(''a'', []), (''b'', ''2'')] = ''a=&b=2''"
    and "encode_url ''b'' = ''b''" by code_simp+
  then show ?thesis
    using form_field_lookup [of "''a''" "request_new ''POST'' ''/'' (1, 1)
        [\<lparr>h_name = ''Content-Type'', h_value = ''application/x-www-form-urlencoded''\<rparr>] ''a=&b=2''"
        "[(''a'', []), (''b'', ''2'')]"]
    by (simp add: request_new_def get_header.simps iequals_def)
qed

end
