(* ===== verification/Http_Reply.thy ===== *)
theory Http_Reply
  imports Http_Header Http_Request
begin

text \<open>
  The reply of \<open>lib-http/src/reply.cpp\<close> and \<open>zeep/http/reply.hpp\<close>: status texts,
  headers and cookies, content held in memory or read from a stream, stock replies
  and redirects, and the bytes sent: \<open>to_buffers\<close> and the chunks of
  \<open>data_to_buffers\<close>. The formatted date is an argument, and the XML documents and JSON
  elements that \<open>set_content\<close> takes come as the text they are written as.
\<close>

unbundle bit_operations_syntax

section \<open>Status codes\<close>

type_synonym status_type = int

definition kStatusStrings :: "(status_type \<times> string) list" where
  "kStatusStrings =
    [(100, ''Continue''), (200, ''OK''), (201, ''Created''), (202, ''Accepted''), (204, ''No Content''),
     (300, ''Multiple Choices''), (301, ''Moved Permanently''), (302, ''Found''), (303, ''See Other''),
     (304, ''Not Modified''), (400, ''Bad Request''), (401, ''Unauthorized''),
     (407, ''Proxy Authentication Required''), (403, ''Forbidden''), (404, ''Not Found''),
     (405, ''Method not allowed''), (500, ''Internal Server Error''), (501, ''Not Implemented''),
     (502, ''Bad Gateway''), (503, ''Service Unavailable'')]"

definition kStatusDescriptions :: "(status_type \<times> string) list" where
  "kStatusDescriptions =
    [(301, ''The document requested was moved permanently to a new location''),
     (302, ''The document requested was moved temporarily to a new location''),
     (303, ''The document can be found at another location''),
     (304, ''The requested document was not modified''),
     (400, ''There was an error in the request, e.g. an incorrect method or a malformed URI''),
     (401, ''You are not authorized to access this location''),
     (407, ''You are not authorized to use this proxy''),
     (403, ''Access to this location is forbidden''),
     (404, ''The requested web page was not found on this server.''),
     (500, ''An internal error prevented the server from processing your request''),
     (501, ''Your request could not be handled since the required code is not implemented''),
     (502, ''The server, while acting as a gateway or proxy, received an invalid response from the upstream server it accessed in attempting to fulfill the request. ''),
     (503, ''The service is unavailable at this moment, try again later'')]"

definition get_status_text :: "status_type \<Rightarrow> string" where
  "get_status_text status =
     (case map_of kStatusStrings status of Some t \<Rightarrow> t | None \<Rightarrow> ''Internal Service Error'')"

definition get_status_description :: "status_type \<Rightarrow> string" where
  "get_status_description status =
     (case map_of kStatusDescriptions status of Some t \<Rightarrow> t
      | None \<Rightarrow> ''An internal error prevented the server from processing your request'')"

section \<open>State\<close>

text \<open>
  A stream buffer is what is left to read; \<open>sb_seekable\<close> says whether
  \<open>pubseekoff\<close> succeeds on it.
\<close>

record streambuf =
  sb_rest :: string
  sb_seekable :: bool

record reply =
  rp_status :: status_type
  rp_major :: nat
  rp_minor :: nat
  rp_headers :: "header list"
  rp_data :: "streambuf option"
  rp_content :: string
  rp_chunked :: bool

definition reply_new :: "string \<Rightarrow> status_type \<Rightarrow> nat \<times> nat \<Rightarrow> reply" where
  "reply_new date status version =
     \<lparr>rp_status = status, rp_major = fst version, rp_minor = snd version,
      rp_headers = set_header (set_header (set_header [] ''Date'' date) ''Server'' ''libzeep'') ''Content-Length'' ''0'',
      rp_data = None, rp_content = [], rp_chunked = False\<rparr>"

definition reply_from :: "string \<Rightarrow> status_type \<Rightarrow> nat \<times> nat \<Rightarrow> header list \<Rightarrow> string \<Rightarrow> reply" where
  "reply_from date status version headers payload =
     (reply_new date status version)\<lparr>rp_headers := headers, rp_content := payload\<rparr>"

text \<open>The copy constructor, with its assertion, and the assignment, which keeps the stream.\<close>

definition reply_copy :: "reply \<Rightarrow> reply res" where
  "reply_copy rhs = (if rp_data rhs = None then ok (rhs\<lparr>rp_data := None, rp_chunked := False\<rparr>) else throw Assertion)"

definition reply_assign :: "reply \<Rightarrow> reply \<Rightarrow> reply" where
  "reply_assign self rhs =
     self\<lparr>rp_major := rp_major rhs, rp_minor := rp_minor rhs, rp_status := rp_status rhs,
          rp_headers := rp_headers rhs, rp_content := rp_content rhs\<rparr>"

text \<open>
  \<open>reset\<close> swaps with a new reply: \<open>std::swap\<close> copies that one, assigns this one to it
  and the copy to this one.
\<close>

definition reply_reset :: "string \<Rightarrow> reply \<Rightarrow> reply res" where
  "reply_reset date self =
     bind_res (reply_copy (reply_new date 500 (1, 0))) (\<lambda>t. ok (reply_assign self t))"

section \<open>Operations\<close>

definition reply_set_header :: "reply \<Rightarrow> string \<Rightarrow> string \<Rightarrow> reply" where
  "reply_set_header r name value = r\<lparr>rp_headers := set_header (rp_headers r) name value\<rparr>"

definition reply_del_header :: "reply \<Rightarrow> string \<Rightarrow> reply" where
  "reply_del_header r name = r\<lparr>rp_headers := reply_remove_header (rp_headers r) name\<rparr>"

text \<open>
  For HTTP/1.0 a stream that cannot seek is copied to the content, in reads of up to
  10240 bytes.
\<close>

function read_all :: "string \<Rightarrow> string \<Rightarrow> string" where
  "read_all content rest =
     (if rest = [] then content else read_all (content @ take 10240 rest) (drop 10240 rest))"
  by pat_completeness auto
termination
  by (relation "measure (\<lambda>(content, rest). length rest)") auto

declare read_all.simps [simp del]

definition set_version :: "reply \<Rightarrow> nat \<times> nat \<Rightarrow> reply" where
  "set_version r version =
     (let r = r\<lparr>rp_major := fst version, rp_minor := snd version\<rparr>
      in case rp_data r of
           None \<Rightarrow> r
         | Some d \<Rightarrow>
             if rp_major r = 1 \<and> rp_minor r = 0 then
               (let r = r\<lparr>rp_chunked := False\<rparr>;
                    len = length (sb_rest d);
                    r = (if \<not> sb_seekable d
                         then r\<lparr>rp_content := read_all (rp_content r) (sb_rest d), rp_data := None\<rparr>
                         else r);
                    r = reply_set_header r ''Content-Length'' (nat_to_string len)
                in reply_del_header r ''Transfer-Encoding'')
             else r)"

definition reply_set_cookie :: "reply \<Rightarrow> string \<Rightarrow> string \<Rightarrow> header list \<Rightarrow> reply" where
  "reply_set_cookie r name value directives =
     (let vs = name @ ''='' @ value
               @ concat (map (\<lambda>d. ''; '' @ h_name d @ (if h_value d = [] then [] else ''='' @ h_value d)) directives)
      in r\<lparr>rp_headers := rp_headers r @ [\<lparr>h_name = ''Set-Cookie'', h_value = vs\<rparr>]\<rparr>)"

definition set_delete_cookie :: "string \<Rightarrow> reply \<Rightarrow> string \<Rightarrow> reply" where
  "set_delete_cookie yesterday r name =
     reply_set_cookie r name [] [\<lparr>h_name = ''Expires'', h_value = [CHR 0x22] @ yesterday @ [CHR 0x22]\<rparr>]"

text \<open>
  \<open>get_cookie\<close> assigns the whole header to its result before it looks at the name, so
  the last \<open>Set-Cookie\<close> header is returned when none matches.
\<close>

fun reply_get_cookie_loop :: "string \<Rightarrow> header list \<Rightarrow> string \<Rightarrow> string" where
  "reply_get_cookie_loop result [] name = result"
| "reply_get_cookie_loop result (h # hs) name =
     (if iequals (h_name h) ''Set-Cookie'' then
        (let result = h_value h in
         case find_char CHR ''='' result of
           None \<Rightarrow> reply_get_cookie_loop result hs name
         | Some ns \<Rightarrow>
             if take ns result \<noteq> name then reply_get_cookie_loop result hs name
             else (let rest = drop (ns + 1) result
                   in case find_char CHR '';'' rest of Some ds \<Rightarrow> take ds rest | None \<Rightarrow> rest))
      else reply_get_cookie_loop result hs name)"

definition reply_get_cookie :: "reply \<Rightarrow> string \<Rightarrow> string" where
  "reply_get_cookie r name = reply_get_cookie_loop [] (rp_headers r) name"

definition set_content :: "reply \<Rightarrow> string \<Rightarrow> string \<Rightarrow> reply" where
  "set_content r data contentType =
     (let r = r\<lparr>rp_content := data, rp_status := 200, rp_data := None, rp_chunked := False\<rparr>;
          r = reply_set_header r ''Content-Length'' (nat_to_string (length data));
          r = reply_del_header r ''Transfer-Encoding''
      in reply_set_header r ''Content-Type'' contentType)"

definition set_content_stream :: "reply \<Rightarrow> streambuf \<Rightarrow> string \<Rightarrow> reply" where
  "set_content_stream r idata contentType =
     (let r = r\<lparr>rp_data := Some idata, rp_content := [], rp_status := 200, rp_chunked := True\<rparr>;
          r = reply_set_header r ''Content-Type'' contentType;
          r = reply_set_header r ''Transfer-Encoding'' ''chunked''
      in reply_del_header r ''Content-Length'')"

section \<open>Bytes on the wire\<close>

definition status_line :: "reply \<Rightarrow> string" where
  "status_line r =
     ''HTTP/'' @ nat_to_string (rp_major r) @ ''.'' @ nat_to_string (rp_minor r) @ '' ''
     @ int_to_string (rp_status r) @ '' '' @ get_status_text (rp_status r) @ kCRLF"

definition to_buffers :: "reply \<Rightarrow> string" where
  "to_buffers r = status_line r @ header_lines (rp_headers r) @ kCRLF @ rp_content r"

definition kMaxChunkSize :: nat where
  "kMaxChunkSize = 10240"

text \<open>The loop writes the digits from the end of \<open>m_size_buffer\<close>, eight characters.\<close>

fun chunk_size :: "nat \<Rightarrow> string \<Rightarrow> string" where
  "chunk_size n acc = (if n = 0 then acc else chunk_size (n div 16) (hex_chars ! (n mod 16) # acc))"

declare chunk_size.simps [simp del]

text \<open>
  \<open>data_to_buffers\<close> returns the buffers to send; the caller asks again until there
  are none. The result is \<open>None\<close> when the list of buffers is empty.
\<close>

definition data_to_buffers :: "reply \<Rightarrow> string option \<times> reply" where
  "data_to_buffers r =
     (case rp_data r of
        None \<Rightarrow> (None, r)
      | Some d \<Rightarrow>
          (let buf = take kMaxChunkSize (sb_rest d);
               r' = r\<lparr>rp_data := Some (d\<lparr>sb_rest := drop kMaxChunkSize (sb_rest d)\<rparr>)\<rparr>
           in if rp_chunked r then
                (if buf = [] then (Some (''0'' @ kCRLF @ kCRLF), r\<lparr>rp_data := None\<rparr>)
                 else (Some (chunk_size (length buf) [] @ kCRLF @ buf @ kCRLF), r'))
              else
                (if buf \<noteq> [] then (Some buf, r') else (None, r\<lparr>rp_data := None\<rparr>))))"

definition reply_size :: "reply \<Rightarrow> nat" where
  "reply_size r = length (to_buffers r)"

section \<open>Stock replies\<close>

fun escape_info :: "string \<Rightarrow> string" where
  "escape_info [] = []"
| "escape_info (c # s) =
     (if c = CHR ''&'' then ''&amp;''
      else if c = CHR ''<'' then ''&lt;''
      else if c = CHR ''>'' then ''&gt;''
      else if code c = 0 then []
      else if (1 \<le> code c \<and> code c \<le> 8) \<or> (0x0b \<le> code c \<and> code c \<le> 0x0c)
           \<or> (0x0e \<le> code c \<and> code c \<le> 0x1f) \<or> code c = 0x7f
           then ''&#'' @ [c] @ '';''
      else [c]) @ escape_info s"

definition stock_reply :: "string \<Rightarrow> status_type \<Rightarrow> string \<Rightarrow> reply" where
  "stock_reply date status info =
     (let result = reply_new date 500 (1, 0);
          nl = [LFs];
          result =
            (if status \<noteq> 304 then
               set_content result
                 (''<html>'' @ nl @ ''  <body>'' @ nl @ ''    <h1>'' @ get_status_text status @ ''</h1>'' @ nl
                  @ (if info \<noteq> [] then ''    <p>'' @ escape_info info @ ''</p>'' @ nl else [])
                  @ ''  </body>'' @ nl @ ''</html>'')
                 ''text/html; charset=utf-8''
             else result)
      in result\<lparr>rp_status := status\<rparr>)"

definition redirect :: "string \<Rightarrow> string \<Rightarrow> status_type \<Rightarrow> reply" where
  "redirect date location status =
     (let result = (reply_new date 500 (1, 0))\<lparr>rp_status := status\<rparr>;
          txt = get_status_text status;
          result = result\<lparr>rp_content :=
            ''<html><head><title>'' @ txt @ ''</title></head><body><h1>''
            @ int_to_string status @ '' '' @ txt @ ''</h1></body></html>''\<rparr>;
          result = reply_set_header result ''Location'' location;
          result = reply_set_header result ''Content-Length'' (nat_to_string (length (rp_content result)))
      in reply_set_header result ''Content-Type'' ''text/html; charset=utf-8'')"

section \<open>Replies tell their length\<close>

lemma iequals_lengths [simp]:
  "\<not> iequals ''Location'' ''Content-Length''" "\<not> iequals ''Content-Type'' ''Content-Length''"
  "\<not> iequals ''Transfer-Encoding'' ''Content-Length''" "iequals ''Content-Length'' ''Content-Length''"
  by (simp_all add: iequals_def)

lemma set_content_length:
  "get_header (rp_headers (set_content r d t)) ''Content-Length'' = nat_to_string (length (rp_content (set_content r d t)))"
  by (simp add: set_content_def reply_set_header_def reply_del_header_def Let_def get_set_header get_reply_remove)

text \<open>
  A stock reply and a redirect, for every status and text, announce in their
  \<open>Content-Length\<close> header the length of the content they carry, and have no stream.
\<close>

lemma stock_replies_length:
  "let r = stock_reply date status info; r' = redirect date location status in
     get_header (rp_headers r) ''Content-Length'' = nat_to_string (length (rp_content r))
     \<and> get_header (rp_headers r') ''Content-Length'' = nat_to_string (length (rp_content r'))
     \<and> rp_data r = None \<and> rp_data r' = None \<and> rp_status r = status \<and> rp_status r' = status"
proof -
  have "get_header (rp_headers (stock_reply date status info)) ''Content-Length''
      = nat_to_string (length (rp_content (stock_reply date status info)))"
  proof (cases "status = 304")
    case True
    moreover have "nat_to_string 0 = ''0''" by code_simp
    ultimately show ?thesis
      by (simp add: stock_reply_def reply_new_def get_set_header Let_def)
  next
    case False
    then show ?thesis using set_content_length by (simp add: stock_reply_def Let_def)
  qed
  then show ?thesis
    by (simp add: redirect_def stock_reply_def set_content_def reply_new_def reply_set_header_def reply_del_header_def
        get_set_header Let_def)
qed

lemma escape_info_chars: "set (escape_info s) \<inter> {CHR ''<'', CHR ''>''} = {}"
  by (induction s) auto

lemma escape_info_plain:
  "list_all (\<lambda>c. code c \<noteq> 0 \<and> c \<notin> {CHR ''&'', CHR ''<'', CHR ''>''} \<and> (code c \<ge> 32 \<or> code c \<in> {9, 10, 13}) \<and> code c \<noteq> 127) s \<Longrightarrow>
   escape_info s = s"
  by (induction s) auto

text \<open>
  The text put into a stock reply opens no markup, whatever it is, and is left
  alone when it needs no escape; a control character is written raw between
  \<open>&#\<close> and \<open>;\<close> and not as a number, so the reference is not well-formed.
\<close>

lemma escape_info_safe:
  "set (escape_info s) \<inter> {CHR ''<'', CHR ''>''} = {}
   \<and> escape_info (filter (\<lambda>c. code c \<ge> 32 \<and> code c \<noteq> 127 \<and> c \<notin> {CHR ''&'', CHR ''<'', CHR ''>''}) s)
     = filter (\<lambda>c. code c \<ge> 32 \<and> code c \<noteq> 127 \<and> c \<notin> {CHR ''&'', CHR ''<'', CHR ''>''}) s
   \<and> escape_info [CHR 0x07] = ''&#'' @ [CHR 0x07] @ '';''"
proof -
  have "escape_info (filter (\<lambda>c. code c \<ge> 32 \<and> code c \<noteq> 127 \<and> c \<notin> {CHR ''&'', CHR ''<'', CHR ''>''}) s)
     = filter (\<lambda>c. code c \<ge> 32 \<and> code c \<noteq> 127 \<and> c \<notin> {CHR ''&'', CHR ''<'', CHR ''>''}) s"
    by (rule escape_info_plain) (auto simp: list_all_iff)
  then show ?thesis using escape_info_chars by simp
qed

section \<open>Cookies of a reply\<close>

text \<open>The value a \<open>Set-Cookie\<close> header gives the cookie of a name, if it is that cookie's.\<close>

definition set_cookie_value :: "string \<Rightarrow> header \<Rightarrow> string option" where
  "set_cookie_value name h =
     (if iequals (h_name h) ''Set-Cookie'' then
        (case find_char CHR ''='' (h_value h) of
           Some ns \<Rightarrow> (if take ns (h_value h) = name then Some (takeWhile (\<lambda>c. c \<noteq> CHR '';'') (drop (ns + 1) (h_value h))) else None)
         | None \<Rightarrow> None)
      else None)"

lemma find_char_takeWhile:
  "(case find_char c s of Some d \<Rightarrow> take d s | None \<Rightarrow> s) = takeWhile (\<lambda>x. x \<noteq> c) s"
proof (induction s)
  case (Cons x xs)
  then show ?case by (cases "find_char c xs") (auto simp del: find_char_None)
qed simp

lemma get_cookie_loop_append:
  "reply_get_cookie_loop res (hs @ [h]) n =
     (case List.map_filter (set_cookie_value n) hs of v # _ \<Rightarrow> v
      | [] \<Rightarrow> reply_get_cookie_loop (reply_get_cookie_loop res hs n) [h] n)"
proof (induction hs arbitrary: res)
  case (Cons g hs)
  show ?case
  proof (cases "set_cookie_value n g")
    case None
    then have loop: "reply_get_cookie_loop res (g # gs) n
        = reply_get_cookie_loop (if iequals (h_name g) ''Set-Cookie'' then h_value g else res) gs n" for gs
      by (auto simp: set_cookie_value_def Let_def simp del: find_char_None split: option.splits if_splits)
    from None Cons show ?thesis
      by (simp add: List.map_filter_simps loop del: reply_get_cookie_loop.simps(2) split: list.split)
  next
    case (Some v)
    then obtain ns where "iequals (h_name g) ''Set-Cookie''" "find_char CHR ''='' (h_value g) = Some ns"
      "take ns (h_value g) = n" and v: "v = takeWhile (\<lambda>c. c \<noteq> CHR '';'') (drop (ns + 1) (h_value g))"
      by (auto simp: set_cookie_value_def split: option.splits if_splits)
    then have "reply_get_cookie_loop res (g # gs) n = v" for gs
      by (simp add: Let_def find_char_takeWhile v)
    with Some show ?thesis by (simp add: List.map_filter_simps)
  qed
qed (simp add: List.map_filter_simps)

lemma cookie_text_find:
  "CHR ''='' \<notin> set n \<Longrightarrow> find_char CHR ''='' (n @ ''='' @ v) = Some (length n)"
  using find_char_append [of "CHR ''=''" n v] by simp

text \<open>
  After \<open>set_cookie\<close> a reply's \<open>get_cookie\<close> gives the value an earlier
  \<open>Set-Cookie\<close> header of that name gave, or else the new value; for a cookie that was
  never set it returns, instead of nothing, the whole text of the header just added.
\<close>

lemma reply_cookie_lookup:
  fixes name val :: string
  assumes "CHR ''='' \<notin> set name" and "CHR '';'' \<notin> set val"
  shows "reply_get_cookie (reply_set_cookie r name val directives) m =
    (case List.map_filter (set_cookie_value m) (rp_headers r) of
       v # _ \<Rightarrow> v
     | [] \<Rightarrow> if m = name then val
             else h_value (last (rp_headers (reply_set_cookie r name val directives))))"
proof -
  define ds where "ds = concat (map (\<lambda>d. ''; '' @ h_name d @ (if h_value d = [] then [] else ''='' @ h_value d)) directives)"
  have "takeWhile (\<lambda>c. c \<noteq> CHR '';'') (val @ ds) = val"
    using assms(2) by (cases directives) (auto simp: ds_def takeWhile_tail)
  then have "reply_get_cookie_loop res [\<lparr>h_name = ''Set-Cookie'', h_value = name @ ''='' @ val @ ds\<rparr>] m
     = (if m = name then val else name @ ''='' @ val @ ds)" for res
    using cookie_text_find [OF assms(1), of "val @ ds"] find_char_takeWhile [where c = "CHR '';''" and s = "val @ ds"]
    by (auto simp: Let_def iequals_def)
  then show ?thesis
    by (cases "m = name") (auto simp: reply_get_cookie_def reply_set_cookie_def Let_def get_cookie_loop_append ds_def [symmetric]
        simp del: append_Cons reply_get_cookie_loop.simps
        split: list.split)
qed

lemma reply_cookie_lookup_witness:
  "reply_get_cookie (reply_set_cookie (reply_new [] 200 (1, 0)) ''a'' ''1'' []) ''b'' = ''a=1''"
  using reply_cookie_lookup [of "''a''" "''1''" "reply_new [] 200 (1, 0)" "[]" "''b''"]
  by (simp add: reply_new_def set_header.simps reply_set_cookie_def List.map_filter_simps set_cookie_value_def iequals_def)

text \<open>
  \<open>reset\<close> gives a reply the status, version, headers and content of a new one, but
  the stream it was sending and whether it is chunked stay: the next
  \<open>data_to_buffers\<close> goes on with the stream of the reply before.
\<close>

lemma reset_keeps_stream:
  "\<exists>r'. reply_reset date r = ok r'
     \<and> rp_status r' = 500 \<and> rp_content r' = [] \<and> rp_headers r' = rp_headers (reply_new date 500 (1, 0))
     \<and> rp_data r' = rp_data r \<and> fst (data_to_buffers r') = fst (data_to_buffers r)"
  by (simp add: reply_reset_def reply_copy_def reply_assign_def reply_new_def data_to_buffers_def Let_def split: option.split)

end
