(* ===== verification/Http_Parser.thy ===== *)
theory Http_Parser
  imports Http_Header Http_Request Http_Reply
begin

text \<open>
  The incremental HTTP parsers of \<open>lib-http/src/message-parser.cpp\<close>: the character
  driven state machines for header lines, chunked and plain content, the initial lines
  of requests and replies, and the loops that feed them from a stream buffer. The
  member function pointer \<open>m_parser\<close> is a datatype, a \<open>boost::tribool\<close> a \<open>bool option\<close>
  with \<open>None\<close> for indeterminate, and \<open>m_chunk_size\<close> a 32-bit word that wraps.
\<close>

type_synonym tribool = "bool option"

abbreviation indeterminate :: tribool where
  "indeterminate \<equiv> None"

abbreviation failed :: tribool where
  "failed \<equiv> Some False"

abbreviation complete :: tribool where
  "complete \<equiv> Some True"

section \<open>Reading numbers\<close>

text \<open>
  \<open>s >> m_chunk_size\<close> for an \<open>unsigned int\<close>: white space is skipped, a sign accepted,
  the number ends at the first character that is no digit, no digits give 0, too many
  the largest value, and a minus negates modulo \<open>2 ^ 32\<close>.
\<close>

definition digits_value :: "nat \<Rightarrow> (char \<Rightarrow> nat) \<Rightarrow> string \<Rightarrow> nat" where
  "digits_value base val s = foldl (\<lambda>a c. base * a + val c) 0 s"

definition clamp32 :: "nat \<Rightarrow> u32" where
  "clamp32 n = (if n < 2 ^ 32 then word_of_nat n else - 1)"

definition stream_unsigned :: "string \<Rightarrow> u32" where
  "stream_unsigned s =
     (let s = dropWhile isspace s;
          (neg, s) = (case s of [] \<Rightarrow> (False, [])
                      | c # r \<Rightarrow> if c = CHR ''-'' then (True, r)
                                 else if c = CHR ''+'' then (False, r) else (False, c # r));
          ds = takeWhile isdigit s;
          n = digits_value 10 digit_val ds
      in if ds = [] then 0 else if neg \<and> n < 2 ^ 32 then - clamp32 n else clamp32 n)"

text \<open>The hexadecimal read, on a string of hexadecimal digits.\<close>

definition hex_val :: "char \<Rightarrow> nat" where
  "hex_val c = (case hex_digit_value c of Some v \<Rightarrow> v | None \<Rightarrow> 0)"

definition stream_hex_unsigned :: "string \<Rightarrow> u32" where
  "stream_hex_unsigned s = clamp32 (digits_value 16 hex_val s)"

section \<open>The parser\<close>

datatype parser_fn = No_parser | Initial_line | Header_lines | Chunk | Content

record parser =
  m_parser :: parser_fn
  m_state :: nat
  m_chunk_size :: u32
  m_buf :: string
  m_uri :: string
  m_method :: string
  m_parsing_content :: bool
  m_collect_payload :: bool
  m_http_version_major :: nat
  m_http_version_minor :: nat
  m_headers :: "header list"
  m_payload :: string

record reply_parser = parser +
  m_status :: int
  m_status_line :: string

definition is_tspecial :: "char \<Rightarrow> bool" where
  "is_tspecial c \<longleftrightarrow> c \<in> set (''()<>@,;:'' @ [CHR 0x5C, CHR 0x22] @ ''/[]?={} '' @ [CHR 0x09])"

text \<open>
  \<open>reset\<close> clears everything but the headers and the payload; they are empty after
  \<open>get_request\<close> or \<open>get_reply\<close>, which move them out.
\<close>

definition parser_reset :: "'a parser_scheme \<Rightarrow> 'a parser_scheme" where
  "parser_reset p = p\<lparr>m_parser := No_parser, m_state := 0, m_chunk_size := 0, m_buf := [], m_uri := [],
     m_method := [], m_parsing_content := False, m_collect_payload := True,
     m_http_version_major := 1, m_http_version_minor := 0\<rparr>"

definition request_parser_new :: parser where
  "request_parser_new = parser_reset
     \<lparr>m_parser = No_parser, m_state = 0, m_chunk_size = 0, m_buf = [], m_uri = [], m_method = [],
      m_parsing_content = False, m_collect_payload = True, m_http_version_major = 1,
      m_http_version_minor = 0, m_headers = [], m_payload = []\<rparr>"

definition reply_parser_new :: reply_parser where
  "reply_parser_new = parser_reset
     \<lparr>m_parser = No_parser, m_state = 0, m_chunk_size = 0, m_buf = [], m_uri = [], m_method = [],
      m_parsing_content = False, m_collect_payload = True, m_http_version_major = 1,
      m_http_version_minor = 0, m_headers = [], m_payload = [], m_status = 0, m_status_line = []\<rparr>"

definition reply_parser_reset :: "reply_parser \<Rightarrow> reply_parser" where
  "reply_parser_reset p = (parser_reset p)\<lparr>m_status := 0, m_status_line := []\<rparr>"

text \<open>
  \<open>m_headers.back()\<close>, changed in place. It is only reached with a header on the list,
  which the invariant \<open>wf_parser\<close> below shows.
\<close>

definition back_name :: "char \<Rightarrow> header list \<Rightarrow> header list" where
  "back_name ch hs = (if hs = [] then [] else butlast hs @ [(last hs)\<lparr>h_name := h_name (last hs) @ [ch]\<rparr>])"

definition back_value :: "char \<Rightarrow> header list \<Rightarrow> header list" where
  "back_value ch hs = (if hs = [] then [] else butlast hs @ [(last hs)\<lparr>h_value := h_value (last hs) @ [ch]\<rparr>])"

text \<open>
  The loop over the headers at the end of the header section. It stops at the first
  header that asks for chunks.
\<close>

definition is_chunked :: "header \<Rightarrow> bool" where
  "is_chunked h \<longleftrightarrow> iequals (h_name h) ''Transfer-Encoding'' \<and> iequals (h_value h) ''chunked''"

definition scan_header :: "header \<Rightarrow> 'a parser_scheme \<Rightarrow> 'a parser_scheme" where
  "scan_header h p =
     (if iequals (h_name h) ''Content-Length'' then
        (let p = p\<lparr>m_chunk_size := stream_unsigned (h_value h)\<rparr>
         in if m_chunk_size p > 0 then p\<lparr>m_parser := Content, m_parsing_content := True\<rparr>
            else p\<lparr>m_parsing_content := False\<rparr>)
      else if iequals (h_name h) ''Connection'' \<and> iequals (h_value h) ''Close''
              \<and> (m_method p = ''POST'' \<or> m_method p = ''PUT'')
      then p\<lparr>m_parser := Content, m_parsing_content := True\<rparr>
      else p)"

fun scan_headers :: "header list \<Rightarrow> 'a parser_scheme \<Rightarrow> 'a parser_scheme" where
  "scan_headers [] p = p"
| "scan_headers (h # hs) p =
     (if is_chunked h then p\<lparr>m_parser := Chunk, m_state := 0, m_parsing_content := True\<rparr>
      else scan_headers hs (scan_header h p))"

definition parse_header_lines :: "'a parser_scheme \<Rightarrow> char \<Rightarrow> tribool \<times> 'a parser_scheme" where
  "parse_header_lines p ch =
     (let st = m_state p in
      if st = 0 then
        (if ch = CRs then (indeterminate, p\<lparr>m_state := 20\<rparr>)
         else if (ch = CHR '' '' \<or> ch = CHR 0x09) \<and> m_headers p \<noteq> [] then (indeterminate, p\<lparr>m_state := 10\<rparr>)
         else if iscntrl ch \<or> is_tspecial ch then (failed, p)
         else (indeterminate, p\<lparr>m_headers := m_headers p @ [\<lparr>h_name = [ch], h_value = []\<rparr>], m_state := 1\<rparr>))
      else if st = 1 then
        (if ch = CHR '':'' then (indeterminate, p\<lparr>m_state := st + 1\<rparr>)
         else if iscntrl ch \<or> is_tspecial ch then (failed, p)
         else (indeterminate, p\<lparr>m_headers := back_name ch (m_headers p)\<rparr>))
      else if st = 2 then
        (if ch = CHR '' '' then (indeterminate, p\<lparr>m_state := st + 1\<rparr>) else (failed, p))
      else if st = 3 then
        (if ch = CRs then (indeterminate, p\<lparr>m_state := st + 2\<rparr>)
         else if ch \<noteq> CHR '' ''
         then (indeterminate, p\<lparr>m_headers := back_value ch (m_headers p), m_state := st + 1\<rparr>)
         else (indeterminate, p))
      else if st = 4 then
        (if ch = CRs then (indeterminate, p\<lparr>m_state := st + 1\<rparr>)
         else (indeterminate, p\<lparr>m_headers := back_value ch (m_headers p)\<rparr>))
      else if st = 5 then
        (if ch = LFs then (indeterminate, p\<lparr>m_state := 0\<rparr>) else (failed, p))
      else if st = 10 then
        (if ch = CRs then (indeterminate, p\<lparr>m_state := 4\<rparr>)
         else if iscntrl ch then (failed, p)
         else if \<not> (ch = CHR '' '' \<or> ch = CHR 0x09)
         then (indeterminate, p\<lparr>m_headers := back_value ch (m_headers p), m_state := 3\<rparr>)
         else (indeterminate, p))
      else if st = 20 then
        (if ch = LFs then (complete, scan_headers (m_headers p) p) else (failed, p))
      else (indeterminate, p))"

definition parse_chunk :: "'a parser_scheme \<Rightarrow> char \<Rightarrow> tribool \<times> 'a parser_scheme" where
  "parse_chunk p ch =
     (let st = m_state p in
      if st = 0 then
        (if isxdigit ch then (indeterminate, p\<lparr>m_buf := [ch], m_state := st + 1\<rparr>) else (failed, p))
      else if st = 1 then
        (if isxdigit ch then (indeterminate, p\<lparr>m_buf := m_buf p @ [ch]\<rparr>)
         else if ch = CHR '';'' then (indeterminate, p\<lparr>m_state := st + 1\<rparr>)
         else if ch = CRs then (indeterminate, p\<lparr>m_state := 3\<rparr>)
         else (failed, p))
      else if st = 2 then
        (if ch = CRs then (indeterminate, p\<lparr>m_state := st + 1\<rparr>)
         else if is_tspecial ch \<or> iscntrl ch then (failed, p)
         else (indeterminate, p))
      else if st = 3 then
        (if ch = LFs then
           (let p = p\<lparr>m_chunk_size := stream_hex_unsigned (m_buf p)\<rparr>
            in if m_chunk_size p > 0 then (indeterminate, p\<lparr>m_state := st + 1\<rparr>)
               else (indeterminate, p\<lparr>m_state := 10\<rparr>))
         else (failed, p))
      else if st = 4 then
        (let p = (if m_collect_payload p then p\<lparr>m_payload := m_payload p @ [ch]\<rparr> else p);
             p = p\<lparr>m_chunk_size := m_chunk_size p - 1\<rparr>
         in (indeterminate, if m_chunk_size p = 0 then p\<lparr>m_state := 5\<rparr> else p))
      else if st = 5 then
        (if ch = CRs then (indeterminate, p\<lparr>m_state := st + 1\<rparr>) else (failed, p))
      else if st = 6 then
        (if ch = LFs then (indeterminate, p\<lparr>m_state := 0\<rparr>) else (failed, p))
      else if st = 10 then
        (if ch = CRs then (indeterminate, p\<lparr>m_state := st + 1\<rparr>) else (failed, p))
      else if st = 11 then
        (if ch = LFs then (complete, p) else (failed, p))
      else (indeterminate, p))"

definition parse_content :: "'a parser_scheme \<Rightarrow> char \<Rightarrow> tribool \<times> 'a parser_scheme" where
  "parse_content p ch =
     (let p = (if m_collect_payload p then p\<lparr>m_payload := m_payload p @ [ch]\<rparr> else p);
          p = p\<lparr>m_chunk_size := m_chunk_size p - 1\<rparr>
      in if m_chunk_size p = 0 then (complete, p\<lparr>m_parsing_content := False\<rparr>)
         else (indeterminate, p))"

section \<open>Initial lines\<close>

text \<open>A state that expects one character and moves to the next.\<close>

definition expect :: "char \<Rightarrow> 'a parser_scheme \<Rightarrow> char \<Rightarrow> tribool \<times> 'a parser_scheme" where
  "expect c p ch = (if ch = c then (indeterminate, p\<lparr>m_state := m_state p + 1\<rparr>) else (failed, p))"

text \<open>The character that must follow \<open>HTTP/1\<close>, and the minor version.\<close>

definition after_major :: "'a parser_scheme \<Rightarrow> char \<Rightarrow> tribool \<times> 'a parser_scheme" where
  "after_major p ch =
     (if ch = CHR ''.'' then (indeterminate, p\<lparr>m_state := m_state p + 1\<rparr>)
      else if ch = CRs then (indeterminate, p\<lparr>m_state := 11\<rparr>) else (failed, p))"

definition minor_version :: "'a parser_scheme \<Rightarrow> char \<Rightarrow> tribool \<times> 'a parser_scheme" where
  "minor_version p ch =
     (if ch = CHR ''1'' \<or> ch = CHR ''0''
      then (let p = (if ch = CHR ''1'' then p\<lparr>m_http_version_minor := 1\<rparr> else p)
            in (indeterminate, p\<lparr>m_state := m_state p + 1\<rparr>))
      else (failed, p))"

definition to_header_lines :: "'a parser_scheme \<Rightarrow> char \<Rightarrow> tribool \<times> 'a parser_scheme" where
  "to_header_lines p ch =
     (if ch = LFs then (indeterminate, p\<lparr>m_state := 0, m_parser := Header_lines\<rparr>) else (failed, p))"

definition request_initial_line :: "parser \<Rightarrow> char \<Rightarrow> tribool \<times> parser" where
  "request_initial_line p ch =
     (let st = m_state p in
      if st = 0 then
        (if isalpha ch then (indeterminate, p\<lparr>m_method := m_method p @ [ch]\<rparr>)
         else if ch = CHR '' '' then (indeterminate, p\<lparr>m_state := st + 1\<rparr>)
         else (failed, p))
      else if st = 1 then
        (if ch = CHR '' '' then (indeterminate, p\<lparr>m_state := st + 1\<rparr>)
         else if iscntrl ch then (failed, p)
         else (indeterminate, p\<lparr>m_uri := m_uri p @ [ch]\<rparr>))
      else if st = 2 then expect CHR ''H'' p ch
      else if st = 3 then expect CHR ''T'' p ch
      else if st = 4 then expect CHR ''T'' p ch
      else if st = 5 then expect CHR ''P'' p ch
      else if st = 6 then expect CHR ''/'' p ch
      else if st = 7 then expect CHR ''1'' p ch
      else if st = 8 then after_major p ch
      else if st = 9 then minor_version p ch
      else if st = 10 then expect CRs p ch
      else if st = 11 then to_header_lines p ch
      else (indeterminate, p))"

text \<open>A digit of the status code, and a white space character.\<close>

definition status_digit :: "(int \<Rightarrow> int \<Rightarrow> int) \<Rightarrow> reply_parser \<Rightarrow> char \<Rightarrow> tribool \<times> reply_parser" where
  "status_digit f p ch =
     (if isdigit ch
      then (indeterminate, p\<lparr>m_status := f (m_status p) (int (digit_val ch)), m_state := m_state p + 1\<rparr>)
      else (failed, p))"

definition expect_space :: "'a parser_scheme \<Rightarrow> char \<Rightarrow> tribool \<times> 'a parser_scheme" where
  "expect_space p ch = (if isspace ch then (indeterminate, p\<lparr>m_state := m_state p + 1\<rparr>) else (failed, p))"

definition reply_initial_line :: "reply_parser \<Rightarrow> char \<Rightarrow> tribool \<times> reply_parser" where
  "reply_initial_line p ch =
     (let st = m_state p in
      if st = 0 then expect CHR ''H'' p ch
      else if st = 1 then expect CHR ''T'' p ch
      else if st = 2 then expect CHR ''T'' p ch
      else if st = 3 then expect CHR ''P'' p ch
      else if st = 4 then expect CHR ''/'' p ch
      else if st = 5 then expect CHR ''1'' p ch
      else if st = 6 then after_major p ch
      else if st = 7 then minor_version p ch
      else if st = 8 then expect_space p ch
      else if st = 9 then status_digit (\<lambda>s d. 100 * d) p ch
      else if st = 10 then status_digit (\<lambda>s d. s + 10 * d) p ch
      else if st = 11 then status_digit (\<lambda>s d. s + 1 * d) p ch
      else if st = 12 then expect_space p ch
      else if st = 13 then
        (if ch = CRs then (indeterminate, p\<lparr>m_state := st + 1\<rparr>)
         else (indeterminate, p\<lparr>m_status_line := m_status_line p @ [ch]\<rparr>))
      else if st = 14 then to_header_lines p ch
      else (indeterminate, p))"

section \<open>Feeding the machine\<close>

text \<open>The call through \<open>m_parser\<close>; \<open>parse\<close> has replaced a null pointer before.\<close>

definition run_parser ::
  "('a parser_scheme \<Rightarrow> char \<Rightarrow> tribool \<times> 'a parser_scheme) \<Rightarrow> 'a parser_scheme \<Rightarrow> char \<Rightarrow> tribool \<times> 'a parser_scheme" where
  "run_parser initial p ch =
     (case m_parser p of
        No_parser \<Rightarrow> initial p ch
      | Initial_line \<Rightarrow> initial p ch
      | Header_lines \<Rightarrow> parse_header_lines p ch
      | Chunk \<Rightarrow> parse_chunk p ch
      | Content \<Rightarrow> parse_content p ch)"

text \<open>
  The loop of both \<open>parse\<close> functions, over any step; the flag is the local variable
  \<open>is_parsing_content\<close>. It returns the result, the parser and the text not consumed.
\<close>

fun parse_loop ::
  "('p \<Rightarrow> char \<Rightarrow> tribool \<times> 'p) \<Rightarrow> ('p \<Rightarrow> bool) \<Rightarrow> bool \<Rightarrow> 'p \<Rightarrow> string \<Rightarrow> tribool \<times> 'p \<times> string" where
  "parse_loop step content flag p [] = (indeterminate, p, [])"
| "parse_loop step content flag p (ch # txt) =
     (let (result, p) = step p ch
      in if result = complete \<and> \<not> flag \<and> content p then parse_loop step content True p txt
         else if result = indeterminate then parse_loop step content flag p txt
         else (result, p, txt))"

definition start_parser :: "'a parser_scheme \<Rightarrow> 'a parser_scheme" where
  "start_parser p = (if m_parser p = No_parser then p\<lparr>m_parser := Initial_line, m_parsing_content := False\<rparr> else p)"

definition request_parse :: "parser \<Rightarrow> string \<Rightarrow> tribool \<times> parser \<times> string" where
  "request_parse p txt =
     (let p = start_parser p
      in parse_loop (run_parser request_initial_line) m_parsing_content (m_parsing_content p) p txt)"

definition reply_parse :: "reply_parser \<Rightarrow> string \<Rightarrow> tribool \<times> reply_parser \<times> string" where
  "reply_parse p txt =
     (let p = start_parser p
      in parse_loop (run_parser reply_initial_line) m_parsing_content (m_parsing_content p) p txt)"

definition get_request :: "parser \<Rightarrow> request \<times> parser" where
  "get_request p =
     (request_new (m_method p) (m_uri p) (m_http_version_major p, m_http_version_minor p) (m_headers p) (m_payload p),
      p\<lparr>m_headers := [], m_payload := []\<rparr>)"

definition get_reply :: "string \<Rightarrow> reply_parser \<Rightarrow> reply \<times> reply_parser" where
  "get_reply date p =
     (reply_from date (m_status p) (m_http_version_major p, m_http_version_minor p) (m_headers p) (m_payload p),
      p\<lparr>m_headers := [], m_payload := []\<rparr>)"

section \<open>Feeding in pieces\<close>

text \<open>
  A machine whose flag for \<open>is_parsing_content\<close> only changes when a step reports the end
  of a section. The flag is recomputed at every call of \<open>parse\<close>; under this law that
  makes no difference, so a message may arrive in any pieces.
\<close>

locale byte_machine =
  fixes step :: "'p \<Rightarrow> char \<Rightarrow> tribool \<times> 'p"
    and content :: "'p \<Rightarrow> bool"
  assumes step_content: "step p ch = (indeterminate, p') \<Longrightarrow> content p' = content p"
begin

lemma loop_append:
  "flag = content p \<Longrightarrow>
   parse_loop step content flag p (s @ t) =
     (case parse_loop step content flag p s of
        (None, p', rest) \<Rightarrow> parse_loop step content (content p') p' t
      | (Some b, p', rest) \<Rightarrow> (Some b, p', rest @ t))"
proof (induction s arbitrary: flag p)
  case (Cons ch s)
  obtain r p' where st: "step p ch = (r, p')" by force
  show ?case
  proof (cases r)
    case None
    with st Cons.prems have "flag = content p'" using step_content by simp
    from Cons.IH [OF this] show ?thesis by (simp add: st None)
  next
    case (Some b)
    show ?thesis
    proof (cases "b \<and> \<not> flag \<and> content p'")
      case True
      then have "True = content p'" by simp
      from Cons.IH [OF this] show ?thesis using True by (simp add: st Some)
    qed (auto simp: st Some)
  qed
qed simp

lemma loop_indeterminate_rest:
  "parse_loop step content flag p s = (indeterminate, p', rest) \<Longrightarrow> rest = []"
  by (induction s arbitrary: flag p) (auto split: prod.splits if_splits)

lemma loop_consumes: "parse_loop step content flag p s = (r, p', rest) \<Longrightarrow> \<exists>used. s = used @ rest"
proof (induction s arbitrary: flag p)
  case (Cons ch s)
  obtain r1 p1 where "step p ch = (r1, p1)" by force
  with Cons show ?case by (auto split: if_splits) (metis append_Cons append_Nil)+
qed simp

end

lemma parse_header_lines_content:
  "parse_header_lines p ch = (indeterminate, p') \<Longrightarrow> m_parsing_content p' = m_parsing_content p"
  by (auto simp: parse_header_lines_def Let_def split: if_splits)

lemma parse_chunk_content:
  "parse_chunk p ch = (indeterminate, p') \<Longrightarrow> m_parsing_content p' = m_parsing_content p"
  by (auto simp: parse_chunk_def Let_def split: if_splits)

lemma parse_content_content:
  "parse_content p ch = (indeterminate, p') \<Longrightarrow> m_parsing_content p' = m_parsing_content p"
  by (auto simp: parse_content_def Let_def split: if_splits)

lemmas initial_defs = expect_def after_major_def minor_version_def to_header_lines_def
  status_digit_def expect_space_def

lemma request_initial_content:
  "request_initial_line p ch = (indeterminate, p') \<Longrightarrow> m_parsing_content p' = m_parsing_content p"
  by (auto simp: request_initial_line_def initial_defs Let_def split: if_splits)

lemma reply_initial_content:
  "reply_initial_line p ch = (indeterminate, p') \<Longrightarrow> m_parsing_content p' = m_parsing_content p"
  by (auto simp: reply_initial_line_def initial_defs Let_def split: if_splits)

lemmas section_content = parse_header_lines_content parse_chunk_content parse_content_content

interpretation requests: byte_machine "run_parser request_initial_line" m_parsing_content
  by unfold_locales
    (auto simp: run_parser_def dest: section_content request_initial_content split: parser_fn.splits)

interpretation replies: byte_machine "run_parser reply_initial_line" m_parsing_content
  by unfold_locales
    (auto simp: run_parser_def dest: section_content reply_initial_content split: parser_fn.splits)

lemma loop_invariant:
  assumes inv: "\<And>p ch r p'. P p \<Longrightarrow> step p ch = (r, p') \<Longrightarrow> P p'"
  shows "P p \<Longrightarrow> parse_loop step content flag p s = (r, p', rest) \<Longrightarrow> P p'"
proof (induction s arbitrary: flag p)
  case (Cons ch s)
  obtain r1 p1 where "step p ch = (r1, p1)" by force
  moreover have "P p1" using Cons.prems(1) \<open>step p ch = (r1, p1)\<close> by (rule inv)
  ultimately show ?case using Cons by (auto split: if_splits)
qed simp

lemma scan_header_keeps:
  "m_headers (scan_header h p) = m_headers p" "m_state (scan_header h p) = m_state p"
  "m_parser (scan_header h p) = m_parser p \<or> m_parser (scan_header h p) = Content"
  by (simp_all add: scan_header_def Let_def)

definition scanned :: "nat \<Rightarrow> 'a parser_scheme \<Rightarrow> bool" where
  "scanned st p \<longleftrightarrow> m_parser p = Content \<or> m_parser p = Chunk \<and> m_state p = 0
     \<or> m_parser p = Header_lines \<and> m_state p = st"

lemma scan_headers_scanned:
  "m_parser p = Content \<or> m_parser p = Header_lines \<and> m_state p = st \<Longrightarrow> scanned st (scan_headers hs p)"
proof (induction hs arbitrary: p)
  case (Cons h hs)
  have "m_parser (scan_header h p) = Content \<or> m_parser (scan_header h p) = Header_lines \<and> m_state (scan_header h p) = st"
    using Cons.prems scan_header_keeps(2,3) [of h p] by auto
  from Cons.IH [OF this] show ?case by (simp add: scanned_def)
qed (auto simp: scanned_def)

lemma scan_headers_keeps:
  "m_headers (scan_headers hs p) = m_headers p"
  by (induction hs arbitrary: p) (simp_all add: scan_header_keeps)

lemma scan_headers_state:
  "m_parser p = Header_lines \<Longrightarrow>
   m_parser (scan_headers hs p) = Content \<or>
   m_parser (scan_headers hs p) = Chunk \<and> m_state (scan_headers hs p) = 0 \<or>
   m_parser (scan_headers hs p) = Header_lines \<and> m_state (scan_headers hs p) = m_state p"
  using scan_headers_scanned [of p "m_state p" hs] by (simp add: scanned_def)

text \<open>
  The well-formed parsers: the state is one the \<open>switch\<close> of the current function
  handles, a header exists whenever \<open>m_headers.back()\<close> is used, the digits of a chunk
  size are hexadecimal, and the count of a chunk being read is positive. The argument
  is the last state of the initial line.
\<close>

definition wf_parser :: "nat \<Rightarrow> 'a parser_scheme \<Rightarrow> bool" where
  "wf_parser n p \<longleftrightarrow>
     (case m_parser p of
        No_parser \<Rightarrow> m_state p = 0
      | Initial_line \<Rightarrow> m_state p \<le> n
      | Header_lines \<Rightarrow> m_state p \<in> {0, 20} \<or> (m_state p \<in> {1, 2, 3, 4, 5, 10} \<and> m_headers p \<noteq> [])
      | Chunk \<Rightarrow> m_state p \<in> {0, 1, 2, 3, 4, 5, 6, 10, 11}
          \<and> (m_state p \<in> {1, 2, 3} \<longrightarrow> m_buf p \<noteq> [] \<and> list_all isxdigit (m_buf p))
          \<and> (m_state p = 4 \<longrightarrow> 0 < m_chunk_size p)
      | Content \<Rightarrow> True)"

lemma back_ne [simp]: "back_name ch hs = [] \<longleftrightarrow> hs = []" "back_value ch hs = [] \<longleftrightarrow> hs = []"
  by (auto simp: back_name_def back_value_def)

lemma wf_header_lines:
  assumes "m_parser p = Header_lines" "wf_parser n p" "parse_header_lines p ch = (r, p')"
  shows "wf_parser n p'"
proof (cases "m_state p = 20 \<and> ch = LFs")
  case True
  with assms have "p' = scan_headers (m_headers p) p" by (simp add: parse_header_lines_def)
  with True assms scan_headers_state [of p "m_headers p"] show ?thesis
    by (auto simp: wf_parser_def scan_headers_keeps)
next
  case False
  with assms show ?thesis
    by (auto simp: wf_parser_def parse_header_lines_def Let_def split: if_splits)
qed

lemma word_pos: "0 < (w :: u32) \<longleftrightarrow> w \<noteq> 0"
  by (simp add: word_neq_0_conv)

lemma wf_chunk:
  assumes "m_parser p = Chunk" "wf_parser n p" "parse_chunk p ch = (r, p')"
  shows "wf_parser n p'"
  using assms by (auto simp: wf_parser_def parse_chunk_def Let_def word_pos split: if_splits)

lemma wf_content:
  assumes "m_parser p = Content" "parse_content p ch = (r, p')"
  shows "wf_parser n p'"
  using assms by (auto simp: wf_parser_def parse_content_def Let_def split: if_splits)

lemma wf_request_initial:
  assumes "m_parser p = Initial_line" "wf_parser 11 p" "request_initial_line p ch = (r, p')"
  shows "wf_parser 11 p'"
  using assms
  by (auto simp: wf_parser_def request_initial_line_def initial_defs Let_def split: if_splits)

lemma wf_reply_initial:
  assumes "m_parser p = Initial_line" "wf_parser 14 p" "reply_initial_line p ch = (r, p')"
  shows "wf_parser 14 p'"
  using assms
  by (auto simp: wf_parser_def reply_initial_line_def initial_defs Let_def split: if_splits)

text \<open>The invariant of the loops: well-formed, and no longer at the null pointer.\<close>

definition running :: "nat \<Rightarrow> 'a parser_scheme \<Rightarrow> bool" where
  "running n p \<longleftrightarrow> wf_parser n p \<and> m_parser p \<noteq> No_parser"

lemma start_running: "wf_parser n p \<Longrightarrow> running n (start_parser p)"
  by (auto simp: running_def start_parser_def wf_parser_def)

lemma start_started: "m_parser p \<noteq> No_parser \<Longrightarrow> start_parser p = p"
  by (simp add: start_parser_def)

lemma header_lines_started:
  assumes "m_parser p = Header_lines" "parse_header_lines p ch = (r, p')"
  shows "m_parser p' \<noteq> No_parser"
proof -
  have "m_parser (scan_headers (m_headers p) p) \<noteq> No_parser"
    using scan_headers_state [OF assms(1), of "m_headers p"] by auto
  then show ?thesis
    using assms by (auto simp: parse_header_lines_def Let_def split: if_splits)
qed

lemma section_started:
  "m_parser p = Chunk \<Longrightarrow> parse_chunk p ch = (r, p') \<Longrightarrow> m_parser p' \<noteq> No_parser"
  "m_parser p = Content \<Longrightarrow> parse_content p ch = (r, p') \<Longrightarrow> m_parser p' \<noteq> No_parser"
  by (auto simp: parse_chunk_def parse_content_def Let_def split: if_splits)

lemma initial_started:
  "m_parser p = Initial_line \<Longrightarrow> request_initial_line p ch = (r, p') \<Longrightarrow> m_parser p' \<noteq> No_parser"
  "m_parser q = Initial_line \<Longrightarrow> reply_initial_line q ch = (r, q') \<Longrightarrow> m_parser q' \<noteq> No_parser"
  by (auto simp: request_initial_line_def reply_initial_line_def initial_defs Let_def split: if_splits)

lemma request_step_running:
  "running 11 p \<Longrightarrow> run_parser request_initial_line p ch = (r, p') \<Longrightarrow> running 11 p'"
  by (cases "m_parser p")
    (auto simp: running_def run_parser_def
      dest: wf_header_lines wf_chunk wf_content wf_request_initial header_lines_started section_started initial_started)

lemma reply_step_running:
  "running 14 p \<Longrightarrow> run_parser reply_initial_line p ch = (r, p') \<Longrightarrow> running 14 p'"
  by (cases "m_parser p")
    (auto simp: running_def run_parser_def
      dest: wf_header_lines wf_chunk wf_content wf_reply_initial header_lines_started section_started initial_started)

lemma request_parse_running:
  "wf_parser 11 p \<Longrightarrow> request_parse p txt = (r, p', rest) \<Longrightarrow> running 11 p'"
  unfolding request_parse_def Let_def
  by (rule loop_invariant [where P = "running 11"]) (auto intro: request_step_running start_running)

lemma reply_parse_running:
  "wf_parser 14 p \<Longrightarrow> reply_parse p txt = (r, p', rest) \<Longrightarrow> running 14 p'"
  unfolding reply_parse_def Let_def
  by (rule loop_invariant [where P = "running 14"]) (auto intro: reply_step_running start_running)

text \<open>Started parsers stay started, without any other assumption.\<close>

lemma request_step_started:
  "m_parser p \<noteq> No_parser \<Longrightarrow> run_parser request_initial_line p ch = (r, p') \<Longrightarrow> m_parser p' \<noteq> No_parser"
  by (cases "m_parser p") (auto simp: run_parser_def dest: header_lines_started section_started initial_started)

lemma reply_step_started:
  "m_parser p \<noteq> No_parser \<Longrightarrow> run_parser reply_initial_line p ch = (r, p') \<Longrightarrow> m_parser p' \<noteq> No_parser"
  by (cases "m_parser p") (auto simp: run_parser_def dest: header_lines_started section_started initial_started)

lemma start_parser_started [simp]: "m_parser (start_parser p) \<noteq> No_parser"
  by (simp add: start_parser_def)

lemma request_parse_append:
  "request_parse p (s @ t) =
     (case request_parse p s of
        (None, p', rest) \<Rightarrow> request_parse p' t
      | (Some b, p', rest) \<Rightarrow> (Some b, p', rest @ t))"
proof -
  obtain r p' rest where out: "request_parse p s = (r, p', rest)" by (metis prod_cases3)
  then have "m_parser p' \<noteq> No_parser"
    unfolding request_parse_def Let_def
    by (rule loop_invariant [where P = "\<lambda>p. m_parser p \<noteq> No_parser", rotated 2])
      (auto dest: request_step_started)
  then show ?thesis
    using out requests.loop_append [of "m_parsing_content (start_parser p)" "start_parser p" s t]
    by (simp add: request_parse_def Let_def start_started split: option.split)
qed

lemma reply_parse_append:
  "reply_parse p (s @ t) =
     (case reply_parse p s of
        (None, p', rest) \<Rightarrow> reply_parse p' t
      | (Some b, p', rest) \<Rightarrow> (Some b, p', rest @ t))"
proof -
  obtain r p' rest where out: "reply_parse p s = (r, p', rest)" by (metis prod_cases3)
  then have "m_parser p' \<noteq> No_parser"
    unfolding reply_parse_def Let_def
    by (rule loop_invariant [where P = "\<lambda>p. m_parser p \<noteq> No_parser", rotated 2])
      (auto dest: reply_step_started)
  then show ?thesis
    using out replies.loop_append [of "m_parsing_content (start_parser p)" "start_parser p" s t]
    by (simp add: reply_parse_def Let_def start_started split: option.split)
qed

text \<open>
  C9. A message may arrive in any pieces: parsing a text in two calls gives the result,
  the parser state and the unread text of parsing it in one, for requests and replies.
\<close>

theorem parse_in_pieces:
  "request_parse p (s @ t) =
     (case request_parse p s of
        (None, p', rest) \<Rightarrow> request_parse p' t
      | (Some b, p', rest) \<Rightarrow> (Some b, p', rest @ t))
   \<and> reply_parse q (s @ t) =
     (case reply_parse q s of
        (None, q', rest) \<Rightarrow> reply_parse q' t
      | (Some b, q', rest) \<Rightarrow> (Some b, q', rest @ t))"
  using request_parse_append reply_parse_append by blast

lemma wf_new: "wf_parser n request_parser_new" "wf_parser n reply_parser_new" "wf_parser n (parser_reset p)"
  by (simp_all add: request_parser_new_def reply_parser_new_def parser_reset_def wf_parser_def)

text \<open>
  C10. The parser never leaves its state table: from a new parser or one that was reset,
  every text leads to a well-formed parser. In particular \<open>m_headers.back()\<close> is only
  used when there is a header, and the counter of a chunk never wraps.
\<close>

theorem parser_well_formed:
  assumes "request_parse (parser_reset p) txt = (r, p', rest)"
  shows "wf_parser 11 p' \<and>
    (m_parser p' = Header_lines \<and> m_state p' \<in> {1, 3, 4, 10} \<longrightarrow> m_headers p' \<noteq> [])"
proof -
  have "wf_parser 11 p'"
    using request_parse_running [OF wf_new(3) assms] by (simp add: running_def)
  then show ?thesis by (auto simp: wf_parser_def)
qed

theorem parser_well_formed_witness:
  "wf_parser 11 (fst (snd (request_parse (parser_reset request_parser_new) ''GET / HTT'')))"
proof -
  obtain r p rest where out: "request_parse (parser_reset request_parser_new) ''GET / HTT'' = (r, p, rest)"
    by (metis prod_cases3)
  then show ?thesis using parser_well_formed [OF out] by simp
qed

end
