(* ===== verification/Http_Wire.thy ===== *)
theory Http_Wire
  imports Http_Parser
begin

text \<open>
  The two ends of the wire together: what \<open>to_buffers\<close> and \<open>data_to_buffers\<close> write is
  what the parsers read. The lemmas follow a message through the sections of the
  parser: initial line, header lines, content of a given length, chunks.
\<close>

section \<open>Consuming text\<close>

text \<open>\<open>consumes step content p s p'\<close>: the loop reads \<open>s\<close> and goes on from \<open>p'\<close>.\<close>

definition consumes ::
  "('p \<Rightarrow> char \<Rightarrow> tribool \<times> 'p) \<Rightarrow> ('p \<Rightarrow> bool) \<Rightarrow> 'p \<Rightarrow> string \<Rightarrow> 'p \<Rightarrow> bool" where
  "consumes step content p s p' \<longleftrightarrow>
     (\<forall>flag t. parse_loop step content flag p (s @ t) = parse_loop step content flag p' t)"

lemma consumes_nil: "consumes step content p [] p"
  by (simp add: consumes_def)

lemma consumes_append:
  "consumes step content p s p' \<Longrightarrow> consumes step content p' s' p'' \<Longrightarrow> consumes step content p (s @ s') p''"
  by (simp add: consumes_def)

lemma consumes_char: "step p ch = (indeterminate, p') \<Longrightarrow> consumes step content p [ch] p'"
  by (simp add: consumes_def)

lemma consumes_Cons:
  "step p ch = (indeterminate, p') \<Longrightarrow> consumes step content p' s p'' \<Longrightarrow> consumes step content p (ch # s) p''"
  by (simp add: consumes_def)

lemma consumesD: "consumes step content p s p' \<Longrightarrow> parse_loop step content flag p (s @ t) = parse_loop step content flag p' t"
  by (simp add: consumes_def)

section \<open>Header lines\<close>

definition clean_header :: "header \<Rightarrow> bool" where
  "clean_header h \<longleftrightarrow>
     h_name h \<noteq> [] \<and> list_all (\<lambda>c. \<not> iscntrl c \<and> \<not> is_tspecial c) (h_name h)
     \<and> CRs \<notin> set (h_value h) \<and> (h_value h \<noteq> [] \<longrightarrow> hd (h_value h) \<noteq> CHR '' '')"

abbreviation in_headers :: "'a parser_scheme \<Rightarrow> header list \<Rightarrow> nat \<Rightarrow> 'a parser_scheme" where
  "in_headers p hs st \<equiv> p\<lparr>m_headers := hs, m_state := st\<rparr>"

lemma special_chars [simp]:
  "iscntrl CRs" "iscntrl LFs" "is_tspecial CHR '' ''" "is_tspecial CHR '':''" "is_tspecial CHR 0x09"
  "CRs \<noteq> LFs" "LFs \<noteq> CRs" "CRs \<noteq> CHR '' ''" "LFs \<noteq> CHR '' ''" "CHR '' '' \<noteq> CRs" "CHR '':'' \<noteq> CRs"
  "CHR '':'' \<noteq> LFs"
  by (simp_all add: CRs_def LFs_def iscntrl_def is_tspecial_def)

lemma kCRLF_eq: "kCRLF = [CRs, LFs]"
  by (simp add: kCRLF_def CRs_def LFs_def)

lemma name_char_not: "\<not> iscntrl c \<Longrightarrow> \<not> is_tspecial c \<Longrightarrow> c \<noteq> CRs \<and> c \<noteq> CHR '':'' \<and> c \<noteq> CHR '' '' \<and> c \<noteq> CHR 0x09"
  by (metis special_chars(1,3,4,5))

lemma parser_update_id [simp]:
  "m_headers p = hs \<Longrightarrow> m_state p = st \<Longrightarrow> in_headers p hs st = p"
  by auto

lemma consume_name:
  "m_parser p = Header_lines \<Longrightarrow> list_all (\<lambda>c. \<not> iscntrl c \<and> \<not> is_tspecial c) s \<Longrightarrow>
   consumes (run_parser ini) content (in_headers p (acc @ [\<lparr>h_name = n, h_value = v\<rparr>]) 1) s
     (in_headers p (acc @ [\<lparr>h_name = n @ s, h_value = v\<rparr>]) 1)"
proof (induction s arbitrary: n)
  case (Cons c s)
  have "run_parser ini (in_headers p (acc @ [\<lparr>h_name = n, h_value = v\<rparr>]) 1) c
      = (indeterminate, in_headers p (acc @ [\<lparr>h_name = n @ [c], h_value = v\<rparr>]) 1)"
    using Cons.prems name_char_not [of c]
    by (simp add: run_parser_def parse_header_lines_def back_name_def)
  with Cons.IH [of "n @ [c]"] Cons.prems show ?case by (auto intro: consumes_Cons)
qed (simp add: consumes_nil)

lemma consume_value:
  "m_parser p = Header_lines \<Longrightarrow> CRs \<notin> set s \<Longrightarrow>
   consumes (run_parser ini) content (in_headers p (acc @ [\<lparr>h_name = n, h_value = v\<rparr>]) 4) s
     (in_headers p (acc @ [\<lparr>h_name = n, h_value = v @ s\<rparr>]) 4)"
proof (induction s arbitrary: v)
  case (Cons c s)
  have "run_parser ini (in_headers p (acc @ [\<lparr>h_name = n, h_value = v\<rparr>]) 4) c
      = (indeterminate, in_headers p (acc @ [\<lparr>h_name = n, h_value = v @ [c]\<rparr>]) 4)"
    using Cons.prems by (auto simp: run_parser_def parse_header_lines_def back_value_def)
  with Cons.IH [of "v @ [c]"] Cons.prems show ?case by (auto intro: consumes_Cons)
qed (simp add: consumes_nil)

lemma consume_header:
  assumes p: "m_parser p = Header_lines" and h: "clean_header h"
  shows "consumes (run_parser ini) content (in_headers p acc 0)
    (h_name h @ kNameValueSeparator @ h_value h @ kCRLF) (in_headers p (acc @ [h]) 0)"
proof -
  obtain n v where nv: "h = \<lparr>h_name = n, h_value = v\<rparr>" by (cases h) auto
  obtain c s where n: "n = c # s" using h by (cases n) (auto simp: clean_header_def nv)
  have name: "\<not> iscntrl c" "\<not> is_tspecial c" "list_all (\<lambda>c. \<not> iscntrl c \<and> \<not> is_tspecial c) s"
      "CRs \<notin> set v" "v \<noteq> [] \<longrightarrow> hd v \<noteq> CHR '' ''"
    using h by (simp_all add: clean_header_def nv n)
  have 1: "consumes (run_parser ini) content (in_headers p acc 0) [c]
      (in_headers p (acc @ [\<lparr>h_name = [c], h_value = []\<rparr>]) 1)"
    using p name name_char_not [of c]
    by (intro consumes_char) (simp add: run_parser_def parse_header_lines_def)
  have 2: "consumes (run_parser ini) content (in_headers p (acc @ [\<lparr>h_name = [c], h_value = []\<rparr>]) 1) s
      (in_headers p (acc @ [\<lparr>h_name = n, h_value = []\<rparr>]) 1)"
    using consume_name [OF p, of s ini content acc "[c]" "[]"] name by (simp add: n)
  have 3: "consumes (run_parser ini) content (in_headers p (acc @ [\<lparr>h_name = n, h_value = []\<rparr>]) 1)
      kNameValueSeparator (in_headers p (acc @ [\<lparr>h_name = n, h_value = []\<rparr>]) 3)"
    using p unfolding kNameValueSeparator_def
    by (simp add: consumes_def run_parser_def parse_header_lines_def numeral_3_eq_3)
  have crlf: "consumes (run_parser ini) content (in_headers p hs 5) [LFs] (in_headers p hs 0)" for hs
    using p by (intro consumes_char) (simp add: run_parser_def parse_header_lines_def)
  have 4: "consumes (run_parser ini) content (in_headers p (acc @ [\<lparr>h_name = n, h_value = []\<rparr>]) 3)
      (v @ kCRLF) (in_headers p (acc @ [h]) 0)"
  proof (cases v)
    case Nil
    have "run_parser ini (in_headers p (acc @ [\<lparr>h_name = n, h_value = []\<rparr>]) 3) CRs
       = (indeterminate, in_headers p (acc @ [\<lparr>h_name = n, h_value = []\<rparr>]) 5)"
      using p by (simp add: run_parser_def parse_header_lines_def)
    with crlf show ?thesis by (auto simp: Nil nv kCRLF_eq intro: consumes_Cons)
  next
    case (Cons d w)
    then have d: "d \<noteq> CRs" "d \<noteq> CHR '' ''" "CRs \<notin> set w" using name by auto
    have a: "run_parser ini (in_headers p (acc @ [\<lparr>h_name = n, h_value = []\<rparr>]) 3) d
       = (indeterminate, in_headers p (acc @ [\<lparr>h_name = n, h_value = [d]\<rparr>]) 4)"
      using p d by (simp add: run_parser_def parse_header_lines_def back_value_def)
    have b: "consumes (run_parser ini) content (in_headers p (acc @ [\<lparr>h_name = n, h_value = [d]\<rparr>]) 4) w
        (in_headers p (acc @ [h]) 4)"
      using consume_value [OF p d(3), of ini content acc n "[d]"] by (simp add: nv Cons)
    have c: "run_parser ini (in_headers p (acc @ [h]) 4) CRs = (indeterminate, in_headers p (acc @ [h]) 5)"
      using p by (simp add: run_parser_def parse_header_lines_def)
    show ?thesis
      unfolding Cons append_Cons kCRLF_eq
      by (rule consumes_Cons [OF a consumes_append [OF b consumes_Cons [OF c crlf]]])
  qed
  show ?thesis
    using consumes_append [OF consumes_append [OF 1 2] consumes_append [OF 3 4]]
    by (simp add: nv n)
qed

lemma consume_headers:
  "m_parser p = Header_lines \<Longrightarrow> list_all clean_header hs \<Longrightarrow>
   consumes (run_parser ini) content (in_headers p acc 0) (header_lines hs) (in_headers p (acc @ hs) 0)"
proof (induction hs arbitrary: acc)
  case (Cons h hs)
  then have "consumes (run_parser ini) content (in_headers p acc 0)
      (h_name h @ kNameValueSeparator @ h_value h @ kCRLF) (in_headers p (acc @ [h]) 0)"
    by (intro consume_header) simp_all
  moreover have "consumes (run_parser ini) content (in_headers p (acc @ [h]) 0) (header_lines hs)
      (in_headers p ((acc @ [h]) @ hs) 0)"
    using Cons.prems by (intro Cons.IH) simp_all
  ultimately show ?case by (auto simp: header_lines_def dest: consumes_append)
qed (simp add: header_lines_def consumes_nil)

text \<open>The empty line: the headers are scanned for how the content is sent.\<close>

lemma end_of_headers:
  assumes "m_parser p = Header_lines" "m_state p = 0"
  shows "parse_loop (run_parser ini) m_parsing_content flag p (kCRLF @ t) =
    (let p' = scan_headers (m_headers p) (p\<lparr>m_state := 20\<rparr>)
     in if \<not> flag \<and> m_parsing_content p' then parse_loop (run_parser ini) m_parsing_content True p' t
        else (complete, p', t))"
  using assms by (simp add: kCRLF_eq run_parser_def parse_header_lines_def Let_def)

section \<open>Content\<close>

lemma consume_content:
  assumes "m_parser p = Content" "m_collect_payload p" "length s < 2 ^ 32"
    and "m_chunk_size p = word_of_nat (length s)" "s \<noteq> []"
  shows "parse_loop (run_parser ini) m_parsing_content True p (s @ t) =
    (complete, p\<lparr>m_payload := m_payload p @ s, m_chunk_size := 0, m_parsing_content := False\<rparr>, t)"
  using assms
proof (induction s arbitrary: p)
  case (Cons c s)
  let ?p = "p\<lparr>m_payload := m_payload p @ [c], m_chunk_size := word_of_nat (length s)\<rparr>"
  have size: "m_chunk_size p - 1 = word_of_nat (length s)"
    using Cons.prems(4) by simp
  show ?case
  proof (cases "s = []")
    case True
    then show ?thesis using Cons.prems size by (simp add: run_parser_def parse_content_def)
  next
    case False
    then have "word_of_nat (length s) \<noteq> (0 :: u32)"
      using Cons.prems(3) by (auto simp: word_of_nat_eq_0_iff dest: dvd_imp_le)
    then have "run_parser ini p c = (indeterminate, ?p)"
      using Cons.prems size by (simp add: run_parser_def parse_content_def)
    then show ?thesis using Cons.IH [of ?p] Cons.prems False by simp
  qed
qed simp

section \<open>Content-Length\<close>

text \<open>
  The headers announce \<open>n\<close> bytes: no chunks, and every \<open>Content-Length\<close> header says
  \<open>n\<close>.
\<close>

definition announces :: "nat \<Rightarrow> header list \<Rightarrow> bool" where
  "announces n hs \<longleftrightarrow>
     list_all (\<lambda>h. \<not> is_chunked h \<and> (iequals (h_name h) ''Content-Length'' \<longrightarrow> h_value h = nat_to_string n)) hs
     \<and> list_ex (\<lambda>h. iequals (h_name h) ''Content-Length'') hs"

lemma takeWhile_digits [simp]: "takeWhile isdigit (nat_to_string n) = nat_to_string n"
  using nat_to_string_digits [of n] by simp

lemma digit_not_special: "isdigit c \<Longrightarrow> \<not> isspace c \<and> c \<noteq> CHR ''-'' \<and> c \<noteq> CHR ''+''"
  by (auto simp: isdigit_def isspace_def)

lemma stream_unsigned_nat_to_string: "stream_unsigned (nat_to_string n) = clamp32 n"
proof -
  obtain c s where cs: "nat_to_string n = c # s" by (cases "nat_to_string n") auto
  then have c: "isdigit c" using nat_to_string_digits [of n] by simp
  have "dropWhile isspace (nat_to_string n) = nat_to_string n"
    using digit_not_special [OF c] by (simp add: cs)
  moreover have "digits_value 10 digit_val (nat_to_string n) = n"
    using nat_to_string_value [of n] by (simp add: digits_value_def)
  ultimately show ?thesis
    using digit_not_special [OF c] takeWhile_digits [of n] cs
    by (simp add: stream_unsigned_def Let_def)
qed

abbreviation content_of :: "'a parser_scheme \<Rightarrow> u32 \<Rightarrow> 'a parser_scheme" where
  "content_of p n \<equiv> p\<lparr>m_chunk_size := n, m_parser := Content, m_parsing_content := True\<rparr>"

lemma scan_more_length:
  assumes "0 < n" "n < 2 ^ 32"
  shows "list_all (\<lambda>h. \<not> is_chunked h \<and> (iequals (h_name h) ''Content-Length'' \<longrightarrow> h_value h = nat_to_string n)) hs \<Longrightarrow>
    scan_headers hs (content_of p (word_of_nat n)) = content_of p (word_of_nat n)"
proof (induction hs)
  case (Cons h hs)
  have "(0 :: u32) < word_of_nat n"
    using assms by (auto simp: word_of_nat_eq_0_iff word_neq_0_conv [symmetric] dest: dvd_imp_le)
  then have "scan_header h (content_of p (word_of_nat n)) = content_of p (word_of_nat n)"
    using Cons.prems assms by (simp add: scan_header_def stream_unsigned_nat_to_string clamp32_def Let_def)
  with Cons show ?case by simp
qed simp

lemma scan_content_length:
  assumes "0 < n" "n < 2 ^ 32"
  shows "announces n hs \<Longrightarrow> scan_headers hs p = content_of p (word_of_nat n)"
proof (induction hs arbitrary: p)
  case (Cons h hs)
  have pos: "(0 :: u32) < word_of_nat n"
    using assms by (auto simp: word_of_nat_eq_0_iff word_neq_0_conv [symmetric] dest: dvd_imp_le)
  show ?case
  proof (cases "iequals (h_name h) ''Content-Length''")
    case True
    with Cons.prems have "scan_header h p = content_of p (word_of_nat n)"
      using pos assms by (simp add: announces_def scan_header_def stream_unsigned_nat_to_string clamp32_def Let_def)
    with Cons.prems scan_more_length [OF assms, of hs p] show ?thesis
      by (simp add: announces_def)
  next
    case False
    with Cons.prems have a: "announces n hs" by (simp add: announces_def)
    have "content_of (scan_header h p) (word_of_nat n) = content_of p (word_of_nat n)"
      using False by (simp add: scan_header_def)
    with Cons.IH [OF a, of "scan_header h p"] Cons.prems show ?thesis
      by (simp add: announces_def)
  qed
qed (simp add: announces_def)

text \<open>
  The headers announce no content: no chunks, no \<open>Content-Length\<close> but 0, and not the
  combination of \<open>Connection: Close\<close> with a method that sends content.
\<close>

definition announces_none :: "string \<Rightarrow> header list \<Rightarrow> bool" where
  "announces_none method hs \<longleftrightarrow>
     list_all (\<lambda>h. \<not> is_chunked h
       \<and> (iequals (h_name h) ''Content-Length'' \<longrightarrow> h_value h = nat_to_string 0)
       \<and> \<not> (iequals (h_name h) ''Connection'' \<and> iequals (h_value h) ''Close''
            \<and> (method = ''POST'' \<or> method = ''PUT''))) hs"

text \<open>What reading the content leaves of the parser.\<close>

definition same_message :: "'a parser_scheme \<Rightarrow> 'a parser_scheme \<Rightarrow> bool" where
  "same_message p p' \<longleftrightarrow>
     m_headers p' = m_headers p \<and> m_method p' = m_method p \<and> m_uri p' = m_uri p
     \<and> m_http_version_major p' = m_http_version_major p \<and> m_http_version_minor p' = m_http_version_minor p
     \<and> parser.more p' = parser.more p"

lemma scan_none:
  "announces_none (m_method p) hs \<Longrightarrow> \<not> m_parsing_content p \<Longrightarrow>
   \<not> m_parsing_content (scan_headers hs p) \<and> m_payload (scan_headers hs p) = m_payload p
   \<and> same_message p (scan_headers hs p)"
proof (induction hs arbitrary: p)
  case (Cons h hs)
  have "stream_unsigned (nat_to_string 0) = 0"
    by (simp add: stream_unsigned_nat_to_string clamp32_def)
  with Cons.prems have h: "\<not> m_parsing_content (scan_header h p)" "m_payload (scan_header h p) = m_payload p"
      "same_message p (scan_header h p)" "\<not> is_chunked h" "announces_none (m_method p) hs"
    by (auto simp: announces_none_def scan_header_def Let_def same_message_def)
  then have "announces_none (m_method (scan_header h p)) hs" by (simp add: same_message_def)
  from Cons.IH [OF this h(1)] h show ?case by (simp add: same_message_def)
qed (simp add: same_message_def)

definition sends :: "string \<Rightarrow> header list \<Rightarrow> string \<Rightarrow> bool" where
  "sends method hs body \<longleftrightarrow>
     (if body = [] then announces_none method hs
      else length body < 2 ^ 32 \<and> announces (length body) hs)"

lemma read_body:
  assumes p: "m_parser p = Header_lines" "m_state p = 0" "m_collect_payload p" "m_payload p = []"
      "\<not> m_parsing_content p"
    and body: "sends (m_method p) (m_headers p) body"
  shows "\<exists>p'. parse_loop (run_parser ini) m_parsing_content False p (kCRLF @ body @ t) = (complete, p', t)
    \<and> m_payload p' = body \<and> same_message p p'"
proof (cases "body = []")
  case True
  let ?q = "p\<lparr>m_state := 20\<rparr>"
  have "announces_none (m_method ?q) (m_headers p)" using body True by (simp add: sends_def)
  from scan_none [OF this] p show ?thesis
    by (simp add: True end_of_headers Let_def) (simp add: same_message_def)
next
  case False
  let ?q = "content_of (p\<lparr>m_state := 20\<rparr>) (word_of_nat (length body))"
  have b: "length body < 2 ^ 32" "announces (length body) (m_headers p)"
    using body False by (simp_all add: sends_def)
  have "scan_headers (m_headers p) (p\<lparr>m_state := 20\<rparr>) = ?q"
    using False b by (intro scan_content_length b(2)) simp_all
  then have "parse_loop (run_parser ini) m_parsing_content False p (kCRLF @ body @ t)
      = parse_loop (run_parser ini) m_parsing_content True ?q (body @ t)"
    by (simp add: end_of_headers [OF p(1,2)])
  also have "\<dots> = (complete, ?q\<lparr>m_payload := body, m_chunk_size := 0, m_parsing_content := False\<rparr>, t)"
    using False b p by (subst consume_content) simp_all
  finally show ?thesis by (simp add: same_message_def)
qed

section \<open>Requests\<close>

lemma consume_method:
  "m_parser p = Initial_line \<Longrightarrow> m_state p = 0 \<Longrightarrow> list_all isalpha s \<Longrightarrow>
   consumes (run_parser request_initial_line) content p s (p\<lparr>m_method := m_method p @ s\<rparr>)"
proof (induction s arbitrary: p)
  case (Cons c s)
  have "run_parser request_initial_line p c = (indeterminate, p\<lparr>m_method := m_method p @ [c]\<rparr>)"
    using Cons.prems by (simp add: run_parser_def request_initial_line_def)
  with Cons.IH [of "p\<lparr>m_method := m_method p @ [c]\<rparr>"] Cons.prems show ?case
    by (auto intro: consumes_Cons)
qed (simp add: consumes_nil)

lemma consume_uri:
  "m_parser p = Initial_line \<Longrightarrow> m_state p = 1 \<Longrightarrow> list_all (\<lambda>c. c \<noteq> CHR '' '' \<and> \<not> iscntrl c) s \<Longrightarrow>
   consumes (run_parser request_initial_line) content p s (p\<lparr>m_uri := m_uri p @ s\<rparr>)"
proof (induction s arbitrary: p)
  case (Cons c s)
  have "run_parser request_initial_line p c = (indeterminate, p\<lparr>m_uri := m_uri p @ [c]\<rparr>)"
    using Cons.prems by (simp add: run_parser_def request_initial_line_def)
  with Cons.IH [of "p\<lparr>m_uri := m_uri p @ [c]\<rparr>"] Cons.prems show ?case
    by (auto intro: consumes_Cons)
qed (simp add: consumes_nil)

definition clean_request :: "request \<Rightarrow> bool" where
  "clean_request rq \<longleftrightarrow>
     list_all isalpha (rq_method rq)
     \<and> list_all (\<lambda>c. c \<noteq> CHR '' '' \<and> \<not> iscntrl c) (rq_uri rq)
     \<and> rq_version rq \<in> {''1.0'', ''1.1''}
     \<and> list_all clean_header (rq_headers rq)
     \<and> sends (rq_method rq) (rq_headers rq) (rq_payload rq)"

lemma alpha_not_space: "isalpha c \<Longrightarrow> c \<noteq> CHR '' ''"
  by (auto simp: isalpha_def isupper_def islower_def)

lemma consume_request_version:
  assumes "m_parser p = Initial_line" "m_state p = 2" "v \<in> {''1.0'', ''1.1''}"
  shows "consumes (run_parser request_initial_line) content p (''HTTP/'' @ v @ kCRLF)
    ((if v = ''1.1'' then p\<lparr>m_http_version_minor := 1\<rparr> else p)\<lparr>m_state := 0, m_parser := Header_lines\<rparr>)"
  using assms
  by (auto simp: consumes_def run_parser_def request_initial_line_def initial_defs kCRLF_eq Let_def)

text \<open>A parser fresh from \<open>reset\<close> whose headers and payload have been moved out.\<close>

definition fresh :: "'a parser_scheme \<Rightarrow> bool" where
  "fresh p \<longleftrightarrow> m_parser p = No_parser \<and> m_state p = 0 \<and> m_uri p = [] \<and> m_method p = []
     \<and> m_collect_payload p \<and> m_http_version_major p = 1 \<and> m_http_version_minor p = 0
     \<and> m_headers p = [] \<and> m_payload p = []"

lemma fresh_reset: "m_headers p = [] \<Longrightarrow> m_payload p = [] \<Longrightarrow> fresh (parser_reset p)"
  by (simp add: fresh_def parser_reset_def)

lemma fresh_new: "fresh request_parser_new" "fresh reply_parser_new"
  by (simp_all add: fresh_def request_parser_new_def reply_parser_new_def parser_reset_def)

definition request_head :: "request \<Rightarrow> parser \<Rightarrow> parser" where
  "request_head rq p =
     in_headers ((if rq_version rq = ''1.1''
                  then p\<lparr>m_method := rq_method rq, m_uri := rq_uri rq, m_http_version_minor := 1\<rparr>
                  else p\<lparr>m_method := rq_method rq, m_uri := rq_uri rq\<rparr>)\<lparr>m_parser := Header_lines\<rparr>)
       (m_headers p @ rq_headers rq) 0"

lemma consume_request_head:
  assumes p: "m_parser p = Initial_line" "m_state p = 0" "m_uri p = []" "m_method p = []"
    and rq: "list_all isalpha (rq_method rq)" "list_all (\<lambda>c. c \<noteq> CHR '' '' \<and> \<not> iscntrl c) (rq_uri rq)"
      "rq_version rq \<in> {''1.0'', ''1.1''}" "list_all clean_header (rq_headers rq)"
  shows "consumes (run_parser request_initial_line) content p
    (rq_method rq @ '' '' @ rq_uri rq @ '' '' @ (''HTTP/'' @ rq_version rq @ kCRLF) @ header_lines (rq_headers rq))
    (request_head rq p)"
proof -
  let ?S = "run_parser request_initial_line"
  let ?p1 = "p\<lparr>m_method := rq_method rq\<rparr>"
  let ?p2 = "?p1\<lparr>m_state := 1\<rparr>"
  let ?p3 = "?p2\<lparr>m_uri := rq_uri rq\<rparr>"
  let ?p4 = "?p3\<lparr>m_state := 2\<rparr>"
  let ?p5 = "(if rq_version rq = ''1.1'' then ?p4\<lparr>m_http_version_minor := 1\<rparr> else ?p4)\<lparr>m_state := 0, m_parser := Header_lines\<rparr>"
  have 1: "consumes ?S content p (rq_method rq) ?p1"
    using consume_method [of p "rq_method rq" content] p rq by simp
  have 2: "consumes ?S content ?p1 '' '' ?p2"
    using p by (intro consumes_char) (simp add: run_parser_def request_initial_line_def isalpha_def isupper_def islower_def)
  have 3: "consumes ?S content ?p2 (rq_uri rq) ?p3"
    using consume_uri [of ?p2 "rq_uri rq" content] p rq by simp
  have 4: "consumes ?S content ?p3 '' '' ?p4"
    using p by (intro consumes_char) (simp add: run_parser_def request_initial_line_def numeral_2_eq_2)
  have 5: "consumes ?S content ?p4 (''HTTP/'' @ rq_version rq @ kCRLF) ?p5"
    using p rq by (intro consume_request_version) simp_all
  have 6: "consumes ?S content ?p5 (header_lines (rq_headers rq)) (in_headers ?p5 (m_headers p @ rq_headers rq) 0)"
    using consume_headers [of ?p5 "rq_headers rq" request_initial_line content "m_headers p"] p rq
    by simp
  show ?thesis
    using consumes_append [OF 1 consumes_append [OF 2 consumes_append [OF 3 consumes_append [OF 4
      consumes_append [OF 5 6]]]]]
    by (simp add: request_head_def split: if_splits)
qed

lemma char_digits: "char_of (49 :: nat) = CHR ''1''" "char_of (48 :: nat) = CHR ''0''"
  by (simp_all add: char_of_def bit_Suc_0_iff)

lemma request_wire_more:
  assumes p: "fresh (p\<lparr>m_headers := []\<rparr>)"
    and rq: "clean_request (rq\<lparr>rq_headers := m_headers p @ rq_headers rq\<rparr>)"
  shows "\<exists>p'. request_parse p (request_to_buffers rq @ rest) = (complete, p', rest)
    \<and> get_request p' = (rq\<lparr>rq_headers := m_headers p @ rq_headers rq\<rparr>, p'\<lparr>m_headers := [], m_payload := []\<rparr>)"
proof -
  let ?q = "start_parser p"
  let ?h = "request_head rq ?q"
  let ?head = "rq_method rq @ '' '' @ rq_uri rq @ '' '' @ (''HTTP/'' @ rq_version rq @ kCRLF) @ header_lines (rq_headers rq)"
  have rq': "list_all isalpha (rq_method rq)" "list_all (\<lambda>c. c \<noteq> CHR '' '' \<and> \<not> iscntrl c) (rq_uri rq)"
      "rq_version rq \<in> {''1.0'', ''1.1''}" "list_all clean_header (rq_headers rq)"
      "sends (rq_method rq) (m_headers p @ rq_headers rq) (rq_payload rq)"
    using rq by (simp_all add: clean_request_def)
  have whole: "request_to_buffers rq @ rest = ?head @ (kCRLF @ rq_payload rq @ rest)"
    by (simp add: request_to_buffers_def)
  have q: "m_parser ?q = Initial_line" "m_state ?q = 0" "m_uri ?q = []" "m_method ?q = []" "m_headers ?q = m_headers p"
      "\<not> m_parsing_content ?q" "m_collect_payload ?q" "m_payload ?q = []"
      "m_http_version_major ?q = 1" "m_http_version_minor ?q = 0"
    using p by (auto simp: fresh_def start_parser_def)
  have h: "m_parser ?h = Header_lines" "m_state ?h = 0" "m_collect_payload ?h" "m_payload ?h = []"
      "\<not> m_parsing_content ?h" "m_method ?h = rq_method rq" "m_headers ?h = m_headers p @ rq_headers rq"
    using q by (simp_all add: request_head_def)
  have "request_parse p (request_to_buffers rq @ rest)
      = parse_loop (run_parser request_initial_line) m_parsing_content False ?h (kCRLF @ rq_payload rq @ rest)"
    unfolding request_parse_def Let_def whole
    using consumesD [OF consume_request_head [OF q(1-4) rq'(1-4)]] q(6) by simp
  moreover obtain p' where "parse_loop (run_parser request_initial_line) m_parsing_content False ?h (kCRLF @ rq_payload rq @ rest)
      = (complete, p', rest)" "m_payload p' = rq_payload rq" "same_message ?h p'"
    using read_body [of ?h "rq_payload rq" request_initial_line rest] h rq'(5) by auto
  moreover have "rq_version rq = [CHR ''1'', CHR ''.'', if rq_version rq = ''1.1'' then CHR ''1'' else CHR ''0'']"
    using rq'(3) by auto
  ultimately show ?thesis
    using q by (cases rq) (auto simp: get_request_def request_new_def request_head_def same_message_def char_digits)
qed

lemma request_wire:
  assumes "fresh p" "clean_request rq"
  shows "\<exists>p'. request_parse p (request_to_buffers rq @ rest) = (complete, p', rest) \<and> fst (get_request p') = rq"
proof -
  have none: "m_headers p = []" and p: "fresh (p\<lparr>m_headers := []\<rparr>)"
    using assms(1) by (simp_all add: fresh_def)
  have "clean_request (rq\<lparr>rq_headers := m_headers p @ rq_headers rq\<rparr>)"
    using assms(2) by (simp add: none)
  from request_wire_more [OF p this, of rest] show ?thesis by (auto simp: none)
qed

text \<open>
  C11. Request round trip: a request that is written by \<open>to_buffers\<close> is read back by a
  fresh parser, whatever follows it on the connection, which is left unread.
\<close>

theorem request_roundtrip:
  assumes "clean_request rq" "m_headers p = []" "m_payload p = []"
  shows "\<exists>p'. request_parse (parser_reset p) (request_to_buffers rq @ rest) = (complete, p', rest)
    \<and> fst (get_request p') = rq"
  by (rule request_wire [OF fresh_reset [OF assms(2,3)] assms(1)])

theorem request_roundtrip_witness:
  "\<exists>p'. request_parse (parser_reset request_parser_new)
      (request_to_buffers \<lparr>rq_method = ''POST'', rq_uri = ''/a'', rq_version = ''1.1'',
         rq_headers = [\<lparr>h_name = ''Content-Length'', h_value = ''2''\<rparr>], rq_payload = ''hi''\<rparr> @ ''GET'')
      = (complete, p', ''GET'')
    \<and> fst (get_request p') = \<lparr>rq_method = ''POST'', rq_uri = ''/a'', rq_version = ''1.1'',
         rq_headers = [\<lparr>h_name = ''Content-Length'', h_value = ''2''\<rparr>], rq_payload = ''hi''\<rparr>"
proof (rule request_roundtrip)
  show "m_headers request_parser_new = []" "m_payload request_parser_new = []"
    by (simp_all add: request_parser_new_def parser_reset_def)
  show "clean_request \<lparr>rq_method = ''POST'', rq_uri = ''/a'', rq_version = ''1.1'',
         rq_headers = [\<lparr>h_name = ''Content-Length'', h_value = ''2''\<rparr>], rq_payload = ''hi''\<rparr>"
    by (simp add: clean_request_def clean_header_def sends_def announces_def is_chunked_def isalpha_def isupper_def
        islower_def iscntrl_def is_tspecial_def CRs_def iequals_def nat_to_string.simps char_of_def bit_Suc_0_iff)
qed

section \<open>Replies\<close>

lemma nat_to_string_three:
  assumes "100 \<le> n" "n \<le> 999"
  shows "nat_to_string n = [char_of (48 + n div 100), char_of (48 + n div 10 mod 10), char_of (48 + n mod 10)]"
proof -
  have "\<not> n < 10" "\<not> n div 10 < 10" "n div 10 div 10 < 10" "n div 10 div 10 = n div 100"
    using assms by (simp_all flip: div_mult2_eq)
  then show ?thesis
    by (subst nat_to_string.simps, subst nat_to_string.simps, subst nat_to_string.simps) simp
qed

lemma three_digits: "100 * (n div 100) + 10 * (n div 10 mod 10) + n mod 10 = (n :: nat)"
proof -
  have "n = 10 * (n div 10) + n mod 10" "n div 10 = 10 * (n div 10 div 10) + n div 10 mod 10"
    by simp_all
  moreover have "n div 10 div 10 = n div 100" by (simp flip: div_mult2_eq)
  ultimately show ?thesis by linarith
qed

abbreviation status_done :: "reply_parser \<Rightarrow> nat \<Rightarrow> int \<Rightarrow> string \<Rightarrow> reply_parser" where
  "status_done p minor st line \<equiv>
     p\<lparr>m_http_version_minor := minor, m_status := st, m_status_line := line, m_state := 0, m_parser := Header_lines\<rparr>"

lemma consume_status_text:
  "m_parser p = Initial_line \<Longrightarrow> m_state p = 13 \<Longrightarrow> CRs \<notin> set s \<Longrightarrow>
   consumes (run_parser reply_initial_line) content p s (p\<lparr>m_status_line := m_status_line p @ s\<rparr>)"
proof (induction s arbitrary: p)
  case (Cons c s)
  have "run_parser reply_initial_line p c = (indeterminate, p\<lparr>m_status_line := m_status_line p @ [c]\<rparr>)"
    using Cons.prems by (auto simp: run_parser_def reply_initial_line_def)
  with Cons.IH [of "p\<lparr>m_status_line := m_status_line p @ [c]\<rparr>"] Cons.prems show ?case
    by (auto intro: consumes_Cons)
qed (simp add: consumes_nil)

lemma consume_http_version:
  assumes "m_parser p = Initial_line" "m_state p = 0" "m_http_version_minor p = 0" "minor < 2"
  shows "consumes (run_parser reply_initial_line) content p (''HTTP/1.'' @ nat_to_string minor @ '' '')
    (p\<lparr>m_http_version_minor := minor, m_state := 9\<rparr>)"
proof -
  have digits: "nat_to_string 0 = ''0''" "nat_to_string 1 = ''1''"
    by (simp_all add: nat_to_string.simps char_digits)
  consider "minor = 0" | "minor = 1" using assms(4) by linarith
  then show ?thesis
  proof cases
    case 1
    have "p\<lparr>m_http_version_minor := 0\<rparr> = p" using assms(3) by simp
    then show ?thesis using assms(1,2) unfolding 1 digits
      by (simp add: consumes_def run_parser_def reply_initial_line_def initial_defs isspace_def)
        (simp add: numeral_eq_Suc)
  next
    case 2
    show ?thesis using assms(1,2) unfolding 2 digits
      by (simp add: consumes_def run_parser_def reply_initial_line_def initial_defs isspace_def)
        (simp add: numeral_eq_Suc)
  qed
qed

lemma digit_steps:
  assumes "m_parser p = Initial_line" "d < 10"
  shows "run_parser reply_initial_line (p\<lparr>m_state := 9\<rparr>) (char_of (48 + d))
      = (indeterminate, p\<lparr>m_status := 100 * int d, m_state := 10\<rparr>)"
    "run_parser reply_initial_line (p\<lparr>m_state := 10\<rparr>) (char_of (48 + d))
      = (indeterminate, p\<lparr>m_status := m_status p + 10 * int d, m_state := 11\<rparr>)"
    "run_parser reply_initial_line (p\<lparr>m_state := 11\<rparr>) (char_of (48 + d))
      = (indeterminate, p\<lparr>m_status := m_status p + int d, m_state := 12\<rparr>)"
    "run_parser reply_initial_line (p\<lparr>m_state := 12\<rparr>) CHR '' '' = (indeterminate, p\<lparr>m_state := 13\<rparr>)"
  using assms by (simp_all add: run_parser_def reply_initial_line_def status_digit_def expect_space_def isspace_def)

lemma consume_digits:
  assumes p: "m_parser p = Initial_line" and "a < 10" "b < 10" "c < 10"
  shows "consumes (run_parser reply_initial_line) content (p\<lparr>m_state := 9\<rparr>)
    [char_of (48 + a), char_of (48 + b), char_of (48 + c), CHR '' '']
    (p\<lparr>m_status := int (100 * a + 10 * b + c), m_state := 13\<rparr>)"
proof -
  let ?p1 = "p\<lparr>m_status := 100 * int a\<rparr>"
  let ?p2 = "?p1\<lparr>m_status := m_status ?p1 + 10 * int b\<rparr>"
  let ?p3 = "?p2\<lparr>m_status := m_status ?p2 + int c\<rparr>"
  have 3: "consumes (run_parser reply_initial_line) content (?p3\<lparr>m_state := 12\<rparr>) ('' '') (?p3\<lparr>m_state := 13\<rparr>)"
    using p by (intro consumes_char digit_steps(4) [where d = 0]) simp_all
  have "consumes (run_parser reply_initial_line) content (p\<lparr>m_state := 9\<rparr>)
    (char_of (48 + a) # char_of (48 + b) # char_of (48 + c) # '' '') (?p3\<lparr>m_state := 13\<rparr>)"
    by (rule consumes_Cons [OF digit_steps(1) [OF p assms(2)]
          consumes_Cons [OF digit_steps(2) [of ?p1, OF _ assms(3)]
            consumes_Cons [OF digit_steps(3) [of ?p2, OF _ assms(4)] 3]]]) (simp_all add: p)
  then show ?thesis by (simp add: ac_simps)
qed

lemma consume_status_code:
  assumes "m_parser p = Initial_line" "m_state p = 9" "100 \<le> n" "n \<le> 999"
  shows "consumes (run_parser reply_initial_line) content p (nat_to_string n @ '' '')
    (p\<lparr>m_status := int n, m_state := 13\<rparr>)"
proof -
  have "n div 100 < 10" using assms(4) by (simp add: div_less_iff_less_mult)
  from consume_digits [OF assms(1) this, of "n div 10 mod 10" "n mod 10" content]
  have "consumes (run_parser reply_initial_line) content (p\<lparr>m_state := 9\<rparr>) (nat_to_string n @ '' '')
      (p\<lparr>m_status := int n, m_state := 13\<rparr>)"
    unfolding nat_to_string_three [OF assms(3,4)] three_digits by simp
  moreover have "p\<lparr>m_state := 9\<rparr> = p" using assms(2) by simp
  ultimately show ?thesis by simp
qed

definition clean_reply :: "reply \<Rightarrow> bool" where
  "clean_reply r \<longleftrightarrow> rp_major r = 1 \<and> rp_minor r < 2 \<and> 100 \<le> rp_status r \<and> rp_status r \<le> 999
     \<and> list_all clean_header (rp_headers r)"

lemma status_text_clean: "CRs \<notin> set (get_status_text s)"
proof -
  have "list_all (\<lambda>(c, t). CRs \<notin> set t) kStatusStrings"
    by (simp add: kStatusStrings_def CRs_def)
  then show ?thesis
    by (auto simp: get_status_text_def CRs_def list_all_iff split: option.split dest!: map_of_SomeD)
qed

definition reply_head :: "reply \<Rightarrow> reply_parser \<Rightarrow> reply_parser" where
  "reply_head r p =
     in_headers (status_done p (rp_minor r) (rp_status r) (get_status_text (rp_status r))) (rp_headers r) 0"

lemma consume_reply_head:
  assumes p: "m_parser p = Initial_line" "m_state p = 0" "m_http_version_minor p = 0" "m_headers p = []"
      "m_status_line p = []"
    and r: "clean_reply r"
  shows "consumes (run_parser reply_initial_line) content p
    (status_line r @ header_lines (rp_headers r)) (reply_head r p)"
proof -
  let ?S = "run_parser reply_initial_line"
  define n where "n = nat (rp_status r)"
  have n: "rp_status r = int n" "100 \<le> n" "n \<le> 999" using r by (auto simp: n_def clean_reply_def)
  let ?t = "get_status_text (rp_status r)"
  let ?p1 = "p\<lparr>m_http_version_minor := rp_minor r, m_state := 9\<rparr>"
  let ?p2 = "?p1\<lparr>m_status := int n, m_state := 13\<rparr>"
  let ?p3 = "?p2\<lparr>m_status_line := ?t\<rparr>"
  let ?p4 = "?p3\<lparr>m_state := 14\<rparr>"
  let ?p5 = "?p4\<lparr>m_state := 0, m_parser := Header_lines\<rparr>"
  have 1: "consumes ?S content p (''HTTP/1.'' @ nat_to_string (rp_minor r) @ '' '') ?p1"
    using p r by (intro consume_http_version) (simp_all add: clean_reply_def)
  have 2: "consumes ?S content ?p1 (nat_to_string n @ '' '') ?p2"
    using consume_status_code [of ?p1 n content] p n by simp
  have 3: "consumes ?S content ?p2 ?t ?p3"
    using consume_status_text [of ?p2 ?t content] p status_text_clean by simp
  have 4: "consumes ?S content ?p3 [CRs] ?p4"
    using p by (intro consumes_char) (simp add: run_parser_def reply_initial_line_def numeral_eq_Suc)
  have 5: "consumes ?S content ?p4 [LFs] ?p5"
    using p by (intro consumes_char) (simp add: run_parser_def reply_initial_line_def to_header_lines_def)
  have 6: "consumes ?S content ?p5 (header_lines (rp_headers r)) (in_headers ?p5 (rp_headers r) 0)"
    using consume_headers [of ?p5 "rp_headers r" reply_initial_line content "[]"] p r
    by (simp add: clean_reply_def)
  have major: "nat_to_string 1 = ''1''" by (simp add: nat_to_string.simps char_digits)
  have "status_line r @ header_lines (rp_headers r) =
      (''HTTP/1.'' @ nat_to_string (rp_minor r) @ '' '') @ (nat_to_string n @ '' '') @ ?t @ [CRs] @ [LFs]
        @ header_lines (rp_headers r)"
    using r n major by (simp add: status_line_def clean_reply_def int_to_string_def kCRLF_eq)
  then show ?thesis
    using consumes_append [OF 1 consumes_append [OF 2 consumes_append [OF 3 consumes_append [OF 4
      consumes_append [OF 5 6]]]]] n(1)
    by (simp add: reply_head_def)
qed

text \<open>What the parser has when it has read the reply \<open>r\<close> with that content.\<close>

definition received :: "reply \<Rightarrow> string \<Rightarrow> reply_parser \<Rightarrow> bool" where
  "received r content p \<longleftrightarrow> m_status p = rp_status r \<and> m_status_line p = get_status_text (rp_status r)
     \<and> m_http_version_major p = rp_major r \<and> m_http_version_minor p = rp_minor r
     \<and> m_headers p = rp_headers r \<and> m_payload p = content"

lemma reply_started:
  assumes "fresh p" "m_status_line p = []"
  shows "m_parser (start_parser p) = Initial_line" "m_state (start_parser p) = 0"
    "m_http_version_major (start_parser p) = 1" "m_http_version_minor (start_parser p) = 0"
    "m_headers (start_parser p) = []" "m_status_line (start_parser p) = []" "m_payload (start_parser p) = []"
    "m_method (start_parser p) = []" "m_collect_payload (start_parser p)" "\<not> m_parsing_content (start_parser p)"
  using assms by (auto simp: fresh_def start_parser_def)

lemma reply_body_start:
  assumes "fresh p" "m_status_line p = []" "clean_reply r"
  shows "reply_parse p (status_line r @ header_lines (rp_headers r) @ t) =
    parse_loop (run_parser reply_initial_line) m_parsing_content False (reply_head r (start_parser p)) t"
  using consumesD [OF consume_reply_head [OF reply_started(1,2,4,5,6) [OF assms(1,2)] assms(3)],
      of m_parsing_content False t] reply_started(10) [OF assms(1,2)]
  by (simp add: reply_parse_def Let_def)

lemma same_reply_fields:
  "same_message p p' \<Longrightarrow> m_status p' = m_status p \<and> m_status_line p' = m_status_line (p :: reply_parser)"
  by (cases p; cases p') (simp add: same_message_def)

lemma reply_wire:
  assumes p: "fresh p" "m_status_line p = []" and r: "clean_reply r"
    and body: "sends [] (rp_headers r) (rp_content r)"
  shows "\<exists>p'. reply_parse p (to_buffers r @ rest) = (complete, p', rest) \<and> received r (rp_content r) p'"
proof -
  let ?h = "reply_head r (start_parser p)"
  have h: "m_parser ?h = Header_lines" "m_state ?h = 0" "m_collect_payload ?h" "m_payload ?h = []"
      "\<not> m_parsing_content ?h" "m_method ?h = []" "m_headers ?h = rp_headers r"
    using reply_started [OF p] by (simp_all add: reply_head_def)
  obtain p' where "parse_loop (run_parser reply_initial_line) m_parsing_content False ?h (kCRLF @ rp_content r @ rest)
      = (complete, p', rest)" "m_payload p' = rp_content r" "same_message ?h p'"
    using read_body [of ?h "rp_content r" reply_initial_line rest] h body by auto
  moreover note same_reply_fields [OF this(3)]
  ultimately show ?thesis
    using reply_body_start [OF p r, of "kCRLF @ rp_content r @ rest"] r reply_started [OF p]
    by (auto simp: to_buffers_def received_def reply_head_def same_message_def clean_reply_def)
qed

text \<open>\<open>set_content\<close> announces the length of what it stores.\<close>

definition one_length :: "header list \<Rightarrow> bool" where
  "one_length hs \<longleftrightarrow> length (filter (\<lambda>h. iequals (h_name h) ''Content-Length'') hs) \<le> 1"

lemma content_length_not:
  "\<not> iequals ''Content-Length'' ''Transfer-Encoding''" "\<not> iequals ''Content-Type'' ''Content-Length''"
  "\<not> iequals ''Content-Type'' ''Transfer-Encoding''" "\<not> iequals ''Transfer-Encoding'' ''Content-Length''"
  "\<not> iequals ''Content-Length'' ''Content-Type''"
  by (simp_all add: iequals_def toupper_def islower_def)

lemma clean_set_header:
  "list_all clean_header hs \<Longrightarrow> clean_header \<lparr>h_name = n, h_value = v\<rparr> \<Longrightarrow> list_all clean_header (set_header hs n v)"
  by (induction hs n v rule: set_header.induct) (auto simp: clean_header_def)

lemma clean_remove: "list_all clean_header hs \<Longrightarrow> list_all clean_header (reply_remove_header hs n)"
  by (simp add: reply_remove_header_def list_all_iff)

lemma clean_nat: "clean_header \<lparr>h_name = ''Content-Length'', h_value = nat_to_string n\<rparr>"
proof -
  obtain c s where cs: "nat_to_string n = c # s" by (cases "nat_to_string n") auto
  have "CRs \<notin> set (nat_to_string n)"
    using nat_to_string_digits [of n] by (auto simp: isdigit_def CRs_def)
  moreover have "c \<noteq> CHR '' ''"
    using nat_to_string_digits [of n] cs by (auto simp: isdigit_def)
  ultimately show ?thesis
    by (simp add: clean_header_def iscntrl_def is_tspecial_def cs)
qed

lemma set_header_other_name:
  assumes "\<not> iequals n m"
  shows "filter (\<lambda>h. iequals (h_name h) m) (set_header hs n v) = filter (\<lambda>h. iequals (h_name h) m) hs"
  using assms by (induction hs n v rule: set_header.induct) (auto dest: iequals_sym iequals_trans)

lemma set_header_same_name:
  "length (filter (\<lambda>h. iequals (h_name h) n) hs) \<le> 1 \<Longrightarrow>
   \<exists>h. filter (\<lambda>h. iequals (h_name h) n) (set_header hs n v) = [h] \<and> h_value h = v"
proof (induction hs)
  case (Cons h hs)
  then show ?case by (cases "iequals (h_name h) n") auto
qed simp

lemma filter_remove:
  "\<not> iequals n m \<Longrightarrow> filter (\<lambda>h. iequals (h_name h) m) (reply_remove_header hs n) = filter (\<lambda>h. iequals (h_name h) m) hs"
  by (induction hs) (auto simp: reply_remove_header_def dest: iequals_sym iequals_trans)

lemma filter_remove_same: "filter (\<lambda>h. iequals (h_name h) n) (reply_remove_header hs n) = []"
  by (simp add: reply_remove_header_def filter_empty_conv)

lemma announces_filter:
  assumes "filter (\<lambda>h. iequals (h_name h) ''Content-Length'') hs = [h]" "h_value h = nat_to_string n"
    and "filter (\<lambda>h. iequals (h_name h) ''Transfer-Encoding'') hs = []"
  shows "announces n hs" "n = 0 \<Longrightarrow> announces_none [] hs"
proof -
  have "\<forall>g \<in> set hs. iequals (h_name g) ''Content-Length'' \<longrightarrow> g = h"
    using arg_cong [OF assms(1), of set] by auto
  moreover have "h \<in> set hs \<and> iequals (h_name h) ''Content-Length''"
    using arg_cong [OF assms(1), of set] by auto
  moreover have "\<forall>g \<in> set hs. \<not> is_chunked g"
    using assms(3) by (auto simp: is_chunked_def filter_empty_conv)
  ultimately show "announces n hs" "n = 0 \<Longrightarrow> announces_none [] hs"
    using assms(2) by (auto simp: announces_def announces_none_def list_all_iff list_ex_iff)
qed

lemma set_content_sends:
  assumes "one_length (rp_headers r)" "length data < 2 ^ 32"
  shows "sends [] (rp_headers (set_content r data ct)) data"
proof -
  let ?hs = "rp_headers (set_content r data ct)"
  obtain h where "filter (\<lambda>h. iequals (h_name h) ''Content-Length'') ?hs = [h]" "h_value h = nat_to_string (length data)"
    using set_header_same_name [of "''Content-Length''" "rp_headers r" "nat_to_string (length data)"] assms(1)
    by (auto simp: one_length_def set_content_def reply_set_header_def reply_del_header_def set_header_other_name
        filter_remove content_length_not)
  moreover have "filter (\<lambda>h. iequals (h_name h) ''Transfer-Encoding'') ?hs = []"
    by (simp add: set_content_def reply_set_header_def reply_del_header_def set_header_other_name
        filter_remove_same content_length_not)
  ultimately show ?thesis
    using announces_filter [of ?hs h "length data"] assms(2) by (auto simp: sends_def)
qed

lemma set_content_clean:
  assumes "clean_reply r" "clean_header \<lparr>h_name = ''Content-Type'', h_value = ct\<rparr>"
  shows "clean_reply (set_content r data ct)"
  using assms
  by (auto simp: clean_reply_def set_content_def reply_set_header_def reply_del_header_def
      intro!: clean_set_header clean_remove clean_nat)

text \<open>
  C12. Reply round trip: a reply whose content was set in memory is read back by a fresh
  reply parser with its version, status, status text, headers and content, and what
  follows it is left unread.
\<close>

theorem reply_roundtrip:
  assumes "clean_reply r" "one_length (rp_headers r)" "length data < 2 ^ 32"
    and "clean_header \<lparr>h_name = ''Content-Type'', h_value = ct\<rparr>"
    and "m_headers p = []" "m_payload p = []"
  shows "\<exists>p'. reply_parse (reply_parser_reset p) (to_buffers (set_content r data ct) @ rest) = (complete, p', rest)
    \<and> received (set_content r data ct) data p'"
proof -
  have "fresh (reply_parser_reset p)" "m_status_line (reply_parser_reset p) = []"
    using fresh_reset [OF assms(5,6)] by (simp_all add: reply_parser_reset_def fresh_def)
  moreover have "rp_content (set_content r data ct) = data"
    by (simp add: set_content_def reply_set_header_def reply_del_header_def)
  ultimately show ?thesis
    using reply_wire [of "reply_parser_reset p" "set_content r data ct" rest]
      set_content_clean [OF assms(1,4)] set_content_sends [OF assms(2,3)] by simp
qed

lemma clean_header_literals:
  "clean_header \<lparr>h_name = ''Date'', h_value = ''today''\<rparr>" "clean_header \<lparr>h_name = ''Server'', h_value = ''libzeep''\<rparr>"
  "clean_header \<lparr>h_name = ''Content-Length'', h_value = ''0''\<rparr>" "clean_header \<lparr>h_name = ''Content-Type'', h_value = ''text/plain''\<rparr>"
  by (simp_all add: clean_header_def iscntrl_def is_tspecial_def CRs_def)

lemma new_reply_clean:
  assumes "version \<in> {(1, 0), (1, 1)}" "100 \<le> st" "st \<le> 999" "clean_header \<lparr>h_name = ''Date'', h_value = date\<rparr>"
  shows "clean_reply (reply_new date st version) \<and> one_length (rp_headers (reply_new date st version))"
  using assms clean_header_literals(2,3)
  by (auto simp: clean_reply_def reply_new_def one_length_def iequals_def toupper_def islower_def)

theorem reply_roundtrip_witness:
  "\<exists>p'. reply_parse (reply_parser_reset reply_parser_new)
      (to_buffers (set_content (reply_new ''today'' 200 (1, 1)) ''hi'' ''text/plain'') @ ''HTTP'') = (complete, p', ''HTTP'')
    \<and> received (set_content (reply_new ''today'' 200 (1, 1)) ''hi'' ''text/plain'') ''hi'' p'"
  by (rule reply_roundtrip)
    (use new_reply_clean [of "(1, 1)" 200 "''today''"] clean_header_literals fresh_new(2) in \<open>simp_all add: fresh_def\<close>)

section \<open>Streams\<close>

text \<open>
  What the connection sends after the headers: it calls \<open>data_to_buffers\<close> until there
  is nothing left.
\<close>

function drain :: "reply \<Rightarrow> string \<times> reply" where
  "drain r =
     (case data_to_buffers r of
        (None, r') \<Rightarrow> ([], r')
      | (Some bs, r') \<Rightarrow> (case drain r' of (bs', r'') \<Rightarrow> (bs @ bs', r'')))"
  by pat_completeness auto
termination
  by (relation "measure (\<lambda>r. case rp_data r of None \<Rightarrow> 0 | Some d \<Rightarrow> Suc (length (sb_rest d)))")
    (auto simp: data_to_buffers_def Let_def kMaxChunkSize_def split: option.splits if_splits)

declare drain.simps [simp del]

definition wire :: "reply \<Rightarrow> string" where
  "wire r = to_buffers r @ fst (drain r)"

lemma chunk_size_acc: "chunk_size n acc = chunk_size n [] @ acc"
proof (induction n arbitrary: acc rule: less_induct)
  case (less n)
  show ?case
  proof (cases "n = 0")
    case True
    then show ?thesis by (simp add: chunk_size.simps)
  next
    case False
    then have "n div 16 < n" by simp
    note IH = less.IH [OF this]
    have "chunk_size n acc = chunk_size (n div 16) [] @ hex_chars ! (n mod 16) # acc"
      using False IH [of "hex_chars ! (n mod 16) # acc"] by (simp add: chunk_size.simps [of n acc])
    moreover have "chunk_size n [] = chunk_size (n div 16) [] @ [hex_chars ! (n mod 16)]"
      using False IH [of "[hex_chars ! (n mod 16)]"] by (simp add: chunk_size.simps [of n "[]"])
    ultimately show ?thesis by simp
  qed
qed

lemma chunk_size_snoc: "0 < n \<Longrightarrow> chunk_size n [] = chunk_size (n div 16) [] @ [hex_chars ! (n mod 16)]"
  by (subst chunk_size.simps) (simp add: chunk_size_acc [of "n div 16" "[_]"])

lemma hex_char_facts:
  "d < 16 \<Longrightarrow> isxdigit (hex_chars ! d)" "d < 16 \<Longrightarrow> hex_val (hex_chars ! d) = d"
  by (simp_all add: isxdigit_iff hex_val_def)

lemma chunk_size_value: "digits_value 16 hex_val (chunk_size n []) = n \<and> list_all isxdigit (chunk_size n [])"
proof (induction n rule: less_induct)
  case (less n)
  show ?case
  proof (cases "n = 0")
    case True
    then show ?thesis by (simp add: chunk_size.simps digits_value_def)
  next
    case False
    then have "n div 16 < n" by simp
    from less.IH [OF this] False show ?thesis
      by (simp add: chunk_size_snoc hex_char_facts digits_value_def)
  qed
qed

lemma chunk_size_ne: "0 < n \<Longrightarrow> chunk_size n [] \<noteq> []"
  by (simp add: chunk_size_snoc)

lemma length_chunk_size: "n < 16 ^ k \<Longrightarrow> length (chunk_size n []) \<le> k"
proof (induction k arbitrary: n)
  case 0
  then show ?case by (simp add: chunk_size.simps)
next
  case (Suc k)
  show ?case
  proof (cases "n = 0")
    case True
    then show ?thesis by (simp add: chunk_size.simps)
  next
    case False
    have "n div 16 < 16 ^ k" using Suc.prems by (simp add: div_less_iff_less_mult mult.commute)
    from Suc.IH [OF this] False show ?thesis by (simp add: chunk_size_snoc)
  qed
qed

abbreviation in_chunk :: "'a parser_scheme \<Rightarrow> nat \<Rightarrow> string \<Rightarrow> u32 \<Rightarrow> string \<Rightarrow> 'a parser_scheme" where
  "in_chunk p st buf n payload \<equiv> p\<lparr>m_state := st, m_buf := buf, m_chunk_size := n, m_payload := payload\<rparr>"

lemma consume_hex:
  "m_parser p = Chunk \<Longrightarrow> list_all isxdigit s \<Longrightarrow>
   consumes (run_parser ini) content (in_chunk p 1 buf n pl) s (in_chunk p 1 (buf @ s) n pl)"
proof (induction s arbitrary: buf)
  case (Cons c s)
  have "run_parser ini (in_chunk p 1 buf n pl) c = (indeterminate, in_chunk p 1 (buf @ [c]) n pl)"
    using Cons.prems by (simp add: run_parser_def parse_chunk_def)
  with Cons.IH [of "buf @ [c]"] Cons.prems show ?case by (auto intro: consumes_Cons)
qed (simp add: consumes_nil)

lemma consume_chunk_size:
  assumes p: "m_parser p = Chunk" and s: "list_all isxdigit s" "s \<noteq> []"
    and v: "stream_hex_unsigned s = k"
  shows "consumes (run_parser ini) content (in_chunk p 0 buf n pl) (s @ kCRLF)
    (in_chunk p (if k > 0 then 4 else 10) s k pl)"
proof -
  obtain c t where ct: "s = c # t" using s by (cases s) auto
  have 1: "consumes (run_parser ini) content (in_chunk p 0 buf n pl) [c] (in_chunk p 1 [c] n pl)"
    using p s by (intro consumes_char) (simp add: ct run_parser_def parse_chunk_def)
  have 2: "consumes (run_parser ini) content (in_chunk p 1 [c] n pl) t (in_chunk p 1 s n pl)"
    using consume_hex [where p = p and s = t and buf = "[c]" and n = n and pl = pl and ini = ini and content = content] p s by (simp add: ct)
  have "\<not> isxdigit CRs" by (simp add: CRs_def isxdigit_def isdigit_def)
  then have 3: "consumes (run_parser ini) content (in_chunk p 1 s n pl) [CRs] (in_chunk p 3 s n pl)"
    using p by (intro consumes_char) (simp add: run_parser_def parse_chunk_def CRs_def)
  have 4: "consumes (run_parser ini) content (in_chunk p 3 s n pl) [LFs] (in_chunk p (if k > 0 then 4 else 10) s k pl)"
    using p v by (intro consumes_char) (simp add: run_parser_def parse_chunk_def)
  show ?thesis
    using consumes_append [OF consumes_append [OF 1 2] consumes_append [OF 3 4]]
    by (simp add: ct kCRLF_eq)
qed

lemma consume_chunk_data:
  "m_parser p = Chunk \<Longrightarrow> m_collect_payload p \<Longrightarrow> s \<noteq> [] \<Longrightarrow> length s < 2 ^ 32 \<Longrightarrow>
   consumes (run_parser ini) content (in_chunk p 4 buf (word_of_nat (length s)) pl) s (in_chunk p 5 buf 0 (pl @ s))"
proof (induction s arbitrary: pl)
  case (Cons c s)
  show ?case
  proof (cases "s = []")
    case True
    then show ?thesis using Cons.prems
      by (auto intro!: consumes_char simp: run_parser_def parse_chunk_def Let_def)
  next
    case False
    then have "word_of_nat (length s) \<noteq> (0 :: u32)"
      using Cons.prems(4) by (auto simp: word_of_nat_eq_0_iff dest: dvd_imp_le)
    then have "run_parser ini (in_chunk p 4 buf (word_of_nat (length (c # s))) pl) c
        = (indeterminate, in_chunk p 4 buf (word_of_nat (length s)) (pl @ [c]))"
      using Cons.prems by (simp add: run_parser_def parse_chunk_def Let_def)
    with Cons.IH [of "pl @ [c]"] Cons.prems False show ?thesis by (auto intro: consumes_Cons)
  qed
qed simp

lemma consume_chunk:
  assumes p: "m_parser p = Chunk" "m_collect_payload p" and s: "s \<noteq> []" "length s < 2 ^ 32"
  shows "consumes (run_parser ini) content (in_chunk p 0 buf n pl)
    (chunk_size (length s) [] @ kCRLF @ s @ kCRLF)
    (in_chunk p 0 (chunk_size (length s) []) 0 (pl @ s))"
proof -
  let ?k = "chunk_size (length s) []"
  have k: "stream_hex_unsigned ?k = word_of_nat (length s)" "(0 :: u32) < word_of_nat (length s)"
    using s chunk_size_value [of "length s"]
    by (auto simp: stream_hex_unsigned_def clamp32_def word_of_nat_eq_0_iff word_neq_0_conv [symmetric] dest: dvd_imp_le)
  have 1: "consumes (run_parser ini) content (in_chunk p 0 buf n pl) (?k @ kCRLF)
      (in_chunk p 4 ?k (word_of_nat (length s)) pl)"
    using consume_chunk_size [where p = p and s = ?k and buf = buf and n = n and pl = pl and ini = ini and content = content]
      p k s chunk_size_ne [of "length s"] chunk_size_value [of "length s"] by simp
  have 2: "consumes (run_parser ini) content (in_chunk p 4 ?k (word_of_nat (length s)) pl) s
      (in_chunk p 5 ?k 0 (pl @ s))"
    by (rule consume_chunk_data [OF p s])
  have 3: "consumes (run_parser ini) content (in_chunk p 5 ?k 0 (pl @ s)) [CRs] (in_chunk p 6 ?k 0 (pl @ s))"
    using p by (intro consumes_char) (simp add: run_parser_def parse_chunk_def)
  have 4: "consumes (run_parser ini) content (in_chunk p 6 ?k 0 (pl @ s)) [LFs] (in_chunk p 0 ?k 0 (pl @ s))"
    using p by (intro consumes_char) (simp add: run_parser_def parse_chunk_def)
  show ?thesis
    using consumes_append [OF 1 consumes_append [OF 2 consumes_append [OF 3 4]]] by (simp add: kCRLF_eq)
qed

lemma end_of_chunks:
  assumes "m_parser p = Chunk"
  shows "parse_loop (run_parser ini) content True (in_chunk p 0 buf n pl) (''0'' @ kCRLF @ kCRLF @ t)
    = (complete, in_chunk p 11 ''0'' 0 pl, t)"
proof -
  have "stream_hex_unsigned ''0'' = 0"
    by (simp add: stream_hex_unsigned_def digits_value_def hex_val_def hex_digit_value_def clamp32_def)
  then have "consumes (run_parser ini) content (in_chunk p 0 buf n pl) (''0'' @ kCRLF) (in_chunk p 10 ''0'' 0 pl)"
    using consume_chunk_size [where p = p and s = "''0''" and buf = buf and n = n and pl = pl and ini = ini and content = content]
      assms by (simp add: isxdigit_def isdigit_def)
  then have "parse_loop (run_parser ini) content True (in_chunk p 0 buf n pl) ((''0'' @ kCRLF) @ (kCRLF @ t))
      = parse_loop (run_parser ini) content True (in_chunk p 10 ''0'' 0 pl) (kCRLF @ t)"
    by (rule consumesD)
  also have "\<dots> = (complete, in_chunk p 11 ''0'' 0 pl, t)"
    using assms by (simp add: kCRLF_eq run_parser_def parse_chunk_def)
  finally show ?thesis by simp
qed


lemma drain_none: "rp_data r = None \<Longrightarrow> fst (drain r) = []"
  by (simp add: drain.simps data_to_buffers_def)

lemma drain_plain:
  "\<not> rp_chunked r \<Longrightarrow> rp_data r = Some d \<Longrightarrow> fst (drain r) = sb_rest d"
proof (induction "length (sb_rest d)" arbitrary: r d rule: less_induct)
  case less
  show ?case
  proof (cases "sb_rest d = []")
    case True
    with less.prems show ?thesis by (simp add: drain.simps data_to_buffers_def)
  next
    case False
    let ?d = "d\<lparr>sb_rest := drop kMaxChunkSize (sb_rest d)\<rparr>"
    let ?r = "r\<lparr>rp_data := Some ?d\<rparr>"
    have "fst (drain ?r) = sb_rest ?d"
      using less.prems False by (intro less.hyps) (simp_all add: kMaxChunkSize_def)
    moreover have "data_to_buffers r = (Some (take kMaxChunkSize (sb_rest d)), ?r)"
      using less.prems False by (simp add: data_to_buffers_def Let_def kMaxChunkSize_def)
    ultimately show ?thesis by (simp add: drain.simps [of r] case_prod_beta)
  qed
qed

lemma drain_chunked:
  assumes p: "m_parser p = Chunk" "m_collect_payload p"
  shows "rp_chunked r \<Longrightarrow> rp_data r = Some d \<Longrightarrow>
    parse_loop (run_parser ini) content True (in_chunk p 0 buf n pl) (fst (drain r) @ t)
      = (complete, in_chunk p 11 ''0'' 0 (pl @ sb_rest d), t)"
proof (induction "length (sb_rest d)" arbitrary: r d buf n pl rule: less_induct)
  case less
  show ?case
  proof (cases "sb_rest d = []")
    case True
    then have "drain r = (''0'' @ kCRLF @ kCRLF, r\<lparr>rp_data := None\<rparr>)"
      using less.prems by (simp add: drain.simps [of r] drain.simps [of "r\<lparr>rp_data := None\<rparr>"] data_to_buffers_def)
    then show ?thesis
      using end_of_chunks [where p = p and ini = ini and content = content and buf = buf and n = n and pl = pl and t = t]
        p True by simp
  next
    case False
    let ?b = "take kMaxChunkSize (sb_rest d)"
    let ?d = "d\<lparr>sb_rest := drop kMaxChunkSize (sb_rest d)\<rparr>"
    let ?r = "r\<lparr>rp_data := Some ?d\<rparr>"
    let ?k = "chunk_size (length ?b) []"
    have b: "?b \<noteq> []" "length ?b < 2 ^ 32" using False by (simp_all add: kMaxChunkSize_def)
    have "data_to_buffers r = (Some (?k @ kCRLF @ ?b @ kCRLF), ?r)"
      using less.prems False by (simp add: data_to_buffers_def Let_def kMaxChunkSize_def)
    then have "fst (drain r) @ t = (?k @ kCRLF @ ?b @ kCRLF) @ (fst (drain ?r) @ t)"
      by (simp add: drain.simps [of r] case_prod_beta)
    then have "parse_loop (run_parser ini) content True (in_chunk p 0 buf n pl) (fst (drain r) @ t)
        = parse_loop (run_parser ini) content True (in_chunk p 0 ?k 0 (pl @ ?b)) (fst (drain ?r) @ t)"
      using consumesD [OF consume_chunk [OF p b]] by metis
    also have "\<dots> = (complete, in_chunk p 11 ''0'' 0 ((pl @ ?b) @ sb_rest ?d), t)"
      using less.prems False by (intro less.hyps) (simp_all add: kMaxChunkSize_def)
    finally show ?thesis by simp
  qed
qed

lemma scan_chunked:
  "list_ex is_chunked hs \<Longrightarrow> \<forall>h \<in> set hs. \<not> iequals (h_name h) ''Content-Length'' \<Longrightarrow> m_method p = [] \<Longrightarrow>
   scan_headers hs p = p\<lparr>m_parser := Chunk, m_state := 0, m_parsing_content := True\<rparr>"
proof (induction hs)
  case (Cons h hs)
  then have "scan_header h p = p" by (simp add: scan_header_def)
  with Cons show ?case by auto
qed simp

lemma read_all_eq: "read_all content s = content @ s"
proof (induction content s rule: read_all.induct)
  case (1 content s)
  then show ?case by (subst read_all.simps) simp
qed

lemma chunked_header: "is_chunked \<lparr>h_name = ''Transfer-Encoding'', h_value = ''chunked''\<rparr>"
  by (simp add: is_chunked_def)

text \<open>The reply with a stream, as it is sent to a client of HTTP/1.1 or of HTTP/1.0.\<close>

lemma set_header_mem: "\<exists>h \<in> set (set_header hs n v). iequals (h_name h) n \<and> h_value h = v"
  by (induction hs) auto

lemma set_content_stream_headers:
  "rp_headers (set_content_stream r d ct) =
     reply_remove_header (set_header (set_header (rp_headers r) ''Content-Type'' ct) ''Transfer-Encoding'' ''chunked'')
       ''Content-Length''"
  by (simp add: set_content_stream_def reply_set_header_def reply_del_header_def)

lemma stream_no_length: "\<forall>h \<in> set (rp_headers (set_content_stream r d ct)). \<not> iequals (h_name h) ''Content-Length''"
  by (simp add: set_content_stream_headers reply_remove_header_def)

lemma stream_is_chunked: "list_ex is_chunked (rp_headers (set_content_stream r d ct))"
proof -
  let ?hs = "set_header (set_header (rp_headers r) ''Content-Type'' ct) ''Transfer-Encoding'' ''chunked''"
  obtain h where h: "h \<in> set ?hs" "iequals (h_name h) ''Transfer-Encoding''" "h_value h = ''chunked''"
    using set_header_mem by blast
  have "\<not> iequals (h_name h) ''Content-Length''"
    using iequals_trans [OF iequals_sym [OF h(2)], of "''Content-Length''"] content_length_not(4) by blast
  then show ?thesis
    using h by (auto simp: set_content_stream_headers reply_remove_header_def list_ex_iff is_chunked_def)
qed

lemmas stream_headers = stream_is_chunked stream_no_length

lemma stream_clean:
  assumes "list_all clean_header (rp_headers r)" "clean_header \<lparr>h_name = ''Content-Type'', h_value = ct\<rparr>"
  shows "list_all clean_header (rp_headers (set_content_stream r d ct))"
proof -
  have "clean_header \<lparr>h_name = ''Transfer-Encoding'', h_value = ''chunked''\<rparr>"
    by (simp add: clean_header_def iscntrl_def is_tspecial_def CRs_def)
  then show ?thesis
    using assms by (auto simp: set_content_stream_def reply_set_header_def reply_del_header_def
        intro!: clean_set_header clean_remove)
qed

lemma chunked_wire:
  assumes p: "fresh p" "m_status_line p = []" and r: "clean_reply r" "rp_chunked r" "rp_data r = Some d" "rp_content r = []"
    and hs: "list_ex is_chunked (rp_headers r)" "\<forall>h \<in> set (rp_headers r). \<not> iequals (h_name h) ''Content-Length''"
  shows "\<exists>p'. reply_parse p (wire r @ rest) = (complete, p', rest) \<and> received r (sb_rest d) p'"
proof -
  let ?h = "reply_head r (start_parser p)"
  let ?c = "?h\<lparr>m_parser := Chunk, m_state := 0, m_parsing_content := True\<rparr>"
  have h: "m_parser ?h = Header_lines" "m_state ?h = 0" "m_collect_payload ?h" "m_payload ?h = []"
      "m_method ?h = []" "m_headers ?h = rp_headers r"
    using reply_started [OF p] by (simp_all add: reply_head_def)
  have c: "?c = in_chunk ?c 0 (m_buf ?c) (m_chunk_size ?c) []" using h(4) by simp
  have "reply_parse p (wire r @ rest)
      = parse_loop (run_parser reply_initial_line) m_parsing_content False ?h (kCRLF @ (fst (drain r) @ rest))"
    using reply_body_start [OF p r(1), of "kCRLF @ (fst (drain r) @ rest)"] by (simp add: wire_def to_buffers_def r(4))
  also have "\<dots> = parse_loop (run_parser reply_initial_line) m_parsing_content True ?c (fst (drain r) @ rest)"
    using end_of_headers [OF h(1,2), of reply_initial_line False "fst (drain r) @ rest"]
      scan_chunked [OF hs, of "?h\<lparr>m_state := 20\<rparr>"] h by (simp add: Let_def)
  also have "\<dots> = (complete, in_chunk ?c 11 ''0'' 0 (sb_rest d), rest)"
    using c drain_chunked [where p = ?c and r = r and d = d and ini = reply_initial_line and content = m_parsing_content
        and buf = "m_buf ?c" and n = "m_chunk_size ?c" and pl = "[]" and t = rest, folded c] h r by simp
  finally show ?thesis
    using r(1) reply_started [OF p] by (auto simp: received_def reply_head_def clean_reply_def)
qed

lemma set_version_11: "set_version r (Suc 0, Suc 0) = r\<lparr>rp_major := Suc 0, rp_minor := Suc 0\<rparr>"
  by (cases "rp_data r") (simp_all add: set_version_def Let_def)

lemma stream_fields:
  "rp_data (set_content_stream r d ct) = Some d" "rp_content (set_content_stream r d ct) = []"
  "rp_status (set_content_stream r d ct) = 200" "rp_chunked (set_content_stream r d ct)"
  by (simp_all add: set_content_stream_def reply_set_header_def reply_del_header_def)

definition downgraded :: "reply \<Rightarrow> streambuf \<Rightarrow> string \<Rightarrow> reply" where
  "downgraded r d ct = set_version (set_content_stream r d ct) (1, 0)"

lemma set_version_10:
  "rp_data r = Some d \<Longrightarrow> set_version r (Suc 0, 0) =
    r\<lparr>rp_major := Suc 0, rp_minor := 0, rp_chunked := False,
      rp_headers := reply_remove_header (set_header (rp_headers r) ''Content-Length'' (nat_to_string (length (sb_rest d))))
        ''Transfer-Encoding'',
      rp_content := (if sb_seekable d then rp_content r else rp_content r @ sb_rest d),
      rp_data := (if sb_seekable d then Some d else None)\<rparr>"
  by (simp add: set_version_def read_all_eq reply_set_header_def reply_del_header_def)

lemma downgraded_fields:
  "rp_headers (downgraded r d ct) =
     reply_remove_header (set_header (rp_headers (set_content_stream r d ct)) ''Content-Length'' (nat_to_string (length (sb_rest d))))
       ''Transfer-Encoding''"
  "rp_major (downgraded r d ct) = 1" "rp_minor (downgraded r d ct) = 0" "rp_status (downgraded r d ct) = 200"
  "\<not> rp_chunked (downgraded r d ct)"
  "rp_content (downgraded r d ct) = (if sb_seekable d then [] else sb_rest d)"
  "rp_data (downgraded r d ct) = (if sb_seekable d then Some d else None)"
  unfolding downgraded_def by (simp_all add: set_version_10 [OF stream_fields(1)] stream_fields)

lemma downgraded_wire: "wire (downgraded r d ct) =
  status_line (downgraded r d ct) @ header_lines (rp_headers (downgraded r d ct)) @ kCRLF @ sb_rest d"
  using drain_plain [of "downgraded r d ct" d] drain_none [of "downgraded r d ct"]
  by (cases "sb_seekable d") (simp_all add: wire_def to_buffers_def downgraded_fields)

lemma downgraded_sends:
  assumes "length (sb_rest d) < 2 ^ 32"
  shows "sends [] (rp_headers (downgraded r d ct)) (sb_rest d)"
proof -
  let ?hs = "rp_headers (downgraded r d ct)"
  have none: "filter (\<lambda>h. iequals (h_name h) ''Content-Length'') (rp_headers (set_content_stream r d ct)) = []"
    using stream_headers(2) [of r d ct] by (simp add: filter_empty_conv)
  obtain h where "filter (\<lambda>h. iequals (h_name h) ''Content-Length'') ?hs = [h]" "h_value h = nat_to_string (length (sb_rest d))"
    using set_header_same_name [of "''Content-Length''" "rp_headers (set_content_stream r d ct)" "nat_to_string (length (sb_rest d))"]
    by (auto simp: none downgraded_fields(1) filter_remove content_length_not)
  moreover have "filter (\<lambda>h. iequals (h_name h) ''Transfer-Encoding'') ?hs = []"
    by (simp add: downgraded_fields filter_remove_same)
  ultimately show ?thesis
    using announces_filter [of ?hs h "length (sb_rest d)"] assms by (auto simp: sends_def)
qed

lemma content_wire:
  assumes p: "fresh p" "m_status_line p = []" and r: "clean_reply r" and body: "sends [] (rp_headers r) body"
    and w: "w = status_line r @ header_lines (rp_headers r) @ kCRLF @ body"
  shows "\<exists>p'. reply_parse p (w @ rest) = (complete, p', rest) \<and> received r body p'"
proof -
  let ?r = "r\<lparr>rp_content := body\<rparr>"
  have "clean_reply ?r" "sends [] (rp_headers ?r) (rp_content ?r)" "w = to_buffers ?r"
    using r body w by (simp_all add: clean_reply_def to_buffers_def status_line_def)
  moreover have "received ?r body = received r body" by (simp add: received_def fun_eq_iff)
  ultimately show ?thesis using reply_wire [OF p, of ?r rest] by simp
qed

text \<open>
  C13. A streamed reply arrives whole: set from a stream and sent as the connection sends
  it, headers first and then the buffers of \<open>data_to_buffers\<close> until there are none, it is
  read back by a reply parser with the content of the stream, chunked for HTTP/1.1 and
  with its length announced for HTTP/1.0, whether or not the stream can seek.
\<close>

theorem streamed_reply_arrives:
  assumes "clean_reply r" "clean_header \<lparr>h_name = ''Content-Type'', h_value = ct\<rparr>"
    and "length (sb_rest d) < 2 ^ 32" "minor < 2" "m_headers p = []" "m_payload p = []"
  shows "\<exists>p'. reply_parse (reply_parser_reset p) (wire (set_version (set_content_stream r d ct) (1, minor)) @ rest)
      = (complete, p', rest)
    \<and> received (set_version (set_content_stream r d ct) (1, minor)) (sb_rest d) p'"
proof -
  have p: "fresh (reply_parser_reset p)" "m_status_line (reply_parser_reset p) = []"
    using fresh_reset [OF assms(5,6)] by (simp_all add: reply_parser_reset_def fresh_def)
  have hs: "list_all clean_header (rp_headers (set_content_stream r d ct))"
    using assms(1,2) by (intro stream_clean) (simp_all add: clean_reply_def)
  consider "minor = Suc 0" | "minor = 0" using assms(4) by linarith
  then show ?thesis
  proof cases
    case 1
    let ?r = "set_version (set_content_stream r d ct) (1, minor)"
    have "?r = (set_content_stream r d ct)\<lparr>rp_major := Suc 0, rp_minor := Suc 0\<rparr>"
      by (simp add: 1 set_version_11)
    then have "clean_reply ?r" "rp_chunked ?r" "rp_data ?r = Some d" "rp_content ?r = []"
        "rp_headers ?r = rp_headers (set_content_stream r d ct)"
      using hs by (simp_all add: clean_reply_def stream_fields)
    then show ?thesis using chunked_wire [OF p, of ?r d rest] stream_headers [of r d ct] by simp
  next
    case 2
    have "clean_reply (downgraded r d ct)"
      using hs by (auto simp: clean_reply_def downgraded_fields intro!: clean_remove clean_set_header clean_nat)
    then show ?thesis
      using content_wire [OF p _ downgraded_sends [OF assms(3)] downgraded_wire, of r ct rest]
      by (simp add: 2 downgraded_def)
  qed
qed

theorem streamed_reply_arrives_witness:
  "\<exists>p'. reply_parse (reply_parser_reset reply_parser_new)
      (wire (set_version (set_content_stream (reply_new ''today'' 500 (1, 0)) \<lparr>sb_rest = ''hello'', sb_seekable = False\<rparr> ''text/plain'') (1, 1)) @ ''x'')
      = (complete, p', ''x'')
    \<and> received (set_version (set_content_stream (reply_new ''today'' 500 (1, 0)) \<lparr>sb_rest = ''hello'', sb_seekable = False\<rparr> ''text/plain'') (1, 1))
        (sb_rest \<lparr>sb_rest = ''hello'', sb_seekable = False\<rparr>) p'"
  by (rule streamed_reply_arrives)
    (use new_reply_clean [of "(1, 0)" 500 "''today''"] clean_header_literals fresh_new(2) in \<open>simp_all add: fresh_def\<close>)

text \<open>
  The digits of a chunk size fit their buffer: for the at most 10240 bytes of one
  read the loop writes at most four of the eight characters of \<open>m_size_buffer\<close>, and
  they are the hexadecimal digits of the size.
\<close>

lemma chunk_size_fits:
  assumes "n \<le> kMaxChunkSize"
  shows "length (chunk_size n []) \<le> 4 \<and> stream_hex_unsigned (chunk_size n []) = word_of_nat n"
proof -
  have "n < 16 ^ 4" using assms by (simp add: kMaxChunkSize_def)
  then show ?thesis
    using chunk_size_value [of n] length_chunk_size [of n 4] by (simp add: stream_hex_unsigned_def clamp32_def)
qed

section \<open>Two defects of the parsers\<close>

text \<open>
  A folded header line of white space only swallows the header line after it: the
  carriage return in state 10 leads to state 4 instead of 5, so the newline and the
  whole next line are appended to the value of the header before.
\<close>

lemma blank_fold_swallows_header:
  assumes "m_parser p = Header_lines" "CRs \<notin> set line"
  shows "parse_loop (run_parser ini) content flag (in_headers p (acc @ [h]) 0) ('' '' @ kCRLF @ line @ kCRLF @ t)
    = parse_loop (run_parser ini) content flag
        (in_headers p (acc @ [h\<lparr>h_value := h_value h @ LFs # line\<rparr>]) 0) t"
proof -
  obtain n v where h: "h = \<lparr>h_name = n, h_value = v\<rparr>" by (cases h) auto
  let ?at = "\<lambda>v st. in_headers p (acc @ [\<lparr>h_name = n, h_value = v\<rparr>]) st"
  have 1: "consumes (run_parser ini) content (?at v 0) ('' '' @ [CRs]) (?at v 4)"
    using assms(1) by (simp add: consumes_def run_parser_def parse_header_lines_def CRs_def numeral_eq_Suc)
  have 2: "consumes (run_parser ini) content (?at v 4) (LFs # line) (?at (v @ LFs # line) 4)"
    using consume_value [OF assms(1), of "LFs # line" ini content acc n v] assms(2) by simp
  have 3: "consumes (run_parser ini) content (?at w 4) kCRLF (?at w 0)" for w
    using assms(1) by (simp add: consumes_def run_parser_def parse_header_lines_def kCRLF_eq)
  have "consumes (run_parser ini) content (?at v 0) (('' '' @ [CRs]) @ (LFs # line) @ kCRLF) (?at (v @ LFs # line) 0)"
    by (rule consumes_append [OF 1 consumes_append [OF 2 3]])
  then show ?thesis by (simp add: consumes_def h kCRLF_eq)
qed

lemma blank_fold_swallows_header_witness:
  "let p = request_parser_new\<lparr>m_parser := Header_lines\<rparr> in
   parse_loop (run_parser request_initial_line) m_parsing_content False
     (in_headers p [\<lparr>h_name = ''A'', h_value = ''b''\<rparr>] 0) ('' '' @ kCRLF @ ''Host: x'' @ kCRLF @ ''t'')
   = parse_loop (run_parser request_initial_line) m_parsing_content False
     (in_headers p [\<lparr>h_name = ''A'', h_value = ''b'' @ LFs # ''Host: x''\<rparr>] 0) ''t''"
  using blank_fold_swallows_header [of "request_parser_new\<lparr>m_parser := Header_lines\<rparr>" "''Host: x''"
      request_initial_line m_parsing_content False "[]" "\<lparr>h_name = ''A'', h_value = ''b''\<rparr>" "''t''"]
  by (simp add: CRs_def Let_def)

text \<open>
  The short version \<open>HTTP/1\<close>: the request parser goes on to the line feed, the reply
  parser to the state of the third digit of the status, so it rejects the line feed and
  takes a digit for a status of one digit.
\<close>

lemma reply_short_version:
  assumes "m_parser p = Initial_line" "m_state p = 6" "m_parser q = Initial_line" "m_state q = 8" "d < 10"
  shows "fst (parse_loop (run_parser reply_initial_line) m_parsing_content flag p kCRLF) = failed
    \<and> m_status (fst (snd (parse_loop (run_parser reply_initial_line) m_parsing_content flag p [CRs, char_of (48 + d)])))
        = m_status p + int d
    \<and> parse_loop (run_parser request_initial_line) m_parsing_content flag q kCRLF
        = (indeterminate, q\<lparr>m_state := 0, m_parser := Header_lines\<rparr>, [])"
proof -
  have cr: "run_parser reply_initial_line p CRs = (indeterminate, p\<lparr>m_state := 11\<rparr>)"
    "run_parser request_initial_line q CRs = (indeterminate, q\<lparr>m_state := 11\<rparr>)"
    using assms by (simp_all add: run_parser_def reply_initial_line_def request_initial_line_def after_major_def CRs_def)
  have "run_parser reply_initial_line (p\<lparr>m_state := 11\<rparr>) LFs = (failed, p\<lparr>m_state := 11\<rparr>)"
    using assms(1) by (simp add: run_parser_def reply_initial_line_def status_digit_def LFs_def isdigit_def)
  moreover have "run_parser request_initial_line (q\<lparr>m_state := 11\<rparr>) LFs
      = (indeterminate, q\<lparr>m_state := 0, m_parser := Header_lines\<rparr>)"
    using assms(3) by (simp add: run_parser_def request_initial_line_def to_header_lines_def)
  moreover note digit_steps(3) [OF assms(1,5)]
  ultimately show ?thesis by (simp add: cr kCRLF_eq)
qed

lemma reply_short_version_witness:
  "fst (parse_loop (run_parser reply_initial_line) m_parsing_content False
     (reply_parser_new\<lparr>m_parser := Initial_line, m_state := 6\<rparr>) kCRLF) = failed"
  using reply_short_version [of "reply_parser_new\<lparr>m_parser := Initial_line, m_state := 6\<rparr>"
      "request_parser_new\<lparr>m_parser := Initial_line, m_state := 8\<rparr>" 0 False] by simp

end
