(* ===== verification/Http_Server.thy ===== *)
theory Http_Server
  imports Http_Wire
begin

text \<open>
  The server's side of a connection: \<open>server::handle_request\<close> of
  \<open>lib-http/src/server.cpp\<close>, which turns a request into a reply with the help of the
  security context, the controllers and the error handlers, and the asynchronous state
  machine of \<open>lib-http/src/connection.cpp\<close>. Controllers, handlers and the security
  context are arguments; the asynchronous operations of the socket are the events of a
  step relation. Logging is left out.
\<close>

section \<open>Handling a request\<close>

text \<open>What \<open>handle_request\<close> can catch: a \<open>status_type\<close> or an exception object.\<close>

datatype server_exn = Status status_type | Exception exn

text \<open>
  A controller gets the reply by reference, so it may have changed it when it throws: it
  returns the reply with either an exception or the answer whether it took the request.
\<close>

record controller =
  ct_matches :: "string \<Rightarrow> bool"
  ct_dispatch :: "request \<Rightarrow> reply \<Rightarrow> reply \<times> (server_exn + bool)"

type_synonym error_handler = "request \<Rightarrow> server_exn \<Rightarrow> reply \<Rightarrow> reply \<times> (server_exn + bool)"

record security_context =
  sc_validate :: "request \<Rightarrow> server_exn + request"
  sc_csrf_token :: "request \<Rightarrow> string \<times> bool"

record server =
  sv_controllers :: "controller list"
  sv_error_handlers :: "error_handler list"
  sv_security :: "security_context option"
  sv_log_forwarded :: bool
  sv_get_path :: "request \<Rightarrow> server_exn + string"
  sv_remote :: "server_exn + string"

text \<open>\<open>rfind\<close> of the last comma, with one space after it skipped.\<close>

definition last_forwarded :: "string \<Rightarrow> string" where
  "last_forwarded v =
     (case find_char CHR '','' (rev v) of
        None \<Rightarrow> v
      | Some k \<Rightarrow>
          (let comma = length v - 1 - k;
               comma = (if comma < length v - 1 \<and> v ! (comma + 1) = CHR '' '' then comma + 1 else comma)
           in drop (comma + 1) v))"

text \<open>The loop over the headers: client, user agent and accept.\<close>

definition scan_request_header :: "bool \<Rightarrow> header \<Rightarrow> string \<times> string \<times> string \<Rightarrow> string \<times> string \<times> string" where
  "scan_request_header forwarded h cua =
     (case cua of (client, userAgent, accept) \<Rightarrow>
        if forwarded \<and> iequals (h_name h) ''X-Forwarded-For'' then (last_forwarded (h_value h), userAgent, accept)
        else if iequals (h_name h) ''Referer'' then (client, userAgent, accept)
        else if iequals (h_name h) ''User-Agent'' then (client, h_value h, accept)
        else if iequals (h_name h) ''Accept'' then (client, userAgent, h_value h)
        else (client, userAgent, accept))"

fun dispatch_controllers :: "controller list \<Rightarrow> string \<Rightarrow> request \<Rightarrow> reply \<Rightarrow> reply \<times> server_exn option" where
  "dispatch_controllers [] path req rep = (rep, None)"
| "dispatch_controllers (c # cs) path req rep =
     (if \<not> ct_matches c path then dispatch_controllers cs path req rep
      else (case ct_dispatch c req rep of
              (rep', Inl e) \<Rightarrow> (rep', Some e)
            | (rep', Inr True) \<Rightarrow> (rep', None)
            | (rep', Inr False) \<Rightarrow> dispatch_controllers cs path req rep'))"

text \<open>An error handler that throws is passed over.\<close>

fun run_error_handlers :: "error_handler list \<Rightarrow> request \<Rightarrow> server_exn \<Rightarrow> reply \<Rightarrow> reply" where
  "run_error_handlers [] req e rep = rep"
| "run_error_handlers (eh # ehs) req e rep =
     (case eh req e rep of
        (rep', Inr True) \<Rightarrow> rep'
      | (rep', _) \<Rightarrow> run_error_handlers ehs req e rep')"

definition supported_method :: "string \<Rightarrow> bool" where
  "supported_method m \<longleftrightarrow> m \<in> {''GET'', ''POST'', ''PUT'', ''OPTIONS'', ''HEAD'', ''DELETE''}"

definition contains_string :: "string \<Rightarrow> string \<Rightarrow> bool" where
  "contains_string s t \<longleftrightarrow> find_string t s \<noteq> None"

text \<open>What follows the controllers: HEAD, the CSRF cookie and the content type for IE.\<close>

definition finish_reply :: "request \<Rightarrow> string \<Rightarrow> bool \<Rightarrow> string \<Rightarrow> string \<Rightarrow> reply \<Rightarrow> reply" where
  "finish_reply req csrf csrf_is_new userAgent accept rep =
     (let rep = (if rq_method req = ''HEAD'' then set_content rep [] (get_header (rp_headers rep) ''Content-Type'')
                 else if csrf_is_new then
                   reply_set_cookie rep ''csrf-token'' csrf
                     [\<lparr>h_name = ''HttpOnly'', h_value = []\<rparr>, \<lparr>h_name = ''SameSite'', h_value = ''Lax''\<rparr>,
                      \<lparr>h_name = ''Path'', h_value = ''/''\<rparr>]
                 else rep)
      in if starts_with (get_header (rp_headers rep) ''Content-Type'') ''application/xhtml+xml''
            \<and> \<not> contains_string accept ''application/xhtml+xml'' \<and> contains_string userAgent ''MSIE''
         then reply_set_header rep ''Content-Type'' ''text/html; charset=utf-8'' else rep)"

definition process_request ::
  "server \<Rightarrow> request \<Rightarrow> string \<times> string \<times> string \<Rightarrow> reply \<Rightarrow> reply \<times> server_exn option" where
  "process_request sv req cua rep =
     (case cua of (client, userAgent, accept) \<Rightarrow>
      case (if client = [] then sv_remote sv else Inr client) of
        Inl e \<Rightarrow> (rep, Some e)
      | Inr _ \<Rightarrow>
          if \<not> supported_method (rq_method req) then (rep, Some (Status 400))
          else (case (case sv_security sv of
                        None \<Rightarrow> Inr (req, [], False)
                      | Some sc \<Rightarrow> (case sc_validate sc req of
                                      Inl e \<Rightarrow> Inl e
                                    | Inr req' \<Rightarrow> (case sc_csrf_token sc req' of (csrf, is_new) \<Rightarrow> Inr (req', csrf, is_new)))) of
                  Inl e \<Rightarrow> (rep, Some e)
                | Inr (req', csrf, csrf_is_new) \<Rightarrow>
                    (case sv_get_path sv req' of
                       Inl e \<Rightarrow> (rep, Some e)
                     | Inr path \<Rightarrow>
                         (case dispatch_controllers (sv_controllers sv) path req' rep of
                            (rep', Some e) \<Rightarrow> (rep', Some e)
                          | (rep', None) \<Rightarrow> (finish_reply req' csrf csrf_is_new userAgent accept rep', None)))))"

definition handle_request :: "string \<Rightarrow> server \<Rightarrow> request \<Rightarrow> reply \<Rightarrow> reply" where
  "handle_request date sv req rep =
     (let rep = reply_assign rep (stock_reply date 404 []);
          cua = fold (scan_request_header (sv_log_forwarded sv)) (rq_headers req) ([], ''-'', [])
      in case process_request sv req cua rep of
           (rep', None) \<Rightarrow> rep'
         | (rep', Some e) \<Rightarrow> run_error_handlers (sv_error_handlers sv) req e rep')"

section \<open>The connection\<close>

datatype phase =
    Reading
  | Writing string
  | Closed
  | Abandoned

record connection =
  cn_buffer :: string
  cn_parser :: parser
  cn_reply :: reply
  cn_keep_alive :: bool
  cn_phase :: phase

text \<open>The operating side of a connection: the date it puts in replies, and the server.\<close>

type_synonym handler = "request \<Rightarrow> reply \<Rightarrow> reply"

text \<open>A handler that leaves the reply as it is.\<close>

definition idle_handler :: handler where
  "idle_handler req rep = rep"

definition connection_new :: "string \<Rightarrow> connection" where
  "connection_new date =
     \<lparr>cn_buffer = [], cn_parser = request_parser_new, cn_reply = reply_new date 500 (1, 0),
      cn_keep_alive = False, cn_phase = Reading\<rparr>"

definition handle_read :: "string \<Rightarrow> handler \<Rightarrow> connection \<Rightarrow> connection" where
  "handle_read date handler c =
     (case request_parse (cn_parser c) (cn_buffer c) of (result, p, rest) \<Rightarrow>
        let c = c\<lparr>cn_parser := p, cn_buffer := rest\<rparr> in
        if result = complete then
          (let (req, p) = get_request p;
               c = c\<lparr>cn_parser := parser_reset p\<rparr>;
               rep = handler req (cn_reply c);
               (major, minor) = get_version req;
               rep = set_version rep (nat major, nat minor);
               c = (if keep_alive req
                    then c\<lparr>cn_reply := reply_set_header (reply_set_header rep ''Connection'' ''Keep-Alive'')
                              ''Keep-Alive'' ''timeout=5, max=100'',
                           cn_keep_alive := True\<rparr>
                    else c\<lparr>cn_reply := rep\<rparr>)
           in c\<lparr>cn_phase := Writing (to_buffers (cn_reply c))\<rparr>)
        else if result = failed then
          (let c = c\<lparr>cn_reply := reply_assign (cn_reply c) (stock_reply date 400 [])\<rparr>
           in c\<lparr>cn_phase := Writing (to_buffers (cn_reply c))\<rparr>)
        else c\<lparr>cn_phase := Reading\<rparr>)"

text \<open>\<open>m_reply.reset()\<close>; its copy is of a new reply, so its assertion holds.\<close>

definition reset_reply :: "string \<Rightarrow> reply \<Rightarrow> reply" where
  "reset_reply date r = (case reply_reset date r of Inr r' \<Rightarrow> r' | Inl _ \<Rightarrow> r)"

definition handle_write :: "string \<Rightarrow> handler \<Rightarrow> connection \<Rightarrow> connection" where
  "handle_write date handler c =
     (case data_to_buffers (cn_reply c) of
        (Some bs, r) \<Rightarrow> c\<lparr>cn_reply := r, cn_phase := Writing bs\<rparr>
      | (None, r) \<Rightarrow>
          (let c = c\<lparr>cn_reply := r\<rparr> in
           if cn_keep_alive c then
             (let c = c\<lparr>cn_parser := parser_reset (cn_parser c), cn_reply := reset_reply date r\<rparr>
              in if cn_buffer c \<noteq> [] then handle_read date handler c else c\<lparr>cn_phase := Reading\<rparr>)
           else c\<lparr>cn_phase := Closed\<rparr>))"

text \<open>
  The events: bytes arrive, a write completes (with the bytes it put on the wire), an
  operation fails, after which nothing holds on to the connection.
\<close>

datatype event = Received string | Sent string | Failed

inductive conn_step :: "string \<Rightarrow> handler \<Rightarrow> connection \<Rightarrow> event \<Rightarrow> connection \<Rightarrow> bool"
  for date :: string and handler :: handler where
  received: "cn_phase c = Reading \<Longrightarrow> c' = handle_read date handler (c\<lparr>cn_buffer := cn_buffer c @ bs\<rparr>) \<Longrightarrow>
     conn_step date handler c (Received bs) c'"
| sent: "cn_phase c = Writing bs \<Longrightarrow> c' = handle_write date handler c \<Longrightarrow>
     conn_step date handler c (Sent bs) c'"
| failed_read: "cn_phase c = Reading \<Longrightarrow> conn_step date handler c Failed (c\<lparr>cn_phase := Abandoned\<rparr>)"
| failed_write: "cn_phase c = Writing bs \<Longrightarrow> conn_step date handler c Failed (c\<lparr>cn_phase := Abandoned\<rparr>)"

inductive conn_run :: "string \<Rightarrow> handler \<Rightarrow> connection \<Rightarrow> event list \<Rightarrow> connection \<Rightarrow> bool"
  for date :: string and handler :: handler where
  conn_stop: "conn_run date handler c [] c"
| conn_more: "conn_step date handler c e c' \<Longrightarrow> conn_run date handler c' es c'' \<Longrightarrow> conn_run date handler c (e # es) c''"

inductive_cases conn_stepE: "conn_step date handler c e c'"
inductive_simps conn_run_simps: "conn_run date handler c [] c'" "conn_run date handler c (e # es) c'"

definition sent_bytes :: "event list \<Rightarrow> string" where
  "sent_bytes es = concat (map (\<lambda>e. case e of Sent bs \<Rightarrow> bs | _ \<Rightarrow> []) es)"

section \<open>Requests\<close>

lemma dispatch_first:
  assumes "\<forall>d \<in> set cs. \<not> ct_matches d path" "ct_matches c path" "ct_dispatch c req rep = (rep', Inr True)"
  shows "dispatch_controllers (cs @ c # ds) path req rep = (rep', None)"
  using assms by (induction cs) auto

text \<open>
  Dispatch goes to the first controller, in the order they were added, whose prefix
  matches and that takes the request; the ones after it are not consulted.
\<close>

lemma first_controller_wins:
  assumes "\<forall>d \<in> set cs. \<not> ct_matches d path" "ct_matches c path" "ct_dispatch c req rep = (rep', Inr True)"
  shows "dispatch_controllers (cs @ c # ds) path req rep = dispatch_controllers [c] path req rep
    \<and> dispatch_controllers (cs @ c # ds) path req rep = (rep', None)"
  using dispatch_first [OF assms] dispatch_first [of "[]" path c req rep rep' "[]"] assms by simp

lemma handle_request_error:
  assumes "process_request sv req (fold (scan_request_header (sv_log_forwarded sv)) (rq_headers req) ([], ''-'', []))
      (reply_assign rep (stock_reply date 404 [])) = (rep', Some e)"
  shows "handle_request date sv req rep = run_error_handlers (sv_error_handlers sv) req e rep'"
  using assms by (simp add: handle_request_def Let_def)

text \<open>
  C14. A request the security context rejects reaches no controller: the reply is made by
  the error handlers from the stock reply, whatever the controllers are.
\<close>

theorem rejected_request_reaches_no_controller:
  assumes "sv_security sv = Some sc" "sc_validate sc req = Inl e" "sv_remote sv = Inr addr"
    and "supported_method (rq_method req)"
  shows "handle_request date (sv\<lparr>sv_controllers := cs\<rparr>) req rep =
    run_error_handlers (sv_error_handlers sv) req e (reply_assign rep (stock_reply date 404 []))"
proof -
  obtain client ua accept where
    "fold (scan_request_header (sv_log_forwarded sv)) (rq_headers req) ([], ''-'', []) = (client, ua, accept)"
    by (metis prod_cases3)
  then show ?thesis
    using assms handle_request_error [of "sv\<lparr>sv_controllers := cs\<rparr>" req rep date
        "reply_assign rep (stock_reply date 404 [])" e]
    by (simp add: process_request_def)
qed

definition deny_all :: server where
  "deny_all = \<lparr>sv_controllers = [], sv_error_handlers = [\<lambda>req e rep. (rep\<lparr>rp_status := 401\<rparr>, Inr True)],
     sv_security = Some \<lparr>sc_validate = (\<lambda>req. Inl (Exception Unauthorized)), sc_csrf_token = (\<lambda>req. ([], False))\<rparr>,
     sv_log_forwarded = False, sv_get_path = (\<lambda>req. Inr (rq_uri req)), sv_remote = Inr ''127.0.0.1''\<rparr>"

theorem rejected_request_reaches_no_controller_witness:
  "rp_status (handle_request [] (deny_all\<lparr>sv_controllers := [\<lparr>ct_matches = (\<lambda>p. True), ct_dispatch = (\<lambda>req rep. (rep, Inr True))\<rparr>]\<rparr>)
     \<lparr>rq_method = ''GET'', rq_uri = ''/'', rq_version = ''1.0'', rq_headers = [], rq_payload = []\<rparr> (reply_new [] 500 (1, 0))) = 401"
  using rejected_request_reaches_no_controller [of deny_all
      "\<lparr>sc_validate = (\<lambda>req. Inl (Exception Unauthorized)), sc_csrf_token = (\<lambda>req. ([], False))\<rparr>"
      "\<lparr>rq_method = ''GET'', rq_uri = ''/'', rq_version = ''1.0'', rq_headers = [], rq_payload = []\<rparr>"
      "Exception Unauthorized" "''127.0.0.1''" "[]" "[\<lparr>ct_matches = (\<lambda>p. True), ct_dispatch = (\<lambda>req rep. (rep, Inr True))\<rparr>]" "reply_new [] 500 (1, 0)"]
  by (simp add: deny_all_def supported_method_def)

text \<open>
  A HEAD request that is handled without an exception is always answered with status
  200, an empty content and the length 0: \<open>set_content\<close> overwrites the status, also
  that of the stock reply for a page that was not found.
\<close>

lemma head_is_always_ok:
  assumes "rq_method req = ''HEAD''" "sv_security sv = None" "sv_remote sv = Inr addr" "sv_get_path sv req = Inr path"
    and "dispatch_controllers (sv_controllers sv) path req (reply_assign rep (stock_reply date 404 [])) = (rep', None)"
  shows "rp_status (handle_request date sv req rep) = 200 \<and> rp_content (handle_request date sv req rep) = []
    \<and> get_header (rp_headers (handle_request date sv req rep)) ''Content-Length'' = ''0''"
proof -
  obtain client ua accept where
    "fold (scan_request_header (sv_log_forwarded sv)) (rq_headers req) ([], ''-'', []) = (client, ua, accept)"
    by (metis prod_cases3)
  then have "handle_request date sv req rep = finish_reply req [] False ua accept rep'"
    using assms by (simp add: handle_request_def process_request_def supported_method_def)
  moreover have "nat_to_string 0 = ''0''" by (simp add: nat_to_string.simps char_digits)
  ultimately show ?thesis
    using assms(1)
    by (simp add: finish_reply_def set_content_def reply_set_header_def reply_del_header_def get_set_header
        get_reply_remove content_length_not Let_def)
qed

lemma head_is_always_ok_witness:
  "rp_status (handle_request [] (deny_all\<lparr>sv_security := None\<rparr>)
     \<lparr>rq_method = ''HEAD'', rq_uri = ''/no/such/page'', rq_version = ''1.0'', rq_headers = [], rq_payload = []\<rparr>
     (reply_new [] 500 (1, 0))) = 200"
  by (rule head_is_always_ok [THEN conjunct1]) (simp_all add: deny_all_def)

section \<open>Connections\<close>

lemma parser_reset_fields [simp]:
  "m_headers (parser_reset p) = m_headers p" "m_payload (parser_reset p) = m_payload p"
  by (simp_all add: parser_reset_def)

lemma handle_read_keeps: "cn_keep_alive c \<Longrightarrow> cn_keep_alive (handle_read date handler c)"
  by (auto simp: handle_read_def Let_def split: prod.split)

lemma handle_write_keeps: "cn_keep_alive c \<Longrightarrow> cn_keep_alive (handle_write date handler c)"
  by (auto simp: handle_write_def Let_def intro!: handle_read_keeps split: prod.split option.split)

lemma step_keeps: "conn_step date handler c e c' \<Longrightarrow> cn_keep_alive c \<Longrightarrow> cn_keep_alive c'"
  by (erule conn_stepE) (auto intro: handle_read_keeps handle_write_keeps)

text \<open>
  Once one request of a connection asked for it, the connection is kept alive for
  good: no later request, whatever its version or its headers, takes that back.
\<close>

lemma keep_alive_is_sticky:
  assumes "conn_run date handler c es c'" "cn_keep_alive c"
  shows "cn_keep_alive c'"
  using assms by (induction rule: conn_run.induct) (auto dest: step_keeps)

text \<open>
  The invariant of a connection: its parser is well-formed, while it reads nothing that
  has arrived waits in the buffer, and it is only closed when it is not kept alive and
  nothing of the reply is left to send.
\<close>

definition wf_connection :: "connection \<Rightarrow> bool" where
  "wf_connection c \<longleftrightarrow> wf_parser 11 (cn_parser c)
     \<and> (cn_phase c = Reading \<longrightarrow> cn_buffer c = [])
     \<and> (cn_phase c = Closed \<longrightarrow> \<not> cn_keep_alive c \<and> rp_data (cn_reply c) = None)"

lemma request_parse_rest: "request_parse p s = (None, p', rest) \<Longrightarrow> rest = []"
  unfolding request_parse_def Let_def by (rule requests.loop_indeterminate_rest)

lemma handle_read_wf:
  assumes "wf_parser 11 (cn_parser c)"
  shows "wf_connection (handle_read date handler c)"
proof -
  obtain r p rest where out: "request_parse (cn_parser c) (cn_buffer c) = (r, p, rest)" by (metis prod_cases3)
  then have "wf_parser 11 p" using request_parse_running [OF assms] by (simp add: running_def)
  moreover have "r = None \<Longrightarrow> rest = []" using out request_parse_rest by blast
  ultimately show ?thesis
    using wf_new(3)
    by (cases r) (auto simp: handle_read_def out wf_connection_def Let_def get_request_def split: prod.split)
qed

lemma data_to_buffers_done: "data_to_buffers r = (None, r') \<Longrightarrow> rp_data r' = None"
  by (auto simp: data_to_buffers_def Let_def split: option.splits if_splits)

lemma handle_write_wf:
  assumes "wf_connection c"
  shows "wf_connection (handle_write date handler c)"
proof -
  obtain bs r where out: "data_to_buffers (cn_reply c) = (bs, r)" by force
  show ?thesis
  proof (cases bs)
    case (Some b)
    then show ?thesis using assms out by (simp add: handle_write_def wf_connection_def)
  next
    case None
    show ?thesis
    proof (cases "cn_keep_alive c \<and> cn_buffer c \<noteq> []")
      case True
      have "wf_connection (handle_read date handler
          (c\<lparr>cn_parser := parser_reset (cn_parser c), cn_reply := reset_reply date r\<rparr>))"
        by (rule handle_read_wf) (simp add: wf_new)
      then show ?thesis using True out None by (simp add: handle_write_def Let_def)
    next
      case False
      then show ?thesis using assms out None wf_new(3) data_to_buffers_done [of "cn_reply c" r]
        by (auto simp: handle_write_def wf_connection_def Let_def)
    qed
  qed
qed

lemma step_wf: "conn_step date handler c e c' \<Longrightarrow> wf_connection c \<Longrightarrow> wf_connection c'"
proof (erule conn_stepE)
  fix bs assume "wf_connection c" "c' = handle_read date handler (c\<lparr>cn_buffer := cn_buffer c @ bs\<rparr>)"
  then show "wf_connection c'"
    using handle_read_wf [of "c\<lparr>cn_buffer := cn_buffer c @ bs\<rparr>" date handler] by (simp add: wf_connection_def [of c])
next
  assume "wf_connection c" "c' = handle_write date handler c"
  then show "wf_connection c'" by (simp add: handle_write_wf)
qed (auto simp: wf_connection_def)

lemma run_wf: "conn_run date handler c es c' \<Longrightarrow> wf_connection c \<Longrightarrow> wf_connection c'"
  by (induction rule: conn_run.induct) (auto dest: step_wf)

text \<open>
  C15. In every reachable state of a connection, whatever the events and the server do:
  the parser is well-formed, no byte that has arrived waits while the connection is
  reading, and it is only closed when it is not kept alive and the reply is sent.
\<close>

theorem connection_invariant:
  assumes "conn_run date handler (connection_new date) es c"
  shows "wf_parser 11 (cn_parser c)
     \<and> (cn_phase c = Reading \<longrightarrow> cn_buffer c = [])
     \<and> (cn_phase c = Closed \<longrightarrow> \<not> cn_keep_alive c \<and> rp_data (cn_reply c) = None)"
proof -
  have "wf_connection (connection_new date)"
    by (simp add: wf_connection_def connection_new_def wf_new)
  from run_wf [OF assms this] show ?thesis by (simp add: wf_connection_def)
qed

lemma conn_run_received:
  assumes "cn_phase c = Reading"
  shows "conn_run date handler c [Received bs] (handle_read date handler (c\<lparr>cn_buffer := cn_buffer c @ bs\<rparr>))"
  using assms by (auto intro: conn_run.intros conn_step.intros)

theorem connection_invariant_witness:
  "wf_parser 11 (cn_parser (handle_read [] idle_handler ((connection_new [])\<lparr>cn_buffer := ''GET /''\<rparr>)))"
proof -
  have "conn_run [] idle_handler (connection_new []) [Received ''GET /'']
      (handle_read [] idle_handler ((connection_new [])\<lparr>cn_buffer := ''GET /''\<rparr>))"
    using conn_run_received [of "connection_new []" "[]" idle_handler "''GET /''"] by (simp add: connection_new_def)
  from connection_invariant [OF this] show ?thesis by blast
qed

lemma keep_alive_is_sticky_witness:
  "cn_keep_alive (handle_read [] idle_handler ((connection_new [])\<lparr>cn_keep_alive := True, cn_buffer := ''GET /''\<rparr>))"
proof -
  let ?c = "(connection_new [])\<lparr>cn_keep_alive := True\<rparr>"
  have "conn_run [] idle_handler ?c [Received ''GET /''] (handle_read [] idle_handler (?c\<lparr>cn_buffer := ''GET /''\<rparr>))"
    using conn_run_received [of ?c "[]" idle_handler "''GET /''"] by (simp add: connection_new_def)
  from keep_alive_is_sticky [OF this] show ?thesis by simp
qed

text \<open>
  C16. Bytes may reach the connection in any pieces: when it is still reading after the
  first piece, the second takes it to the state that both at once would.
\<close>

theorem read_in_pieces:
  assumes "cn_phase (handle_read date handler c) = Reading"
  shows "handle_read date handler ((handle_read date handler c)\<lparr>cn_buffer := t\<rparr>)
    = handle_read date handler (c\<lparr>cn_buffer := cn_buffer c @ t\<rparr>)"
proof -
  obtain r p rest where out: "request_parse (cn_parser c) (cn_buffer c) = (r, p, rest)" by (metis prod_cases3)
  then have "r = None"
    using assms by (cases r) (auto simp: handle_read_def Let_def split: prod.splits if_splits)
  then have "handle_read date handler c = c\<lparr>cn_parser := p, cn_buffer := rest, cn_phase := Reading\<rparr>"
    using out by (simp add: handle_read_def)
  moreover have "request_parse (cn_parser c) (cn_buffer c @ t) = request_parse p t"
    using request_parse_append [of "cn_parser c" "cn_buffer c" t] out \<open>r = None\<close> by simp
  ultimately show ?thesis
    by (cases "request_parse p t") (auto simp: handle_read_def Let_def split: prod.split)
qed

theorem read_in_pieces_witness:
  "let c = (connection_new [])\<lparr>cn_buffer := []\<rparr> in
   handle_read [] idle_handler ((handle_read [] idle_handler c)\<lparr>cn_buffer := ''GET''\<rparr>) = handle_read [] idle_handler (c\<lparr>cn_buffer := ''GET''\<rparr>)"
proof -
  let ?c = "(connection_new [])\<lparr>cn_buffer := []\<rparr>"
  have "cn_phase (handle_read [] idle_handler ?c) = Reading"
    by (simp add: handle_read_def connection_new_def request_parse_def)
  from read_in_pieces [OF this, of "''GET''"] show ?thesis by (simp add: connection_new_def)
qed

section \<open>Serving requests\<close>

text \<open>The reply a request gets: the handler's, with version and keep-alive headers set.\<close>

definition served :: "handler \<Rightarrow> request \<Rightarrow> reply \<Rightarrow> reply" where
  "served handler req rep =
     (let rep = handler req rep;
          (major, minor) = get_version req;
          rep = set_version rep (nat major, nat minor)
      in if keep_alive req
         then reply_set_header (reply_set_header rep ''Connection'' ''Keep-Alive'') ''Keep-Alive'' ''timeout=5, max=100''
         else rep)"

lemma handle_read_complete:
  assumes "request_parse (cn_parser c) (cn_buffer c) = (complete, p, rest)"
    and "get_request p = (req, p')"
  shows "handle_read date handler c =
    c\<lparr>cn_buffer := rest, cn_parser := parser_reset p', cn_reply := served handler req (cn_reply c),
      cn_keep_alive := cn_keep_alive c \<or> keep_alive req, cn_phase := Writing (to_buffers (served handler req (cn_reply c)))\<rparr>"
proof -
  obtain major minor where "get_version req = (major, minor)" by force
  then show ?thesis
    using assms by (cases "cn_keep_alive c") (simp_all add: handle_read_def served_def Let_def)
qed

lemma drain_step:
  "data_to_buffers r = (Some bs, r') \<Longrightarrow> drain r = (bs @ fst (drain r'), snd (drain r'))"
  "data_to_buffers r = (None, r') \<Longrightarrow> drain r = ([], r')"
  by (simp_all add: drain.simps [of r] case_prod_beta)

lemma sent_bytes_simps [simp]:
  "sent_bytes [] = []" "sent_bytes (Sent bs # es) = bs @ sent_bytes es" "sent_bytes (Received bs # es) = sent_bytes es"
  by (simp_all add: sent_bytes_def)

text \<open>The connection when the last write of a reply has completed.\<close>

definition replied :: "string \<Rightarrow> handler \<Rightarrow> connection \<Rightarrow> reply \<Rightarrow> connection" where
  "replied date handler c r =
     (if cn_keep_alive c then
        (let c = c\<lparr>cn_parser := parser_reset (cn_parser c), cn_reply := reset_reply date r\<rparr>
         in if cn_buffer c \<noteq> [] then handle_read date handler c else c\<lparr>cn_phase := Reading\<rparr>)
      else c\<lparr>cn_reply := r, cn_phase := Closed\<rparr>)"

lemma replied_update: "replied date handler (c\<lparr>cn_reply := r', cn_phase := ph\<rparr>) r = replied date handler c r"
proof (cases "cn_keep_alive c \<and> cn_buffer c \<noteq> []")
  case True
  have "handle_read date handler (c\<lparr>cn_phase := ph, cn_parser := p, cn_reply := r\<rparr>)
      = handle_read date handler (c\<lparr>cn_parser := p, cn_reply := r\<rparr>)" for p r
    by (simp add: handle_read_def Let_def split: prod.split)
  with True show ?thesis by (simp add: replied_def Let_def)
qed (auto simp: replied_def Let_def)

definition left_to_send :: "reply \<Rightarrow> nat" where
  "left_to_send r = (case rp_data r of None \<Rightarrow> 0 | Some d \<Rightarrow> Suc (length (sb_rest d)))"

lemma data_to_buffers_less: "data_to_buffers r = (Some bs, r') \<Longrightarrow> left_to_send r' < left_to_send r"
  by (auto simp: left_to_send_def data_to_buffers_def Let_def kMaxChunkSize_def split: option.splits if_splits)

lemma write_out:
  "cn_phase c = Writing bs \<Longrightarrow>
   \<exists>es. conn_run date handler c es (replied date handler c (snd (drain (cn_reply c))))
     \<and> sent_bytes es = bs @ fst (drain (cn_reply c))"
proof (induction "left_to_send (cn_reply c)" arbitrary: c bs rule: less_induct)
  case less
  obtain x r where out: "data_to_buffers (cn_reply c) = (x, r)" by force
  show ?case
  proof (cases x)
    case None
    then have "handle_write date handler c = replied date handler c (snd (drain (cn_reply c)))"
      using out drain_step(2) [of "cn_reply c" r] by (simp add: handle_write_def replied_def Let_def)
    then have "conn_run date handler c [Sent bs] (replied date handler c (snd (drain (cn_reply c))))"
      using less.prems by (metis conn_step.sent conn_more conn_stop)
    then show ?thesis using drain_step(2) [of "cn_reply c" r] out None
      by (intro exI [of _ "[Sent bs]"]) simp
  next
    case (Some b)
    let ?c = "c\<lparr>cn_reply := r, cn_phase := Writing b\<rparr>"
    have step: "conn_step date handler c (Sent bs) ?c"
      using less.prems out Some by (intro conn_step.sent) (simp_all add: handle_write_def)
    obtain es where es: "conn_run date handler ?c es (replied date handler ?c (snd (drain r)))"
      "sent_bytes es = b @ fst (drain r)"
      using less.hyps [of ?c b] data_to_buffers_less [of "cn_reply c" b r] out Some by auto
    have "conn_run date handler c (Sent bs # es) (replied date handler c (snd (drain (cn_reply c))))"
      using conn_more [OF step es(1)] drain_step(1) [of "cn_reply c" b r] out Some by (simp add: replied_update)
    then show ?thesis using es(2) drain_step(1) [of "cn_reply c" b r] out Some
      by (intro exI [of _ "Sent bs # es"]) simp
  qed
qed

lemma drain_done: "rp_data (snd (drain r)) = None"
proof (induction "left_to_send r" arbitrary: r rule: less_induct)
  case less
  obtain x r' where out: "data_to_buffers r = (x, r')" by force
  show ?case
  proof (cases x)
    case None
    then show ?thesis using out drain_step(2) data_to_buffers_done by simp
  next
    case (Some b)
    then show ?thesis using out less.hyps [OF data_to_buffers_less, of b r'] drain_step(1) by simp
  qed
qed

lemma reset_reply_data: "rp_data (reset_reply date r) = rp_data r"
  by (simp add: reset_reply_def reply_reset_def reply_copy_def reply_new_def reply_assign_def)

lemma conn_run_append:
  "conn_run date handler c es c' \<Longrightarrow> conn_run date handler c' es' c'' \<Longrightarrow> conn_run date handler c (es @ es') c''"
  by (induction rule: conn_run.induct) (auto intro: conn_more)

text \<open>A connection that waits for a request, with a parser that has nothing left over.\<close>

definition waiting :: "connection \<Rightarrow> bool" where
  "waiting c \<longleftrightarrow> fresh (cn_parser c) \<and> rp_data (cn_reply c) = None"

lemma waiting_new: "waiting (connection_new date)" "cn_phase (connection_new date) = Reading"
    "cn_buffer (connection_new date) = []" "\<not> cn_keep_alive (connection_new date)"
  by (simp_all add: waiting_def connection_new_def fresh_new reply_new_def)

lemma read_request:
  assumes "waiting c" "clean_request rq" "cn_buffer c = request_to_buffers rq @ rest"
  shows "\<exists>p. handle_read date handler c =
    c\<lparr>cn_buffer := rest, cn_parser := p, cn_reply := served handler rq (cn_reply c),
      cn_keep_alive := cn_keep_alive c \<or> keep_alive rq, cn_phase := Writing (to_buffers (served handler rq (cn_reply c)))\<rparr>
    \<and> fresh p"
proof -
  have none: "m_headers (cn_parser c) = []" and p: "fresh ((cn_parser c)\<lparr>m_headers := []\<rparr>)"
    using assms(1) by (simp_all add: waiting_def fresh_def)
  obtain p where "request_parse (cn_parser c) (cn_buffer c) = (complete, p, rest)"
    "get_request p = (rq, p\<lparr>m_headers := [], m_payload := []\<rparr>)"
    using request_wire_more [OF p, of rq rest] assms(2,3) by (auto simp: none)
  from handle_read_complete [OF this, of date handler] show ?thesis
    by (intro exI conjI) (assumption, simp add: fresh_reset)
qed

text \<open>
  The replies to a list of requests, each from the state the reply before it left
  behind.
\<close>

fun replies_to :: "string \<Rightarrow> handler \<Rightarrow> reply \<Rightarrow> request list \<Rightarrow> string" where
  "replies_to date handler rep [] = []"
| "replies_to date handler rep (rq # rqs) =
     (let r = served handler rq rep
      in wire r @ replies_to date handler (reset_reply date (snd (drain r))) rqs)"

lemma serve_pipeline:
  "rqs \<noteq> [] \<Longrightarrow> waiting c \<Longrightarrow> list_all clean_request rqs \<Longrightarrow> list_all keep_alive rqs \<Longrightarrow>
   cn_buffer c = concat (map request_to_buffers rqs) \<Longrightarrow>
   \<exists>es c'. conn_run date handler (handle_read date handler c) es c'
     \<and> sent_bytes es = replies_to date handler (cn_reply c) rqs
     \<and> waiting c' \<and> cn_phase c' = Reading \<and> cn_keep_alive c' \<and> cn_buffer c' = []"
proof (induction rqs arbitrary: c)
  case (Cons rq rqs)
  let ?r = "served handler rq (cn_reply c)"
  let ?rest = "concat (map request_to_buffers rqs)"
  obtain p where read: "handle_read date handler c =
    c\<lparr>cn_buffer := ?rest, cn_parser := p, cn_reply := ?r, cn_keep_alive := True, cn_phase := Writing (to_buffers ?r)\<rparr>"
    and p: "fresh p"
    using read_request [of c rq ?rest date handler] Cons.prems by auto
  let ?c = "handle_read date handler c"
  let ?d = "?c\<lparr>cn_parser := parser_reset p, cn_reply := reset_reply date (snd (drain ?r))\<rparr>"
  have d: "waiting ?d"
    using p by (simp add: waiting_def reset_reply_data drain_done fresh_reset fresh_def [of p])
  obtain es where es: "conn_run date handler ?c es (replied date handler ?c (snd (drain ?r)))"
    "sent_bytes es = wire ?r"
    using write_out [of ?c "to_buffers ?r" date handler] by (auto simp: read wire_def)
  show ?case
  proof (cases "rqs = []")
    case True
    then have "replied date handler ?c (snd (drain ?r)) = ?d\<lparr>cn_phase := Reading\<rparr>"
      by (simp add: replied_def read)
    then show ?thesis using es d True
      by (intro exI [of _ es] exI [of _ "?d\<lparr>cn_phase := Reading\<rparr>"])
        (auto simp: waiting_def read)
  next
    case False
    have "?rest \<noteq> []" using False by (cases rqs) (simp_all add: request_to_buffers_def)
    then have nxt: "replied date handler ?c (snd (drain ?r)) = handle_read date handler ?d"
      by (simp add: replied_def read Let_def)
    obtain es' c' where es': "conn_run date handler (handle_read date handler ?d) es' c'"
      "sent_bytes es' = replies_to date handler (cn_reply ?d) rqs"
      "waiting c' \<and> cn_phase c' = Reading \<and> cn_keep_alive c' \<and> cn_buffer c' = []"
      using Cons.IH [OF False d] Cons.prems by (auto simp: read)
    have "conn_run date handler ?c (es @ es') c'"
      using es(1) es'(1) unfolding nxt [symmetric] by (rule conn_run_append)
    then show ?thesis
      using es(2) es'(2,3) by (intro exI [of _ "es @ es'"] exI [of _ c']) (simp add: sent_bytes_def Let_def)
  qed
qed simp

text \<open>
  C17. Pipelining: requests that arrive back to back on a new connection and ask to keep
  it alive are all answered, in their order, each with its whole reply, streams
  included, before the next one is read; afterwards the connection reads again.
\<close>

theorem pipelined_requests_in_order:
  assumes "rqs \<noteq> []" "list_all clean_request rqs" "list_all keep_alive rqs"
  shows "\<exists>es c'. conn_run date handler (connection_new date) (Received (concat (map request_to_buffers rqs)) # es) c'
    \<and> sent_bytes es = replies_to date handler (reply_new date 500 (1, 0)) rqs
    \<and> cn_phase c' = Reading \<and> cn_buffer c' = []"
proof -
  let ?c = "(connection_new date)\<lparr>cn_buffer := concat (map request_to_buffers rqs)\<rparr>"
  have "waiting ?c" "cn_reply ?c = reply_new date 500 (1, 0)"
    using waiting_new(1) [of date] by (simp_all add: waiting_def connection_new_def)
  from serve_pipeline [OF assms(1) this(1) assms(2,3), of date handler] this(2)
  obtain es c' where "conn_run date handler (handle_read date handler ?c) es c'"
    "sent_bytes es = replies_to date handler (reply_new date 500 (1, 0)) rqs"
    "cn_phase c' = Reading" "cn_buffer c' = []"
    by auto
  moreover have "conn_step date handler (connection_new date) (Received (concat (map request_to_buffers rqs))) (handle_read date handler ?c)"
    by (rule conn_step.received) (simp_all add: waiting_new)
  ultimately show ?thesis by (blast intro: conn_more)
qed

definition ping :: request where
  "ping = \<lparr>rq_method = ''GET'', rq_uri = ''/'', rq_version = ''1.1'',
     rq_headers = [\<lparr>h_name = ''Connection'', h_value = ''keep-alive''\<rparr>], rq_payload = []\<rparr>"

lemma ping_clean: "clean_request ping" "keep_alive ping"
  by (simp_all add: ping_def clean_request_def clean_header_def sends_def announces_none_def is_chunked_def
      isalpha_def isupper_def islower_def iscntrl_def is_tspecial_def CRs_def iequals_def keep_alive_def
      get_version_def schar_def toupper_def)

theorem pipelined_requests_in_order_witness:
  "\<exists>es c'. conn_run [] idle_handler (connection_new []) (Received (concat (map request_to_buffers [ping, ping])) # es) c'
    \<and> sent_bytes es = replies_to [] idle_handler (reply_new [] 500 (1, 0)) [ping, ping]
    \<and> cn_phase c' = Reading \<and> cn_buffer c' = []"
  by (rule pipelined_requests_in_order) (simp_all add: ping_clean)

text \<open>
  A request that does not ask for more is answered with its whole reply, after which
  the connection is closed, even if other bytes have arrived behind it.
\<close>

lemma single_request_closes:
  assumes "clean_request rq" "\<not> keep_alive rq"
  shows "\<exists>es c'. conn_run date handler (connection_new date) (Received (request_to_buffers rq @ rest) # es) c'
    \<and> sent_bytes es = wire (served handler rq (reply_new date 500 (1, 0))) \<and> cn_phase c' = Closed"
proof -
  let ?c = "(connection_new date)\<lparr>cn_buffer := request_to_buffers rq @ rest\<rparr>"
  let ?r = "served handler rq (reply_new date 500 (1, 0))"
  have "waiting ?c" using waiting_new(1) [of date] by (simp add: waiting_def connection_new_def)
  from read_request [OF this assms(1), of rest date handler]
  obtain p where read: "handle_read date handler ?c =
    ?c\<lparr>cn_buffer := rest, cn_parser := p, cn_reply := ?r, cn_keep_alive := False, cn_phase := Writing (to_buffers ?r)\<rparr>"
    using assms(2) by (auto simp: connection_new_def)
  obtain es where "conn_run date handler (handle_read date handler ?c) es
      (replied date handler (handle_read date handler ?c) (snd (drain ?r)))" "sent_bytes es = wire ?r"
    using write_out [of "handle_read date handler ?c" "to_buffers ?r" date handler] by (auto simp: read wire_def)
  moreover have "cn_phase (replied date handler (handle_read date handler ?c) (snd (drain ?r))) = Closed"
    by (simp add: read replied_def)
  moreover have "conn_step date handler (connection_new date) (Received (request_to_buffers rq @ rest)) (handle_read date handler ?c)"
    by (rule conn_step.received) (simp_all add: waiting_new)
  ultimately show ?thesis by (blast intro: conn_more)
qed

definition request_head_text :: "request \<Rightarrow> string" where
  "request_head_text rq =
     rq_method rq @ '' '' @ rq_uri rq @ '' '' @ (''HTTP/'' @ rq_version rq @ kCRLF) @ header_lines (rq_headers rq)"

lemma bad_head_fails:
  assumes "fresh p" "clean_request bad"
  shows "\<exists>p'. request_parse p (request_head_text bad @ ''('') = (failed, p', [])
    \<and> m_headers p' = rq_headers bad \<and> m_payload p' = []"
proof -
  let ?q = "start_parser p"
  let ?h = "request_head bad ?q"
  have q: "m_parser ?q = Initial_line" "m_state ?q = 0" "m_uri ?q = []" "m_method ?q = []" "m_headers ?q = []"
      "\<not> m_parsing_content ?q" "m_payload ?q = []"
    using assms(1) by (auto simp: fresh_def start_parser_def)
  have bad: "list_all isalpha (rq_method bad)" "list_all (\<lambda>c. c \<noteq> CHR '' '' \<and> \<not> iscntrl c) (rq_uri bad)"
      "rq_version bad \<in> {''1.0'', ''1.1''}" "list_all clean_header (rq_headers bad)"
    using assms(2) by (simp_all add: clean_request_def)
  have "request_parse p (request_head_text bad @ ''('')
      = parse_loop (run_parser request_initial_line) m_parsing_content False ?h ''(''"
    unfolding request_parse_def Let_def request_head_text_def
    using consumesD [OF consume_request_head [OF q(1-4) bad]] q(6) by simp
  also have "\<dots> = (failed, ?h, [])"
    by (simp add: request_head_def run_parser_def parse_header_lines_def is_tspecial_def CRs_def)
  finally show ?thesis using q by (simp add: request_head_def)
qed

text \<open>
  C18. What a bad request leaves behind: on a connection that is kept alive, the headers
  of a request that fails to parse stay in the parser, and the next request reaches the
  handler with those headers in front of its own.
\<close>

theorem bad_request_leaks_headers:
  assumes c: "waiting c" "cn_phase c = Reading" "cn_buffer c = []" "cn_keep_alive c"
    and bad: "clean_request bad"
    and rq: "clean_request (rq\<lparr>rq_headers := rq_headers bad @ rq_headers rq\<rparr>)"
  shows "\<exists>es c' rep. conn_run date handler c (Received (request_head_text bad @ ''('') # es @ [Received (request_to_buffers rq)]) c'
    \<and> cn_phase c' = Writing (to_buffers (served handler (rq\<lparr>rq_headers := rq_headers bad @ rq_headers rq\<rparr>) rep))"
proof -
  let ?rep = "reply_assign (cn_reply c) (stock_reply date 400 [])"
  let ?c0 = "c\<lparr>cn_buffer := request_head_text bad @ ''(''\<rparr>"
  obtain p where p: "request_parse (cn_parser c) (request_head_text bad @ ''('') = (failed, p, [])"
    "m_headers p = rq_headers bad" "m_payload p = []"
    using bad_head_fails [OF _ bad] c(1) by (auto simp: waiting_def)
  have read: "handle_read date handler ?c0 =
      ?c0\<lparr>cn_parser := p, cn_buffer := [], cn_reply := ?rep, cn_phase := Writing (to_buffers ?rep)\<rparr>"
    using p(1) by (simp add: handle_read_def)
  let ?r = "snd (drain ?rep)"
  let ?d = "replied date handler (handle_read date handler ?c0) ?r"
  have d: "?d = ?c0\<lparr>cn_parser := parser_reset p, cn_buffer := [], cn_reply := reset_reply date ?r, cn_phase := Reading\<rparr>"
    using c(4) by (simp add: replied_def read)
  obtain es where es: "conn_run date handler (handle_read date handler ?c0) es ?d"
    using write_out [of "handle_read date handler ?c0" "to_buffers ?rep" date handler] by (auto simp: read)
  have "fresh ((cn_parser ?d)\<lparr>m_headers := []\<rparr>)" "m_headers (cn_parser ?d) = rq_headers bad"
    using p(2,3) by (simp_all add: d fresh_def) (simp_all add: parser_reset_def)
  then obtain q where q: "request_parse (cn_parser ?d) (request_to_buffers rq @ []) = (complete, q, [])"
    "get_request q = (rq\<lparr>rq_headers := rq_headers bad @ rq_headers rq\<rparr>, q\<lparr>m_headers := [], m_payload := []\<rparr>)"
    using request_wire_more [of "cn_parser ?d" rq "[]"] rq by auto
  let ?c' = "handle_read date handler (?d\<lparr>cn_buffer := request_to_buffers rq\<rparr>)"
  have "cn_phase ?c' = Writing (to_buffers (served handler (rq\<lparr>rq_headers := rq_headers bad @ rq_headers rq\<rparr>) (reset_reply date ?r)))"
    using handle_read_complete [of "?d\<lparr>cn_buffer := request_to_buffers rq\<rparr>", OF _ q(2)] q(1) by (simp add: d)
  moreover have "conn_run date handler ?d [Received (request_to_buffers rq)] ?c'"
    using conn_run_received [of ?d date handler "request_to_buffers rq"] by (simp add: d)
  from conn_run_append [OF es this]
  have "conn_run date handler c (Received (request_head_text bad @ ''('') # es @ [Received (request_to_buffers rq)]) ?c'"
    by (rule conn_more [OF conn_step.received [OF c(2)], rotated]) (simp add: c(3))
  ultimately show ?thesis by blast
qed

theorem bad_request_leaks_headers_witness:
  "\<exists>es c' rep. conn_run [] idle_handler ((connection_new [])\<lparr>cn_keep_alive := True\<rparr>)
      (Received (request_head_text ping @ ''('') # es @ [Received (request_to_buffers ping)]) c'
    \<and> cn_phase c' = Writing (to_buffers (served idle_handler (ping\<lparr>rq_headers := rq_headers ping @ rq_headers ping\<rparr>) rep))"
proof (rule bad_request_leaks_headers)
  show "waiting ((connection_new [])\<lparr>cn_keep_alive := True\<rparr>)"
    using waiting_new(1) [of "[]"] by (simp add: waiting_def)
  show "clean_request (ping\<lparr>rq_headers := rq_headers ping @ rq_headers ping\<rparr>)"
    using ping_clean(1) by (simp add: clean_request_def ping_def sends_def announces_none_def)
qed (simp_all add: connection_new_def ping_clean)

end
