(* ===== verification/Json_Element.thy ===== *)
theory Json_Element
  imports Prelude "HOL-Library.Signed_Division"
begin

text \<open>
  The JSON value of \<open>lib-json/src/element.cpp\<close> and \<open>zeep/json/element.hpp\<close>: its seven
  types, access to arrays and objects, comparison, arithmetic and its serialisation.
  A \<open>double\<close> is an argument of the model: a type with its operations in the record
  \<open>float_ops\<close>. An \<open>int64_t\<close> is an integer, and a result outside its range is
  \<open>Undefined\<close>, as is a read of the wrong member of the union. Values are copied, so
  an operation on a reference returns the changed value.
\<close>

record 'f float_ops =
  fo_add :: "'f \<Rightarrow> 'f \<Rightarrow> 'f"
  fo_sub :: "'f \<Rightarrow> 'f \<Rightarrow> 'f"
  fo_mul :: "'f \<Rightarrow> 'f \<Rightarrow> 'f"
  fo_div :: "'f \<Rightarrow> 'f \<Rightarrow> 'f"
  fo_neg :: "'f \<Rightarrow> 'f"
  fo_pow :: "'f \<Rightarrow> 'f \<Rightarrow> 'f"
  fo_eq :: "'f \<Rightarrow> 'f \<Rightarrow> bool"
  fo_less :: "'f \<Rightarrow> 'f \<Rightarrow> bool"
  fo_isnormal :: "'f \<Rightarrow> bool"
  fo_of_int :: "int \<Rightarrow> 'f"
  fo_to_int :: "'f \<Rightarrow> int option"
  fo_show :: "'f \<Rightarrow> string"

section \<open>The value\<close>

datatype value_type = Type_null | Type_object | Type_array | Type_string | Type_number_int | Type_number_float | Type_boolean

text \<open>A \<open>std::map\<close> is the list of its entries in the order of the keys.\<close>

datatype 'f element =
    Null
  | Object "(string \<times> 'f element) list"
  | Array "'f element list"
  | String string
  | Number_int int
  | Number_float 'f
  | Boolean bool

fun elem_type :: "'f element \<Rightarrow> value_type" where
  "elem_type Null = Type_null"
| "elem_type (Object _) = Type_object"
| "elem_type (Array _) = Type_array"
| "elem_type (String _) = Type_string"
| "elem_type (Number_int _) = Type_number_int"
| "elem_type (Number_float _) = Type_number_float"
| "elem_type (Boolean _) = Type_boolean"

text \<open>The order of the types, as the user-defined \<open>operator<\<close> of \<open>value_type\<close> gives it.\<close>

fun type_rank :: "value_type \<Rightarrow> nat" where
  "type_rank Type_null = 0"
| "type_rank Type_object = 3"
| "type_rank Type_array = 4"
| "type_rank Type_string = 5"
| "type_rank Type_number_int = 2"
| "type_rank Type_number_float = 2"
| "type_rank Type_boolean = 1"

definition type_less :: "value_type \<Rightarrow> value_type \<Rightarrow> bool" where
  "type_less lhs rhs \<longleftrightarrow> type_rank lhs < type_rank rhs"

fun type_name :: "'f element \<Rightarrow> string" where
  "type_name Null = ''null''"
| "type_name (Array _) = ''array''"
| "type_name (Object _) = ''object''"
| "type_name (String _) = ''string''"
| "type_name (Number_int _) = ''number_int''"
| "type_name (Number_float _) = ''number_float''"
| "type_name (Boolean _) = ''boolean''"

definition is_number :: "'f element \<Rightarrow> bool" where
  "is_number e \<longleftrightarrow> elem_type e = Type_number_int \<or> elem_type e = Type_number_float"

text \<open>The element with the empty value of a type.\<close>

fun elem_of_type :: "'f float_ops \<Rightarrow> value_type \<Rightarrow> 'f element" where
  "elem_of_type F Type_array = Array []"
| "elem_of_type F Type_boolean = Boolean False"
| "elem_of_type F Type_null = Null"
| "elem_of_type F Type_number_float = Number_float (fo_of_int F 0)"
| "elem_of_type F Type_number_int = Number_int 0"
| "elem_of_type F Type_object = Object []"
| "elem_of_type F Type_string = String []"

section \<open>Object members\<close>

text \<open>\<open>std::map::emplace\<close> keeps the entry that is there.\<close>

fun obj_emplace :: "string \<Rightarrow> 'a \<Rightarrow> (string \<times> 'a) list \<Rightarrow> (string \<times> 'a) list" where
  "obj_emplace k v [] = [(k, v)]"
| "obj_emplace k v ((k', v') # m) =
     (if k < k' then (k, v) # (k', v') # m
      else if k = k' then (k', v') # m
      else (k', v') # obj_emplace k v m)"

definition is_pair_element :: "'f element \<Rightarrow> bool" where
  "is_pair_element e = (case e of Array [String _, _] \<Rightarrow> True | _ \<Rightarrow> False)"

fun emplace_pairs :: "'f element list \<Rightarrow> (string \<times> 'f element) list \<Rightarrow> (string \<times> 'f element) list" where
  "emplace_pairs [] m = m"
| "emplace_pairs (e # es) m =
     (case e of Array [String k, v] \<Rightarrow> emplace_pairs es (obj_emplace k v m) | _ \<Rightarrow> emplace_pairs es m)"

text \<open>The constructor from an initializer list: pairs that start with a string make an object.\<close>

definition elem_of_list :: "'f element list \<Rightarrow> 'f element" where
  "elem_of_list init = (if list_all is_pair_element init then Object (emplace_pairs init []) else Array init)"

definition elem_object :: "'f element list \<Rightarrow> 'f element res" where
  "elem_object init =
     (if \<not> list_all is_pair_element init
      then throw (Invalid_argument ''Cannot create an object from this initializer list'')
      else ok (Object (emplace_pairs init [])))"

definition elem_array :: "'f element list \<Rightarrow> 'f element" where
  "elem_array init = Array init"

definition elem_repeat :: "nat \<Rightarrow> 'f element \<Rightarrow> 'f element" where
  "elem_repeat cnt v = Array (replicate cnt v)"

definition elem_emplace :: "'f element \<Rightarrow> string \<Rightarrow> 'f element \<Rightarrow> 'f element res" where
  "elem_emplace e k v =
     (case e of
        Null \<Rightarrow> ok (Object (obj_emplace k v []))
      | Object m \<Rightarrow> ok (Object (obj_emplace k v m))
      | _ \<Rightarrow> throw (Runtime_error (''Cannot emplace with json value of type '' @ type_name e)))"

definition elem_emplace_back :: "'f element \<Rightarrow> 'f element \<Rightarrow> 'f element res" where
  "elem_emplace_back e v =
     (case e of
        Null \<Rightarrow> ok (Array [v])
      | Array es \<Rightarrow> ok (Array (es @ [v]))
      | _ \<Rightarrow> throw (Runtime_error (''Cannot use emplace_back with '' @ type_name e)))"

definition elem_push_back :: "'f element \<Rightarrow> 'f element \<Rightarrow> 'f element res" where
  "elem_push_back e v =
     (case e of
        Null \<Rightarrow> ok (Array [v])
      | Array es \<Rightarrow> ok (Array (es @ [v]))
      | _ \<Rightarrow> throw (Runtime_error (''Cannot use push_back with '' @ type_name e)))"

section \<open>Access\<close>

definition elem_at :: "'f element \<Rightarrow> nat \<Rightarrow> 'f element res" where
  "elem_at e i =
     (case e of
        Array es \<Rightarrow> if i < length es then ok (es ! i) else throw Out_of_range
      | _ \<Rightarrow> throw (Runtime_error ''Type should have been array to use at()''))"

text \<open>
  \<open>operator[]\<close> on a value that may change grows the array; it returns the value and
  the container. On a constant array it does not check.
\<close>

definition elem_index :: "'f element \<Rightarrow> nat \<Rightarrow> ('f element \<times> 'f element) res" where
  "elem_index e i =
     (case (case e of Null \<Rightarrow> Some [] | Array es \<Rightarrow> Some es | _ \<Rightarrow> None) of
        None \<Rightarrow> throw (Runtime_error ''Type should have been array to use operator[]'')
      | Some es \<Rightarrow>
          (let es = (if i + 1 > length es then es @ replicate (i + 1 - length es) Null else es)
           in ok (es ! i, Array es)))"

definition elem_index_const :: "'f element \<Rightarrow> nat \<Rightarrow> 'f element res" where
  "elem_index_const e i =
     (case e of
        Array es \<Rightarrow> if i < length es then ok (es ! i) else throw Undefined
      | _ \<Rightarrow> throw (Runtime_error ''Type should have been array to use operator[]''))"

definition elem_at_key :: "'f element \<Rightarrow> string \<Rightarrow> 'f element res" where
  "elem_at_key e k =
     (case e of
        Object m \<Rightarrow> (case map_of m k of Some v \<Rightarrow> ok v | None \<Rightarrow> throw Out_of_range)
      | _ \<Rightarrow> throw (Runtime_error ''Type should have been object to use at()''))"

text \<open>\<open>std::map::operator[]\<close> enters a null value for a missing key.\<close>

definition elem_key :: "'f element \<Rightarrow> string \<Rightarrow> ('f element \<times> 'f element) res" where
  "elem_key e k =
     (case (case e of Null \<Rightarrow> Some [] | Object m \<Rightarrow> Some m | _ \<Rightarrow> None) of
        None \<Rightarrow> throw (Runtime_error ''Type should have been object to use operator[]'')
      | Some m \<Rightarrow>
          (let m = obj_emplace k Null m
           in case map_of m k of Some v \<Rightarrow> ok (v, Object m) | None \<Rightarrow> throw Undefined))"

text \<open>
  The constant \<open>operator[]\<close> reaches the map through a pointer, so it too enters a
  null value for a missing key.
\<close>

definition elem_key_const :: "'f element \<Rightarrow> string \<Rightarrow> ('f element \<times> 'f element) res" where
  "elem_key_const e k =
     (case e of
        Object m \<Rightarrow>
          (let m = obj_emplace k Null m
           in case map_of m k of Some v \<Rightarrow> ok (v, Object m) | None \<Rightarrow> throw Undefined)
      | _ \<Rightarrow> throw (Runtime_error ''Type should have been object to use operator[]''))"

fun elem_empty :: "'f element \<Rightarrow> bool" where
  "elem_empty Null = True"
| "elem_empty (Array es) = (es = [])"
| "elem_empty (Object m) = (m = [])"
| "elem_empty (String s) = (s = [])"
| "elem_empty _ = False"

fun elem_size :: "'f element \<Rightarrow> nat" where
  "elem_size Null = 0"
| "elem_size (Array es) = length es"
| "elem_size (Object m) = length m"
| "elem_size _ = 1"

fun elem_clear :: "'f float_ops \<Rightarrow> 'f element \<Rightarrow> 'f element" where
  "elem_clear F (Array es) = Array []"
| "elem_clear F (Object m) = Object []"
| "elem_clear F (String s) = String []"
| "elem_clear F (Number_int i) = Number_int 0"
| "elem_clear F (Number_float d) = Number_float (fo_of_int F 0)"
| "elem_clear F (Boolean b) = Boolean False"
| "elem_clear F Null = Null"

definition elem_erase_key :: "'f element \<Rightarrow> string \<Rightarrow> (nat \<times> 'f element) res" where
  "elem_erase_key e k =
     (case e of
        Object m \<Rightarrow> ok (if map_of m k = None then 0 else 1, Object (filter (\<lambda>(k', _). k' \<noteq> k) m))
      | _ \<Rightarrow> throw (Runtime_error (''Cannot use erase() with '' @ type_name e)))"

definition elem_erase_index :: "'f element \<Rightarrow> nat \<Rightarrow> 'f element res" where
  "elem_erase_index e i =
     (case e of
        Array es \<Rightarrow>
          if i \<ge> length es then throw (Runtime_error ''Index out of range'')
          else ok (Array (take i es @ drop (i + 1) es))
      | _ \<Rightarrow> throw (Runtime_error (''Cannot use erase() with '' @ type_name e)))"

text \<open>\<open>insert\<close> of a value, or of several copies, at a position of this array.\<close>

definition elem_insert :: "'f element \<Rightarrow> nat \<Rightarrow> nat \<Rightarrow> 'f element \<Rightarrow> 'f element res" where
  "elem_insert e pos cnt v =
     (case e of
        Array es \<Rightarrow> if pos \<le> length es then ok (Array (take pos es @ replicate cnt v @ drop pos es)) else throw Undefined
      | _ \<Rightarrow> throw (Runtime_error (''Cannot use insert() with '' @ type_name e)))"

fun elem_bool :: "'f float_ops \<Rightarrow> 'f element \<Rightarrow> bool" where
  "elem_bool F Null = False"
| "elem_bool F (Boolean b) = b"
| "elem_bool F (Number_int i) = (i \<noteq> 0)"
| "elem_bool F (Number_float d) = (\<not> fo_eq F d (fo_of_int F 0))"
| "elem_bool F (String s) = (s \<noteq> [])"
| "elem_bool F e = (\<not> elem_empty e)"

text \<open>\<open>as<bool>\<close>, \<open>as<int64_t>\<close> and \<open>as<double>\<close>; a null value gives zero.\<close>

fun as_bool :: "'f float_ops \<Rightarrow> 'f element \<Rightarrow> bool" where
  "as_bool F (Boolean b) = b"
| "as_bool F (Number_int i) = (i \<noteq> 0)"
| "as_bool F (Number_float d) = (\<not> fo_eq F d (fo_of_int F 0))"
| "as_bool F e = (\<not> elem_empty e)"

definition wrong_number :: "'f element \<Rightarrow> exn" where
  "wrong_number e = Runtime_error (''Type should have been number but was '' @ type_name e)"

fun as_int :: "'f float_ops \<Rightarrow> 'f element \<Rightarrow> int res" where
  "as_int F Null = ok 0"
| "as_int F (Number_int i) = ok i"
| "as_int F (Number_float d) = (case fo_to_int F d of Some i \<Rightarrow> ok i | None \<Rightarrow> throw Undefined)"
| "as_int F e = throw (wrong_number e)"

fun as_float :: "'f float_ops \<Rightarrow> 'f element \<Rightarrow> 'f res" where
  "as_float F Null = ok (fo_of_int F 0)"
| "as_float F (Number_int i) = ok (fo_of_int F i)"
| "as_float F (Number_float d) = ok d"
| "as_float F e = throw (wrong_number e)"

section \<open>Comparison\<close>

fun elem_eq :: "'f float_ops \<Rightarrow> 'f element \<Rightarrow> 'f element \<Rightarrow> bool"
  and elems_eq :: "'f float_ops \<Rightarrow> 'f element list \<Rightarrow> 'f element list \<Rightarrow> bool"
  and members_eq :: "'f float_ops \<Rightarrow> (string \<times> 'f element) list \<Rightarrow> (string \<times> 'f element) list \<Rightarrow> bool" where
  "elem_eq F (Array a) (Array b) = elems_eq F a b"
| "elem_eq F (Object a) (Object b) = members_eq F a b"
| "elem_eq F (String a) (String b) = (a = b)"
| "elem_eq F (Number_int a) (Number_int b) = (a = b)"
| "elem_eq F (Number_float a) (Number_float b) = fo_eq F a b"
| "elem_eq F (Boolean a) (Boolean b) = (a = b)"
| "elem_eq F Null Null = True"
| "elem_eq F (Number_float a) (Number_int b) = fo_eq F a (fo_of_int F b)"
| "elem_eq F (Number_int a) (Number_float b) = fo_eq F (fo_of_int F a) b"
| "elem_eq F _ _ = False"
| "elems_eq F [] [] = True"
| "elems_eq F (a # as) (b # bs) = (elem_eq F a b \<and> elems_eq F as bs)"
| "elems_eq F _ _ = False"
| "members_eq F [] [] = True"
| "members_eq F ((k, a) # as) ((l, b) # bs) = (k = l \<and> elem_eq F a b \<and> members_eq F as bs)"
| "members_eq F _ _ = False"

text \<open>
  \<open>operator<\<close>: containers lexicographically by their elements' \<open><\<close>, the pairs of a map
  by key and then by value, values of different types by their types.
\<close>

function (sequential) elem_less :: "'f float_ops \<Rightarrow> 'f element \<Rightarrow> 'f element \<Rightarrow> bool"
  and elems_less :: "'f float_ops \<Rightarrow> 'f element list \<Rightarrow> 'f element list \<Rightarrow> bool"
  and members_less :: "'f float_ops \<Rightarrow> (string \<times> 'f element) list \<Rightarrow> (string \<times> 'f element) list \<Rightarrow> bool" where
  "elem_less F lhs rhs =
     (case lhs of
        Array a \<Rightarrow> (case rhs of Array b \<Rightarrow> elems_less F a b | _ \<Rightarrow> type_less (elem_type lhs) (elem_type rhs))
      | Object a \<Rightarrow> (case rhs of Object b \<Rightarrow> members_less F a b | _ \<Rightarrow> type_less (elem_type lhs) (elem_type rhs))
      | String a \<Rightarrow> (case rhs of String b \<Rightarrow> a < b | _ \<Rightarrow> type_less (elem_type lhs) (elem_type rhs))
      | Number_int a \<Rightarrow> (case rhs of Number_int b \<Rightarrow> a < b | Number_float b \<Rightarrow> fo_less F (fo_of_int F a) b
                        | _ \<Rightarrow> type_less (elem_type lhs) (elem_type rhs))
      | Number_float a \<Rightarrow> (case rhs of Number_float b \<Rightarrow> fo_less F a b | Number_int b \<Rightarrow> fo_less F a (fo_of_int F b)
                        | _ \<Rightarrow> type_less (elem_type lhs) (elem_type rhs))
      | Boolean a \<Rightarrow> (case rhs of Boolean b \<Rightarrow> a < b | _ \<Rightarrow> type_less (elem_type lhs) (elem_type rhs))
      | Null \<Rightarrow> type_less (elem_type lhs) (elem_type rhs))"
| "elems_less F as [] = False"
| "elems_less F [] (b # bs) = True"
| "elems_less F (a # as) (b # bs) =
     (if elem_less F a b then True else if elem_less F b a then False else elems_less F as bs)"
| "members_less F as [] = False"
| "members_less F [] (b # bs) = True"
| "members_less F ((k, a) # as) ((l, b) # bs) =
     (if k < l \<or> \<not> l < k \<and> elem_less F a b then True
      else if l < k \<or> \<not> k < l \<and> elem_less F b a then False
      else members_less F as bs)"

  by pat_completeness auto
termination
  by (relation "measure (\<lambda>x. case x of
        Inl (F, a, b) \<Rightarrow> size a + size b
      | Inr (Inl (F, as, bs)) \<Rightarrow> size_list size as + size_list size bs
      | Inr (Inr (F, as, bs)) \<Rightarrow> size_list (size_prod (\<lambda>_. 0) size) as + size_list (size_prod (\<lambda>_. 0) size) bs)")
    simp_all

declare elem_less.simps [simp del]

section \<open>Arithmetic\<close>

definition int64 :: "int \<Rightarrow> int res" where
  "int64 i = (if - (2 ^ 63) \<le> i \<and> i < 2 ^ 63 then ok i else throw Undefined)"

definition number_of :: "int res \<Rightarrow> 'f element res" where
  "number_of r = bind_res r (\<lambda>i. ok (Number_int i))"

fun elem_neg :: "'f float_ops \<Rightarrow> 'f element \<Rightarrow> 'f element res" where
  "elem_neg F (Number_int i) = number_of (int64 (- i))"
| "elem_neg F (Number_float d) = ok (Number_float (fo_neg F d))"
| "elem_neg F _ = throw (Runtime_error ''Can only negate numbers'')"

text \<open>
  The operators on numbers. Two booleans are added as the integers of their unions,
  which hold none.
\<close>

definition elem_sub :: "'f float_ops \<Rightarrow> 'f element \<Rightarrow> 'f element \<Rightarrow> 'f element res" where
  "elem_sub F lhs rhs =
     (case (lhs, rhs) of
        (Boolean _, Boolean _) \<Rightarrow> throw Undefined
      | (Number_int a, Number_int b) \<Rightarrow> number_of (int64 (a - b))
      | (Number_float a, Number_float b) \<Rightarrow> ok (Number_float (fo_sub F a b))
      | (Number_float a, Number_int b) \<Rightarrow> bind_res (as_float F rhs) (\<lambda>b. ok (Number_float (fo_sub F a b)))
      | (Number_int a, Number_float b) \<Rightarrow> bind_res (as_int F rhs) (\<lambda>b. number_of (int64 (a - b)))
      | _ \<Rightarrow> throw (Runtime_error ''Invalid types for operator -''))"

definition elem_mul :: "'f float_ops \<Rightarrow> 'f element \<Rightarrow> 'f element \<Rightarrow> 'f element res" where
  "elem_mul F lhs rhs =
     (case (lhs, rhs) of
        (Boolean _, Boolean _) \<Rightarrow> throw Undefined
      | (Number_int a, Number_int b) \<Rightarrow> number_of (int64 (a * b))
      | (Number_float a, Number_float b) \<Rightarrow> ok (Number_float (fo_mul F a b))
      | (Number_float a, Number_int b) \<Rightarrow> bind_res (as_float F rhs) (\<lambda>b. ok (Number_float (fo_mul F a b)))
      | (Number_int a, Number_float b) \<Rightarrow> bind_res (as_int F rhs) (\<lambda>b. number_of (int64 (a * b)))
      | _ \<Rightarrow> throw (Runtime_error ''Invalid types for operator *''))"

text \<open>Integer division truncates; dividing by zero is undefined.\<close>

definition int64_div :: "int \<Rightarrow> int \<Rightarrow> int res" where
  "int64_div a b = (if b = 0 then throw Undefined else int64 (a sdiv b))"

definition int64_mod :: "int \<Rightarrow> int \<Rightarrow> int res" where
  "int64_mod a b = (if b = 0 then throw Undefined else bind_res (int64 (a sdiv b)) (\<lambda>_. int64 (a smod b)))"

definition elem_div :: "'f float_ops \<Rightarrow> 'f element \<Rightarrow> 'f element \<Rightarrow> 'f element res" where
  "elem_div F lhs rhs =
     (case (lhs, rhs) of
        (Boolean _, Boolean _) \<Rightarrow> throw Undefined
      | (Number_int a, Number_int b) \<Rightarrow> number_of (int64_div a b)
      | (Number_float a, Number_float b) \<Rightarrow> ok (Number_float (fo_div F a b))
      | (Number_float a, Number_int b) \<Rightarrow> bind_res (as_float F rhs) (\<lambda>b. ok (Number_float (fo_div F a b)))
      | (Number_int a, Number_float b) \<Rightarrow> bind_res (as_int F rhs) (\<lambda>b. number_of (int64_div a b))
      | _ \<Rightarrow> throw (Runtime_error ''Invalid types for operator /''))"

definition elem_mod :: "'f float_ops \<Rightarrow> 'f element \<Rightarrow> 'f element \<Rightarrow> 'f element res" where
  "elem_mod F lhs rhs =
     (case (lhs, rhs) of
        (Boolean _, Boolean _) \<Rightarrow> throw Undefined
      | (Number_int a, Number_int b) \<Rightarrow> number_of (int64_mod a b)
      | (Number_int a, Number_float b) \<Rightarrow> bind_res (as_int F rhs) (\<lambda>b. number_of (int64_mod a b))
      | _ \<Rightarrow> throw (Runtime_error ''Invalid types for operator %''))"

section \<open>Serialisation\<close>

definition escape_byte :: "char \<Rightarrow> string" where
  "escape_byte c =
     (if c = CHR 0x22 then [CHR 0x5C, CHR 0x22]
      else if c = CHR 0x5C then [CHR 0x5C, CHR 0x5C]
      else if c = CHR ''/'' then [CHR 0x5C, CHR ''/'']
      else if code c = 8 then [CHR 0x5C, CHR ''b'']
      else if code c = 10 then [CHR 0x5C, CHR ''n'']
      else if code c = 13 then [CHR 0x5C, CHR ''r'']
      else if code c = 9 then [CHR 0x5C, CHR ''t'']
      else if code c < 0x20 then CHR 0x5C # ''u00'' @ [hex_chars ! (code c div 16), hex_chars ! (code c mod 16)]
      else [c])"

definition escape_string :: "string \<Rightarrow> string" where
  "escape_string s = concat (map escape_byte s)"

fun serialize :: "'f float_ops \<Rightarrow> 'f element \<Rightarrow> string"
  and serialize_items :: "'f float_ops \<Rightarrow> 'f element list \<Rightarrow> string"
  and serialize_members :: "'f float_ops \<Rightarrow> bool \<Rightarrow> (string \<times> 'f element) list \<Rightarrow> string" where
  "serialize F (Array es) = ''['' @ serialize_items F es @ '']''"
| "serialize F (Boolean b) = (if b then ''true'' else ''false'')"
| "serialize F Null = ''null''"
| "serialize F (Number_float d) = (if fo_eq F d (fo_of_int F 0) \<or> fo_isnormal F d then fo_show F d else ''null'')"
| "serialize F (Number_int i) = int_to_string i"
| "serialize F (Object m) = ''{'' @ serialize_members F True m @ ''}''"
| "serialize F (String s) = [CHR 0x22] @ escape_string s @ [CHR 0x22]"
| "serialize_items F [] = []"
| "serialize_items F (e # es) = serialize F e @ (if es \<noteq> [] then '','' else []) @ serialize_items F es"
| "serialize_members F first [] = []"
| "serialize_members F first ((k, v) # m) =
     (if \<not> first then '','' else []) @ [CHR 0x22] @ k @ [CHR 0x22] @ '':'' @ serialize F v @ serialize_members F False m"

text \<open>\<open>as<std::string>\<close>, the sum, which may join strings, and \<open>contains\<close>.\<close>

definition as_string :: "'f float_ops \<Rightarrow> 'f element \<Rightarrow> string" where
  "as_string F e = (case e of String s \<Rightarrow> s | _ \<Rightarrow> serialize F e)"

definition elem_add :: "'f float_ops \<Rightarrow> 'f element \<Rightarrow> 'f element \<Rightarrow> 'f element res" where
  "elem_add F lhs rhs =
     (if elem_type lhs = elem_type rhs then
        (case (lhs, rhs) of
           (Boolean _, Boolean _) \<Rightarrow> throw Undefined
         | (Number_int a, Number_int b) \<Rightarrow> number_of (int64 (a + b))
         | (Number_float a, Number_float b) \<Rightarrow> ok (Number_float (fo_add F a b))
         | (String a, String b) \<Rightarrow> ok (String (a @ b))
         | (Null, Null) \<Rightarrow> ok Null
         | _ \<Rightarrow> throw (Runtime_error ''Invalid types for operator +''))
      else
        (case (lhs, rhs) of
           (Number_float a, Number_int b) \<Rightarrow> bind_res (as_float F rhs) (\<lambda>b. ok (Number_float (fo_add F a b)))
         | (Number_int a, Number_float b) \<Rightarrow> bind_res (as_int F rhs) (\<lambda>b. number_of (int64 (a + b)))
         | (Null, _) \<Rightarrow> ok rhs
         | (_, Null) \<Rightarrow> ok lhs
         | _ \<Rightarrow> if elem_type lhs = Type_string \<or> elem_type rhs = Type_string
                then ok (String (as_string F lhs @ as_string F rhs))
                else throw (Runtime_error ''Invalid types for operator +'')))"

definition elem_contains :: "'f float_ops \<Rightarrow> 'f element \<Rightarrow> 'f element \<Rightarrow> bool" where
  "elem_contains F e test =
     (case e of
        Object m \<Rightarrow> map_of m (as_string F test) \<noteq> None
      | Array es \<Rightarrow> list_ex (\<lambda>x. elem_eq F x test) es
      | _ \<Rightarrow> False)"

text \<open>An instance of the operations on \<open>double\<close>, for the examples: integers.\<close>

definition int_ops :: "int float_ops" where
  "int_ops = \<lparr>fo_add = (+), fo_sub = (-), fo_mul = (*), fo_div = (div), fo_neg = uminus, fo_pow = (\<lambda>b e. b ^ nat e),
     fo_eq = (=), fo_less = (<), fo_isnormal = (\<lambda>d. d \<noteq> 0), fo_of_int = (\<lambda>i. i), fo_to_int = Some, fo_show = int_to_string\<rparr>"

section \<open>Members of an object\<close>

abbreviation sorted_keys :: "(string \<times> 'a) list \<Rightarrow> bool" where
  "sorted_keys m \<equiv> sorted_wrt (<) (map fst m)"

lemma obj_emplace_keys: "fst ` set (obj_emplace k v m) = insert k (fst ` set m)"
  by (induction k v m rule: obj_emplace.induct) auto

lemma obj_emplace_sorted: "sorted_keys m \<Longrightarrow> sorted_keys (obj_emplace k v m)"
proof (induction k v m rule: obj_emplace.induct)
  case (2 k v k' v' m)
  show ?case
  proof (cases "k < k'")
    case True
    then show ?thesis using 2(2) by (auto dest: less_trans)
  next
    case False
    show ?thesis
    proof (cases "k = k'")
      case True
      then show ?thesis using 2(2) by simp
    next
      case ne: False
      have "\<forall>x \<in> insert k (fst ` set m). k' < x"
        using 2(2) False ne by auto
      then have "\<forall>x \<in> fst ` set (obj_emplace k v m). k' < x"
        by (simp only: obj_emplace_keys)
      moreover have "sorted_keys (obj_emplace k v m)"
        using 2(1) [OF False ne] 2(2) by simp
      ultimately show ?thesis using False ne by simp
    qed
  qed
qed simp

lemma map_of_above:
  fixes m :: "(string \<times> 'a) list"
  shows "\<forall>x \<in> set (map fst m). k < x \<Longrightarrow> map_of m k = None"
  by (induction m) auto

lemma map_of_emplace:
  "sorted_keys m \<Longrightarrow> map_of (obj_emplace k v m) = (case map_of m k of None \<Rightarrow> (map_of m)(k \<mapsto> v) | Some _ \<Rightarrow> map_of m)"
proof (induction k v m rule: obj_emplace.induct)
  case (2 k v k' v' m)
  show ?case
  proof (cases "k < k'")
    case True
    then have "\<forall>x \<in> set (map fst ((k', v') # m)). k < x"
      using 2(2) by (auto dest: less_trans)
    then have "map_of ((k', v') # m) k = None"
      by (rule map_of_above)
    then show ?thesis using True by simp
  next
    case False
    show ?thesis
    proof (cases "k = k'")
      case True
      then show ?thesis by simp
    next
      case ne: False
      have "map_of (obj_emplace k v m) = (case map_of m k of None \<Rightarrow> (map_of m)(k \<mapsto> v) | Some _ \<Rightarrow> map_of m)"
        using 2(1) [OF False ne] 2(2) by simp
      then show ?thesis using False ne by (auto simp: fun_upd_twist split: option.splits)
    qed
  qed
qed simp

lemma sorted_filter: "sorted_keys m \<Longrightarrow> sorted_keys (filter P m)"
  by (induction m) auto

lemma map_of_filter_key: "map_of (filter (\<lambda>(k', _). k' \<noteq> k) m) = (map_of m)(k := None)"
  by (induction m) (auto simp: fun_eq_iff)

text \<open>
  On an object whose members are in the order of their keys, \<open>emplace\<close> keeps the
  order and the value a key already has, \<open>erase\<close> removes exactly its key, and both forms
  of \<open>operator[]\<close>, also the one on a constant object, return the value of the key and
  enter a null for a key that is missing.
\<close>

lemma object_members:
  assumes "sorted_keys m"
  shows "(\<exists>m'. elem_emplace (Object m) k v = ok (Object m') \<and> sorted_keys m'
      \<and> map_of m' = (case map_of m k of None \<Rightarrow> (map_of m)(k \<mapsto> v) | Some _ \<Rightarrow> map_of m))
    \<and> (\<exists>m'. elem_erase_key (Object m) k = ok (if map_of m k = None then 0 else 1, Object m') \<and> sorted_keys m'
      \<and> map_of m' = (map_of m)(k := None))
    \<and> (\<exists>m'. elem_key (Object m) k = ok (case map_of m k of None \<Rightarrow> Null | Some w \<Rightarrow> w, Object m')
      \<and> elem_key_const (Object m) k = elem_key (Object m) k \<and> sorted_keys m'
      \<and> map_of m' = (case map_of m k of None \<Rightarrow> (map_of m)(k \<mapsto> Null) | Some _ \<Rightarrow> map_of m))"
proof (intro conjI)
  show "\<exists>m'. elem_emplace (Object m) k v = ok (Object m') \<and> sorted_keys m'
      \<and> map_of m' = (case map_of m k of None \<Rightarrow> (map_of m)(k \<mapsto> v) | Some _ \<Rightarrow> map_of m)"
    using obj_emplace_sorted [OF assms] map_of_emplace [OF assms] by (simp add: elem_emplace_def)
  show "\<exists>m'. elem_erase_key (Object m) k = ok (if map_of m k = None then 0 else 1, Object m') \<and> sorted_keys m'
      \<and> map_of m' = (map_of m)(k := None)"
    using sorted_filter [OF assms] map_of_filter_key [of k m] by (simp add: elem_erase_key_def)
  show "\<exists>m'. elem_key (Object m) k = ok (case map_of m k of None \<Rightarrow> Null | Some w \<Rightarrow> w, Object m')
      \<and> elem_key_const (Object m) k = elem_key (Object m) k \<and> sorted_keys m'
      \<and> map_of m' = (case map_of m k of None \<Rightarrow> (map_of m)(k \<mapsto> Null) | Some _ \<Rightarrow> map_of m)"
    using obj_emplace_sorted [OF assms, of k Null] map_of_emplace [OF assms, of k Null]
    by (auto simp: elem_key_def elem_key_const_def Let_def split: option.splits)
qed

lemma object_members_witness:
  "(\<exists>m'. elem_emplace (Object [(''a'', Number_int 1), (''c'', Null)]) ''b'' (Boolean True) = ok (Object m' :: nat element)
      \<and> map_of m' ''b'' = Some (Boolean True))"
  using object_members [of "[(''a'', Number_int 1), (''c'', Null)]" "''b''" "Boolean True :: nat element"]
  by auto

section \<open>The order of values\<close>

definition strict_order_on :: "'a set \<Rightarrow> ('a \<Rightarrow> 'a \<Rightarrow> bool) \<Rightarrow> bool" where
  "strict_order_on A lt \<longleftrightarrow>
     (\<forall>a \<in> A. \<not> lt a a)
     \<and> (\<forall>a \<in> A. \<forall>b \<in> A. \<forall>c \<in> A. lt a b \<longrightarrow> lt b c \<longrightarrow> lt a c)
     \<and> (\<forall>a \<in> A. \<forall>b \<in> A. lt a b \<or> a = b \<or> lt b a)"

fun lex_less :: "('a \<Rightarrow> 'a \<Rightarrow> bool) \<Rightarrow> 'a list \<Rightarrow> 'a list \<Rightarrow> bool" where
  "lex_less lt as [] = False"
| "lex_less lt [] (b # bs) = True"
| "lex_less lt (a # as) (b # bs) = (if lt a b then True else if lt b a then False else lex_less lt as bs)"

definition pair_less :: "('b \<Rightarrow> 'b \<Rightarrow> bool) \<Rightarrow> ('a::linorder \<times> 'b) \<Rightarrow> ('a \<times> 'b) \<Rightarrow> bool" where
  "pair_less lt x y \<longleftrightarrow> fst x < fst y \<or> \<not> fst y < fst x \<and> lt (snd x) (snd y)"

lemma elems_less_lex: "elems_less F as bs = lex_less (elem_less F) as bs"
proof (induction as arbitrary: bs)
  case Nil
  then show ?case by (cases bs) auto
next
  case (Cons a as)
  then show ?case by (cases bs) auto
qed

lemma members_less_lex: "members_less F as bs = lex_less (pair_less (elem_less F)) as bs"
proof (induction as arbitrary: bs)
  case Nil
  show ?case
  proof (cases bs)
    case (Cons b bs')
    then show ?thesis by (cases b) simp
  qed simp
next
  case (Cons a as)
  obtain k x where a: "a = (k, x)" by fastforce
  show ?case
  proof (cases bs)
    case b: (Cons b bs')
    obtain l y where "b = (l, y)" by fastforce
    then show ?thesis by (simp add: a b pair_less_def Cons.IH)
  qed simp
qed

lemma strict_orderI:
  assumes "\<And>a. a \<in> A \<Longrightarrow> \<not> lt a a"
    and "\<And>a b c. a \<in> A \<Longrightarrow> b \<in> A \<Longrightarrow> c \<in> A \<Longrightarrow> lt a b \<Longrightarrow> lt b c \<Longrightarrow> lt a c"
    and "\<And>a b. a \<in> A \<Longrightarrow> b \<in> A \<Longrightarrow> lt a b \<or> a = b \<or> lt b a"
  shows "strict_order_on A lt"
  using assms unfolding strict_order_on_def by blast

lemma strict_orderD:
  assumes "strict_order_on A lt"
  shows "a \<in> A \<Longrightarrow> \<not> lt a a"
    and "a \<in> A \<Longrightarrow> b \<in> A \<Longrightarrow> c \<in> A \<Longrightarrow> lt a b \<Longrightarrow> lt b c \<Longrightarrow> lt a c"
    and "a \<in> A \<Longrightarrow> b \<in> A \<Longrightarrow> lt a b \<or> a = b \<or> lt b a"
  using assms unfolding strict_order_on_def by blast+

lemma lex_less_step:
  assumes "strict_order_on A lt" "a \<in> A" "b \<in> A"
  shows "lex_less lt (a # as) (b # bs) \<longleftrightarrow> lt a b \<or> a = b \<and> lex_less lt as bs"
  using strict_orderD(1) [OF assms(1)] strict_orderD(2) [OF assms(1), of a b a] strict_orderD(3) [OF assms] assms(2,3)
  by (cases "lt a b"; cases "lt b a") auto

lemma strict_order_lex:
  assumes S: "strict_order_on A lt"
  shows "strict_order_on {xs. set xs \<subseteq> A} (lex_less lt)"
proof (rule strict_orderI; simp)
  fix xs assume "set xs \<subseteq> A"
  then show "\<not> lex_less lt xs xs"
    by (induction xs) (auto simp: strict_orderD(1) [OF S])
next
  fix xs ys assume "set xs \<subseteq> A" "set ys \<subseteq> A"
  then show "lex_less lt xs ys \<or> xs = ys \<or> lex_less lt ys xs"
  proof (induction xs arbitrary: ys)
    case Nil
    show ?case by (cases ys) simp_all
  next
    case (Cons x xs)
    show ?case
    proof (cases ys)
      case (Cons y ys')
      then show ?thesis
        using Cons.IH [of ys'] Cons.prems strict_orderD(3) [OF S, of x y] lex_less_step [OF S, of x y xs ys']
          lex_less_step [OF S, of y x ys' xs] by auto
    qed simp
  qed
next
  fix xs ys zs
  assume "set xs \<subseteq> A" "set ys \<subseteq> A" "set zs \<subseteq> A" "lex_less lt xs ys" "lex_less lt ys zs"
  then show "lex_less lt xs zs"
  proof (induction xs arbitrary: ys zs)
    case Nil
    then show ?case by (cases ys; cases zs) simp_all
  next
    case (Cons x xs)
    obtain y ys' where y: "ys = y # ys'" using Cons.prems(4) by (cases ys) auto
    obtain z zs' where z: "zs = z # zs'" using Cons.prems(5) y by (cases zs) auto
    have mem: "x \<in> A" "y \<in> A" "z \<in> A" "set xs \<subseteq> A" "set ys' \<subseteq> A" "set zs' \<subseteq> A"
      using Cons.prems(1-3) y z by auto
    have "lt x y \<or> x = y \<and> lex_less lt xs ys'" "lt y z \<or> y = z \<and> lex_less lt ys' zs'"
      using Cons.prems(4,5) y z lex_less_step [OF S] mem by simp_all
    then have "lt x z \<or> x = z \<and> lex_less lt xs zs'"
      using Cons.IH [OF mem(4,5,6)] strict_orderD(2) [OF S mem(1,2,3)] by blast
    then show ?case using z lex_less_step [OF S mem(1,3)] by simp
  qed
qed

lemma strict_order_pair:
  fixes lt :: "'b \<Rightarrow> 'b \<Rightarrow> bool"
  assumes S: "strict_order_on A lt"
  shows "strict_order_on {x :: 'a::linorder \<times> 'b. snd x \<in> A} (pair_less lt)"
proof (rule strict_orderI; simp)
  fix a :: "'a \<times> 'b" assume "snd a \<in> A"
  then show "\<not> pair_less lt a a" using strict_orderD(1) [OF S] by (simp add: pair_less_def)
next
  fix a b :: "'a \<times> 'b" assume "snd a \<in> A" "snd b \<in> A"
  then show "pair_less lt a b \<or> a = b \<or> pair_less lt b a"
    using strict_orderD(3) [OF S, of "snd a" "snd b"] by (cases "fst a" "fst b" rule: linorder_cases) (auto simp: pair_less_def prod_eq_iff)
next
  fix a b c :: "'a \<times> 'b"
  assume mem: "snd a \<in> A" "snd b \<in> A" "snd c \<in> A" and lt: "pair_less lt a b" "pair_less lt b c"
  have "fst a < fst b \<or> fst a = fst b \<and> lt (snd a) (snd b)" "fst b < fst c \<or> fst b = fst c \<and> lt (snd b) (snd c)"
    using lt unfolding pair_less_def by (simp_all add: not_less_iff_gr_or_eq) auto
  then have "fst a < fst c \<or> fst a = fst c \<and> lt (snd a) (snd c)"
    using strict_orderD(2) [OF S mem] by (elim disjE conjE) (auto dest: less_trans)
  then show "pair_less lt a c" by (auto simp: pair_less_def)
qed

fun float_free :: "'f element \<Rightarrow> bool" where
  "float_free (Array es) = (\<forall>e \<in> set es. float_free e)"
| "float_free (Object m) = (\<forall>(k, v) \<in> set m. float_free v)"
| "float_free (Number_float d) = False"
| "float_free e = True"

lemma elem_less_other_type:
  "float_free a \<Longrightarrow> float_free b \<Longrightarrow> elem_type a \<noteq> elem_type b \<Longrightarrow>
   elem_less F a b = type_less (elem_type a) (elem_type b)"
  by (cases a; cases b) (simp_all add: elem_less.simps)

lemma type_rank_inj:
  "float_free a \<Longrightarrow> float_free b \<Longrightarrow> type_rank (elem_type a) = type_rank (elem_type b) \<longleftrightarrow> elem_type a = elem_type b"
  by (cases a; cases b) simp_all

lemma same_type_less:
  "elem_less F (Array as) (Array bs) = lex_less (elem_less F) as bs"
  "elem_less F (Object ms) (Object ns) = lex_less (pair_less (elem_less F)) ms ns"
  "elem_less F (String s) (String t) = (s < t)"
  "elem_less F (Number_int i) (Number_int j) = (i < j)"
  "elem_less F (Boolean p) (Boolean q) = (p < q)"
  "elem_less F Null Null = False"
  by (simp_all add: elem_less.simps elems_less_lex members_less_lex type_less_def)

lemma element_below:
  "e \<in> set es \<Longrightarrow> size (Array es) < Suc n \<Longrightarrow> size e < n"
  "(k, e) \<in> set m \<Longrightarrow> size (Object m) < Suc n \<Longrightarrow> size e < n"
proof -
  show "e \<in> set es \<Longrightarrow> size (Array es) < Suc n \<Longrightarrow> size e < n"
    using size_list_estimation' [of e es "size e" size] by simp
  show "(k, e) \<in> set m \<Longrightarrow> size (Object m) < Suc n \<Longrightarrow> size e < n"
    using size_list_estimation' [of "(k, e)" m "size e" "size_prod (\<lambda>_. 0) size"] by simp
qed

lemma strict_order_image:
  assumes "strict_order_on T lt" and "B \<subseteq> f ` T" and "\<And>x y. lt2 (f x) (f y) = lt x y"
  shows "strict_order_on B lt2"
proof (rule strict_orderI)
  note order = strict_orderD [OF assms(1)]
  fix a assume "a \<in> B"
  then obtain x where x: "x \<in> T" "a = f x" using assms(2) by blast
  show "\<not> lt2 a a" using order(1) [OF x(1)] by (simp add: x(2) assms(3))
  fix b assume "b \<in> B"
  then obtain y where y: "y \<in> T" "b = f y" using assms(2) by blast
  show "lt2 a b \<or> a = b \<or> lt2 b a"
    using order(3) [OF x(1) y(1)] by (auto simp: x(2) y(2) assms(3))
  fix c assume c: "c \<in> B" and lt: "lt2 a b" "lt2 b c"
  from c obtain z where z: "z \<in> T" "c = f z" using assms(2) by blast
  show "lt2 a c"
    using order(2) [OF x(1) y(1) z(1)] lt by (simp add: x(2) y(2) z(2) assms(3))
qed

lemma strict_order_linorder: "strict_order_on UNIV ((<) :: 'a::linorder \<Rightarrow> 'a \<Rightarrow> bool)"
  by (rule strict_orderI) auto

lemma elem_less_same:
  fixes F :: "'f float_ops" and t :: value_type
  assumes S: "strict_order_on {e :: 'f element. float_free e \<and> size e < n} (elem_less F)"
  shows "strict_order_on {e. float_free e \<and> size e < Suc n \<and> elem_type e = t} (elem_less F)"
    (is "strict_order_on ?B _")
proof (cases t)
  case Type_array
  have "?B \<subseteq> Array ` {es. set es \<subseteq> {e. float_free e \<and> size e < n}}"
  proof
    fix e assume e: "e \<in> ?B"
    then obtain es where "e = Array es" using Type_array by (cases e) auto
    moreover from this e have "set es \<subseteq> {e. float_free e \<and> size e < n}"
      by (auto dest: element_below(1) simp del: element.size)
    ultimately show "e \<in> Array ` {es. set es \<subseteq> {e. float_free e \<and> size e < n}}"
      by blast
  qed
  from strict_order_lex [OF S] this show ?thesis
    by (rule strict_order_image) (rule same_type_less)
next
  case Type_object
  have "?B \<subseteq> Object ` {m. set m \<subseteq> {x. snd x \<in> {e. float_free e \<and> size e < n}}}"
  proof
    fix e assume e: "e \<in> ?B"
    then obtain m where "e = Object m" using Type_object by (cases e) auto
    moreover from this e have "set m \<subseteq> {x. snd x \<in> {e. float_free e \<and> size e < n}}"
      by (auto dest: element_below(2) simp del: element.size)
    ultimately show "e \<in> Object ` {m. set m \<subseteq> {x. snd x \<in> {e. float_free e \<and> size e < n}}}"
      by blast
  qed
  from strict_order_lex [OF strict_order_pair [OF S]] this show ?thesis
    by (rule strict_order_image) (rule same_type_less)
next
  case Type_string
  have "?B \<subseteq> String ` UNIV" using Type_string by (auto elim: elem_type.elims)
  from strict_order_linorder this show ?thesis by (rule strict_order_image) (rule same_type_less)
next
  case Type_number_int
  have "?B \<subseteq> Number_int ` UNIV" using Type_number_int by (auto elim: elem_type.elims)
  from strict_order_linorder this show ?thesis by (rule strict_order_image) (rule same_type_less)
next
  case Type_boolean
  have "?B \<subseteq> Boolean ` UNIV" using Type_boolean by (auto elim: elem_type.elims)
  from strict_order_linorder this show ?thesis by (rule strict_order_image) (rule same_type_less)
next
  case Type_null
  have "?B \<subseteq> {Null}" using Type_null by (auto elim: elem_type.elims)
  then show ?thesis by (auto simp: strict_order_on_def same_type_less)
next
  case Type_number_float
  have "?B = {}" using Type_number_float by (auto elim: elem_type.elims)
  then show ?thesis by (simp only: strict_order_on_def) simp
qed

lemma type_less_trans: "type_less a b \<Longrightarrow> type_less b c \<Longrightarrow> type_less a c"
  and type_less_asym: "type_less a b \<Longrightarrow> \<not> type_less b a"
  by (simp_all add: type_less_def)

lemma elem_less_order_below:
  fixes F :: "'f float_ops"
  shows "strict_order_on {e :: 'f element. float_free e \<and> size e < n} (elem_less F)"
proof (induction n)
  case 0
  show ?case by (simp add: strict_order_on_def)
next
  case (Suc n)
  note same = strict_orderD [OF elem_less_same [OF Suc.IH]]
  note other = elem_less_other_type [where F = F]
  let ?B = "{e :: 'f element. float_free e \<and> size e < Suc n}"
  show ?case
  proof (rule strict_orderI)
    fix a assume a: "a \<in> ?B"
    then show "\<not> elem_less F a a" using same(1) [of a "elem_type a"] by blast
    fix b assume b: "b \<in> ?B"
    show "elem_less F a b \<or> a = b \<or> elem_less F b a"
    proof (cases "elem_type a = elem_type b")
      case True
      then show ?thesis using same(3) [of a "elem_type a" b] a b by auto
    next
      case False
      then have "type_rank (elem_type a) \<noteq> type_rank (elem_type b)" using a b type_rank_inj by blast
      then show ?thesis using other [of a b] other [of b a] a b False by (auto simp: type_less_def)
    qed
    fix c assume c: "c \<in> ?B" and lt: "elem_less F a b" "elem_less F b c"
    show "elem_less F a c"
    proof (cases "elem_type a = elem_type b \<and> elem_type b = elem_type c")
      case True
      then show ?thesis using same(2) [of a "elem_type a" b c] a b c lt by auto
    next
      case False
      consider "elem_type a = elem_type b" "type_less (elem_type b) (elem_type c)"
        | "type_less (elem_type a) (elem_type b)" "elem_type b = elem_type c"
        | "type_less (elem_type a) (elem_type b)" "type_less (elem_type b) (elem_type c)"
        using False other [of a b] other [of b c] a b c lt by blast
      then have "type_less (elem_type a) (elem_type c)"
        by cases (simp_all add: type_less_def)
      moreover from this have "elem_type a \<noteq> elem_type c" by (auto simp: type_less_def)
      ultimately show ?thesis using other [of a c] a c by simp
    qed
  qed
qed

lemma elem_eq_float_free:
  "float_free a \<Longrightarrow> float_free b \<Longrightarrow> elem_eq F a b = (a = b)"
  "\<forall>e \<in> set es. float_free e \<Longrightarrow> \<forall>e \<in> set es'. float_free e \<Longrightarrow> elems_eq F es es' = (es = es')"
  "\<forall>(k, e) \<in> set m. float_free e \<Longrightarrow> \<forall>(k, e) \<in> set m'. float_free e \<Longrightarrow> members_eq F m m' = (m = m')"
  by (induction F a b and F es es' and F m m' rule: elem_eq_elems_eq_members_eq.induct) auto

text \<open>
  C21. On values without floating point numbers \<open>operator<\<close> is a strict total order, so
  that they can be sorted and used as keys, and \<open>operator==\<close> holds exactly when neither
  of two values is less than the other.
\<close>

theorem element_order:
  "strict_order_on {e :: 'f element. float_free e} (elem_less F)
   \<and> (\<forall>a b :: 'f element. float_free a \<and> float_free b \<longrightarrow> elem_eq F a b = (\<not> elem_less F a b \<and> \<not> elem_less F b a))"
proof -
  have S: "strict_order_on {e :: 'f element. float_free e} (elem_less F)"
  proof (rule strict_orderI)
    fix a :: "'f element" assume a: "a \<in> {e. float_free e}"
    then show "\<not> elem_less F a a"
      using strict_orderD(1) [OF elem_less_order_below [of "Suc (size a)" F], of a] by simp
    fix b :: "'f element" assume b: "b \<in> {e. float_free e}"
    show "elem_less F a b \<or> a = b \<or> elem_less F b a"
      using strict_orderD(3) [OF elem_less_order_below [of "Suc (size a + size b)" F], of a b] a b by auto
    fix c :: "'f element" assume "c \<in> {e. float_free e}" "elem_less F a b" "elem_less F b c"
    then show "elem_less F a c"
      using strict_orderD(2) [OF elem_less_order_below [of "Suc (size a + size b + size c)" F], of a b c] a b by auto
  qed
  show ?thesis
    using S strict_orderD(1,3) [OF S] by (auto simp: elem_eq_float_free)
qed

theorem element_order_witness:
  "elem_less int_ops (Array [Number_int 1, String ''b'']) (Array [Number_int 1, String ''b'', Null])
   \<and> \<not> elem_eq int_ops (Array [Number_int 1, String ''b'']) (Array [Number_int 1, String ''b'', Null])"
proof -
  have "elem_less int_ops (Array [Number_int 1, String ''b'']) (Array [Number_int 1, String ''b'', Null])"
    by (simp add: elem_less.simps type_less_def)
  moreover have "float_free (Array [Number_int 1, String ''b''])" "float_free (Array [Number_int 1, String ''b'', Null])"
    by simp_all
  ultimately show ?thesis using element_order [of int_ops] by blast
qed

end
