(* ===== verification/Json_Parser.thy ===== *)
theory Json_Parser
  imports Json_Element Unicode_Support
begin

text \<open>
  The JSON reader of \<open>lib-json/src/parser.cpp\<close>: bytes to code points, code points to
  tokens by a state machine, tokens to a value by recursive descent. The tokenizer's
  loop may run forever, so it counts steps: \<open>None\<close> is no result within that many.
\<close>

unbundle bit_operations_syntax

section \<open>State\<close>

datatype token_t =
    Eof | LeftBrace | RightBrace | LeftBracket | RightBracket | Comma | Colon
  | StringToken | IntegerToken | NumberToken | TrueToken | FalseToken | NullToken | Undef

definition describe_token :: "token_t \<Rightarrow> string" where
  "describe_token t =
     (case t of
        Eof \<Rightarrow> ''end of data''
      | LeftBrace \<Rightarrow> ''left brace ('' @ [CHR 0x27] @ ''{'' @ [CHR 0x27] @ '')''
      | RightBrace \<Rightarrow> ''richt brace ('' @ [CHR 0x27] @ ''}'' @ [CHR 0x27] @ '')''
      | LeftBracket \<Rightarrow> ''left bracket ('' @ [CHR 0x27] @ ''['' @ [CHR 0x27] @ '')''
      | RightBracket \<Rightarrow> ''right bracket ('' @ [CHR 0x27] @ '']'' @ [CHR 0x27] @ '')''
      | Comma \<Rightarrow> ''comma''
      | Colon \<Rightarrow> ''colon''
      | StringToken \<Rightarrow> ''string''
      | IntegerToken \<Rightarrow> ''integer''
      | NumberToken \<Rightarrow> ''number''
      | TrueToken \<Rightarrow> ''true''
      | FalseToken \<Rightarrow> ''false''
      | NullToken \<Rightarrow> ''null''
      | Undef \<Rightarrow> ''undefined token'')"

text \<open>The stream is what is left to read; \<open>js_buffer\<close> is the stack of characters put back.\<close>

record 'f json_parser =
  js_is :: string
  js_buffer :: "unicode list"
  js_token :: string
  js_float :: 'f
  js_int :: int
  js_lookahead :: token_t

section \<open>Characters\<close>

definition get_next_byte :: "'f json_parser \<Rightarrow> unicode \<times> 'f json_parser" where
  "get_next_byte p = (case js_is p of [] \<Rightarrow> (0, p) | c # s \<Rightarrow> (ord32 c, p\<lparr>js_is := s\<rparr>))"

definition continuation :: "unicode \<Rightarrow> bool" where
  "continuation ch \<longleftrightarrow> ch AND 0xC0 = 0x80"

definition get_next_unicode :: "'f json_parser \<Rightarrow> (unicode \<times> 'f json_parser) res" where
  "get_next_unicode p =
     (case get_next_byte p of (result, p) \<Rightarrow>
        if result AND 0x80 \<noteq> 0 then
          (if result AND 0xE0 = 0xC0 then
             (case get_next_byte p of (ch0, p) \<Rightarrow>
                if \<not> continuation ch0 then throw (Runtime_error ''Invalid utf-8'')
                else ok (push_bit 6 (result AND 0x1F) OR (ch0 AND 0x3F), p))
           else if result AND 0xF0 = 0xE0 then
             (case get_next_byte p of (ch0, p) \<Rightarrow>
              case get_next_byte p of (ch1, p) \<Rightarrow>
                if \<not> continuation ch0 \<or> \<not> continuation ch1 then throw (Runtime_error ''Invalid utf-8'')
                else ok (push_bit 12 (result AND 0x0F) OR push_bit 6 (ch0 AND 0x3F) OR (ch1 AND 0x3F), p))
           else if result AND 0xF8 = 0xF0 then
             (case get_next_byte p of (ch0, p) \<Rightarrow>
              case get_next_byte p of (ch1, p) \<Rightarrow>
              case get_next_byte p of (ch2, p) \<Rightarrow>
                if \<not> continuation ch0 \<or> \<not> continuation ch1 \<or> \<not> continuation ch2
                then throw (Runtime_error ''Invalid utf-8'')
                else (let result = push_bit 18 (result AND 0x07) OR push_bit 12 (ch0 AND 0x3F)
                                   OR push_bit 6 (ch1 AND 0x3F) OR (ch2 AND 0x3F)
                      in if result > 0x10FFFF
                         then throw (Runtime_error ''invalid utf-8 character (out of range)'')
                         else ok (result, p)))
           else ok (result, p))
        else ok (result, p))"

text \<open>
  A character from the stream is checked; after a leading surrogate the function calls
  itself for the trailing one. The character read is appended to \<open>m_token\<close>.
\<close>

definition push_token :: "unicode \<times> 'f json_parser \<Rightarrow> unicode \<times> 'f json_parser" where
  "push_token up = (case up of (uc, p) \<Rightarrow> (uc, p\<lparr>js_token := append_utf8 (js_token p) uc\<rparr>))"

lemma get_next_byte_length: "get_next_byte p = (u, q) \<Longrightarrow> length (js_is q) \<le> length (js_is p)"
  by (auto simp: get_next_byte_def split: list.splits)

lemma get_next_byte_less: "get_next_byte p = (u, q) \<Longrightarrow> u \<noteq> 0 \<Longrightarrow> length (js_is q) < length (js_is p)"
  by (auto simp: get_next_byte_def split: list.splits)

lemma get_next_unicode_less:
  assumes "get_next_unicode p = ok (u, q)" "u \<noteq> 0"
  shows "length (js_is q) < length (js_is p)"
proof -
  obtain b r where b: "get_next_byte p = (b, r)" by (cases "get_next_byte p")
  show ?thesis
  proof (cases "b AND 0x80 = 0")
    case True
    with assms b have "u = b" "q = r" by (simp_all add: get_next_unicode_def)
    with assms b show ?thesis by (simp add: get_next_byte_less)
  next
    case False
    then have "b \<noteq> 0" by auto
    with b have "length (js_is r) < length (js_is p)" by (simp add: get_next_byte_less)
    moreover have "length (js_is q) \<le> length (js_is r)"
      using assms(1) b False
      by (auto simp: get_next_unicode_def Let_def split: prod.splits if_splits dest!: get_next_byte_length)
    ultimately show ?thesis by simp
  qed
qed

function get_next_char :: "'f json_parser \<Rightarrow> (unicode \<times> 'f json_parser) res" where
  "get_next_char p =
     (case js_buffer p of
        u # us \<Rightarrow> ok (push_token (u, p\<lparr>js_buffer := us\<rparr>))
      | [] \<Rightarrow>
          (case get_next_unicode p of
             Inl e \<Rightarrow> throw e
           | Inr (result, q) \<Rightarrow>
               if result \<ge> 0x80 then
                 (if result = 0xFFFF \<or> result = 0xFFFE
                  then throw (Runtime_error (''character '' @ to_hex result @ '' is not allowed''))
                  else if result \<ge> 0xD800 \<and> result \<le> 0xDBFF then
                    (case get_next_char q of
                       Inl e \<Rightarrow> throw e
                     | Inr (uc2, q) \<Rightarrow>
                         if uc2 \<ge> 0xDC00 \<and> uc2 \<le> 0xDFFF
                         then ok (push_token ((result - 0xD800) * 0x400 + (uc2 - 0xDC00) + 0x10000, q))
                         else throw (Runtime_error ''leading surrogate character without trailing surrogate character''))
                  else if result \<ge> 0xDC00 \<and> result \<le> 0xDFFF
                  then throw (Runtime_error ''trailing surrogate character without a leading surrogate'')
                  else ok (push_token (result, q)))
               else ok (push_token (result, q))))"
  by pat_completeness auto
termination
proof (relation "measure (\<lambda>p. length (js_is p))")
  fix p :: "'f json_parser" and y x q
  assume "get_next_unicode p = Inr y" "(x, q) = y" "x \<ge> 0x80"
  then show "(q, p) \<in> measure (\<lambda>p. length (js_is p))"
    using get_next_unicode_less [of p x q] by (cases "x = 0") auto
qed simp

declare get_next_char.simps [simp del]

definition retract :: "'f json_parser \<Rightarrow> 'f json_parser res" where
  "retract p =
     (if js_token p = [] then throw Assertion
      else bind_res (pop_last_char (js_token p)) (\<lambda>(uc, t).
        ok (p\<lparr>js_token := t, js_buffer := uc # js_buffer p\<rparr>)))"

section \<open>The tokenizer\<close>

datatype state_t =
    Start | Negative | Zero | Number | NumberFraction | NumberExpSign | NumberExpDigit1 | NumberExpDigit2
  | Literal | StringState | Escape | EscapeHex1 | EscapeHex2 | EscapeHex3 | EscapeHex4

text \<open>The local variables of \<open>get_next_token\<close>.\<close>

record 'f lexer =
  lx_state :: state_t
  lx_token :: token_t
  lx_fraction :: 'f
  lx_exponent :: 'f
  lx_negative :: bool
  lx_negativeExp :: bool
  lx_hx :: unicode

abbreviation is_ch :: "char \<Rightarrow> unicode \<Rightarrow> bool" where
  "is_ch c ch \<equiv> ch = ord32 c"

definition between :: "char \<Rightarrow> unicode \<Rightarrow> char \<Rightarrow> bool" where
  "between a ch b \<longleftrightarrow> ord32 a \<le> ch \<and> ch \<le> ord32 b"

abbreviation digit_ch :: "unicode \<Rightarrow> bool" where
  "digit_ch ch \<equiv> between CHR ''0'' ch CHR ''9''"

definition digit_of :: "unicode \<Rightarrow> int" where
  "digit_of ch = uint (ch - ord32 CHR ''0'')"

definition alpha_ch :: "unicode \<Rightarrow> bool" where
  "alpha_ch ch \<longleftrightarrow> ch < 128 \<and> isalpha (chr32 ch)"

type_synonym 'f lex_res = "('f lexer \<times> 'f json_parser) res"

definition set_back :: "char \<Rightarrow> 'f json_parser \<Rightarrow> 'f json_parser" where
  "set_back c p = p\<lparr>js_token := butlast (js_token p) @ [c]\<rparr>"

definition pop_token :: "'f json_parser \<Rightarrow> 'f json_parser" where
  "pop_token p = p\<lparr>js_token := butlast (js_token p)\<rparr>"

definition finish_token :: "token_t \<Rightarrow> 'f lexer \<Rightarrow> 'f json_parser \<Rightarrow> 'f lex_res" where
  "finish_token t lx p = ok (lx\<lparr>lx_token := t\<rparr>, p)"

definition goto :: "state_t \<Rightarrow> 'f lexer \<Rightarrow> 'f json_parser \<Rightarrow> 'f lex_res" where
  "goto st lx p = ok (lx\<lparr>lx_state := st\<rparr>, p)"

text \<open>The error of \<open>Start\<close> calls \<open>std::isprint\<close>, which is only defined for a byte.\<close>

definition invalid_character :: "unicode \<Rightarrow> exn" where
  "invalid_character ch =
     (if ch < 256 then
        Zeep_exception (''invalid character ('' @ (if 32 \<le> ch \<and> ch \<le> 126 then [chr32 ch] else to_hex ch) @ '') in json'')
      else Undefined)"

definition lex_start :: "unicode \<Rightarrow> 'f lexer \<Rightarrow> 'f json_parser \<Rightarrow> 'f lex_res" where
  "lex_start ch lx p =
     (if ch = 0 then finish_token Eof lx p
      else if is_ch CHR ''{'' ch then finish_token LeftBrace lx p
      else if is_ch CHR ''}'' ch then finish_token RightBrace lx p
      else if is_ch CHR ''['' ch then finish_token LeftBracket lx p
      else if is_ch CHR '']'' ch then finish_token RightBracket lx p
      else if is_ch CHR '','' ch then finish_token Comma lx p
      else if is_ch CHR '':'' ch then finish_token Colon lx p
      else if ch = 32 \<or> ch = 10 \<or> ch = 13 \<or> ch = 9 then ok (lx, p\<lparr>js_token := []\<rparr>)
      else if ch = 34 then goto StringState lx (pop_token p)
      else if is_ch CHR ''-'' ch then goto Negative lx p
      else if is_ch CHR ''0'' ch then goto Zero lx (p\<lparr>js_int := 0\<rparr>)
      else if between CHR ''1'' ch CHR ''9'' then goto Number lx (p\<lparr>js_int := digit_of ch\<rparr>)
      else if alpha_ch ch then goto Literal lx p
      else throw (invalid_character ch))"

definition lex_negative :: "unicode \<Rightarrow> 'f lexer \<Rightarrow> 'f json_parser \<Rightarrow> 'f lex_res" where
  "lex_negative ch lx p =
     (if is_ch CHR ''0'' ch then goto Zero (lx\<lparr>lx_negative := True\<rparr>) p
      else if between CHR ''1'' ch CHR ''9'' then goto Number (lx\<lparr>lx_negative := True\<rparr>) (p\<lparr>js_int := digit_of ch\<rparr>)
      else throw (Zeep_exception (''invalid character '' @ [CHR 0x27] @ ''-'' @ [CHR 0x27] @ '' in json'')))"

definition lex_zero :: "'f float_ops \<Rightarrow> unicode \<Rightarrow> 'f lexer \<Rightarrow> 'f json_parser \<Rightarrow> 'f lex_res" where
  "lex_zero F ch lx p =
     (if digit_ch ch then throw (Zeep_exception ''invalid number in json, should not start with zero'')
      else if is_ch CHR ''.'' ch then
        goto NumberFraction (lx\<lparr>lx_fraction := fo_div F (fo_of_int F 1) (fo_of_int F 10)\<rparr>)
          (p\<lparr>js_int := 0, js_float := fo_of_int F 0\<rparr>)
      else bind_res (retract p) (\<lambda>p. finish_token IntegerToken lx (p\<lparr>js_int := 0\<rparr>)))"

text \<open>The sum of an \<open>int64_t\<close> and the value of a digit overflows without being defined.\<close>

definition lex_number :: "'f float_ops \<Rightarrow> unicode \<Rightarrow> 'f lexer \<Rightarrow> 'f json_parser \<Rightarrow> 'f lex_res" where
  "lex_number F ch lx p =
     (if digit_ch ch then
        bind_res (int64 (10 * js_int p)) (\<lambda>i. bind_res (int64 (i + digit_of ch)) (\<lambda>i. ok (lx, p\<lparr>js_int := i\<rparr>)))
      else if is_ch CHR ''.'' ch then
        goto NumberFraction (lx\<lparr>lx_fraction := fo_div F (fo_of_int F 1) (fo_of_int F 10)\<rparr>) (p\<lparr>js_float := fo_of_int F (js_int p)\<rparr>)
      else if is_ch CHR ''e'' ch \<or> is_ch CHR ''E'' ch then
        goto NumberExpSign lx (p\<lparr>js_float := fo_of_int F (js_int p)\<rparr>)
      else bind_res (retract p) (\<lambda>p.
        finish_token IntegerToken lx (if lx_negative lx then p\<lparr>js_int := - js_int p\<rparr> else p)))"

definition signed_float :: "'f float_ops \<Rightarrow> 'f lexer \<Rightarrow> 'f json_parser \<Rightarrow> 'f json_parser" where
  "signed_float F lx p = (if lx_negative lx then p\<lparr>js_float := fo_neg F (js_float p)\<rparr> else p)"

definition lex_fraction :: "'f float_ops \<Rightarrow> unicode \<Rightarrow> 'f lexer \<Rightarrow> 'f json_parser \<Rightarrow> 'f lex_res" where
  "lex_fraction F ch lx p =
     (if digit_ch ch then
        ok (lx\<lparr>lx_fraction := fo_div F (lx_fraction lx) (fo_of_int F 10)\<rparr>,
            p\<lparr>js_float := fo_add F (js_float p) (fo_mul F (lx_fraction lx) (fo_of_int F (digit_of ch)))\<rparr>)
      else if is_ch CHR ''e'' ch \<or> is_ch CHR ''E'' ch then goto NumberExpSign lx p
      else bind_res (retract p) (\<lambda>p. finish_token NumberToken lx (signed_float F lx p)))"

text \<open>Any other character leaves the state as it is.\<close>

definition lex_exp_sign :: "'f float_ops \<Rightarrow> unicode \<Rightarrow> 'f lexer \<Rightarrow> 'f json_parser \<Rightarrow> 'f lex_res" where
  "lex_exp_sign F ch lx p =
     (if is_ch CHR ''+'' ch then goto NumberExpDigit1 lx p
      else if is_ch CHR ''-'' ch then goto NumberExpDigit1 (lx\<lparr>lx_negativeExp := True\<rparr>) p
      else if digit_ch ch then goto NumberExpDigit2 (lx\<lparr>lx_exponent := fo_of_int F (digit_of ch)\<rparr>) p
      else ok (lx, p))"

definition lex_exp_digit1 :: "'f float_ops \<Rightarrow> unicode \<Rightarrow> 'f lexer \<Rightarrow> 'f json_parser \<Rightarrow> 'f lex_res" where
  "lex_exp_digit1 F ch lx p =
     (if digit_ch ch then goto NumberExpDigit2 (lx\<lparr>lx_exponent := fo_of_int F (digit_of ch)\<rparr>) p
      else throw (Zeep_exception ''invalid floating point format in json''))"

definition lex_exp_digit2 :: "'f float_ops \<Rightarrow> unicode \<Rightarrow> 'f lexer \<Rightarrow> 'f json_parser \<Rightarrow> 'f lex_res" where
  "lex_exp_digit2 F ch lx p =
     (if digit_ch ch then
        ok (lx\<lparr>lx_exponent := fo_add F (fo_mul F (fo_of_int F 10) (lx_exponent lx)) (fo_of_int F (digit_of ch))\<rparr>, p)
      else bind_res (retract p) (\<lambda>p.
        let e = fo_mul F (fo_of_int F (if lx_negativeExp lx then - 1 else 1)) (lx_exponent lx);
            p = p\<lparr>js_float := fo_mul F (js_float p) (fo_pow F (fo_of_int F 10) e)\<rparr>
        in finish_token NumberToken lx (signed_float F lx p)))"

definition lex_literal :: "unicode \<Rightarrow> 'f lexer \<Rightarrow> 'f json_parser \<Rightarrow> 'f lex_res" where
  "lex_literal ch lx p =
     (if \<not> alpha_ch ch then
        bind_res (retract p) (\<lambda>p.
          if js_token p = ''true'' then finish_token TrueToken lx p
          else if js_token p = ''false'' then finish_token FalseToken lx p
          else if js_token p = ''null'' then finish_token NullToken lx p
          else throw (Zeep_exception (''Invalid literal found in json: '' @ js_token p)))
      else ok (lx, p))"

definition lex_string :: "unicode \<Rightarrow> 'f lexer \<Rightarrow> 'f json_parser \<Rightarrow> 'f lex_res" where
  "lex_string ch lx p =
     (if ch = 34 then finish_token StringToken lx (pop_token p)
      else if ch = 0 then throw (Zeep_exception ''Invalid unterminated string in json'')
      else if ch = 92 then goto Escape lx (pop_token p)
      else ok (lx, p))"

definition lex_escape :: "unicode \<Rightarrow> 'f lexer \<Rightarrow> 'f json_parser \<Rightarrow> 'f lex_res" where
  "lex_escape ch lx p =
     (if ch = 34 \<or> ch = 92 \<or> is_ch CHR ''/'' ch then goto StringState lx p
      else if is_ch CHR ''n'' ch then goto StringState lx (set_back (CHR 0x0A) p)
      else if is_ch CHR ''t'' ch then goto StringState lx (set_back (CHR 0x09) p)
      else if is_ch CHR ''r'' ch then goto StringState lx (set_back (CHR 0x0D) p)
      else if is_ch CHR ''f'' ch then goto StringState lx (set_back (CHR 0x0C) p)
      else if is_ch CHR ''b'' ch then goto StringState lx (set_back (CHR 0x08) p)
      else if is_ch CHR ''u'' ch then goto EscapeHex1 lx (pop_token p)
      else throw (Zeep_exception (''Invalid escape sequence in json ('' @ [CHR 0x5C, chr32 ch] @ '')'')))"

text \<open>The digit is anything up to \<open>9\<close>, as the lower bound compares with 0 and not \<open>'0'\<close>.\<close>

definition hex_ch :: "unicode \<Rightarrow> unicode \<Rightarrow> unicode option" where
  "hex_ch base ch =
     (if ch \<le> ord32 CHR ''9'' then Some (base + ch - ord32 CHR ''0'')
      else if between CHR ''a'' ch CHR ''f'' then Some (base + 10 + ch - ord32 CHR ''a'')
      else if between CHR ''A'' ch CHR ''F'' then Some (base + 10 + ch - ord32 CHR ''A'')
      else None)"

definition lex_hex :: "state_t \<Rightarrow> bool \<Rightarrow> unicode \<Rightarrow> 'f lexer \<Rightarrow> 'f json_parser \<Rightarrow> 'f lex_res" where
  "lex_hex next_state first ch lx p =
     (case hex_ch (if first then 0 else 16 * lx_hx lx) ch of
        None \<Rightarrow> throw (Zeep_exception ''Invalid hex sequence in json'')
      | Some hx \<Rightarrow>
          (let p = pop_token p;
               p = (if next_state = StringState then p\<lparr>js_token := append_utf8 (js_token p) hx\<rparr> else p)
           in goto next_state (lx\<lparr>lx_hx := hx\<rparr>) p))"

definition lex_step :: "'f float_ops \<Rightarrow> unicode \<Rightarrow> 'f lexer \<Rightarrow> 'f json_parser \<Rightarrow> 'f lex_res" where
  "lex_step F ch lx p =
     (case lx_state lx of
        Start \<Rightarrow> lex_start ch lx p
      | Negative \<Rightarrow> lex_negative ch lx p
      | Zero \<Rightarrow> lex_zero F ch lx p
      | Number \<Rightarrow> lex_number F ch lx p
      | NumberFraction \<Rightarrow> lex_fraction F ch lx p
      | NumberExpSign \<Rightarrow> lex_exp_sign F ch lx p
      | NumberExpDigit1 \<Rightarrow> lex_exp_digit1 F ch lx p
      | NumberExpDigit2 \<Rightarrow> lex_exp_digit2 F ch lx p
      | Literal \<Rightarrow> lex_literal ch lx p
      | StringState \<Rightarrow> lex_string ch lx p
      | Escape \<Rightarrow> lex_escape ch lx p
      | EscapeHex1 \<Rightarrow> lex_hex EscapeHex2 True ch lx p
      | EscapeHex2 \<Rightarrow> lex_hex EscapeHex3 False ch lx p
      | EscapeHex3 \<Rightarrow> lex_hex EscapeHex4 False ch lx p
      | EscapeHex4 \<Rightarrow> lex_hex StringState False ch lx p)"

fun token_loop :: "'f float_ops \<Rightarrow> nat \<Rightarrow> 'f lexer \<Rightarrow> 'f json_parser \<Rightarrow> (token_t \<times> 'f json_parser) res option" where
  "token_loop F n lx p =
     (if lx_token lx \<noteq> Undef then Some (ok (lx_token lx, p))
      else (case n of
              0 \<Rightarrow> None
            | Suc n \<Rightarrow>
                (case bind_res (get_next_char p) (\<lambda>(ch, p). lex_step F ch lx p) of
                   Inl e \<Rightarrow> Some (throw e)
                 | Inr (lx, p) \<Rightarrow> token_loop F n lx p)))"

declare token_loop.simps [simp del]

definition lexer_init :: "'f float_ops \<Rightarrow> 'f lexer" where
  "lexer_init F =
     \<lparr>lx_state = Start, lx_token = Undef, lx_fraction = fo_of_int F 1, lx_exponent = fo_of_int F 1,
      lx_negative = False, lx_negativeExp = False, lx_hx = 0\<rparr>"

definition get_next_token :: "'f float_ops \<Rightarrow> nat \<Rightarrow> 'f json_parser \<Rightarrow> (token_t \<times> 'f json_parser) res option" where
  "get_next_token F n p = token_loop F n (lexer_init F) (p\<lparr>js_token := []\<rparr>)"

section \<open>The parser\<close>

definition next_token :: "'f float_ops \<Rightarrow> nat \<Rightarrow> 'f json_parser \<Rightarrow> 'f json_parser res option" where
  "next_token F n p = seq (get_next_token F n p) (\<lambda>(t, p). Some (ok (p\<lparr>js_lookahead := t\<rparr>)))"

definition match :: "'f float_ops \<Rightarrow> nat \<Rightarrow> token_t \<Rightarrow> 'f json_parser \<Rightarrow> 'f json_parser res option" where
  "match F n expected p =
     (if js_lookahead p \<noteq> expected then
        Some (throw (Zeep_exception (''Syntax error in json, expected '' @ describe_token expected
                                     @ '' but found '' @ describe_token (js_lookahead p))))
      else next_token F n p)"

text \<open>
  Each function takes the value it fills in and returns it with the parser. The
  number bounds the calls that are nested and the steps of the tokenizer.
\<close>

fun parse_value :: "'f float_ops \<Rightarrow> nat \<Rightarrow> 'f element \<Rightarrow> 'f json_parser \<Rightarrow> ('f element \<times> 'f json_parser) res option"
  and parse_object :: "'f float_ops \<Rightarrow> nat \<Rightarrow> 'f element \<Rightarrow> 'f json_parser \<Rightarrow> ('f element \<times> 'f json_parser) res option"
  and parse_array :: "'f float_ops \<Rightarrow> nat \<Rightarrow> 'f element \<Rightarrow> 'f json_parser \<Rightarrow> ('f element \<times> 'f json_parser) res option" where
  "parse_value F 0 e p = None"
| "parse_value F (Suc n) e p =
     (case js_lookahead p of
        Eof \<Rightarrow> Some (ok (e, p))
      | NullToken \<Rightarrow> seq (match F n (js_lookahead p) p) (\<lambda>p. Some (ok (e, p)))
      | FalseToken \<Rightarrow> seq (match F n (js_lookahead p) p) (\<lambda>p. Some (ok (Boolean False, p)))
      | TrueToken \<Rightarrow> seq (match F n (js_lookahead p) p) (\<lambda>p. Some (ok (Boolean True, p)))
      | IntegerToken \<Rightarrow> seq (match F n (js_lookahead p) p) (\<lambda>p. Some (ok (Number_int (js_int p), p)))
      | NumberToken \<Rightarrow> seq (match F n (js_lookahead p) p) (\<lambda>p. Some (ok (Number_float (js_float p), p)))
      | LeftBrace \<Rightarrow>
          seq (match F n (js_lookahead p) p) (\<lambda>p.
          seq (parse_object F n e p) (\<lambda>(e, p).
          seq (match F n RightBrace p) (\<lambda>p. Some (ok (e, p)))))
      | LeftBracket \<Rightarrow>
          seq (match F n (js_lookahead p) p) (\<lambda>p.
          seq (parse_array F n e p) (\<lambda>(e, p).
          seq (match F n RightBracket p) (\<lambda>p. Some (ok (e, p)))))
      | StringToken \<Rightarrow>
          (let e = String (js_token p) in seq (match F n (js_lookahead p) p) (\<lambda>p. Some (ok (e, p))))
      | _ \<Rightarrow> Some (throw (Runtime_error (''Syntax error in json, unexpected token '' @ describe_token (js_lookahead p)))))"
| "parse_object F 0 e p = None"
| "parse_object F (Suc n) e p =
     (if js_lookahead p = RightBrace \<or> js_lookahead p = Eof then Some (ok (e, p))
      else (let name = js_token p in
        seq (match F n StringToken p) (\<lambda>p.
        seq (match F n Colon p) (\<lambda>p.
        seq (parse_value F n Null p) (\<lambda>(v, p).
        seq (Some (elem_emplace e name v)) (\<lambda>e.
          if js_lookahead p \<noteq> Comma then Some (ok (e, p))
          else seq (match F n (js_lookahead p) p) (\<lambda>p. parse_object F n e p)))))))"
| "parse_array F 0 e p = None"
| "parse_array F (Suc n) e p =
     (if js_lookahead p = RightBracket \<or> js_lookahead p = Eof then Some (ok (e, p))
      else
        seq (parse_value F n Null p) (\<lambda>(v, p).
        seq (Some (elem_emplace_back e v)) (\<lambda>e.
          if js_lookahead p \<noteq> Comma then Some (ok (e, p))
          else seq (match F n (js_lookahead p) p) (\<lambda>p. parse_array F n e p))))"

declare parse_value.simps [simp del] parse_object.simps [simp del] parse_array.simps [simp del]

definition json_parser_new :: "'f float_ops \<Rightarrow> string \<Rightarrow> 'f json_parser" where
  "json_parser_new F s =
     \<lparr>js_is = s, js_buffer = [], js_token = [], js_float = fo_of_int F 0, js_int = 0, js_lookahead = Undef\<rparr>"

definition parse :: "'f float_ops \<Rightarrow> nat \<Rightarrow> 'f element \<Rightarrow> 'f json_parser \<Rightarrow> ('f element \<times> 'f json_parser) res option" where
  "parse F n obj p =
     seq (next_token F n p) (\<lambda>p.
     seq (parse_value F n obj p) (\<lambda>(obj, p).
       if js_lookahead p \<noteq> Eof then Some (throw (Zeep_exception ''Extraneaous data after parsing json''))
       else Some (ok (obj, p))))"

definition parse_json :: "'f float_ops \<Rightarrow> nat \<Rightarrow> string \<Rightarrow> 'f element \<Rightarrow> 'f element res option" where
  "parse_json F n json obj = seq (parse F n obj (json_parser_new F json)) (\<lambda>(obj, p). Some (ok obj))"

end
