(* ===== verification/Json_Roundtrip.thy ===== *)
theory Json_Roundtrip
  imports Json_Parser
begin

text \<open>
  Reading back what the JSON writer of \<open>element.cpp\<close> writes: the reader of
  \<open>parser.cpp\<close>, one token at a time, on the text of a value.
\<close>

unbundle bit_operations_syntax

section \<open>Reading characters\<close>

declare unat_ord32 [simp] chr32_ord32 [simp]

lemma ord32_inject [simp]: "ord32 c = ord32 d \<longleftrightarrow> c = d"
  by (metis unat_ord32 code_inject)

lemma utf8_ascii: "code c < 128 \<Longrightarrow> utf8 (ord32 c) = [c]"
  by (simp add: utf8_def word_less_nat_alt)

lemma ascii_bit: "code c < 128 \<Longrightarrow> ord32 c AND 0x80 = 0"
  by (rule ascii_high) (simp add: word_less_nat_alt)

lemma and_e0: "(w::unicode) AND 0xE0 = 0xC0 \<Longrightarrow> w AND 0x80 = 0x80" 
  "w AND 0xF0 = 0xE0 \<Longrightarrow> w AND 0x80 = 0x80" "w AND 0xF8 = 0xF0 \<Longrightarrow> w AND 0x80 = 0x80"
proof -
  have "w AND 0x80 = (w AND 0xE0) AND 0x80" "w AND 0x80 = (w AND 0xF0) AND 0x80" "w AND 0x80 = (w AND 0xF8) AND 0x80"
    by (simp_all add: and.assoc)
  then show "w AND 0xE0 = 0xC0 \<Longrightarrow> w AND 0x80 = 0x80" 
    "w AND 0xF0 = 0xE0 \<Longrightarrow> w AND 0x80 = 0x80" "w AND 0xF8 = 0xF0 \<Longrightarrow> w AND 0x80 = 0x80" by simp_all
qed

text \<open>A code point the reader takes: not one of the two non-characters, no surrogate.\<close>

definition valid_unicode :: "unicode \<Rightarrow> bool" where
  "valid_unicode u \<longleftrightarrow> u \<le> 0x10FFFF \<and> u \<noteq> 0xFFFF \<and> u \<noteq> 0xFFFE \<and> \<not> (0xD800 \<le> u \<and> u \<le> 0xDFFF)"

lemma get_next_unicode_utf8:
  assumes "u \<le> 0x10FFFF" "js_is p = utf8 u @ s"
  shows "get_next_unicode p = ok (u, p\<lparr>js_is := s\<rparr>)"
proof -
  have u: "u < 0x200000" using assms(1) by (auto simp: word_le_nat_alt word_less_nat_alt)
  consider "u < 0x80" | "\<not> u < 0x80" "u < 0x800" | "\<not> u < 0x800" "u < 0x10000" | "\<not> u < 0x10000" by blast
  then show ?thesis
  proof cases
    case 1
    then show ?thesis using assms(2)
      by (simp add: utf8_def get_next_unicode_def get_next_byte_def ascii_byte ascii_high)
  next
    case 2
    have "(0xC0 OR take_bit 5 (drop_bit 6 u)) AND 0x80 = 0x80" by (rule and_e0(1)) (simp add: lead_and)
    then show ?thesis using assms(2) 2
      by (simp add: utf8_def get_next_unicode_def get_next_byte_def lead_bytes lead_and continuation_byte continuation_def
          and_mask_simps(1) two_byte)
  next
    case 3
    then have "\<not> u < 0x80" by (auto simp: word_less_nat_alt)
    moreover have "(0xE0 OR take_bit 4 (drop_bit 12 u)) AND 0x80 = 0x80" by (rule and_e0(2)) (simp add: lead_and)
    ultimately show ?thesis using assms(2) 3
      by (simp add: utf8_def get_next_unicode_def get_next_byte_def lead_bytes lead_and continuation_byte continuation_def
          and_mask_simps(1) three_byte)
  next
    case 4
    then have "\<not> u < 0x80" "\<not> u < 0x800" by (auto simp: word_less_nat_alt)
    moreover have "(0xF0 OR take_bit 3 (drop_bit 18 u)) AND 0x80 = 0x80" by (rule and_e0(3)) (simp add: lead_and)
    moreover have "\<not> u > 0x10FFFF" using assms(1) by simp
    ultimately show ?thesis using assms(2) 4 u
      by (simp add: utf8_def get_next_unicode_def get_next_byte_def lead_bytes lead_and continuation_byte continuation_def
          and_mask_simps(1) four_byte Let_def)
  qed
qed

lemma get_next_char_utf8:
  assumes "valid_unicode u" "js_buffer p = []" "js_is p = utf8 u @ s"
  shows "get_next_char p = ok (u, p\<lparr>js_is := s, js_token := js_token p @ utf8 u\<rparr>)"
proof -
  have "get_next_unicode p = ok (u, p\<lparr>js_is := s\<rparr>)"
    using assms by (intro get_next_unicode_utf8) (simp_all add: valid_unicode_def)
  moreover have "\<not> (u \<ge> 0xD800 \<and> u \<le> 0xDBFF)" "\<not> (u \<ge> 0xDC00 \<and> u \<le> 0xDFFF)" "u \<noteq> 0xFFFF" "u \<noteq> 0xFFFE"
    using assms(1) by (auto simp: valid_unicode_def word_le_nat_alt)
  ultimately show ?thesis
    using assms(2) by (auto simp: get_next_char.simps push_token_def append_utf8_def)
qed

text \<open>
  What is still to be read is the character put back, if there is one, and the stream.
  At the end of the stream the character 0 may have been put back.
\<close>

definition holds :: "'f json_parser \<Rightarrow> string \<Rightarrow> bool" where
  "holds p s \<longleftrightarrow>
     js_buffer p = [] \<and> js_is p = s
     \<or> (\<exists>c t. s = c # t \<and> code c < 128 \<and> js_buffer p = [ord32 c] \<and> js_is p = t)
     \<or> s = [] \<and> js_buffer p = [0] \<and> js_is p = []"

definition ascii_next :: "string \<Rightarrow> unicode" where
  "ascii_next s = (case s of [] \<Rightarrow> 0 | c # _ \<Rightarrow> ord32 c)"

definition next_char :: "string \<Rightarrow> char" where
  "next_char s = (case s of [] \<Rightarrow> CHR 0x00 | c # _ \<Rightarrow> c)"

definition advance :: "string \<Rightarrow> 'f json_parser \<Rightarrow> 'f json_parser" where
  "advance s p = p\<lparr>js_is := tl s, js_buffer := [], js_token := js_token p @ [next_char s]\<rparr>"

lemma ascii_next_char: "ascii_next s = ord32 (next_char s)"
  by (cases s) (simp_all add: ascii_next_def next_char_def ord32_def)

lemma get_next_char_ascii:
  assumes "holds p s" "code (next_char s) < 128"
  shows "get_next_char p = ok (ord32 (next_char s), advance s p)"
proof (cases "js_buffer p = []")
  case False
  then have "js_buffer p = [ord32 (next_char s)]" "js_is p = tl s"
    using assms(1) by (auto simp: holds_def next_char_def ord32_def)
  then show ?thesis using assms(2)
    by (simp add: get_next_char.simps push_token_def append_utf8_def utf8_ascii advance_def)
next
  case True
  then have is_s: "js_is p = s" using assms(1) by (auto simp: holds_def)
  have "get_next_unicode p = ok (ord32 (next_char s), p\<lparr>js_is := tl s\<rparr>)"
  proof (cases s)
    case Nil
    then show ?thesis using is_s
      by (simp add: get_next_unicode_def get_next_byte_def next_char_def ord32_def)
  next
    case (Cons c t)
    then show ?thesis using is_s assms(2)
      by (simp add: get_next_unicode_def get_next_byte_def next_char_def ascii_bit)
  qed
  moreover have "\<not> ord32 (next_char s) \<ge> 0x80" using assms(2) by (simp add: word_le_nat_alt)
  ultimately show ?thesis using True assms(2)
    by (simp add: get_next_char.simps push_token_def append_utf8_def utf8_ascii advance_def)
qed

lemma pop_ascii: "code c < 128 \<Longrightarrow> pop_last_char (s @ [c]) = ok (ord32 c, s)"
  by (simp add: pop_last_char_def ascii_bit)

lemma retract_ascii:
  assumes "js_token p = t @ [c]" "code c < 128"
  shows "retract p = ok (p\<lparr>js_token := t, js_buffer := ord32 c # js_buffer p\<rparr>)"
  using assms pop_ascii [of c t] by (simp add: retract_def)

lemma retract_advance:
  assumes "code (next_char s) < 128"
  shows "\<exists>q. retract (advance s p) = ok q \<and> holds q s \<and> js_token q = js_token p \<and> js_int q = js_int p \<and> js_float q = js_float p"
  using assms retract_ascii [of "advance s p" "js_token p" "next_char s"]
  by (cases s) (auto simp: advance_def holds_def next_char_def ord32_def)

section \<open>Tokens\<close>

definition fetches :: "'f float_ops \<Rightarrow> nat \<Rightarrow> 'f json_parser \<Rightarrow> 'f json_parser \<Rightarrow> bool" where
  "fetches F k q p \<longleftrightarrow> (\<forall>n \<ge> k. next_token F n q = Some (ok p))"

lemma fetches_unique: "fetches F k q p \<Longrightarrow> fetches F l q p' \<Longrightarrow> p = p'"
  by (auto simp: fetches_def dest: spec [of _ "max k l"])

lemma token_loop_done: "lx_token lx \<noteq> Undef \<Longrightarrow> token_loop F n lx p = Some (ok (lx_token lx, p))"
  by (simp add: token_loop.simps)

lemma token_loop_step:
  assumes "lx_token lx = Undef" "get_next_char p = ok (ch, q)" "lex_step F ch lx q = ok (lx', q')"
  shows "token_loop F (Suc n) lx p = token_loop F n lx' q'"
  using assms by (subst token_loop.simps) simp

text \<open>The loop ends in \<open>t\<close> and \<open>q\<close> from here, for every number of steps from \<open>k\<close> on.\<close>

definition ends :: "'f float_ops \<Rightarrow> nat \<Rightarrow> 'f lexer \<Rightarrow> 'f json_parser \<Rightarrow> token_t \<Rightarrow> 'f json_parser \<Rightarrow> bool" where
  "ends F k lx p t q \<longleftrightarrow> (\<forall>n \<ge> k. token_loop F n lx p = Some (ok (t, q)))"

lemma ends_step:
  assumes "lx_token lx = Undef" "get_next_char p = ok (ch, q)" "lex_step F ch lx q = ok (lx', q')" "ends F k lx' q' t r"
  shows "ends F (Suc k) lx p t r"
  unfolding ends_def
proof (intro allI impI)
  fix n assume "n \<ge> Suc k"
  then obtain m where "n = Suc m" "m \<ge> k" by (cases n) auto
  then show "token_loop F n lx p = Some (ok (t, r))"
    using token_loop_step [OF assms(1-3), of m] assms(4) by (simp add: ends_def)
qed

lemma ends_done: "lx_token lx = t \<Longrightarrow> t \<noteq> Undef \<Longrightarrow> ends F 0 lx p t p"
  by (simp add: ends_def token_loop_done)

lemma ends_more: "ends F k lx p t q \<Longrightarrow> k \<le> l \<Longrightarrow> ends F l lx p t q"
  by (simp add: ends_def)

lemma ends_fetches:
  "ends F k (lexer_init F) (p\<lparr>js_token := []\<rparr>) t q \<Longrightarrow> fetches F k p (q\<lparr>js_lookahead := t\<rparr>)"
  by (simp add: ends_def fetches_def next_token_def get_next_token_def seq_def)

text \<open>One step on an ASCII character, and on a step that ends the token.\<close>

lemma ends_ascii:
  assumes "lx_token lx = Undef" "holds p s" "code (next_char s) < 128"
    and "lex_step F (ord32 (next_char s)) lx (advance s p) = ok (lx', q')" "ends F k lx' q' t r"
  shows "ends F (Suc k) lx p t r"
  using ends_step [OF assms(1) get_next_char_ascii [OF assms(2,3)] assms(4,5)] .

lemma holds_advance: "holds (advance s p) (tl s)"
  by (simp add: holds_def advance_def)

lemma holds_token [simp]: "holds (p\<lparr>js_token := x\<rparr>) s = holds p s"
  by (simp add: holds_def)

lemma holds_lookahead [simp]: "holds (p\<lparr>js_lookahead := x\<rparr>) s = holds p s"
  by (simp add: holds_def)

lemma ord32_char_of [simp]: "n < 256 \<Longrightarrow> ord32 (char_of n) = word_of_nat n"
  by (simp add: ord32_def)

text \<open>Punctuation, and the end of the text.\<close>

definition punctuation :: "(char \<times> token_t) list" where
  "punctuation = [(CHR ''{'', LeftBrace), (CHR ''}'', RightBrace), (CHR ''['', LeftBracket), (CHR '']'', RightBracket),
                  (CHR '','', Comma), (CHR '':'', Colon), (CHR 0x00, Eof)]"

lemma ord32_literals:
  "ord32 CHR 0x00 = 0" "ord32 CHR ''{'' = 123" "ord32 CHR ''}'' = 125" "ord32 CHR ''['' = 91" "ord32 CHR '']'' = 93"
  "ord32 CHR '','' = 44" "ord32 CHR '':'' = 58" "ord32 CHR 0x22 = 34" "ord32 CHR 0x5C = 92" "ord32 CHR ''/'' = 47"
  "ord32 CHR ''-'' = 45" "ord32 CHR ''0'' = 48" "ord32 CHR ''9'' = 57" "ord32 CHR ''1'' = 49" "ord32 CHR ''.'' = 46"
  "ord32 CHR ''e'' = 101" "ord32 CHR ''E'' = 69" "ord32 CHR ''u'' = 117" "ord32 CHR ''n'' = 110" "ord32 CHR ''t'' = 116"
  "ord32 CHR ''r'' = 114" "ord32 CHR ''f'' = 102" "ord32 CHR ''b'' = 98" "ord32 CHR ''a'' = 97" "ord32 CHR ''A'' = 65"
  "ord32 CHR ''F'' = 70" "ord32 CHR '' '' = 32" "ord32 CHR 0x0A = 10" "ord32 CHR 0x0D = 13" "ord32 CHR 0x09 = 9"
  by (simp_all add: ord32_def)

lemma lexer_init_simps [simp]: "lx_token (lexer_init F) = Undef" "lx_state (lexer_init F) = Start"
  by (simp_all add: lexer_init_def)

lemma punctuation_all:
  "\<forall>(c, t) \<in> set punctuation. lex_start (ord32 c) lx p = finish_token t lx p \<and> code c < 128 \<and> t \<noteq> Undef"
  by (simp add: punctuation_def lex_start_def ord32_literals)

lemma fetch_punctuation:
  assumes "holds q s" "map_of punctuation (next_char s) = Some t"
  shows "\<exists>p. fetches F (length s + 2) q p \<and> js_lookahead p = t \<and> holds p (tl s)
    \<and> js_int p = js_int q \<and> js_float p = js_float q"
proof -
  let ?q = "q\<lparr>js_token := []\<rparr>" and ?lx = "(lexer_init F)\<lparr>lx_token := t\<rparr>"
  have t: "lex_start (ord32 (next_char s)) (lexer_init F) (advance s ?q) = finish_token t (lexer_init F) (advance s ?q)"
      "code (next_char s) < 128" "t \<noteq> Undef"
    using bspec [OF punctuation_all [of "lexer_init F" "advance s ?q"] map_of_SomeD [OF assms(2)]] by simp_all
  then have step: "lex_step F (ord32 (next_char s)) (lexer_init F) (advance s ?q) = ok (?lx, advance s ?q)"
    by (simp add: lex_step_def finish_token_def)
  have "holds ?q s" using assms(1) by simp
  from ends_ascii [OF _ this t(2) step ends_done [of ?lx t]] t(3)
  have "ends F 1 (lexer_init F) ?q t (advance s ?q)" by simp
  then have "fetches F (length s + 2) q ((advance s ?q)\<lparr>js_lookahead := t\<rparr>)"
    by (intro ends_fetches) (rule ends_more, assumption, simp)
  moreover have "holds ((advance s ?q)\<lparr>js_lookahead := t\<rparr>) (tl s)" using holds_advance by simp
  ultimately show ?thesis by (intro exI [of _ "(advance s ?q)\<lparr>js_lookahead := t\<rparr>"]) (simp add: advance_def)
qed

subsection \<open>Strings\<close>

definition in_string :: "'f lexer \<Rightarrow> bool" where
  "in_string lx \<longleftrightarrow> lx_state lx = StringState \<and> lx_token lx = Undef"

lemma string_plain:
  assumes "in_string lx" "valid_unicode u" "u \<noteq> 0" "u \<noteq> 34" "u \<noteq> 92" "js_buffer p = []" "js_is p = utf8 u @ s"
    and "ends F k lx (p\<lparr>js_is := s, js_token := js_token p @ utf8 u\<rparr>) t r"
  shows "ends F (Suc k) lx p t r"
  using assms by (intro ends_step [OF _ get_next_char_utf8 [OF assms(2,6,7)]]) (simp_all add: lex_step_def lex_string_def in_string_def)

lemma get_next_char_plain:
  assumes "js_buffer p = []" "js_is p = c # s" "code c < 128"
  shows "get_next_char p = ok (ord32 c, p\<lparr>js_is := s, js_token := js_token p @ [c]\<rparr>)"
proof -
  have "holds p (c # s)" using assms(1,2) by (simp add: holds_def)
  from get_next_char_ascii [OF this] assms show ?thesis by (cases p) (simp add: next_char_def advance_def)
qed

lemma string_end:
  assumes "in_string lx" "js_buffer p = []" "js_is p = CHR 0x22 # s"
  shows "ends F 1 lx p StringToken (p\<lparr>js_is := s\<rparr>)"
proof -
  have "ends F 0 (lx\<lparr>lx_token := StringToken\<rparr>) (p\<lparr>js_is := s\<rparr>) StringToken (p\<lparr>js_is := s\<rparr>)"
    by (rule ends_done) simp_all
  from ends_step [OF _ get_next_char_plain [OF assms(2,3)] _ this] assms(1) show ?thesis
    by (simp add: in_string_def lex_step_def lex_string_def ord32_literals pop_token_def finish_token_def)
qed

lemma string_escape:
  fixes lx :: "'f lexer"
  assumes "in_string lx" "js_buffer p = []" "js_is p = CHR 0x5C # c # s"
    and "code c < 128"
    and "\<And>(lx :: 'f lexer) q. js_token q = js_token p @ [c] \<Longrightarrow>
      lex_escape (ord32 c) lx q = ok (lx\<lparr>lx_state := st\<rparr>, q\<lparr>js_token := js_token p @ d\<rparr>)"
    and "ends F k (lx\<lparr>lx_state := st\<rparr>) (p\<lparr>js_is := s, js_token := js_token p @ d\<rparr>) t r"
  shows "ends F (Suc (Suc k)) lx p t r"
proof -
  let ?p = "p\<lparr>js_is := c # s\<rparr>" and ?lx = "lx\<lparr>lx_state := Escape\<rparr>"
  have "ends F (Suc k) ?lx ?p t r"
    by (rule ends_step [OF _ get_next_char_plain [of ?p c s]])
      (use assms in \<open>simp_all add: in_string_def lex_step_def\<close>)
  then show ?thesis
    by (intro ends_step [OF _ get_next_char_plain [OF assms(2,3)]])
      (use assms(1) in \<open>simp_all add: in_string_def lex_step_def lex_string_def goto_def pop_token_def ord32_literals\<close>)
qed

text \<open>The escapes of the writer.\<close>

lemma escape_letters:
  "lex_escape (ord32 CHR 0x22) lx q = goto StringState lx q"
  "lex_escape (ord32 CHR 0x5C) lx q = goto StringState lx q"
  "lex_escape (ord32 CHR ''/'') lx q = goto StringState lx q"
  "lex_escape (ord32 CHR ''b'') lx q = goto StringState lx (set_back (CHR 0x08) q)"
  "lex_escape (ord32 CHR ''n'') lx q = goto StringState lx (set_back (CHR 0x0A) q)"
  "lex_escape (ord32 CHR ''r'') lx q = goto StringState lx (set_back (CHR 0x0D) q)"
  "lex_escape (ord32 CHR ''t'') lx q = goto StringState lx (set_back (CHR 0x09) q)"
  "lex_escape (ord32 CHR ''u'') lx q = goto EscapeHex1 lx (pop_token q)"
  by (simp_all add: lex_escape_def ord32_literals)

lemma hex_digits_read:
  "list_all (\<lambda>v. hex_ch 0 (ord32 (hex_chars ! v)) = Some (word_of_nat v)
     \<and> hex_ch 16 (ord32 (hex_chars ! v)) = Some (16 + word_of_nat v) \<and> code (hex_chars ! v) < 128) [0..<16]"
  by code_simp

lemma hex_step:
  assumes "lx_token lx = Undef" "js_buffer p = []" "js_is p = c # s" "code c < 128"
    and "\<And>q. lex_step F (ord32 c) lx q = lex_hex st first (ord32 c) lx q"
    and "hex_ch (if first then 0 else 16 * lx_hx lx) (ord32 c) = Some hx"
    and "ends F k (lx\<lparr>lx_hx := hx, lx_state := st\<rparr>)
      (p\<lparr>js_is := s, js_token := (if st = StringState then append_utf8 (js_token p) hx else js_token p)\<rparr>) t r"
  shows "ends F (Suc k) lx p t r"
  by (rule ends_step [OF assms(1) get_next_char_plain [OF assms(2-4)]])
    (use assms(5-7) in \<open>simp_all add: lex_hex_def pop_token_def goto_def Let_def\<close>)

lemma hex_read:
  "v < 16 \<Longrightarrow> hex_ch 0 (ord32 (hex_chars ! v)) = Some (word_of_nat v)"
  "v < 16 \<Longrightarrow> hex_ch 16 (ord32 (hex_chars ! v)) = Some (16 + word_of_nat v)"
  "v < 16 \<Longrightarrow> code (hex_chars ! v) < 128"
  using hex_digits_read by (simp_all add: list_all_iff del: upt.simps)

text \<open>A control character is written with four digits.\<close>

lemma string_control:
  assumes "in_string lx" "js_buffer p = []" "code c < 32"
    and "js_is p = CHR 0x5C # ''u00'' @ [hex_chars ! (code c div 16), hex_chars ! (code c mod 16)] @ s"
    and "\<And>lx. in_string lx \<Longrightarrow> ends F k lx (p\<lparr>js_is := s, js_token := js_token p @ [c]\<rparr>) t r"
  shows "ends F (k + 6) lx p t r"
proof -
  let ?h1 = "hex_chars ! (code c div 16)" and ?h2 = "hex_chars ! (code c mod 16)"
  let ?v = "word_of_nat (code c div 16) :: unicode"
  have small: "code c div 16 < 16" "code c mod 16 < 16" using assms(3) by simp_all
  have d: "code c div 16 = 0 \<or> code c div 16 = 1" using assms(3) by (simp add: div_eq_0_iff) linarith
  have hx2: "hex_ch (16 * ?v) (ord32 ?h2) = Some (ord32 c)"
  proof -
    have c: "code c = 16 * (code c div 16) + code c mod 16" by simp
    from d show ?thesis
    proof
      assume "code c div 16 = 0"
      with c have "code c mod 16 = code c" by linarith
      then show ?thesis using hex_read(1) [OF small(2)] \<open>code c div 16 = 0\<close> by (simp add: ord32_def)
    next
      assume "code c div 16 = 1"
      with c have "16 + word_of_nat (code c mod 16) = (word_of_nat (code c) :: unicode)"
        by (metis mult.right_neutral of_nat_add of_nat_numeral)
      then show ?thesis using hex_read(2) [OF small(2)] \<open>code c div 16 = 1\<close> by (simp add: ord32_def)
    qed
  qed
  let ?p = "\<lambda>s. p\<lparr>js_is := s\<rparr>"
  let ?lx = "\<lambda>st hx. lx\<lparr>lx_hx := hx, lx_state := st\<rparr>"
  have u: "append_utf8 (js_token p) (ord32 c) = js_token p @ [c]"
    using assms(3) utf8_ascii [of c] by (simp add: append_utf8_def)
  have "in_string (lx\<lparr>lx_hx := ord32 c, lx_state := StringState\<rparr>)"
    using assms(1) by (simp add: in_string_def)
  note e0 = assms(5) [OF this]
  have e1: "ends F (Suc k) (?lx EscapeHex4 ?v) (?p (?h2 # s)) t r"
    by (rule hex_step [where c = ?h2 and s = s and first = False and hx = "ord32 c" and st = StringState])
      (use e0 assms(1,2) hx2 u hex_read(3) small in \<open>simp_all add: in_string_def lex_step_def\<close>)
  have e2: "ends F (Suc (Suc k)) (?lx EscapeHex3 0) (?p (?h1 # ?h2 # s)) t r"
    by (rule hex_step [where c = ?h1 and s = "?h2 # s" and first = False and hx = ?v and st = EscapeHex4])
      (use e1 assms(1,2) hex_read small in \<open>simp_all add: in_string_def lex_step_def\<close>)
  have e3: "ends F (Suc (Suc (Suc k))) (?lx EscapeHex2 0) (?p (CHR ''0'' # ?h1 # ?h2 # s)) t r"
    by (rule hex_step [where c = "CHR ''0''" and s = "?h1 # ?h2 # s" and first = False and hx = 0 and st = EscapeHex3])
      (use e2 assms(1,2) in \<open>simp_all add: in_string_def lex_step_def hex_ch_def ord32_literals\<close>)
  have e4: "ends F (Suc (Suc (Suc (Suc k)))) (lx\<lparr>lx_state := EscapeHex1\<rparr>) (?p (''00'' @ ?h1 # ?h2 # s)) t r"
    by (rule hex_step [where c = "CHR ''0''" and s = "CHR ''0'' # ?h1 # ?h2 # s" and first = True and hx = 0 and st = EscapeHex2])
      (use e3 assms(1,2) in \<open>simp_all add: in_string_def lex_step_def hex_ch_def ord32_literals\<close>)
  have "ends F (Suc (Suc (Suc (Suc (Suc (Suc k)))))) lx p t r"
    by (rule string_escape [OF assms(1,2), where c = "CHR ''u''" and s = "''00'' @ ?h1 # ?h2 # s" and d = "[]" and st = EscapeHex1])
      (use e4 assms(4) in \<open>simp_all add: escape_letters goto_def pop_token_def\<close>)
  then show ?thesis by (simp add: numeral_eq_Suc)
qed

lemma utf8_high: "\<not> u < 0x80 \<Longrightarrow> u < 0x200000 \<Longrightarrow> \<forall>c \<in> set (utf8 u). code c \<ge> 128"
proof -
  assume u: "\<not> u < 0x80" "u < 0x200000"
  have high: "ord32 c > 0x7F \<Longrightarrow> code c \<ge> 128" for c
    by (simp add: word_less_nat_alt)
  have lead: "u < 0x800 \<Longrightarrow> ord32 (chr32 (0xC0 OR drop_bit 6 u)) > 0x7F"
    "u < 0x10000 \<Longrightarrow> ord32 (chr32 (0xE0 OR drop_bit 12 u)) > 0x7F"
    "ord32 (chr32 (0xF0 OR drop_bit 18 u)) > 0x7F"
    using u by (simp_all add: lead_bytes lead_above_ascii)
  have cont: "ord32 (chr32 (0x80 OR (x AND 0x3F))) > 0x7F" for x
    by (simp add: and_mask_simps(1) continuation_byte lead_above_ascii)
  show ?thesis
    unfolding utf8_def using u lead cont by (auto intro!: high)
qed

lemma escape_high: "\<forall>c \<in> set s. code c \<ge> 128 \<Longrightarrow> escape_string s = s"
proof (induction s)
  case (Cons c s)
  have "escape_byte c = [c]" using Cons.prems by (auto simp: escape_byte_def)
  with Cons show ?case by (simp add: escape_string_def)
qed (simp add: escape_string_def)

lemma escape_string_append: "escape_string (s @ t) = escape_string s @ escape_string t"
  by (simp add: escape_string_def)

text \<open>A string of code points the reader takes.\<close>

definition text_of :: "unicode list \<Rightarrow> string" where
  "text_of us = concat (map utf8 us)"

lemma escape_byte_length: "1 \<le> length (escape_byte c)"
  by (simp add: escape_byte_def)

lemma same_token: "js_token q = t \<Longrightarrow> q\<lparr>js_token := t\<rparr> = q"
  by (cases q) auto

lemma string_ascii:
  fixes lx :: "'f lexer"
  assumes "in_string lx" "js_buffer p = []" "code c < 128" "js_is p = escape_byte c @ s"
    and "\<And>lx. in_string lx \<Longrightarrow> ends F k lx (p\<lparr>js_is := s, js_token := js_token p @ [c]\<rparr>) t r"
  shows "ends F (k + length (escape_byte c)) lx p t r"
proof -
  have lx': "in_string (lx\<lparr>lx_state := StringState\<rparr>)" using assms(1) by (simp add: in_string_def)
  have two: "ends F (k + length (escape_byte c)) lx p t r"
    if "escape_byte c = [CHR 0x5C, d]" "code d < 128"
      and "\<And>(lx :: 'f lexer) q. js_token q = js_token p @ [d] \<Longrightarrow>
        lex_escape (ord32 d) lx q = ok (lx\<lparr>lx_state := StringState\<rparr>, q\<lparr>js_token := js_token p @ [c]\<rparr>)" for d
    using string_escape [OF assms(1,2), of d s StringState "[c]" F k t r] that assms(4) assms(5) [OF lx'] by simp
  consider "c = CHR 0x22 \<or> c = CHR 0x5C \<or> c = CHR ''/''" | "code c = 8" | "code c = 10" | "code c = 13" | "code c = 9"
    | "code c < 32" "code c \<notin> {8, 9, 10, 13}" | "code c \<ge> 32" "c \<notin> {CHR 0x22, CHR 0x5C, CHR ''/''}"
    by (cases "code c < 32") auto
  then show ?thesis
  proof cases
    case 1
    then show ?thesis
      by (intro two [of c]) (auto simp: escape_byte_def escape_letters goto_def same_token)
  next
    case 2
    then have "c = CHR 0x08" using code_inject [of c "CHR 0x08"] by simp
    then show ?thesis
      by (intro two [of "CHR ''b''"]) (auto simp: escape_byte_def escape_letters goto_def set_back_def)
  next
    case 3
    then have "c = CHR 0x0A" using code_inject [of c "CHR 0x0A"] by simp
    then show ?thesis
      by (intro two [of "CHR ''n''"]) (auto simp: escape_byte_def escape_letters goto_def set_back_def)
  next
    case 4
    then have "c = CHR 0x0D" using code_inject [of c "CHR 0x0D"] by simp
    then show ?thesis
      by (intro two [of "CHR ''r''"]) (auto simp: escape_byte_def escape_letters goto_def set_back_def)
  next
    case 5
    then have "c = CHR 0x09" using code_inject [of c "CHR 0x09"] by simp
    then show ?thesis
      by (intro two [of "CHR ''t''"]) (auto simp: escape_byte_def escape_letters goto_def set_back_def)
  next
    case 6
    then have e: "escape_byte c = CHR 0x5C # ''u00'' @ [hex_chars ! (code c div 16), hex_chars ! (code c mod 16)]"
      by (auto simp: escape_byte_def)
    then have "length (escape_byte c) = 6" by simp
    moreover have "ends F (k + 6) lx p t r"
      by (rule string_control [OF assms(1,2) 6(1) _ assms(5)]) (use assms(4) e in simp_all)
    ultimately show ?thesis by simp
  next
    case 7
    then have e: "escape_byte c = [c]" by (auto simp: escape_byte_def)
    have "ord32 c \<noteq> 0" "ord32 c \<noteq> 34" "ord32 c \<noteq> 92"
      using 7 ord32_inject [of c "CHR 0x00"] ord32_inject [of c "CHR 0x22"] ord32_inject [of c "CHR 0x5C"]
      by (auto simp: ord32_literals simp del: ord32_inject)
    moreover have "ord32 c \<noteq> 0xFFFF \<and> ord32 c \<noteq> 0xFFFE"
    proof (intro conjI notI)
      assume "ord32 c = 0xFFFF"
      then have "unat (ord32 c) = unat (0xFFFF :: unicode)" by (rule arg_cong)
      then show False using assms(3) by simp
    next
      assume "ord32 c = 0xFFFE"
      then have "unat (ord32 c) = unat (0xFFFE :: unicode)" by (rule arg_cong)
      then show False using assms(3) by simp
    qed
    then have "valid_unicode (ord32 c)" using assms(3) by (auto simp: valid_unicode_def word_le_nat_alt)
    ultimately  show ?thesis
      using string_plain [OF assms(1), of "ord32 c" p s F k t r] assms(1-5) e utf8_ascii [of c] by simp
  qed
qed

lemma text_of_simps [simp]: "text_of [] = []" "text_of (u # us) = utf8 u @ text_of us"
  by (simp_all add: text_of_def)

lemma utf8_small: "u < 0x80 \<Longrightarrow> utf8 u = [chr32 u] \<and> code (chr32 u) < 128 \<and> ord32 (chr32 u) = u"
proof -
  assume u: "u < 0x80"
  then have "unat u < 128" by (simp add: word_less_nat_alt)
  then show ?thesis using u by (simp add: utf8_def chr32_def ord32_def)
qed

lemma string_unicode:
  assumes "in_string lx" "js_buffer p = []" "valid_unicode u" "js_is p = escape_string (utf8 u) @ s"
    and "\<And>lx. in_string lx \<Longrightarrow> ends F k lx (p\<lparr>js_is := s, js_token := js_token p @ utf8 u\<rparr>) t r"
  shows "ends F (k + length (escape_string (utf8 u))) lx p t r"
proof (cases "u < 0x80")
  case True
  from utf8_small [OF True] have "escape_string (utf8 u) = escape_byte (chr32 u)" by (simp add: escape_string_def)
  with utf8_small [OF True] string_ascii [OF assms(1,2), of "chr32 u" s F k t r] assms(4,5) show ?thesis by simp
next
  case False
  have "u < 0x200000" using assms(3) by (auto simp: valid_unicode_def word_le_nat_alt word_less_nat_alt)
  with False have e: "escape_string (utf8 u) = utf8 u" by (intro escape_high utf8_high)
  have "u \<noteq> 0" "u \<noteq> 34" "u \<noteq> 92" using False by auto
  from string_plain [OF assms(1,3) this assms(2)] assms(4,5) assms(1) e
  have "ends F (Suc k) lx p t r" by simp
  moreover have "Suc k \<le> k + length (escape_string (utf8 u))"
    unfolding e by (simp add: utf8_def)
  ultimately show ?thesis by (rule ends_more)
qed

lemma string_body:
  assumes "in_string lx" "js_buffer p = []" "list_all valid_unicode us" "js_is p = escape_string (text_of us) @ [CHR 0x22] @ s"
  shows "ends F (length (escape_string (text_of us)) + 1) lx p StringToken (p\<lparr>js_is := s, js_token := js_token p @ text_of us\<rparr>)"
  using assms
proof (induction us arbitrary: p lx)
  case Nil
  then show ?case using string_end [of lx p s F]
    by (cases p) (simp add: escape_string_def)
next
  case (Cons u us)
  have "ends F ((length (escape_string (text_of us)) + 1) + length (escape_string (utf8 u))) lx p
      StringToken (p\<lparr>js_is := s, js_token := js_token p @ text_of (u # us)\<rparr>)"
  proof (rule string_unicode [OF Cons.prems(1,2), where s = "escape_string (text_of us) @ [CHR 0x22] @ s"])
    show "valid_unicode u" using Cons.prems(3) by simp
    show "js_is p = escape_string (utf8 u) @ escape_string (text_of us) @ [CHR 0x22] @ s"
      using Cons.prems(4) by (simp add: escape_string_append)
    fix lx :: "'a lexer" assume "in_string lx"
    from Cons.IH [OF this, of "p\<lparr>js_is := escape_string (text_of us) @ [CHR 0x22] @ s, js_token := js_token p @ utf8 u\<rparr>"]
    show "ends F (length (escape_string (text_of us)) + 1) lx
        (p\<lparr>js_is := escape_string (text_of us) @ [CHR 0x22] @ s, js_token := js_token p @ utf8 u\<rparr>) StringToken
        (p\<lparr>js_is := s, js_token := js_token p @ text_of (u # us)\<rparr>)"
      using Cons.prems by simp
  qed
  then show ?case by (simp add: escape_string_append add.assoc add.commute)
qed

text \<open>A key is written as it is.\<close>

definition plain_unicode :: "unicode \<Rightarrow> bool" where
  "plain_unicode u \<longleftrightarrow> valid_unicode u \<and> u \<noteq> 0 \<and> u \<noteq> 34 \<and> u \<noteq> 92"

lemma key_body:
  assumes "in_string lx" "js_buffer p = []" "list_all plain_unicode us" "js_is p = text_of us @ [CHR 0x22] @ s"
  shows "ends F (length us + 1) lx p StringToken (p\<lparr>js_is := s, js_token := js_token p @ text_of us\<rparr>)"
  using assms
proof (induction us arbitrary: p)
  case Nil
  then show ?case using string_end [of lx p s F] by (cases p) simp
next
  case (Cons u us)
  from Cons.IH [of "p\<lparr>js_is := text_of us @ [CHR 0x22] @ s, js_token := js_token p @ utf8 u\<rparr>"] Cons.prems
  have "ends F (length us + 1) lx (p\<lparr>js_is := text_of us @ [CHR 0x22] @ s, js_token := js_token p @ utf8 u\<rparr>) StringToken
      (p\<lparr>js_is := s, js_token := js_token p @ text_of (u # us)\<rparr>)" by simp
  with string_plain [OF Cons.prems(1), of u p "text_of us @ [CHR 0x22] @ s"] Cons.prems
  show ?case by (simp add: plain_unicode_def)
qed

lemma fetch_quoted:
  assumes "holds q (CHR 0x22 # body)"
    and "\<And>lx p. in_string lx \<Longrightarrow> js_buffer p = [] \<Longrightarrow> js_is p = body \<Longrightarrow>
      ends F k lx p StringToken (p\<lparr>js_is := s, js_token := js_token p @ str\<rparr>)"
  shows "\<exists>p. fetches F (Suc k) q p \<and> js_lookahead p = StringToken \<and> holds p s \<and> js_token p = str"
proof -
  let ?q = "q\<lparr>js_token := []\<rparr>"
  let ?p = "(advance (CHR 0x22 # body) ?q)\<lparr>js_token := []\<rparr>"
  let ?lx = "(lexer_init F)\<lparr>lx_state := StringState\<rparr>"
  have "holds ?q (CHR 0x22 # body)" using assms(1) by simp
  moreover have "lex_step F (ord32 CHR 0x22) (lexer_init F) (advance (CHR 0x22 # body) ?q) = ok (?lx, ?p)"
    by (simp add: lex_step_def lex_start_def ord32_literals goto_def pop_token_def advance_def)
  moreover have "ends F k ?lx ?p StringToken (?p\<lparr>js_is := s, js_token := js_token ?p @ str\<rparr>)"
    by (rule assms(2)) (simp_all add: in_string_def advance_def)
  ultimately have "ends F (Suc k) (lexer_init F) ?q StringToken (?p\<lparr>js_is := s, js_token := js_token ?p @ str\<rparr>)"
    by (intro ends_ascii [where s = "CHR 0x22 # body"]) (simp_all add: next_char_def)
  from ends_fetches [OF this] show ?thesis
    by (auto simp: advance_def holds_def)
qed

lemma fetch_string:
  assumes "holds q ([CHR 0x22] @ escape_string (text_of us) @ [CHR 0x22] @ s)" "list_all valid_unicode us"
  shows "\<exists>p. fetches F (length (escape_string (text_of us)) + 2) q p \<and> js_lookahead p = StringToken \<and> holds p s \<and> js_token p = text_of us"
proof -
  have "\<exists>p. fetches F (Suc (length (escape_string (text_of us)) + 1)) q p \<and> js_lookahead p = StringToken \<and> holds p s \<and> js_token p = text_of us"
  proof (rule fetch_quoted)
    show "holds q (CHR 0x22 # escape_string (text_of us) @ [CHR 0x22] @ s)" using assms(1) by simp
  qed (rule string_body [OF _ _ assms(2)])
  then show ?thesis by simp
qed

lemma fetch_key:
  assumes "holds q ([CHR 0x22] @ text_of us @ [CHR 0x22] @ s)" "list_all plain_unicode us"
  shows "\<exists>p. fetches F (length us + 2) q p \<and> js_lookahead p = StringToken \<and> holds p s \<and> js_token p = text_of us"
proof -
  have "\<exists>p. fetches F (Suc (length us + 1)) q p \<and> js_lookahead p = StringToken \<and> holds p s \<and> js_token p = text_of us"
  proof (rule fetch_quoted)
    show "holds q (CHR 0x22 # text_of us @ [CHR 0x22] @ s)" using assms(1) by simp
  qed (rule key_body [OF _ _ assms(2)])
  then show ?thesis by simp
qed

lemma text_of_length: "length us \<le> length (text_of us)"
proof (induction us)
  case (Cons u us)
  have "1 \<le> length (utf8 u)" by (simp add: utf8_def)
  with Cons show ?case by simp
qed simp

subsection \<open>Numbers and literals\<close>

text \<open>What may follow a value.\<close>

definition delim :: "string \<Rightarrow> bool" where
  "delim s \<longleftrightarrow> next_char s \<in> {CHR 0x00, CHR '','', CHR '']'', CHR ''}''}"

lemma delim_facts:
  assumes "delim s"
  shows "code (next_char s) < 128" "\<not> digit_ch (ord32 (next_char s))" "\<not> alpha_ch (ord32 (next_char s))"
    "ord32 (next_char s) \<notin> {46, 101, 69}"
  using assms by (auto simp: delim_def between_def ord32_literals alpha_ch_def chr32_def isalpha_def isupper_def islower_def)

lemma digit_facts:
  assumes "isdigit c"
  shows "code c < 128" "digit_ch (ord32 c)" "digit_of (ord32 c) = int (digit_val c)"
proof -
  have c: "48 \<le> code c" "code c \<le> 57" using assms by (simp_all add: isdigit_def)
  then show "code c < 128" "digit_ch (ord32 c)"
    by (simp_all add: between_def word_le_nat_alt)
  have "ord32 CHR ''0'' \<le> ord32 c" using c by (simp add: word_le_nat_alt)
  then have "unat (ord32 c - ord32 CHR ''0'') = code c - 48" using unat_sub [of "ord32 CHR ''0''" "ord32 c"] by simp
  then show "digit_of (ord32 c) = int (digit_val c)"
    by (simp add: digit_of_def digit_val_def uint_nat)
qed

definition digits_from :: "nat \<Rightarrow> string \<Rightarrow> nat" where
  "digits_from a ds = foldl (\<lambda>a c. 10 * a + digit_val c) a ds"

lemma digits_from_ge: "a \<le> digits_from a ds"
proof (induction ds arbitrary: a)
  case (Cons c ds)
  from Cons [of "10 * a + digit_val c"] show ?case by (simp add: digits_from_def)
qed (simp add: digits_from_def)

lemma number_loop:
  assumes "lx_state lx = Number" "lx_token lx = Undef" "js_buffer p = []" "js_is p = ds @ s"
    and "\<forall>c \<in> set ds. isdigit c" "js_int p = int a" "int (digits_from a ds) < 2 ^ 63" "delim s"
  shows "\<exists>q. ends F (length ds + 1) lx p IntegerToken q \<and> holds q s
    \<and> js_int q = (if lx_negative lx then - int (digits_from a ds) else int (digits_from a ds))"
  using assms
proof (induction ds arbitrary: p a)
  case Nil
  have "holds p s" using Nil.prems(3,4) by (simp add: holds_def)
  obtain q where q: "retract (advance s p) = ok q" "holds q s" "js_int q = js_int p"
    using retract_advance [OF delim_facts(1) [OF Nil.prems(8)], of p] by blast
  let ?q = "if lx_negative lx then q\<lparr>js_int := - js_int q\<rparr> else q"
  have "lex_step F (ord32 (next_char s)) lx (advance s p) = ok (lx\<lparr>lx_token := IntegerToken\<rparr>, ?q)"
    using Nil.prems(1,8) delim_facts [OF Nil.prems(8)] q
    by (simp add: lex_step_def lex_number_def finish_token_def ord32_literals)
  from ends_ascii [OF Nil.prems(2) \<open>holds p s\<close> delim_facts(1) [OF Nil.prems(8)] this ends_done [of _ IntegerToken]]
  have "ends F 1 lx p IntegerToken ?q" by simp
  moreover have "holds ?q s" using q(2) by (simp add: holds_def)
  moreover have "js_int ?q = (if lx_negative lx then - int a else int a)" using q(3) Nil.prems(6) by simp
  ultimately show ?case by (auto simp: digits_from_def)
next
  case (Cons c ds)
  let ?p = "p\<lparr>js_is := ds @ s, js_token := js_token p @ [c], js_int := int (10 * a + digit_val c)\<rparr>"
  have c: "isdigit c" using Cons.prems(5) by simp
  have "10 * a + digit_val c \<le> digits_from a (c # ds)"
    using digits_from_ge [of "10 * a + digit_val c" ds] by (simp add: digits_from_def)
  with Cons.prems(7) have "int (10 * a) < 2 ^ 63" "int (10 * a + digit_val c) < 2 ^ 63" by linarith+
  then have "lex_step F (ord32 c) lx (p\<lparr>js_is := ds @ s, js_token := js_token p @ [c]\<rparr>) = ok (lx, ?p)"
    using Cons.prems(1,6) digit_facts [OF c] by (simp add: lex_step_def lex_number_def int64_def)
  moreover obtain q where "ends F (length ds + 1) lx ?p IntegerToken q" "holds q s"
      "js_int q = (if lx_negative lx then - int (digits_from a (c # ds)) else int (digits_from a (c # ds)))"
    using Cons.IH [of ?p "10 * a + digit_val c"] Cons.prems by (auto simp: digits_from_def)
  ultimately show ?case
    using ends_step [OF Cons.prems(2) get_next_char_plain [of p c "ds @ s"]] Cons.prems(3,4) digit_facts(1) [OF c]
    by fastforce
qed

lemma nat_to_string_lead:
  assumes "0 < n"
  obtains c ds where "nat_to_string n = c # ds" "isdigit c" "\<forall>c \<in> set ds. isdigit c" "c \<noteq> CHR ''0''" "digits_from (digit_val c) ds = n"
proof -
  obtain c ds where e: "nat_to_string n = c # ds" by (cases "nat_to_string n") auto
  moreover have d: "isdigit c" "\<forall>c \<in> set ds. isdigit c" using nat_to_string_digits [of n] e by auto
  moreover have "c \<noteq> CHR ''0''" using nat_to_string_hd [OF assms] digit_val_zero [OF d(1)] e by simp
  moreover have "digits_from (digit_val c) ds = n"
    using nat_to_string_value [of n] e by (simp add: digits_from_def)
  ultimately show thesis using that by blast
qed

lemma nonzero_digits:
  assumes "isdigit c" "c \<noteq> CHR ''0''"
  shows "c \<in> set ''123456789''"
proof -
  have "code c \<in> set [49..<58]"
  proof -
    have "code c \<noteq> 48" using assms(2) code_inject [of c "CHR ''0''"] by (simp del: code_inject)
    then show ?thesis using assms(1) unfolding set_upt atLeastLessThan_iff isdigit_def by linarith
  qed
  then have "char_of (code c) \<in> set (map char_of [49..<58])" unfolding set_map by (rule imageI)
  moreover have "map char_of [49..<58 :: nat] = ''123456789''" by code_simp
  ultimately show ?thesis by (simp only: char_of_code)
qed

lemma lex_start_digits:
  "\<forall>c \<in> set ''123456789''. lex_start (ord32 c) lx p = goto Number lx (p\<lparr>js_int := digit_of (ord32 c)\<rparr>)"
  by (simp add: lex_start_def ord32_def between_def)

lemma lex_negative_digits:
  "\<forall>c \<in> set ''123456789''. lex_negative (ord32 c) lx p
     = goto Number (lx\<lparr>lx_negative := True\<rparr>) (p\<lparr>js_int := digit_of (ord32 c)\<rparr>)"
  by (simp add: lex_negative_def ord32_def between_def)

lemma fetch_natural:
  assumes "holds q (nat_to_string n @ s)" "delim s" "int n < 2 ^ 63"
  shows "\<exists>p. fetches F (length (nat_to_string n) + 1) q p \<and> js_lookahead p = IntegerToken \<and> holds p s \<and> js_int p = int n"
proof (cases "n = 0")
  case True
  let ?q = "q\<lparr>js_token := []\<rparr>"
  have z: "nat_to_string 0 = ''0''" by code_simp
  then have n: "nat_to_string n = ''0''" using True by simp
  let ?s = "CHR ''0'' # s"
  let ?p = "(advance ?s ?q)\<lparr>js_int := 0\<rparr>"
  have h: "holds ?q ?s" "holds ?p s" using assms(1) n holds_advance [of ?s ?q] by (simp_all add: holds_def)
  obtain r where r: "retract (advance s ?p) = ok r" "holds r s"
    using retract_advance [OF delim_facts(1) [OF assms(2)], of ?p] by blast
  let ?lx = "(lexer_init F)\<lparr>lx_state := Zero\<rparr>"
  have "lex_step F (ord32 (next_char s)) ?lx (advance s ?p) = ok (?lx\<lparr>lx_token := IntegerToken\<rparr>, r\<lparr>js_int := 0\<rparr>)"
    using delim_facts [OF assms(2)] r by (simp add: lex_step_def lex_zero_def finish_token_def ord32_literals)
  from ends_ascii [OF _ h(2) delim_facts(1) [OF assms(2)] this ends_done [of _ IntegerToken]]
  have "ends F 1 ?lx ?p IntegerToken (r\<lparr>js_int := 0\<rparr>)" by simp
  moreover have "lex_step F (ord32 (next_char ?s)) (lexer_init F) (advance ?s ?q) = ok (?lx, ?p)"
    by (simp add: next_char_def lex_step_def lex_start_def ord32_literals goto_def)
  ultimately have "ends F 2 (lexer_init F) ?q IntegerToken (r\<lparr>js_int := 0\<rparr>)"
    using ends_ascii [OF _ h(1), of "lexer_init F" F ?lx ?p 1] by (simp add: next_char_def numeral_2_eq_2)
  from ends_fetches [OF this] r(2) True show ?thesis
    by (intro exI [of _ "r\<lparr>js_int := 0, js_lookahead := IntegerToken\<rparr>"]) (simp add: z holds_def numeral_2_eq_2)
next
  case False
  then obtain c ds where n: "nat_to_string n = c # ds" "isdigit c" "\<forall>c \<in> set ds. isdigit c" "c \<noteq> CHR ''0''"
      "digits_from (digit_val c) ds = n" using nat_to_string_lead [of n] by blast
  let ?q = "q\<lparr>js_token := []\<rparr>" and ?s = "c # ds @ s"
  let ?p = "(advance ?s ?q)\<lparr>js_int := int (digit_val c)\<rparr>" and ?lx = "(lexer_init F)\<lparr>lx_state := Number\<rparr>"
  have "lex_step F (ord32 (next_char ?s)) (lexer_init F) (advance ?s ?q) = ok (?lx, ?p)"
    using bspec [OF lex_start_digits nonzero_digits [OF n(2,4)], of "lexer_init F" "advance ?s ?q"] digit_facts(3) [OF n(2)]
    by (simp add: next_char_def lex_step_def goto_def)
  moreover obtain r where "ends F (length ds + 1) ?lx ?p IntegerToken r" "holds r s" "js_int r = int n"
    using number_loop [of ?lx ?p ds s "digit_val c" F] n assms(2,3)
    by (auto simp: advance_def lexer_init_def)
  moreover have "holds ?q ?s" using assms(1) n(1) by simp
  ultimately have "ends F (length ds + 2) (lexer_init F) ?q IntegerToken r"
    using ends_ascii [of "lexer_init F" ?q ?s F ?lx ?p "length ds + 1"] digit_facts(1) [OF n(2)] by (simp add: next_char_def)
  from ends_fetches [OF this] \<open>holds r s\<close> \<open>js_int r = int n\<close> n(1) show ?thesis
    by (intro exI [of _ "r\<lparr>js_lookahead := IntegerToken\<rparr>"]) simp
qed

lemma fetch_negative:
  assumes "holds q (CHR ''-'' # nat_to_string n @ s)" "delim s" "0 < n" "int n < 2 ^ 63"
  shows "\<exists>p. fetches F (length (nat_to_string n) + 2) q p \<and> js_lookahead p = IntegerToken \<and> holds p s \<and> js_int p = - int n"
proof -
  obtain c ds where n: "nat_to_string n = c # ds" "isdigit c" "\<forall>c \<in> set ds. isdigit c" "c \<noteq> CHR ''0''"
      "digits_from (digit_val c) ds = n" using nat_to_string_lead [OF assms(3)] by blast
  let ?q = "q\<lparr>js_token := []\<rparr>" and ?s = "c # ds @ s" and ?t = "CHR ''-'' # c # ds @ s"
  let ?r = "advance ?t ?q" and ?lx = "(lexer_init F)\<lparr>lx_state := Negative\<rparr>"
  let ?p = "(advance ?s ?r)\<lparr>js_int := int (digit_val c)\<rparr>"
    and ?lx' = "(lexer_init F)\<lparr>lx_state := Number, lx_negative := True\<rparr>"
  have "lex_step F (ord32 (next_char ?t)) (lexer_init F) ?r = ok (?lx, ?r)"
    by (simp add: next_char_def lex_step_def lex_start_def ord32_literals goto_def)
  moreover have "lex_step F (ord32 (next_char ?s)) ?lx (advance ?s ?r) = ok (?lx\<lparr>lx_negative := True, lx_state := Number\<rparr>, ?p)"
    using bspec [OF lex_negative_digits nonzero_digits [OF n(2,4)], of ?lx "advance ?s ?r"] digit_facts(3) [OF n(2)]
    by (simp add: next_char_def lex_step_def goto_def)
  moreover obtain t where "ends F (length ds + 1) (?lx\<lparr>lx_negative := True, lx_state := Number\<rparr>) ?p IntegerToken t" "holds t s" "js_int t = - int n"
    using number_loop [of "?lx\<lparr>lx_negative := True, lx_state := Number\<rparr>" ?p ds s "digit_val c" F] n assms(2,4)
    by (auto simp: advance_def lexer_init_def)
  moreover have "holds ?q ?t" "holds ?r ?s" using assms(1) n(1) holds_advance [of ?t ?q] by simp_all
  ultimately have "ends F (length ds + 3) (lexer_init F) ?q IntegerToken t"
    using ends_ascii [of "lexer_init F" ?q ?t F ?lx ?r "length ds + 2" IntegerToken t]
      ends_ascii [of ?lx ?r ?s F "?lx\<lparr>lx_negative := True, lx_state := Number\<rparr>" ?p "length ds + 1" IntegerToken t]
      digit_facts(1) [OF n(2)] by (simp add: next_char_def numeral_eq_Suc)
  from ends_fetches [OF this] \<open>holds t s\<close> \<open>js_int t = - int n\<close> n(1) show ?thesis
    by (intro exI [of _ "t\<lparr>js_lookahead := IntegerToken\<rparr>"]) (simp add: numeral_eq_Suc)
qed

lemma fetch_integer:
  assumes "holds q (int_to_string i @ s)" "delim s" "- (2 ^ 63) < i" "i < 2 ^ 63"
  shows "\<exists>p. fetches F (length (int_to_string i) + 1) q p \<and> js_lookahead p = IntegerToken \<and> holds p s \<and> js_int p = i"
proof (cases "i < 0")
  case True
  then show ?thesis
    using fetch_negative [of q "nat (- i)" s F] assms by (simp add: int_to_string_def)
next
  case False
  then show ?thesis
    using fetch_natural [of q "nat i" s F] assms by (simp add: int_to_string_def)
qed

text \<open>The three literals.\<close>

definition literals :: "(string \<times> token_t) list" where
  "literals = [(''true'', TrueToken), (''false'', FalseToken), (''null'', NullToken)]"

lemma literal_loop:
  assumes "lx_state lx = Literal" "lx_token lx = Undef" "js_buffer p = []" "js_is p = w @ s"
    and "list_all isalpha w" "map_of literals (js_token p @ w) = Some t" "delim s"
  shows "\<exists>q. ends F (length w + 1) lx p t q \<and> holds q s"
  using assms
proof (induction w arbitrary: p)
  case Nil
  have "holds p s" using Nil.prems(3,4) by (simp add: holds_def)
  obtain q where q: "retract (advance s p) = ok q" "holds q s" "js_token q = js_token p"
    using retract_advance [OF delim_facts(1) [OF Nil.prems(7)], of p] by blast
  have t: "t \<noteq> Undef" "lex_step F (ord32 (next_char s)) lx (advance s p) = ok (lx\<lparr>lx_token := t\<rparr>, q)"
    using Nil.prems(1,6) delim_facts [OF Nil.prems(7)] q
    by (auto simp: lex_step_def lex_literal_def finish_token_def literals_def split: if_splits)
  from ends_ascii [OF Nil.prems(2) \<open>holds p s\<close> delim_facts(1) [OF Nil.prems(7)] t(2) ends_done [of _ t]] t(1)
  show ?case using q(2) by auto
next
  case (Cons c w)
  let ?p = "p\<lparr>js_is := w @ s, js_token := js_token p @ [c]\<rparr>"
  have c: "code c < 128" "alpha_ch (ord32 c)"
    using Cons.prems(5) by (auto simp: alpha_ch_def isalpha_def isupper_def islower_def word_less_nat_alt)
  then have "lex_step F (ord32 c) lx ?p = ok (lx, ?p)"
    using Cons.prems(1) by (simp add: lex_step_def lex_literal_def)
  moreover obtain q where "ends F (length w + 1) lx ?p t q" "holds q s"
    using Cons.IH [of ?p] Cons.prems by auto
  ultimately show ?case
    using ends_step [OF Cons.prems(2) get_next_char_plain [of p c "w @ s"]] Cons.prems(3,4) c(1) by fastforce
qed

lemma literal_words:
  "\<forall>(w, t) \<in> set literals. w \<noteq> [] \<and> hd w \<in> set ''tfn'' \<and> list_all isalpha (tl w) \<and> map_of literals w = Some t"
  by (simp add: literals_def isalpha_def islower_def)

lemma lex_start_letters:
  "\<forall>c \<in> set ''tfn''. lex_start (ord32 c) lx p = goto Literal lx p \<and> code c < 128"
  by (simp add: lex_start_def ord32_def between_def alpha_ch_def chr32_def isalpha_def islower_def)

lemma fetch_literal:
  assumes "holds q (w @ s)" "delim s" "(w, t) \<in> set literals"
  shows "\<exists>p. fetches F (length w + 1) q p \<and> js_lookahead p = t \<and> holds p s"
proof -
  obtain c v where w: "w = c # v" "c \<in> set ''tfn''" "list_all isalpha v" "map_of literals (c # v) = Some t"
    using bspec [OF literal_words assms(3)] by (cases w) (simp_all del: set_simps)
  let ?q = "q\<lparr>js_token := []\<rparr>" and ?s = "c # v @ s"
  let ?p = "advance ?s ?q" and ?lx = "(lexer_init F)\<lparr>lx_state := Literal\<rparr>"
  have c: "lex_start (ord32 c) (lexer_init F) ?p = goto Literal (lexer_init F) ?p" "code c < 128"
    using bspec [OF lex_start_letters w(2), of "lexer_init F" ?p] by simp_all
  then have "lex_step F (ord32 (next_char ?s)) (lexer_init F) ?p = ok (?lx, ?p)"
    by (simp add: next_char_def lex_step_def goto_def)
  moreover obtain r where "ends F (length v + 1) ?lx ?p t r" "holds r s"
    using literal_loop [of ?lx ?p v s t F] w(3,4) assms(2) by (auto simp: advance_def next_char_def)
  moreover have "holds ?q ?s" using assms(1) w(1) by simp
  ultimately have "ends F (length v + 2) (lexer_init F) ?q t r"
    using ends_ascii [of "lexer_init F" ?q ?s F ?lx ?p "length v + 1" t r] c(2) by (simp add: next_char_def)
  from ends_fetches [OF this] \<open>holds r s\<close> w(1) show ?thesis
    by (intro exI [of _ "r\<lparr>js_lookahead := t\<rparr>"]) simp
qed

section \<open>Values\<close>

text \<open>
  The values that can be read back: no \<open>double\<close>, integers whose negation is an
  \<open>int64_t\<close>, strings of UTF-8 and keys that need no escape, in order.
\<close>

definition utf8_string :: "string \<Rightarrow> bool" where
  "utf8_string s \<longleftrightarrow> (\<exists>us. s = text_of us \<and> list_all valid_unicode us)"

definition plain_key :: "string \<Rightarrow> bool" where
  "plain_key s \<longleftrightarrow> (\<exists>us. s = text_of us \<and> list_all plain_unicode us)"

fun safe_element :: "'f element \<Rightarrow> bool"
  and safe_items :: "'f element list \<Rightarrow> bool"
  and safe_members :: "(string \<times> 'f element) list \<Rightarrow> bool" where
  "safe_element Null = True"
| "safe_element (Boolean _) = True"
| "safe_element (Number_float _) = False"
| "safe_element (Number_int i) = (- (2 ^ 63) < i \<and> i < 2 ^ 63)"
| "safe_element (String s) = utf8_string s"
| "safe_element (Array es) = safe_items es"
| "safe_element (Object m) = (sorted_wrt (<) (map fst m) \<and> safe_members m)"
| "safe_items [] = True"
| "safe_items (e # es) = (safe_element e \<and> safe_items es)"
| "safe_members [] = True"
| "safe_members ((k, v) # m) = (plain_key k \<and> safe_element v \<and> safe_members m)"

text \<open>What is read back: an empty array and an empty object become null.\<close>

definition arr_of :: "'f element list \<Rightarrow> 'f element" where
  "arr_of es = (if es = [] then Null else Array es)"

definition obj_of :: "(string \<times> 'f element) list \<Rightarrow> 'f element" where
  "obj_of m = (if m = [] then Null else Object m)"

fun collapse :: "'f element \<Rightarrow> 'f element"
  and collapse_items :: "'f element list \<Rightarrow> 'f element list"
  and collapse_members :: "(string \<times> 'f element) list \<Rightarrow> (string \<times> 'f element) list" where
  "collapse (Array es) = arr_of (collapse_items es)"
| "collapse (Object m) = obj_of (collapse_members m)"
| "collapse e = e"
| "collapse_items [] = []"
| "collapse_items (e # es) = collapse e # collapse_items es"
| "collapse_members [] = []"
| "collapse_members ((k, v) # m) = (k, collapse v) # collapse_members m"

lemma collapse_items_empty [simp]: "collapse_items es = [] \<longleftrightarrow> es = []"
  by (cases es) simp_all

lemma collapse_members_empty [simp]: "collapse_members m = [] \<longleftrightarrow> m = []"
  by (cases m) auto

lemma fetches_more: "fetches F k q p \<Longrightarrow> k \<le> l \<Longrightarrow> fetches F l q p"
  by (simp add: fetches_def)

definition looking :: "'f float_ops \<Rightarrow> string \<Rightarrow> 'f json_parser \<Rightarrow> bool" where
  "looking F txt p \<longleftrightarrow> (\<exists>q. holds q txt \<and> fetches F (length txt + 2) q p)"

lemma next_char_Cons [simp]: "next_char (c # s) = c"
  by (simp add: next_char_def)

lemma looking_punctuation:
  fixes F :: "'f float_ops"
  assumes "looking F (c # s) p" "map_of punctuation c = Some t"
  shows "js_lookahead p = t \<and> holds p s"
proof -
  obtain q where q: "holds q (c # s)" "fetches F (length (c # s) + 2) q p" using assms(1) by (auto simp: looking_def)
  have "map_of punctuation (next_char (c # s)) = Some t" using assms(2) by simp
  from fetch_punctuation [OF q(1) this, of F]
  obtain p' where p': "fetches F (length (c # s) + 2) q p'" "js_lookahead p' = t" "holds p' (tl (c # s))" by blast
  with fetches_unique [OF q(2) p'(1)] show ?thesis by simp
qed

lemma delim_punctuation: "delim s \<Longrightarrow> \<exists>t. map_of punctuation (next_char s) = Some t"
  by (auto simp: delim_def punctuation_def)

lemma match_next:
  assumes "js_lookahead p = t" "fetches F k p p'" "k \<le> n"
  shows "match F n t p = Some (ok p')"
  using assms by (simp add: match_def fetches_def)

lemma close:
  assumes "js_lookahead p = t" "holds p s" "delim s" "length s + 2 \<le> n"
  shows "\<exists>p'. match F n t p = Some (ok p') \<and> looking F s p' \<and> js_int p' = js_int p"
proof -
  obtain t' where "map_of punctuation (next_char s) = Some t'" using delim_punctuation [OF assms(3)] by blast
  from fetch_punctuation [OF assms(2) this, of F] obtain p' where "fetches F (length s + 2) p p'" "js_int p' = js_int p" by blast
  then show ?thesis using match_next [OF assms(1) _ assms(4)] assms(2) by (auto simp: looking_def)
qed

lemma match_punctuation:
  assumes "js_lookahead p = t" "holds p (c # s)" "map_of punctuation c = Some t'" "length s + 3 \<le> n"
  shows "\<exists>p'. match F n t p = Some (ok p') \<and> js_lookahead p' = t' \<and> holds p' s"
proof -
  have "map_of punctuation (next_char (c # s)) = Some t'" using assms(3) by simp
  from fetch_punctuation [OF assms(2) this, of F]
  obtain p' where p': "fetches F (length (c # s) + 2) p p'" "js_lookahead p' = t'" "holds p' (tl (c # s))" by blast
  have "match F n t p = Some (ok p')" by (rule match_next [OF assms(1) p'(1)]) (use assms(4) in simp)
  with p' show ?thesis by simp
qed

definition starts_value :: "token_t \<Rightarrow> bool" where
  "starts_value t \<longleftrightarrow> t \<notin> {Eof, RightBrace, RightBracket, Comma, Colon}"

lemma fetch_value:
  assumes "safe_element e" "holds q (serialize F e @ s)" "delim s"
  shows "\<exists>p. fetches F (length (serialize F e @ s) + 2) q p \<and> starts_value (js_lookahead p) \<and> looking F (serialize F e @ s) p"
proof -
  have "\<exists>p. fetches F (length (serialize F e @ s) + 2) q p \<and> starts_value (js_lookahead p)"
  proof (cases e)
    case Null
    then show ?thesis using fetch_literal [of q "''null''" s NullToken F] assms(2,3)
      by (auto simp: literals_def starts_value_def intro: fetches_more)
  next
    case (Boolean b)
    then show ?thesis
      using fetch_literal [of q "''true''" s TrueToken F] fetch_literal [of q "''false''" s FalseToken F] assms(2,3)
      by (cases b) (auto simp: literals_def starts_value_def intro: fetches_more)
  next
    case (Number_int i)
    then obtain p where p: "fetches F (length (int_to_string i) + 1) q p" "js_lookahead p = IntegerToken"
      using fetch_integer [of q i s F] assms by auto
    have "fetches F (length (serialize F e @ s) + 2) q p"
      by (rule fetches_more [OF p(1)]) (simp add: Number_int)
    with p(2) show ?thesis by (auto simp: starts_value_def)
  next
    case (String str)
    then obtain us where us: "str = text_of us" "list_all valid_unicode us" using assms(1) by (auto simp: utf8_string_def)
    then obtain p where p: "fetches F (length (escape_string (text_of us)) + 2) q p" "js_lookahead p = StringToken"
      using fetch_string [of q us s F] String assms(2) by auto
    have "fetches F (length (serialize F e @ s) + 2) q p"
      by (rule fetches_more [OF p(1)]) (simp add: String us)
    with p(2) show ?thesis by (auto simp: starts_value_def)
  next
    case (Array es)
    then show ?thesis
      using fetch_punctuation [of q "''['' @ serialize_items F es @ '']'' @ s" LeftBracket F] assms(2)
      by (auto simp: punctuation_def starts_value_def intro: fetches_more)
  next
    case (Object m)
    then show ?thesis
      using fetch_punctuation [of q "''{'' @ serialize_members F True m @ ''}'' @ s" LeftBrace F] assms(2)
      by (auto simp: punctuation_def starts_value_def intro: fetches_more)
  qed (use assms(1) in simp)
  then show ?thesis using assms(2) by (auto simp: looking_def)
qed

lemma looking_value:
  assumes "safe_element e" "looking F (serialize F e @ s) p" "delim s"
  shows "starts_value (js_lookahead p)"
proof -
  obtain q where q: "holds q (serialize F e @ s)" "fetches F (length (serialize F e @ s) + 2) q p"
    using assms(2) by (auto simp: looking_def)
  from fetch_value [OF assms(1) q(1) assms(3)] fetches_unique [OF q(2)] show ?thesis by blast
qed

lemma match_value:
  assumes "js_lookahead p = t" "safe_element e" "holds p (serialize F e @ s)" "delim s" "length (serialize F e @ s) + 2 \<le> n"
  shows "\<exists>p'. match F n t p = Some (ok p') \<and> looking F (serialize F e @ s) p'"
  using fetch_value [OF assms(2-4)] match_next [OF assms(1) _ assms(5)] by blast

text \<open>One token of a value: it is read, and then the token after it.\<close>

lemma looking_token:
  assumes "looking F txt p" "\<And>q. holds q txt \<Longrightarrow> \<exists>p. fetches F k q p \<and> Q p"
  shows "Q p"
proof -
  obtain q where q: "holds q txt" "fetches F (length txt + 2) q p" using assms(1) by (auto simp: looking_def)
  with assms(2) [OF q(1)] fetches_unique [OF q(2)] show ?thesis by blast
qed

declare seq_simps [simp]

lemma parse_token_value:
  assumes "looking F (w @ s) p" "delim s" "2 * length (w @ s) + 4 \<le> n"
    and "\<And>q. holds q (w @ s) \<Longrightarrow> \<exists>p. fetches F k q p \<and> (js_lookahead p = t \<and> holds p s \<and> R p)"
    and "\<And>m p'. js_int p' = js_int p \<Longrightarrow> R p \<Longrightarrow> match F m t p = Some (ok p') \<Longrightarrow> js_lookahead p = t \<Longrightarrow>
      parse_value F (Suc m) Null p = Some (ok (e, p'))"
  shows "\<exists>p'. parse_value F n Null p = Some (ok (e, p')) \<and> looking F s p'"
proof -
  have p: "js_lookahead p = t" "holds p s" "R p" using looking_token [OF assms(1,4)] by simp_all
  obtain m where m: "n = Suc m" using assms(3) by (cases n) auto
  have "length s + 2 \<le> m" using assms(3) m by simp
  from close [OF p(1,2) assms(2) this, of F]
  obtain p' where "match F m t p = Some (ok p')" "looking F s p'" "js_int p' = js_int p" by blast
  with assms(5) p m show ?thesis by blast
qed

lemma members_False: "serialize_members F False m = (if m = [] then [] else '','' @ serialize_members F True m)"
  by (cases m) auto

lemma obj_emplace_last: "\<forall>k' \<in> set (map fst m). k' < k \<Longrightarrow> obj_emplace k v m = m @ [(k, v)]"
proof (induction m)
  case (Cons kv m)
  then show ?case by (cases kv) (auto dest: less_asym)
qed simp

lemma emplace_obj_of:
  "\<forall>k' \<in> set (map fst m). k' < k \<Longrightarrow> elem_emplace (obj_of m) k v = ok (obj_of (m @ [(k, v)]))"
  using obj_emplace_last [of m k v] by (simp add: elem_emplace_def obj_of_def)

lemma emplace_back_arr_of: "elem_emplace_back (arr_of es) v = ok (arr_of (es @ [v]))"
  by (simp add: elem_emplace_back_def arr_of_def)

lemma delim_after [simp]: "delim ('']'' @ s)" "delim ('','' @ s)" "delim (''}'' @ s)" "delim (CHR '']'' # s)" "delim (CHR '','' # s)" "delim (CHR ''}'' # s)"
  by (simp_all add: delim_def)

lemma parse_scalars:
  fixes F :: "'f float_ops"
  assumes "looking F (serialize F e @ s) p" "delim s" "2 * length (serialize F e @ s) + 4 \<le> n" "safe_element e"
    and "e = Null \<or> (\<exists>b. e = Boolean b) \<or> (\<exists>i. e = Number_int i) \<or> (\<exists>str. e = String str)"
  shows "\<exists>p'. parse_value F n Null p = Some (ok (e, p')) \<and> looking F s p'"
  using assms(5)
proof (elim disjE exE)
  assume e: "e = Null"
  show ?thesis
  proof (rule parse_token_value [where t = NullToken and k = 5 and R = "\<lambda>_. True" and w = "serialize F e", OF assms(1-3)])
    fix q :: "'f json_parser" assume "holds q (serialize F e @ s)"
    then show "\<exists>p. fetches F 5 q p \<and> js_lookahead p = NullToken \<and> holds p s \<and> True"
      using fetch_literal [of q "''null''" s NullToken F] assms(2) e by (auto simp: literals_def numeral_eq_Suc)
  qed (simp add: parse_value.simps e)
next
  fix b assume e: "e = Boolean b"
  show ?thesis
  proof (rule parse_token_value [where t = "if b then TrueToken else FalseToken" and k = 6 and R = "\<lambda>_. True" and w = "serialize F e", OF assms(1-3)])
    fix q :: "'f json_parser" assume "holds q (serialize F e @ s)"
    then show "\<exists>p. fetches F 6 q p \<and> js_lookahead p = (if b then TrueToken else FalseToken) \<and> holds p s \<and> True"
      using fetch_literal [of q "''true''" s TrueToken F] fetch_literal [of q "''false''" s FalseToken F] assms(2) e
      by (cases b) (auto simp: literals_def numeral_eq_Suc intro: fetches_more)
  qed (cases b; simp add: parse_value.simps e)
next
  fix i assume e: "e = Number_int i"
  show ?thesis
  proof (rule parse_token_value [where t = IntegerToken and k = "length (int_to_string i) + 1" and R = "\<lambda>p. js_int p = i"
        and w = "serialize F e", OF assms(1-3)])
    fix q :: "'f json_parser" assume "holds q (serialize F e @ s)"
    then show "\<exists>p. fetches F (length (int_to_string i) + 1) q p \<and> js_lookahead p = IntegerToken \<and> holds p s \<and> js_int p = i"
      using fetch_integer [of q i s F] assms(2,4) e by simp
  qed (simp add: parse_value.simps e)
next
  fix str assume e: "e = String str"
  then obtain us where us: "str = text_of us" "list_all valid_unicode us" using assms(4) by (auto simp: utf8_string_def)
  show ?thesis
  proof (rule parse_token_value [where t = StringToken and k = "length (escape_string str) + 2" and R = "\<lambda>p. js_token p = str"
        and w = "serialize F e", OF assms(1-3)])
    fix q :: "'f json_parser" assume "holds q (serialize F e @ s)"
    then show "\<exists>p. fetches F (length (escape_string str) + 2) q p \<and> js_lookahead p = StringToken \<and> holds p s \<and> js_token p = str"
      using fetch_string [of q us s F] us e by simp
  qed (simp add: parse_value.simps e)
qed

lemma serialize_ne [simp]: "safe_element e \<Longrightarrow> serialize F e \<noteq> []"
proof (cases e)
  case (Number_int i)
  then show ?thesis by (simp add: int_to_string_def)
qed auto

lemma looking_key:
  assumes "looking F ([CHR 0x22] @ k @ [CHR 0x22] @ s) p" "plain_key k"
  shows "js_lookahead p = StringToken \<and> js_token p = k \<and> holds p s"
proof -
  obtain us where us: "k = text_of us" "list_all plain_unicode us" using assms(2) by (auto simp: plain_key_def)
  show ?thesis
    by (rule looking_token [OF assms(1), where k = "length us + 2"]) (use fetch_key [OF _ us(2)] us(1) in blast)
qed

lemma match_key:
  assumes "js_lookahead p = t" "plain_key k" "holds p ([CHR 0x22] @ k @ [CHR 0x22] @ s)" "length k + 4 + length s \<le> n"
  shows "\<exists>p'. match F n t p = Some (ok p') \<and> looking F ([CHR 0x22] @ k @ [CHR 0x22] @ s) p'"
proof -
  obtain us where us: "k = text_of us" "list_all plain_unicode us" using assms(2) by (auto simp: plain_key_def)
  from fetch_key [of p us s F] us assms(3) obtain p' where p': "fetches F (length us + 2) p p'" by auto
  have "match F n t p = Some (ok p')"
    by (rule match_next [OF assms(1) p']) (use text_of_length [of us] us(1) assms(4) in simp)
  moreover have "fetches F (length ([CHR 0x22] @ k @ [CHR 0x22] @ s) + 2) p p'"
    by (rule fetches_more [OF p']) (use text_of_length [of us] us(1) in simp)
  ultimately show ?thesis using assms(3) unfolding looking_def by blast
qed

lemma parse_serialized:
  fixes F :: "'f float_ops" and e :: "'f element" and es :: "'f element list" and kvs :: "(string \<times> 'f element) list"
  shows "safe_element e \<Longrightarrow> looking F (serialize F e @ s) p \<Longrightarrow> delim s \<Longrightarrow> 2 * length (serialize F e @ s) + 4 \<le> n \<Longrightarrow>
     \<exists>p'. parse_value F n Null p = Some (ok (collapse e, p')) \<and> looking F s p'"
    and "safe_items es \<Longrightarrow> es \<noteq> [] \<Longrightarrow> looking F (serialize_items F es @ '']'' @ s) p \<Longrightarrow>
     2 * length (serialize_items F es @ '']'' @ s) + 5 \<le> n \<Longrightarrow>
     \<exists>p'. parse_array F n (arr_of acc) p = Some (ok (arr_of (acc @ collapse_items es), p'))
       \<and> js_lookahead p' = RightBracket \<and> holds p' s"
    and "safe_members kvs \<Longrightarrow> sorted_wrt (<) (map fst (kacc @ kvs)) \<Longrightarrow> kvs \<noteq> [] \<Longrightarrow>
     looking F (serialize_members F True kvs @ ''}'' @ s) p \<Longrightarrow>
     2 * length (serialize_members F True kvs @ ''}'' @ s) + 5 \<le> n \<Longrightarrow>
     \<exists>p'. parse_object F n (obj_of kacc) p = Some (ok (obj_of (kacc @ collapse_members kvs), p'))
       \<and> js_lookahead p' = RightBrace \<and> holds p' s"
proof (induction e and es and kvs arbitrary: s p n and s p n acc and s p n kacc rule: safe_element_safe_items_safe_members.induct)
  case 1
  then show ?case using parse_scalars [where e = Null] by simp
next
  case (2 b)
  then show ?case using parse_scalars [where e = "Boolean b"] by simp
next
  case (3 d)
  then show ?case by simp
next
  case (4 i)
  then show ?case using parse_scalars [where e = "Number_int i"] by simp
next
  case (5 str)
  then show ?case using parse_scalars [where e = "String str"] by simp
next
  case (6 es)
  have p: "js_lookahead p = LeftBracket" "holds p (serialize_items F es @ '']'' @ s)"
    using looking_punctuation [of F "CHR ''[''" "serialize_items F es @ '']'' @ s" p LeftBracket] 6(3) by (simp_all add: punctuation_def)
  obtain m where n: "n = Suc m" using 6(5) by (cases n) auto
  have "\<exists>p1. match F m LeftBracket p = Some (ok p1) \<and>
      (\<exists>p2. parse_array F m Null p1 = Some (ok (arr_of (collapse_items es), p2)) \<and> js_lookahead p2 = RightBracket \<and> holds p2 s)"
  proof (cases es)
    case Nil
    have "\<exists>p1. match F m LeftBracket p = Some (ok p1) \<and> js_lookahead p1 = RightBracket \<and> holds p1 s"
      by (rule match_punctuation [where c = "CHR '']''"]) (use p Nil 6(5) n in \<open>simp_all add: punctuation_def\<close>)
    moreover have "\<exists>k. m = Suc k" using 6(5) n by (cases m) simp_all
    ultimately show ?thesis using Nil by (auto simp: parse_array.simps arr_of_def)
  next
    case (Cons a as)
    let ?t = "(if as \<noteq> [] then '','' else []) @ serialize_items F as @ '']'' @ s"
    have "\<exists>p1. match F m LeftBracket p = Some (ok p1) \<and> looking F (serialize F a @ ?t) p1"
      by (rule match_value) (use p 6(2,5) n Cons in auto)
    then obtain p1 where p1: "match F m LeftBracket p = Some (ok p1)" "looking F (serialize_items F es @ '']'' @ s) p1"
      using Cons by auto
    have "\<exists>p2. parse_array F m (arr_of []) p1 = Some (ok (arr_of ([] @ collapse_items es), p2)) \<and> js_lookahead p2 = RightBracket \<and> holds p2 s"
      by (rule 6(1)) (use 6(2,5) n p1(2) Cons in simp_all)
    then show ?thesis using p1(1) by (simp add: arr_of_def)
  qed
  then obtain p1 p2 where p1: "match F m LeftBracket p = Some (ok p1)"
    and p2: "parse_array F m Null p1 = Some (ok (arr_of (collapse_items es), p2))" "js_lookahead p2 = RightBracket" "holds p2 s"
    by blast
  have "\<exists>p'. match F m RightBracket p2 = Some (ok p') \<and> looking F s p' \<and> js_int p' = js_int p2"
    by (rule close [OF p2(2,3) 6(4)]) (use 6(5) n in simp)
  then show ?case using p(1) p1 p2(1) by (auto simp: n parse_value.simps)
next
  case (7 kvs)
  have p: "js_lookahead p = LeftBrace" "holds p (serialize_members F True kvs @ ''}'' @ s)"
    using looking_punctuation [of F "CHR ''{''" "serialize_members F True kvs @ ''}'' @ s" p LeftBrace] 7(3) by (simp_all add: punctuation_def)
  obtain m where n: "n = Suc m" using 7(5) by (cases n) auto
  have "\<exists>p1. match F m LeftBrace p = Some (ok p1) \<and>
      (\<exists>p2. parse_object F m Null p1 = Some (ok (obj_of (collapse_members kvs), p2)) \<and> js_lookahead p2 = RightBrace \<and> holds p2 s)"
  proof (cases kvs)
    case Nil
    have "\<exists>p1. match F m LeftBrace p = Some (ok p1) \<and> js_lookahead p1 = RightBrace \<and> holds p1 s"
      by (rule match_punctuation [where c = "CHR ''}''"]) (use p Nil 7(5) n in \<open>simp_all add: punctuation_def\<close>)
    moreover have "\<exists>k. m = Suc k" using 7(5) n by (cases m) simp_all
    ultimately show ?thesis using Nil by (auto simp: parse_object.simps obj_of_def)
  next
    case (Cons a as)
    have "\<exists>p1. match F m LeftBrace p = Some (ok p1) \<and> looking F (serialize_members F True kvs @ ''}'' @ s) p1"
      using match_key [OF p(1), of "fst a" "'':'' @ serialize F (snd a) @ serialize_members F False as @ ''}'' @ s" m F] p(2) 7(2,5) n Cons
      by (cases a) (auto simp: members_False)
    then obtain p1 where p1: "match F m LeftBrace p = Some (ok p1)" "looking F (serialize_members F True kvs @ ''}'' @ s) p1"
      by blast
    have "\<exists>p2. parse_object F m (obj_of []) p1 = Some (ok (obj_of ([] @ collapse_members kvs), p2)) \<and> js_lookahead p2 = RightBrace \<and> holds p2 s"
      by (rule 7(1)) (use 7(2,5) n p1(2) Cons in simp_all)
    then show ?thesis using p1(1) by (simp add: obj_of_def)
  qed
  then obtain p1 p2 where p1: "match F m LeftBrace p = Some (ok p1)"
    and p2: "parse_object F m Null p1 = Some (ok (obj_of (collapse_members kvs), p2))" "js_lookahead p2 = RightBrace" "holds p2 s"
    by blast
  have "\<exists>p'. match F m RightBrace p2 = Some (ok p') \<and> looking F s p' \<and> js_int p' = js_int p2"
    by (rule close [OF p2(2,3) 7(4)]) (use 7(5) n in simp)
  then show ?case using p(1) p1 p2(1) by (auto simp: n parse_value.simps)
next
  case 8
  then show ?case by simp
next
  case (9 e es)
  let ?t = "(if es \<noteq> [] then '','' else []) @ serialize_items F es @ '']'' @ s"
  obtain m where n: "n = Suc m" using 9(6) by (cases n) auto
  have e: "safe_element e" "looking F (serialize F e @ ?t) p" "delim ?t" using 9(3,5) by (cases "es = []"; simp)+
  have len: "2 * length (serialize F e @ ?t) + 4 \<le> m" using 9(6) n by (cases "es = []") simp_all
  obtain p1 where p1: "parse_value F m Null p = Some (ok (collapse e, p1))" "looking F ?t p1"
    using 9(1) [OF e len] by blast
  have start: "js_lookahead p \<noteq> RightBracket \<and> js_lookahead p \<noteq> Eof"
    using looking_value [OF e] by (auto simp: starts_value_def)
  show ?case
  proof (cases es)
    case Nil
    then have "js_lookahead p1 = RightBracket \<and> holds p1 s"
      using p1(2) looking_punctuation [of F "CHR '']''" s p1 RightBracket] by (simp add: punctuation_def)
    then show ?thesis using start p1(1) Nil
      by (simp add: n parse_array.simps emplace_back_arr_of)
  next
    case (Cons b bs)
    have "js_lookahead p1 = Comma \<and> holds p1 (serialize_items F es @ '']'' @ s)"
      using p1(2) looking_punctuation [of F "CHR '',''" "serialize_items F es @ '']'' @ s" p1 Comma] Cons by (simp add: punctuation_def)
    then have c: "js_lookahead p1 = Comma" "holds p1 (serialize F b @ (if bs \<noteq> [] then '','' else []) @ serialize_items F bs @ '']'' @ s)"
      using Cons by simp_all
    have "\<exists>p2. match F m Comma p1 = Some (ok p2)
        \<and> looking F (serialize F b @ (if bs \<noteq> [] then '','' else []) @ serialize_items F bs @ '']'' @ s) p2"
      by (rule match_value [OF c(1) _ c(2)]) (use 9(3) len Cons in auto)
    then obtain p2 where p2: "match F m Comma p1 = Some (ok p2)" "looking F (serialize_items F es @ '']'' @ s) p2"
      using Cons by auto
    have "\<exists>p'. parse_array F m (arr_of (acc @ [collapse e])) p2 = Some (ok (arr_of ((acc @ [collapse e]) @ collapse_items es), p'))
        \<and> js_lookahead p' = RightBracket \<and> holds p' s"
      by (rule 9(2)) (use 9(3) p2(2) len Cons in simp_all)
    then show ?thesis using start p1(1) c(1) p2(1)
      by (auto simp: n parse_array.simps emplace_back_arr_of)
  qed
next
  case 10
  then show ?case by simp
next
  case (11 k v kvs)
  let ?t = "serialize_members F False kvs @ ''}'' @ s"
  obtain m where n: "n = Suc m" using 11(7) by (cases n) auto
  have key: "js_lookahead p = StringToken" "js_token p = k" "holds p (CHR '':'' # serialize F v @ ?t)"
    using looking_key [of F k "'':'' @ serialize F v @ ?t" p] 11(3,6) by simp_all
  have v: "safe_element v" "delim ?t" using 11(3) by (auto simp: members_False)
  have len: "2 * length (serialize F v @ ?t) + 2 * length k + 11 \<le> n" using 11(7) by simp
  obtain p1 where p1: "match F m StringToken p = Some (ok p1)" "js_lookahead p1 = Colon" "holds p1 (serialize F v @ ?t)"
    using match_punctuation [OF key(1,3), of Colon m F] len n by (auto simp: punctuation_def)
  obtain p2 where p2: "match F m Colon p1 = Some (ok p2)" "looking F (serialize F v @ ?t) p2"
    using match_value [OF p1(2) v(1) p1(3) v(2), of m] len n by auto
  obtain p3 where p3: "parse_value F m Null p2 = Some (ok (collapse v, p3))" "looking F ?t p3"
    using 11(1) [OF v(1) p2(2) v(2), of m] len n by auto
  have acc: "\<forall>k' \<in> set (map fst kacc). k' < k" using 11(4) by (auto simp: sorted_wrt_append)
  show ?case
  proof (cases kvs)
    case Nil
    then have "js_lookahead p3 = RightBrace \<and> holds p3 s"
      using p3(2) looking_punctuation [of F "CHR ''}''" s p3 RightBrace] by (simp add: punctuation_def)
    then show ?thesis using key p1(1) p2(1) p3(1) Nil
      by (simp add: n parse_object.simps emplace_obj_of [OF acc] Let_def)
  next
    case (Cons b bs)
    obtain k2 v2 where b: "b = (k2, v2)" by (cases b)
    let ?r = "'':'' @ serialize F v2 @ serialize_members F False bs @ ''}'' @ s"
    have tx: "serialize_members F True kvs @ ''}'' @ s = [CHR 0x22] @ k2 @ [CHR 0x22] @ ?r" using Cons b by simp
    have "js_lookahead p3 = Comma \<and> holds p3 (serialize_members F True kvs @ ''}'' @ s)"
      using p3(2) looking_punctuation [of F "CHR '',''" "serialize_members F True kvs @ ''}'' @ s" p3 Comma] Cons
      by (simp add: punctuation_def members_False)
    then have c: "js_lookahead p3 = Comma" "holds p3 ([CHR 0x22] @ k2 @ [CHR 0x22] @ ?r)" unfolding tx by simp_all
    have "plain_key k2" using 11(3) Cons b by simp
    moreover have "length k2 + 4 + length ?r \<le> m" using len n Cons b by (simp add: members_False)
    ultimately obtain p4 where p4: "match F m Comma p3 = Some (ok p4)" "looking F (serialize_members F True kvs @ ''}'' @ s) p4"
      using match_key [OF c(1) _ c(2), of m F] unfolding tx by blast
    have "\<exists>p'. parse_object F m (obj_of (kacc @ [(k, collapse v)])) p4
        = Some (ok (obj_of ((kacc @ [(k, collapse v)]) @ collapse_members kvs), p')) \<and> js_lookahead p' = RightBrace \<and> holds p' s"
      by (rule 11(2)) (use 11(3,4) p4(2) len n Cons b in \<open>simp_all add: members_False\<close>)
    then show ?thesis using key p1(1) p2(1) p3(1) c(1) p4(1)
      by (auto simp: n parse_object.simps emplace_obj_of [OF acc] Let_def)
  qed
qed

section \<open>What is read back, and what is not\<close>

lemma delim_Nil [simp]: "delim []"
  by (simp add: delim_def next_char_def)

lemma parse_serialized_value:
  assumes "safe_element e" and "2 * length (serialize F e) + 6 \<le> n"
  shows "parse_json F n (serialize F e) Null = Some (ok (collapse e))"
proof -
  let ?p = "json_parser_new F (serialize F e)"
  have "holds ?p (serialize F e @ [])" by (simp add: holds_def json_parser_new_def)
  from fetch_value [OF assms(1) this delim_Nil] obtain p1
    where p1: "fetches F (length (serialize F e @ []) + 2) ?p p1" "looking F (serialize F e @ []) p1" by blast
  have "next_token F n ?p = Some (ok p1)" using p1(1) assms(2) by (simp add: fetches_def)
  moreover obtain p2 where p2: "parse_value F n Null p1 = Some (ok (collapse e, p2))" "looking F [] p2"
    using parse_serialized(1) [OF assms(1) p1(2) delim_Nil, of n] assms(2) by auto
  moreover have "js_lookahead p2 = Eof"
  proof (rule looking_token [OF p2(2), where k = 2])
    fix q :: "'a json_parser" assume "holds q []"
    then show "\<exists>p. fetches F 2 q p \<and> js_lookahead p = Eof"
      using fetch_punctuation [of q "[]" Eof F] by (auto simp: punctuation_def next_char_def numeral_2_eq_2)
  qed
  ultimately show ?thesis by (simp add: parse_json_def parse_def)
qed

text \<open>
  C19. A JSON value without floating point numbers, whose strings are UTF-8, whose
  integers can be negated and whose keys need no escape, is read back from its own
  serialisation, in a number of steps linear in its length, but for its empty arrays
  and objects, which all come back as null.
\<close>

theorem json_roundtrip:
  assumes "safe_element e" and "2 * length (serialize F e) + 6 \<le> n"
  shows "parse_json F n (serialize F e) Null = Some (ok (collapse e))"
  using assms by (rule parse_serialized_value)

theorem json_roundtrip_witness:
  "parse_json int_ops 100 (serialize int_ops (Object [(''a'', Array [Number_int (-12), Null]), (''b'', Array [])])) Null
   = Some (ok (Object [(''a'', Array [Number_int (-12), Null]), (''b'', Null)]))"
proof -
  let ?e = "Object [(''a'', Array [Number_int (-12), Null]), (''b'', Array [])] :: int element"
  have k: "plain_key ''a''" "plain_key ''b''"
  proof -
    have "utf8 97 = ''a''" "utf8 98 = ''b''" by code_simp+
    then have "''a'' = text_of [97]" "''b'' = text_of [98]" by simp_all
    moreover have "list_all plain_unicode [97]" "list_all plain_unicode [98]" by (simp_all add: plain_unicode_def valid_unicode_def)
    ultimately show "plain_key ''a''" "plain_key ''b''" unfolding plain_key_def by blast+
  qed
  have "safe_element ?e" using k by simp
  moreover have "2 * length (serialize int_ops ?e) + 6 \<le> 100" by code_simp
  ultimately have "parse_json int_ops 100 (serialize int_ops ?e) Null = Some (ok (collapse ?e))"
    by (rule json_roundtrip)
  then show ?thesis by (simp add: arr_of_def obj_of_def)
qed

lemma exp_sign_hangs:
  "lx_state lx = NumberExpSign \<Longrightarrow> lx_token lx = Undef \<Longrightarrow> holds p [] \<Longrightarrow> token_loop F n lx p = None"
proof (induction n arbitrary: p)
  case 0
  then show ?case by (simp add: token_loop.simps)
next
  case (Suc n)
  have "code (next_char []) < 128" by (simp add: next_char_def)
  from get_next_char_ascii [OF Suc.prems(3) this]
  have "get_next_char p = ok (0, advance [] p)" by (simp add: next_char_def ord32_literals)
  moreover have "lex_step F 0 lx (advance [] p) = ok (lx, advance [] p)"
    using Suc.prems(1) by (simp add: lex_step_def lex_exp_sign_def ord32_def between_def)
  moreover have "holds (advance [] p) []" using holds_advance [of "[]" p] by simp
  ultimately show ?case
    using token_loop_step [OF Suc.prems(2)] Suc.IH [of "advance [] p"] Suc.prems(1,2) by simp
qed

lemma number_hangs:
  assumes "lx_state lx = Number" "lx_token lx = Undef" "js_buffer p = []" "js_is p = ds @ ''e''"
    and "\<forall>c \<in> set ds. isdigit c" "js_int p = int a" "int (digits_from a ds) < 2 ^ 63"
  shows "token_loop F n lx p = None"
  using assms
proof (induction ds arbitrary: p a n)
  case Nil
  let ?p = "p\<lparr>js_is := [], js_token := js_token p @ ''e'', js_float := fo_of_int F (js_int p)\<rparr>"
  have "lex_step F (ord32 CHR ''e'') lx (p\<lparr>js_is := [], js_token := js_token p @ ''e''\<rparr>) = ok (lx\<lparr>lx_state := NumberExpSign\<rparr>, ?p)"
    using Nil.prems(1) by (simp add: lex_step_def lex_number_def goto_def ord32_literals between_def)
  moreover have "holds ?p []" using Nil.prems(3) by (simp add: holds_def)
  ultimately show ?case
    using token_loop_step [OF Nil.prems(2) get_next_char_plain [of p "CHR ''e''" "[]"]] Nil.prems(2,3,4)
      exp_sign_hangs [of "lx\<lparr>lx_state := NumberExpSign\<rparr>" ?p F]
    by (cases n) (simp_all add: token_loop.simps [of F 0])
next
  case (Cons c ds)
  let ?p = "p\<lparr>js_is := ds @ ''e'', js_token := js_token p @ [c], js_int := int (10 * a + digit_val c)\<rparr>"
  have c: "isdigit c" using Cons.prems(5) by simp
  have "10 * a + digit_val c \<le> digits_from a (c # ds)"
    using digits_from_ge [of "10 * a + digit_val c" ds] by (simp add: digits_from_def)
  with Cons.prems(7) have "int (10 * a) < 2 ^ 63" "int (10 * a + digit_val c) < 2 ^ 63" by linarith+
  then have "lex_step F (ord32 c) lx (p\<lparr>js_is := ds @ ''e'', js_token := js_token p @ [c]\<rparr>) = ok (lx, ?p)"
    using Cons.prems(1,6) digit_facts [OF c] by (simp add: lex_step_def lex_number_def int64_def)
  moreover have "token_loop F m lx ?p = None" for m
    using Cons.IH [of ?p "10 * a + digit_val c" m] Cons.prems by (auto simp: digits_from_def)
  ultimately show ?case
    using token_loop_step [OF Cons.prems(2) get_next_char_plain [of p c "ds @ ''e''"]] Cons.prems(2,3,4) digit_facts(1) [OF c]
    by (cases n) (simp_all add: token_loop.simps [of F 0])
qed

lemma exponent_hangs:
  assumes "0 < k" and "int k < 2 ^ 63"
  shows "parse_json F n (nat_to_string k @ ''e'') obj = None"
proof -
  obtain c ds where k: "nat_to_string k = c # ds" "isdigit c" "\<forall>c \<in> set ds. isdigit c" "c \<noteq> CHR ''0''"
      "digits_from (digit_val c) ds = k" using nat_to_string_lead [OF assms(1)] by blast
  let ?p = "json_parser_new F (c # ds @ ''e'')" and ?lx = "(lexer_init F)\<lparr>lx_state := Number\<rparr>"
  let ?q = "?p\<lparr>js_token := []\<rparr>"
  let ?r = "?q\<lparr>js_is := ds @ ''e'', js_token := [c], js_int := int (digit_val c)\<rparr>"
  have "get_next_char ?q = ok (ord32 c, ?q\<lparr>js_is := ds @ ''e'', js_token := [c]\<rparr>)"
    using get_next_char_plain [of ?q c "ds @ ''e''"] digit_facts(1) [OF k(2)] by (simp add: json_parser_new_def)
  moreover have "lex_step F (ord32 c) (lexer_init F) (?q\<lparr>js_is := ds @ ''e'', js_token := [c]\<rparr>) = ok (?lx, ?r)"
    using bspec [OF lex_start_digits nonzero_digits [OF k(2,4)], of "lexer_init F" "?q\<lparr>js_is := ds @ ''e'', js_token := [c]\<rparr>"]
      digit_facts(3) [OF k(2)]
    by (simp add: lex_step_def goto_def)
  moreover have "token_loop F m ?lx ?r = None" for m
  proof (rule number_hangs)
    show "int (digits_from (digit_val c) ds) < 2 ^ 63" using k(5) assms(2) by simp
  qed (use k(3) in \<open>simp_all add: json_parser_new_def lexer_init_def\<close>)
  ultimately have "token_loop F n (lexer_init F) ?q = None"
    using token_loop_step [of "lexer_init F" ?q "ord32 c" _ F ?lx ?r] by (cases n) (simp_all add: token_loop.simps [of F 0])
  then show ?thesis
    by (simp add: k(1) parse_json_def parse_def next_token_def get_next_token_def)
qed

text \<open>
  C20. The reader never returns on a number that breaks off after its \<open>e\<close>: for no number
  of steps does it give a value or an error.
\<close>

theorem json_exponent_hangs:
  assumes "0 < k" and "int k < 2 ^ 63"
  shows "parse_json F n (nat_to_string k @ ''e'') obj = None"
  using assms by (rule exponent_hangs)

theorem json_exponent_hangs_witness: "\<forall>n. parse_json int_ops n (nat_to_string 1 @ ''e'') Null = None"
  by (intro allI json_exponent_hangs) simp_all

lemma number_overflows:
  assumes "lx_state lx = Number" "lx_token lx = Undef" "js_buffer p = []" "js_is p = ds @ s"
    and "\<forall>c \<in> set ds. isdigit c" "js_int p = int a" "int a < 2 ^ 63" "2 ^ 63 \<le> int (digits_from a ds)" "length ds \<le> n"
  shows "token_loop F n lx p = Some (throw Undefined)"
  using assms
proof (induction ds arbitrary: p a n)
  case Nil
  then show ?case by (simp add: digits_from_def)
next
  case (Cons c ds)
  have c: "isdigit c" using Cons.prems(5) by simp
  let ?q = "p\<lparr>js_is := ds @ s, js_token := js_token p @ [c]\<rparr>" and ?b = "10 * a + digit_val c"
  obtain m where n: "n = Suc m" "length ds \<le> m" using Cons.prems(9) by (cases n) auto
  have get: "get_next_char p = ok (ord32 c, ?q)"
    using get_next_char_plain [of p c "ds @ s"] Cons.prems(3,4) digit_facts(1) [OF c] by simp
  show ?case
  proof (cases "int ?b < 2 ^ 63")
    case True
    then have "lex_step F (ord32 c) lx ?q = ok (lx, ?q\<lparr>js_int := int ?b\<rparr>)"
      using Cons.prems(1,6) digit_facts [OF c] by (simp add: lex_step_def lex_number_def int64_def)
    moreover have "token_loop F m lx (?q\<lparr>js_int := int ?b\<rparr>) = Some (throw Undefined)"
      by (rule Cons.IH [where a = ?b]) (use Cons.prems n(2) True in \<open>simp_all add: digits_from_def\<close>)
    ultimately show ?thesis using token_loop_step [OF Cons.prems(2) get] n(1) by simp
  next
    case False
    then have "lex_step F (ord32 c) lx ?q = throw Undefined"
      using Cons.prems(1,6) digit_facts [OF c] by (simp add: lex_step_def lex_number_def int64_def bind_res_def)
    then show ?thesis using get Cons.prems(2) n(1) by (simp add: token_loop.simps)
  qed
qed

lemma digit_small: "isdigit c \<Longrightarrow> digit_val c < 10"
  unfolding isdigit_def digit_val_def by linarith

text \<open>
  An integer that does not fit an \<open>int64_t\<close> is undefined behaviour, and so is the
  smallest \<open>int64_t\<close>, which the writer itself produces.
\<close>

lemma json_integer_overflow:
  assumes "i \<ge> 2 ^ 63 \<or> i \<le> - (2 ^ 63)" and "length (int_to_string i) \<le> n"
  shows "parse_json F n (serialize F (Number_int i)) obj = Some (throw Undefined)"
proof -
  let ?k = "nat \<bar>i\<bar>"
  have big: "0 < ?k" "2 ^ 63 \<le> int ?k" using assms(1) by auto
  obtain c ds where k: "nat_to_string ?k = c # ds" "isdigit c" "\<forall>c \<in> set ds. isdigit c" "c \<noteq> CHR ''0''"
      "digits_from (digit_val c) ds = ?k" using nat_to_string_lead [OF big(1)] by blast
  let ?st = "\<lambda>s. (json_parser_new F s)\<lparr>js_token := []\<rparr>"
  have num: "token_loop F m lx p = Some (throw Undefined)"
    if "lx_state lx = Number" "lx_token lx = Undef" "js_buffer p = []" "js_is p = ds" "js_int p = int (digit_val c)" "length ds \<le> m" for m lx p
  proof (rule number_overflows [where ds = ds and s = "[]" and a = "digit_val c"])
    show "2 ^ 63 \<le> int (digits_from (digit_val c) ds)" using big(2) k(5) by simp
    show "int (digit_val c) < 2 ^ 63" using digit_small [OF k(2)] by simp
  qed (use that k(3) in simp_all)
  have "token_loop F n (lexer_init F) (?st (int_to_string i)) = Some (throw Undefined)"
  proof (cases "i < 0")
    case False
    then have s: "int_to_string i = c # ds" using k(1) by (simp add: int_to_string_def)
    obtain m where n: "n = Suc m" "length ds \<le> m" using assms(2) s by (cases n) auto
    let ?q = "(?st (c # ds))\<lparr>js_is := ds, js_token := [c]\<rparr>"
    have "get_next_char (?st (c # ds)) = ok (ord32 c, ?q)"
      using get_next_char_plain [of "?st (c # ds)" c ds] digit_facts(1) [OF k(2)] by (simp add: json_parser_new_def)
    moreover have "lex_step F (ord32 c) (lexer_init F) ?q = ok ((lexer_init F)\<lparr>lx_state := Number\<rparr>, ?q\<lparr>js_int := int (digit_val c)\<rparr>)"
      using bspec [OF lex_start_digits nonzero_digits [OF k(2,4)], of "lexer_init F" ?q] digit_facts(3) [OF k(2)]
      by (simp add: lex_step_def goto_def)
    ultimately show ?thesis
      using token_loop_step [of "lexer_init F"] num n by (simp add: s json_parser_new_def)
  next
    case True
    then have s: "int_to_string i = CHR ''-'' # c # ds" using k(1) by (simp add: int_to_string_def)
    obtain m where n: "n = Suc (Suc m)" "length ds \<le> m" using assms(2) s by (cases n; cases "n - 1") auto
    let ?p = "?st (CHR ''-'' # c # ds)"
    let ?q = "?p\<lparr>js_is := c # ds, js_token := ''-''\<rparr>" and ?lx = "(lexer_init F)\<lparr>lx_state := Negative\<rparr>"
    let ?r = "?q\<lparr>js_is := ds, js_token := ''-'' @ [c]\<rparr>"
    have g1: "get_next_char ?p = ok (ord32 CHR ''-'', ?q)"
      using get_next_char_plain [of ?p "CHR ''-''" "c # ds"] by (simp add: json_parser_new_def)
    have s1: "lex_step F (ord32 CHR ''-'') (lexer_init F) ?q = ok (?lx, ?q)"
      by (simp add: lex_step_def lex_start_def ord32_literals goto_def)
    have g2: "get_next_char ?q = ok (ord32 c, ?r)"
      using get_next_char_plain [of ?q c ds] digit_facts(1) [OF k(2)] by (simp add: json_parser_new_def)
    have s2: "lex_step F (ord32 c) ?lx ?r = ok (?lx\<lparr>lx_negative := True, lx_state := Number\<rparr>, ?r\<lparr>js_int := int (digit_val c)\<rparr>)"
      using bspec [OF lex_negative_digits nonzero_digits [OF k(2,4)], of ?lx ?r] digit_facts(3) [OF k(2)]
      by (simp add: lex_step_def goto_def)
    have "token_loop F (Suc (Suc m)) (lexer_init F) ?p = token_loop F (Suc m) ?lx ?q"
      by (rule token_loop_step [OF _ g1 s1]) simp
    also have "\<dots> = token_loop F m (?lx\<lparr>lx_negative := True, lx_state := Number\<rparr>) (?r\<lparr>js_int := int (digit_val c)\<rparr>)"
      by (rule token_loop_step [OF _ g2 s2]) simp
    also have "\<dots> = Some (throw Undefined)"
      by (rule num) (use n(2) in \<open>simp_all add: json_parser_new_def lexer_init_def\<close>)
    finally show ?thesis using n(1) s by simp
  qed
  then show ?thesis by (simp add: parse_json_def parse_def next_token_def get_next_token_def)
qed

lemma json_integer_overflow_witness:
  "parse_json int_ops 30 (serialize int_ops (Number_int (- 9223372036854775808))) Null = Some (throw Undefined)"
proof (rule json_integer_overflow)
  show "length (int_to_string (- 9223372036854775808)) \<le> 30"
    by (simp add: int_to_string_def nat_to_string.simps)
qed simp

end
