(* ===== verification/Doctype.thy ===== *)
theory Doctype
  imports Prelude Char_Class
begin

text \<open>
  The document type of \<open>lib-xml/src/doctype.cpp\<close>: content specifications, the states
  that follow the children of an element through them, the validator, and the checks of
  attribute values. A class of states is a constructor; \<open>allow\<close>, which changes the
  object it is called on, returns its two flags and the new state. The iterator
  \<open>m_next\<close> and the pointer \<open>m_sub\<close> are indices into the list of sub-states; using
  \<open>m_next\<close> at the end of the list is undefined.
\<close>

section \<open>Content specifications\<close>

datatype content_spec_type = Spec_type_Empty | Spec_type_Any | Spec_type_Mixed | Spec_type_Children

datatype content_spec =
    Spec_any
  | Spec_empty
  | Spec_element string
  | Spec_repeated content_spec char
  | Spec_seq "content_spec list"
  | Spec_choice "content_spec list" bool

text \<open>\<open>m_content_spec\<close>: a sequence and a choice take it from their first member.\<close>

fun get_content_spec :: "content_spec \<Rightarrow> content_spec_type" where
  "get_content_spec Spec_any = Spec_type_Any"
| "get_content_spec Spec_empty = Spec_type_Empty"
| "get_content_spec (Spec_element name) = Spec_type_Children"
| "get_content_spec (Spec_repeated a r) = get_content_spec a"
| "get_content_spec (Spec_seq []) = Spec_type_Children"
| "get_content_spec (Spec_seq (a # as)) = get_content_spec a"
| "get_content_spec (Spec_choice as True) = Spec_type_Mixed"
| "get_content_spec (Spec_choice [] False) = Spec_type_Children"
| "get_content_spec (Spec_choice (a # as) False) = get_content_spec a"

definition spec_add :: "content_spec \<Rightarrow> content_spec \<Rightarrow> content_spec" where
  "spec_add c a =
     (case c of
        Spec_seq as \<Rightarrow> Spec_seq (as @ [a])
      | Spec_choice as mixed \<Rightarrow> Spec_choice (as @ [a]) mixed
      | _ \<Rightarrow> c)"

fun element_content :: "content_spec \<Rightarrow> bool" where
  "element_content Spec_any = False"
| "element_content Spec_empty = False"
| "element_content (Spec_element name) = True"
| "element_content (Spec_repeated a r) = element_content a"
| "element_content (Spec_seq as) = (\<forall>a \<in> set as. element_content a)"
| "element_content (Spec_choice as mixed) = (if mixed then False else \<forall>a \<in> set as. element_content a)"

section \<open>States\<close>

datatype state =
    State_any
  | State_empty
  | State_element string bool
  | State_zero_or_once state nat
  | State_repeated_any state nat
  | State_at_least_once state nat
  | State_seq "state list" nat nat
  | State_choice "state list" bool nat nat

fun create_state :: "content_spec \<Rightarrow> state res"
  and create_states :: "content_spec list \<Rightarrow> state list res" where
  "create_state Spec_any = ok State_any"
| "create_state Spec_empty = ok State_empty"
| "create_state (Spec_element name) = ok (State_element name False)"
| "create_state (Spec_repeated a r) =
     (if r = CHR ''?'' then bind_res (create_state a) (\<lambda>sub. ok (State_zero_or_once sub 0))
      else if r = CHR ''*'' then bind_res (create_state a) (\<lambda>sub. ok (State_repeated_any sub 0))
      else if r = CHR ''+'' then bind_res (create_state a) (\<lambda>sub. ok (State_at_least_once sub 0))
      else throw Assertion)"
| "create_state (Spec_seq as) = bind_res (create_states as) (\<lambda>ss. ok (State_seq ss 0 0))"
| "create_state (Spec_choice as mixed) = bind_res (create_states as) (\<lambda>ss. ok (State_choice ss mixed 0 0))"
| "create_states [] = ok []"
| "create_states (a # as) =
     bind_res (create_state a) (\<lambda>s. bind_res (create_states as) (\<lambda>ss. ok (s # ss)))"

fun reset :: "state \<Rightarrow> state" where
  "reset State_any = State_any"
| "reset State_empty = State_empty"
| "reset (State_element name done) = State_element name False"
| "reset (State_zero_or_once sub st) = State_zero_or_once (reset sub) 0"
| "reset (State_repeated_any sub st) = State_repeated_any (reset sub) 0"
| "reset (State_at_least_once sub st) = State_at_least_once (reset sub) 0"
| "reset (State_seq ss next st) = State_seq (map reset ss) next 0"
| "reset (State_choice ss mixed st sub) = State_choice (map reset ss) mixed 0 sub"

fun allow_char_data :: "state \<Rightarrow> bool" where
  "allow_char_data State_any = True"
| "allow_char_data State_empty = False"
| "allow_char_data (State_element name done) = False"
| "allow_char_data (State_zero_or_once sub st) = allow_char_data sub"
| "allow_char_data (State_repeated_any sub st) = allow_char_data sub"
| "allow_char_data (State_at_least_once sub st) = allow_char_data sub"
| "allow_char_data (State_seq ss next st) = (\<exists>s \<in> set ss. allow_char_data s)"
| "allow_char_data (State_choice ss mixed st sub) = mixed"

fun allow_empty :: "state \<Rightarrow> bool" where
  "allow_empty State_any = True"
| "allow_empty State_empty = True"
| "allow_empty (State_element name done) = False"
| "allow_empty (State_zero_or_once sub st) = True"
| "allow_empty (State_repeated_any sub st) = True"
| "allow_empty (State_at_least_once sub st) = allow_empty sub"
| "allow_empty (State_seq ss next st) = (\<forall>s \<in> set ss. allow_empty s)"
| "allow_empty (State_choice ss mixed st sub) = (mixed \<or> (\<exists>s \<in> set ss. allow_empty s))"

definition must_be_empty :: "state \<Rightarrow> bool" where
  "must_be_empty s \<longleftrightarrow> s = State_empty"

text \<open>
  \<open>allow\<close>: whether the child is accepted, whether the state can end here, and the new
  state. The calls on sub-states are an argument of its parts: \<open>seq_allow\<close> is the loop of
  a sequence from the member \<open>m_next\<close> points to, \<open>choice_allow\<close> the loop over the
  alternatives, \<open>nth_allow\<close> the call on \<open>m_sub\<close>, \<open>loop_allow\<close> the second attempt of a
  repetition after \<open>reset\<close>.
\<close>

type_synonym 'a allowed = "(bool \<times> bool \<times> 'a) res"

fun seq_allow :: "(state \<Rightarrow> state allowed) \<Rightarrow> nat \<Rightarrow> state list \<Rightarrow> (nat \<times> state list) allowed" where
  "seq_allow f next [] = ok (False, True, 0, [])"
| "seq_allow f (Suc next) (s # ss) =
     bind_res (seq_allow f next ss) (\<lambda>(result, done, next, ss). ok (result, done, Suc next, s # ss))"
| "seq_allow f 0 (s # ss) =
     bind_res (f s) (\<lambda>(result, done, s).
       if \<not> result \<and> done then
         bind_res (seq_allow f 0 ss) (\<lambda>(result, done, next, ss). ok (result, done, Suc next, s # ss))
       else ok (result, done, 0, s # ss))"

fun choice_allow :: "(state \<Rightarrow> state allowed) \<Rightarrow> bool \<Rightarrow> state list \<Rightarrow> (nat \<times> state list) allowed" where
  "choice_allow f done [] = ok (False, done, 0, [])"
| "choice_allow f done (s # ss) =
     bind_res (f s) (\<lambda>(result, done, s).
       if result then ok (result, done, 0, s # ss)
       else bind_res (choice_allow f done ss) (\<lambda>(result, done, sub, ss). ok (result, done, Suc sub, s # ss)))"

definition nth_allow :: "(state \<Rightarrow> state allowed) \<Rightarrow> nat \<Rightarrow> state list \<Rightarrow> (state list) allowed" where
  "nth_allow f sub ss =
     (if sub < length ss
      then bind_res (f (ss ! sub)) (\<lambda>(result, done, s). ok (result, done, ss[sub := s]))
      else throw Undefined)"

definition loop_allow :: "(state \<Rightarrow> state allowed) \<Rightarrow> bool \<Rightarrow> state \<Rightarrow> (bool \<times> state) allowed" where
  "loop_allow f ends sub =
     bind_res (f sub) (\<lambda>(result, done, sub).
       if \<not> result \<and> done then
         bind_res (f (reset sub)) (\<lambda>(result, done, sub).
           ok (result, if \<not> result \<and> ends then True else done, result, sub))
       else ok (result, done, False, sub))"

text \<open>The calls go down a state; their number is bounded by its depth.\<close>

fun allow_upto :: "nat \<Rightarrow> string \<Rightarrow> state \<Rightarrow> state allowed" where
  "allow_upto 0 name s = throw Undefined"
| "allow_upto (Suc n) name State_any = ok (True, True, State_any)"
| "allow_upto (Suc n) name State_empty = ok (False, True, State_empty)"
| "allow_upto (Suc n) name (State_element m_name m_done) =
     (let result = \<not> m_done \<and> m_name = name; m_done = (m_done \<or> result)
      in ok (result, m_done, State_element m_name m_done))"
| "allow_upto (Suc n) name (State_zero_or_once sub st) =
     bind_res (allow_upto n name sub) (\<lambda>(result, done, sub).
       if st = 0 then
         (if result then ok (result, done, State_zero_or_once sub 1)
          else ok (result, True, State_zero_or_once sub st))
       else ok (result, done, State_zero_or_once sub st))"
| "allow_upto (Suc n) name (State_repeated_any sub st) =
     (if st = 0 then
        bind_res (allow_upto n name sub) (\<lambda>(result, done, sub).
          if result then ok (result, done, State_repeated_any sub 1)
          else ok (result, True, State_repeated_any sub st))
      else
        bind_res (loop_allow (allow_upto n name) True sub) (\<lambda>(result, done, again, sub).
          ok (result, done, State_repeated_any sub st)))"
| "allow_upto (Suc n) name (State_at_least_once sub st) =
     (if st = 0 then
        bind_res (allow_upto n name sub) (\<lambda>(result, done, sub).
          ok (result, done, State_at_least_once sub (if result then 1 else st)))
      else
        bind_res (loop_allow (allow_upto n name) (st = 2) sub) (\<lambda>(result, done, again, sub).
          ok (result, done, State_at_least_once sub (if again then 2 else st))))"
| "allow_upto (Suc n) name (State_seq ss next st) =
     (if st = 0 \<and> ss = [] then ok (False, True, State_seq ss 0 st)
      else (let next = (if st = 0 then 0 else next) in
        if next < length ss then
          bind_res (seq_allow (allow_upto n name) next ss) (\<lambda>(result, done, next, ss).
            ok (result, done, State_seq ss next 1))
        else throw Undefined))"
| "allow_upto (Suc n) name (State_choice ss mixed st sub) =
     (if st = 0 then
        bind_res (choice_allow (allow_upto n name) False ss) (\<lambda>(result, done, choice, ss).
          if result then ok (result, done, State_choice ss mixed 1 choice)
          else ok (result, done, State_choice ss mixed st sub))
      else
        bind_res (nth_allow (allow_upto n name) sub ss) (\<lambda>(result, done, ss).
          ok (result, done, State_choice ss mixed st sub)))"

fun depth :: "state \<Rightarrow> nat" where
  "depth State_any = 1"
| "depth State_empty = 1"
| "depth (State_element name done) = 1"
| "depth (State_zero_or_once sub st) = Suc (depth sub)"
| "depth (State_repeated_any sub st) = Suc (depth sub)"
| "depth (State_at_least_once sub st) = Suc (depth sub)"
| "depth (State_seq ss next st) = Suc (sum_list (map depth ss))"
| "depth (State_choice ss mixed st sub) = Suc (sum_list (map depth ss))"

definition allow :: "string \<Rightarrow> state \<Rightarrow> state allowed" where
  "allow name s = allow_upto (depth s) name s"

section \<open>The validator\<close>

text \<open>An element that is not declared, or has no content specification, allows anything.\<close>

record validator =
  vd_state :: state
  vd_allowed :: "content_spec option"
  vd_done :: bool

definition validator_new :: "content_spec \<Rightarrow> validator res" where
  "validator_new allowed =
     bind_res (create_state allowed) (\<lambda>s. ok \<lparr>vd_state = s, vd_allowed = Some allowed, vd_done = allow_empty s\<rparr>)"

definition validator_of_element :: "content_spec option \<Rightarrow> validator res" where
  "validator_of_element e =
     (case e of
        None \<Rightarrow> ok \<lparr>vd_state = State_any, vd_allowed = None, vd_done = True\<rparr>
      | Some allowed \<Rightarrow> validator_new allowed)"

definition validator_allow :: "string \<Rightarrow> validator \<Rightarrow> (bool \<times> validator) res" where
  "validator_allow name v =
     bind_res (allow name (vd_state v)) (\<lambda>(result, done, s). ok (result, v\<lparr>vd_state := s, vd_done := done\<rparr>))"

definition validator_done :: "validator \<Rightarrow> bool" where
  "validator_done v = vd_done v"

definition validator_content_spec :: "validator \<Rightarrow> content_spec_type" where
  "validator_content_spec v = (case vd_allowed v of Some a \<Rightarrow> get_content_spec a | None \<Rightarrow> Spec_type_Any)"

section \<open>The language of a content specification\<close>

definition conc :: "string list set \<Rightarrow> string list set \<Rightarrow> string list set" where
  "conc A B = {u @ v | u v. u \<in> A \<and> v \<in> B}"

inductive_set star :: "string list set \<Rightarrow> string list set" for A where
  star_Nil: "[] \<in> star A"
| star_append: "u \<in> A \<Longrightarrow> v \<in> star A \<Longrightarrow> u @ v \<in> star A"

definition concs :: "string list set list \<Rightarrow> string list set" where
  "concs As = foldr conc As {[]}"

fun lang :: "content_spec \<Rightarrow> string list set" where
  "lang Spec_any = UNIV"
| "lang Spec_empty = {[]}"
| "lang (Spec_element name) = {[name]}"
| "lang (Spec_repeated a r) =
     (if r = CHR ''?'' then insert [] (lang a)
      else if r = CHR ''*'' then star (lang a)
      else conc (lang a) (star (lang a)))"
| "lang (Spec_seq as) = concs (map lang as)"
| "lang (Spec_choice as mixed) = (\<Union>a \<in> set as. lang a) \<union> (if mixed then {[]} else {})"

text \<open>The specifications the parser builds: known repetitions, and no choice without alternatives.\<close>

fun proper_spec :: "content_spec \<Rightarrow> bool" where
  "proper_spec (Spec_repeated a r) = (r \<in> set ''?*+'' \<and> proper_spec a)"
| "proper_spec (Spec_seq as) = (\<forall>a \<in> set as. proper_spec a)"
| "proper_spec (Spec_choice as mixed) = ((mixed \<or> as \<noteq> []) \<and> (\<forall>a \<in> set as. proper_spec a))"
| "proper_spec c = True"

lemma concI: "u \<in> A \<Longrightarrow> v \<in> B \<Longrightarrow> u @ v \<in> conc A B"
  by (auto simp: conc_def)

lemma Nil_conc [simp]: "[] \<in> conc A B \<longleftrightarrow> [] \<in> A \<and> [] \<in> B"
  by (auto simp: conc_def)

lemma Cons_conc: "w \<in> conc A B \<Longrightarrow> (\<And>u. u \<in> A \<Longrightarrow> x # u \<in> A') \<Longrightarrow> x # w \<in> conc A' B"
  unfolding conc_def by (auto simp: Cons_eq_append_conv intro: append_Cons [symmetric])

lemma conc_empty [simp]: "conc A B = {} \<longleftrightarrow> A = {} \<or> B = {}"
  by (auto simp: conc_def)

lemma conc_Nil2: "[] \<in> A \<Longrightarrow> w \<in> B \<Longrightarrow> w \<in> conc A B"
  using concI [of "[]" A w B] by simp

lemma concs_simps [simp]: "concs [] = {[]}" "concs (A # As) = conc A (concs As)"
  by (simp_all add: concs_def)

lemma star_Nil_in [simp]: "[] \<in> star A" "star A \<noteq> {}"
  using star_Nil [of A] by auto

lemma conc_star: "w \<in> conc A (star A) \<Longrightarrow> w \<in> star A"
  by (auto simp: conc_def intro: star_append)

lemma star_unfold: "star A = insert [] (conc A (star A))"
proof (intro equalityI subsetI)
  fix w assume "w \<in> star A"
  then show "w \<in> insert [] (conc A (star A))" by cases (auto intro: concI)
qed (auto intro: star_Nil conc_star)

lemma concs_empty [simp]: "concs As = {} \<longleftrightarrow> {} \<in> set As"
  by (induction As) auto

lemma Nil_concs [simp]: "[] \<in> concs As \<longleftrightarrow> (\<forall>A \<in> set As. [] \<in> A)"
  by (induction As) auto

section \<open>What a state still accepts\<close>

fun shape :: "state \<Rightarrow> content_spec" where
  "shape State_any = Spec_any"
| "shape State_empty = Spec_empty"
| "shape (State_element name done) = Spec_element name"
| "shape (State_zero_or_once sub st) = Spec_repeated (shape sub) (CHR ''?'')"
| "shape (State_repeated_any sub st) = Spec_repeated (shape sub) (CHR ''*'')"
| "shape (State_at_least_once sub st) = Spec_repeated (shape sub) (CHR ''+'')"
| "shape (State_seq ss next st) = Spec_seq (map shape ss)"
| "shape (State_choice ss mixed st sub) = Spec_choice (map shape ss) mixed"

fun spec_depth :: "content_spec \<Rightarrow> nat" where
  "spec_depth (Spec_repeated a r) = Suc (spec_depth a)"
| "spec_depth (Spec_seq as) = Suc (sum_list (map spec_depth as))"
| "spec_depth (Spec_choice as mixed) = Suc (sum_list (map spec_depth as))"
| "spec_depth c = 1"

fun rest :: "state \<Rightarrow> string list set" where
  "rest State_any = UNIV"
| "rest State_empty = {[]}"
| "rest (State_element name done) = (if done then {[]} else {[name]})"
| "rest (State_zero_or_once sub st) = (if st = 0 then insert [] (rest sub) else rest sub)"
| "rest (State_repeated_any sub st) =
     (if st = 0 then insert [] (conc (rest sub) (star (lang (shape sub))))
      else conc (rest sub) (star (lang (shape sub))))"
| "rest (State_at_least_once sub st) = conc (rest sub) (star (lang (shape sub)))"
| "rest (State_seq ss next st) = concs (drop (if st = 0 then 0 else next) (map rest ss))"
| "rest (State_choice ss mixed st sub) =
     (if st = 0 then (\<Union>s \<in> set ss. rest s) \<union> (if mixed then {[]} else {})
      else if sub < length ss then (map rest ss) ! sub else {})"

text \<open>A state that can be asked again: no iterator it would use is at the end of its list.\<close>

fun usable :: "state \<Rightarrow> bool" where
  "usable (State_zero_or_once sub st) = usable sub"
| "usable (State_repeated_any sub st) = usable sub"
| "usable (State_at_least_once sub st) = usable sub"
| "usable (State_seq ss next st) = ((st = 0 \<or> next < length ss) \<and> list_all id (drop (if st = 0 then 0 else next) (map usable ss)))"
| "usable (State_choice ss mixed st sub) =
     (if st = 0 then \<forall>s \<in> set ss. usable s else sub < length ss \<and> (map usable ss) ! sub)"
| "usable s = True"

lemma depth_shape: "depth s = spec_depth (shape s)"
  by (induction s rule: depth.induct) (auto intro!: arg_cong [where f = sum_list])

lemma shape_reset [simp]: "shape (reset s) = shape s"
  by (induction s rule: reset.induct) auto

lemma depth_reset [simp]: "depth (reset s) = depth s"
  by (simp add: depth_shape)

lemma usable_reset [simp]: "usable (reset s)"
  by (induction s rule: reset.induct) (auto simp: list_all_iff)

lemma rest_reset [simp]: "rest (reset s) = lang (shape s)"
proof (induction s rule: reset.induct)
  case (5 sub st)
  then show ?case by (simp add: star_unfold [symmetric])
next
  case (7 ss nxt st)
  then have "map rest (map reset ss) = map lang (map shape ss)" by simp
  then show ?case by (simp del: map_map)
qed auto

lemma create_state_shape:
  "create_state c = ok s \<Longrightarrow> shape s = c \<and> reset s = s"
  "create_states cs = ok ss \<Longrightarrow> map shape ss = cs \<and> map reset ss = ss"
  by (induction c and cs arbitrary: s and ss rule: create_state_create_states.induct)
    (auto simp: bind_simps split: if_splits)

lemma create_state_ok:
  "proper_spec c \<Longrightarrow> \<exists>s. create_state c = ok s"
  "(\<forall>c \<in> set cs. proper_spec c) \<Longrightarrow> \<exists>ss. create_states cs = ok ss"
  by (induction c and cs rule: create_state_create_states.induct) fastforce+

lemma lang_nonempty: "proper_spec c \<Longrightarrow> lang c \<noteq> {}"
  by (induction c rule: lang.induct) (auto simp: image_iff)

lemma rest_nonempty: "usable s \<Longrightarrow> proper_spec (shape s) \<Longrightarrow> rest s \<noteq> {}"
proof (induction s rule: rest.induct)
  case (7 ss nxt st)
  let ?n = "if st = 0 then 0 else nxt"
  have "rest s \<noteq> {}" if "s \<in> set (drop ?n ss)" for s
    using 7 that by (auto simp: list_all_iff drop_map dest: in_set_dropD)
  then have "\<forall>s \<in> set (drop ?n ss). {} \<noteq> rest s" by metis
  then show ?case by (auto simp: drop_map)
next
  case (8 ss mixed st sub)
  then show ?case by (cases ss; cases "st = 0") (auto simp: nth_Cons split: nat.splits)
qed auto

section \<open>What \<open>allow\<close> promises\<close>

definition answers :: "string \<Rightarrow> state \<Rightarrow> bool \<times> bool \<times> state \<Rightarrow> bool" where
  "answers name s = (\<lambda>(result, done, s').
     shape s' = shape s
     \<and> (result \<longrightarrow> done \<and> (\<forall>w \<in> rest s'. name # w \<in> rest s))
     \<and> (\<not> result \<and> done \<longrightarrow> [] \<in> rest s))"

definition answers_all :: "string \<Rightarrow> (state \<Rightarrow> state allowed) \<Rightarrow> bool" where
  "answers_all name f \<longleftrightarrow> (\<forall>s t. f s = ok t \<longrightarrow> answers name s t)"

lemma answers_allD: "answers_all name f \<Longrightarrow> f s = ok (r, d, s') \<Longrightarrow> answers name s (r, d, s')"
  by (auto simp: answers_all_def)

lemma seq_answers:
  assumes "answers_all name f" "seq_allow f i ss = ok (r, d, j, ss')"
  shows "map shape ss' = map shape ss
    \<and> (r \<longrightarrow> d \<and> (\<forall>w \<in> concs (drop j (map rest ss')). name # w \<in> concs (drop i (map rest ss))))
    \<and> (\<not> r \<and> d \<longrightarrow> [] \<in> concs (drop i (map rest ss)))"
  using assms(2)
proof (induction ss arbitrary: i r d j ss')
  case Nil
  then show ?case by (cases i) simp_all
next
  case (Cons s ss)
  show ?case
  proof (cases i)
    case (Suc k)
    then obtain j0 ss0 where g: "seq_allow f k ss = ok (r, d, j0, ss0)" "j = Suc j0" "ss' = s # ss0"
      using Cons.prems by (auto simp: bind_simps)
    then show ?thesis using Cons.IH [OF g(1)] Suc by simp
  next
    case 0
    then obtain r1 d1 s1 where f: "f s = ok (r1, d1, s1)" using Cons.prems by (auto simp: bind_simps)
    note ans = answers_allD [OF assms(1) f, unfolded answers_def, simplified]
    show ?thesis
    proof (cases "\<not> r1 \<and> d1")
      case True
      then obtain j0 ss0 where g: "seq_allow f 0 ss = ok (r, d, j0, ss0)" "j = Suc j0" "ss' = s1 # ss0"
        using Cons.prems f 0 by (auto simp: bind_simps)
      have "[] \<in> rest s" using ans True by simp
      then show ?thesis
        using Cons.IH [OF g(1)] ans 0 g(2,3) by (simp add: conc_Nil2)
    next
      case False
      then have "r = r1" "d = d1" "j = 0" "ss' = s1 # ss" using Cons.prems f 0 by auto
      then show ?thesis using ans 0 False by (auto intro: Cons_conc)
    qed
  qed
qed

lemma choice_answers:
  assumes "answers_all name f" "choice_allow f d0 ss = ok (r, d, k, ss')"
  shows "map shape ss' = map shape ss
    \<and> (r \<longrightarrow> d \<and> k < length ss' \<and> (\<forall>w \<in> rest (ss' ! k). \<exists>s \<in> set ss. name # w \<in> rest s))
    \<and> (\<not> r \<and> d \<longrightarrow> d0 \<or> (\<exists>s \<in> set ss. [] \<in> rest s))"
  using assms(2)
proof (induction ss arbitrary: d0 r d k ss')
  case (Cons s ss)
  then obtain r1 d1 s1 where f: "f s = ok (r1, d1, s1)" by (auto simp: bind_simps)
  note ans = answers_allD [OF assms(1) f, unfolded answers_def, simplified]
  show ?case
  proof (cases r1)
    case True
    then show ?thesis using Cons.prems f ans by auto
  next
    case False
    then obtain k0 ss0 where g: "choice_allow f d1 ss = ok (r, d, k0, ss0)" "k = Suc k0" "ss' = s1 # ss0"
      using Cons.prems f by (auto simp: bind_simps)
    have "length ss0 = length ss" using Cons.IH [OF g(1)] by (metis length_map)
    then show ?thesis
      using Cons.IH [OF g(1)] ans False g(2,3) by auto
  qed
qed auto

lemma nth_answers:
  assumes "answers_all name f" "nth_allow f k ss = ok (r, d, ss')"
  shows "map shape ss' = map shape ss \<and> k < length ss
    \<and> (r \<longrightarrow> d \<and> (\<forall>w \<in> rest (ss' ! k). name # w \<in> rest (ss ! k)))
    \<and> (\<not> r \<and> d \<longrightarrow> [] \<in> rest (ss ! k))"
proof -
  obtain s' where f: "f (ss ! k) = ok (r, d, s')" "k < length ss" "ss' = ss[k := s']"
    using assms(2) by (auto simp: nth_allow_def bind_simps split: if_splits)
  note ans = answers_allD [OF assms(1) f(1), unfolded answers_def, simplified]
  have "map shape ss' = map shape ss"
    using ans f by (simp add: map_update list_update_same_conv)
  then show ?thesis using ans f(2,3) by simp
qed

lemma loop_answers:
  assumes "answers_all name f" "loop_allow f ends sub = ok (r, d, again, sub')"
  shows "shape sub' = shape sub
    \<and> (r \<longrightarrow> d \<and> (\<forall>w \<in> conc (rest sub') (star (lang (shape sub))). name # w \<in> conc (rest sub) (star (lang (shape sub)))))
    \<and> (\<not> r \<and> d \<longrightarrow> [] \<in> rest sub)"
proof -
  let ?S = "star (lang (shape sub))"
  obtain r1 d1 s1 where f: "f sub = ok (r1, d1, s1)" using assms(2) by (auto simp: loop_allow_def bind_simps)
  note ans = answers_allD [OF assms(1) f, unfolded answers_def, simplified]
  show ?thesis
  proof (cases "\<not> r1 \<and> d1")
    case False
    then have "r = r1" "d = d1" "sub' = s1" using assms(2) f by (auto simp: loop_allow_def)
    then show ?thesis using ans False by (auto intro: Cons_conc)
  next
    case True
    obtain r2 d2 where f2: "f (reset s1) = ok (r2, d2, sub')" "r = r2" "r \<longrightarrow> d = d2"
      using assms(2) f True by (auto simp: loop_allow_def bind_simps)
    note ans2 = answers_allD [OF assms(1) f2(1), unfolded answers_def, simplified]
    have e: "[] \<in> rest sub" using ans True by simp
    have "name # w \<in> conc (rest sub) ?S" if "r" "w \<in> conc (rest sub') ?S" for w
    proof -
      have "name # w \<in> conc (lang (shape sub)) ?S"
        using that f2(2) ans ans2 by (intro Cons_conc [where A = "rest sub'"]) auto
      then show ?thesis by (intro conc_Nil2 [OF e] conc_star)
    qed
    then show ?thesis using ans ans2 f2(2,3) e by auto
  qed
qed

lemma allow_upto_answers: "answers_all name (allow_upto n name)"
proof (induction n)
  case 0
  show ?case by (simp add: answers_all_def)
next
  case (Suc n)
  show ?case
    unfolding answers_all_def
  proof (intro allI impI)
    fix s t assume a: "allow_upto (Suc n) name s = ok t"
    obtain r d s' where t: "t = (r, d, s')" by (cases t)
    show "answers name s t"
    proof (cases s)
      case (State_element m b)
      then show ?thesis using a by (auto simp: answers_def Let_def)
    next
      case (State_zero_or_once sub st)
      then show ?thesis using a
        by (auto simp: answers_def bind_simps split: if_splits dest!: answers_allD [OF Suc])
    next
      case (State_repeated_any sub st)
      show ?thesis
      proof (cases "st = 0")
        case True
        then show ?thesis using a State_repeated_any
          by (auto simp: answers_def bind_simps split: if_splits dest!: answers_allD [OF Suc] intro: Cons_conc)
      next
        case False
        then obtain again sub' where g: "loop_allow (allow_upto n name) True sub = ok (r, d, again, sub')" "s' = State_repeated_any sub' st"
          using a State_repeated_any t by (auto simp: bind_simps)
        show ?thesis using loop_answers [OF Suc g(1)] State_repeated_any t False g(2) by (simp add: answers_def)
      qed
    next
      case (State_at_least_once sub st)
      show ?thesis
      proof (cases "st = 0")
        case True
        then show ?thesis using a State_at_least_once
          by (auto simp: answers_def bind_simps split: if_splits dest!: answers_allD [OF Suc] intro: Cons_conc)
      next
        case False
        then obtain again sub' where g: "loop_allow (allow_upto n name) (st = 2) sub = ok (r, d, again, sub')"
          "s' = State_at_least_once sub' (if again then 2 else st)"
          using a State_at_least_once t by (auto simp: bind_simps)
        show ?thesis using loop_answers [OF Suc g(1)] State_at_least_once t False g(2) by (simp add: answers_def)
      qed
    next
      case (State_seq ss nxt st)
      let ?i = "if st = 0 then 0 else nxt"
      show ?thesis
      proof (cases "st = 0 \<and> ss = []")
        case True
        then show ?thesis using a State_seq by (auto simp: answers_def)
      next
        case False
        then obtain j ss' where g: "seq_allow (allow_upto n name) ?i ss = ok (r, d, j, ss')" "s' = State_seq ss' j 1"
          using a State_seq t by (auto simp: bind_simps Let_def split: if_splits)
        show ?thesis using seq_answers [OF Suc g(1)] State_seq t g(2) by (simp add: answers_def)
      qed
    next
      case (State_choice ss mixed st k)
      show ?thesis
      proof (cases "st = 0")
        case True
        then obtain j ss' where g: "choice_allow (allow_upto n name) False ss = ok (r, d, j, ss')"
          "s' = (if r then State_choice ss' mixed 1 j else State_choice ss' mixed st k)"
          using a State_choice t by (auto simp: bind_simps split: if_splits)
        show ?thesis using choice_answers [OF Suc g(1)] State_choice t g(2) True
          by (auto simp: answers_def dest: arg_cong [where f = length])
      next
        case False
        then obtain ss' where g: "nth_allow (allow_upto n name) k ss = ok (r, d, ss')" "s' = State_choice ss' mixed st k"
          using a State_choice t by (auto simp: bind_simps)
        have "length ss' = length ss" using nth_answers [OF Suc g(1)] by (metis length_map)
        then show ?thesis using nth_answers [OF Suc g(1)] State_choice t g(2) False
          by (auto simp: answers_def)
      qed
    qed (use a in \<open>auto simp: answers_def\<close>)
  qed
qed

text \<open>A usable state answers every name, and one that has accepted a name is usable again.\<close>

definition responds :: "(state \<Rightarrow> state allowed) \<Rightarrow> state \<Rightarrow> bool" where
  "responds f s \<longleftrightarrow> (\<exists>r d s'. f s = ok (r, d, s') \<and> (r \<longrightarrow> usable s'))"

lemma seq_responds:
  "\<forall>s \<in> set (drop i ss). responds f s \<and> usable s \<Longrightarrow>
   \<exists>r d j ss'. seq_allow f i ss = ok (r, d, j, ss') \<and> (r \<longrightarrow> j < length ss' \<and> (\<forall>s \<in> set (drop j ss'). usable s))"
proof (induction ss arbitrary: i)
  case Nil
  then show ?case by (cases i) (simp_all add: ex_bool_eq)
next
  case (Cons s ss)
  show ?case
  proof (cases i)
    case (Suc k)
    then obtain r d j ss' where "seq_allow f k ss = ok (r, d, j, ss')"
      "r \<longrightarrow> j < length ss' \<and> (\<forall>s \<in> set (drop j ss'). usable s)"
      using Cons.IH [of k] Cons.prems by auto
    then show ?thesis using Suc by simp
  next
    case 0
    then obtain r1 d1 s1 where f: "f s = ok (r1, d1, s1)" "r1 \<longrightarrow> usable s1"
      using Cons.prems by (auto simp: responds_def)
    obtain r d j ss' where g: "seq_allow f 0 ss = ok (r, d, j, ss')"
      "r \<longrightarrow> j < length ss' \<and> (\<forall>s \<in> set (drop j ss'). usable s)"
      using Cons.IH [of 0] Cons.prems 0 by auto
    show ?thesis
    proof (cases "\<not> r1 \<and> d1")
      case True
      then show ?thesis using f g 0 by simp
    next
      case False
      then show ?thesis using f Cons.prems 0 by auto
    qed
  qed
qed

lemma choice_responds:
  "\<forall>s \<in> set ss. responds f s \<Longrightarrow>
   \<exists>r d k ss'. choice_allow f d0 ss = ok (r, d, k, ss') \<and> (r \<longrightarrow> k < length ss' \<and> usable (ss' ! k))"
proof (induction ss arbitrary: d0)
  case (Cons s ss)
  then obtain r1 d1 s1 where f: "f s = ok (r1, d1, s1)" "r1 \<longrightarrow> usable s1"
    by (auto simp: responds_def)
  show ?case using Cons.IH [of d1] Cons.prems f by (cases r1) fastforce+
qed (simp add: ex_bool_eq)

lemma loop_responds:
  assumes "answers_all name f" "responds f sub"
    and "\<And>s. shape s = shape sub \<Longrightarrow> responds f (reset s)"
  shows "\<exists>r d again sub'. loop_allow f ends sub = ok (r, d, again, sub') \<and> (r \<longrightarrow> usable sub')"
proof -
  obtain r1 d1 s1 where f: "f sub = ok (r1, d1, s1)" "r1 \<longrightarrow> usable s1"
    using assms(2) by (auto simp: responds_def)
  have "shape s1 = shape sub" using answers_allD [OF assms(1) f(1)] by (simp add: answers_def)
  from assms(3) [OF this] obtain r2 d2 s2 where f2: "f (reset s1) = ok (r2, d2, s2)" "r2 \<longrightarrow> usable s2"
    by (auto simp: responds_def)
  show ?thesis using f f2 by (cases "\<not> r1 \<and> d1") (auto simp: loop_allow_def)
qed

lemma depth_member: "s \<in> set ss \<Longrightarrow> depth s \<le> sum_list (map depth ss)"
  by (induction ss) auto

lemma allow_upto_responds: "depth s \<le> n \<Longrightarrow> usable s \<Longrightarrow> responds (allow_upto n name) s"
proof (induction n arbitrary: s)
  case 0
  then show ?case by (cases s) simp_all
next
  case (Suc n)
  note ans = allow_upto_answers [of name n]
  have again: "responds (allow_upto n name) (reset s')" if "shape s' = shape sub" "depth sub \<le> n" for s' sub
    using that by (intro Suc.IH) (simp_all add: depth_shape)
  show ?case
  proof (cases s)
    case (State_zero_or_once sub st)
    then show ?thesis using Suc.IH [of sub] Suc.prems by (fastforce simp: responds_def)
  next
    case (State_repeated_any sub st)
    then have "responds (allow_upto n name) sub" "depth sub \<le> n" using Suc.IH [of sub] Suc.prems by simp_all
    then show ?thesis
      using loop_responds [OF ans _ again, where sub = sub and ends = True] State_repeated_any by (fastforce simp: responds_def)
  next
    case (State_at_least_once sub st)
    then have "responds (allow_upto n name) sub" "depth sub \<le> n" using Suc.IH [of sub] Suc.prems by simp_all
    then show ?thesis
      using loop_responds [OF ans _ again, where sub = sub and ends = "st = 2"] State_at_least_once by (fastforce simp: responds_def)
  next
    case (State_seq ss nxt st)
    let ?i = "if st = 0 then 0 else nxt"
    have mem: "responds (allow_upto n name) s' \<and> usable s'" if "s' \<in> set (drop ?i ss)" for s'
    proof -
      have "s' \<in> set ss" using that by (rule in_set_dropD)
      then have "depth s' \<le> n" using depth_member [of s' ss] Suc.prems(1) State_seq by simp
      moreover have "usable s'" using Suc.prems(2) State_seq that by (auto simp: list_all_iff drop_map)
      ultimately show ?thesis using Suc.IH by simp
    qed
    obtain r d j ss' where "seq_allow (allow_upto n name) ?i ss = ok (r, d, j, ss')"
      "r \<longrightarrow> j < length ss' \<and> (\<forall>s \<in> set (drop j ss'). usable s)"
      using seq_responds [of ?i ss "allow_upto n name"] mem by blast
    then show ?thesis
      using Suc.prems(2) State_seq by (auto simp: responds_def Let_def list_all_iff drop_map)
  next
    case (State_choice ss mixed st k)
    have dep: "depth s' \<le> n" if "s' \<in> set ss" for s'
      using depth_member [OF that] Suc.prems(1) State_choice by simp
    show ?thesis
    proof (cases "st = 0")
      case True
      then have "\<forall>s' \<in> set ss. responds (allow_upto n name) s'"
        using Suc.IH dep Suc.prems(2) State_choice by simp
      from choice_responds [OF this] obtain r d j ss' where
        "choice_allow (allow_upto n name) False ss = ok (r, d, j, ss')" "r \<longrightarrow> j < length ss' \<and> usable (ss' ! j)" by blast
      then show ?thesis using True State_choice by (cases r) (auto simp: responds_def)
    next
      case False
      then have k: "k < length ss" "usable (ss ! k)" using Suc.prems(2) State_choice by (auto simp: nth_map)
      then have "responds (allow_upto n name) (ss ! k)" using Suc.IH dep by simp
      then show ?thesis using False k State_choice by (auto simp: responds_def nth_allow_def)
    qed
  qed (auto simp: responds_def Let_def ex_bool_eq)
qed

lemma allow_answers: "allow name s = ok (r, d, s') \<Longrightarrow> answers name s (r, d, s')"
  using answers_allD [OF allow_upto_answers] by (simp add: allow_def)

lemma allow_responds: "usable s \<Longrightarrow> \<exists>r d s'. allow name s = ok (r, d, s') \<and> (r \<longrightarrow> usable s')"
  using allow_upto_responds [of s "depth s" name] by (simp add: responds_def allow_def)

section \<open>The children of an element\<close>

text \<open>What the parser does with the validator of an element: it offers the names in turn.\<close>

fun accepts :: "string list \<Rightarrow> validator \<Rightarrow> (bool \<times> validator) res" where
  "accepts [] v = ok (True, v)"
| "accepts (name # names) v =
     bind_res (validator_allow name v) (\<lambda>(result, v). if result then accepts names v else ok (False, v))"

lemma accepts_sound:
  assumes "accepts ns v = ok (True, v')" "usable (vd_state v)"
  shows "usable (vd_state v') \<and> shape (vd_state v') = shape (vd_state v)
    \<and> (ns \<noteq> [] \<longrightarrow> vd_done v') \<and> (\<forall>w \<in> rest (vd_state v'). ns @ w \<in> rest (vd_state v))"
  using assms
proof (induction ns arbitrary: v)
  case (Cons n ns)
  obtain r d s where a: "allow n (vd_state v) = ok (r, d, s)" "r \<longrightarrow> usable s"
    using allow_responds [OF Cons.prems(2)] by blast
  let ?v = "v\<lparr>vd_state := s, vd_done := d\<rparr>"
  have r: "r" and rec: "accepts ns ?v = ok (True, v')"
    using Cons.prems(1) a(1) by (auto simp: validator_allow_def split: if_splits)
  show ?case
    using Cons.IH [OF rec] a r allow_answers [OF a(1)] rec by (cases ns) (auto simp: answers_def)
qed simp

lemma accepts_total:
  "usable (vd_state v) \<Longrightarrow> \<exists>r v'. accepts ns v = ok (r, v')"
proof (induction ns arbitrary: v)
  case (Cons n ns)
  obtain r d s where a: "allow n (vd_state v) = ok (r, d, s)" "r \<longrightarrow> usable s"
    using allow_responds [OF Cons.prems] by blast
  show ?case
    using Cons.IH [of "v\<lparr>vd_state := s, vd_done := d\<rparr>"] a by (cases r) (auto simp: validator_allow_def)
qed (simp add: ex_bool_eq)

lemma created_usable:
  assumes "proper_spec c"
  obtains s where "create_state c = ok s" "usable s" "shape s = c" "rest s = lang c"
proof -
  obtain s where s: "create_state c = ok s" using create_state_ok(1) [OF assms] by blast
  then have "shape s = c" "reset s = s" using create_state_shape(1) by blast+
  then show ?thesis using that s usable_reset [of s] rest_reset [of s] by simp
qed

lemma allow_empty_lang: "allow_empty s \<longleftrightarrow> [] \<in> lang (shape s)"
  by (induction s rule: allow_empty.induct) (auto simp: star_Nil)

text \<open>
  C22. The validator of a content specification accepts only children that some further
  children complete to a word of its language, never uses an iterator at the end of its
  list while it accepts, and says of an element without children whether it may be
  empty.
\<close>

theorem validator_sound:
  assumes "proper_spec c"
  shows "\<exists>v. validator_new c = ok v
    \<and> validator_done v = ([] \<in> lang c)
    \<and> (\<forall>ns. \<exists>r v'. accepts ns v = ok (r, v') \<and> (r \<longrightarrow> (\<exists>ms. ns @ ms \<in> lang c)))"
proof -
  obtain s where s: "create_state c = ok s" "usable s" "shape s = c" "rest s = lang c"
    using created_usable [OF assms] by blast
  let ?v = "\<lparr>vd_state = s, vd_allowed = Some c, vd_done = allow_empty s\<rparr>"
  have "\<exists>r v'. accepts ns ?v = ok (r, v') \<and> (r \<longrightarrow> (\<exists>ms. ns @ ms \<in> lang c))" for ns
  proof -
    obtain r v' where a: "accepts ns ?v = ok (r, v')" using accepts_total [of ?v ns] s(2) by auto
    moreover have "\<exists>ms. ns @ ms \<in> lang c" if r
    proof -
      have "accepts ns ?v = ok (True, v')" using a that by simp
      note so = accepts_sound [OF this, simplified, OF s(2)]
      then have "rest (vd_state v') \<noteq> {}" using rest_nonempty assms s(3) by simp
      then show ?thesis using so s(4) by auto
    qed
    ultimately show ?thesis by blast
  qed
  then show ?thesis using s by (auto simp: validator_new_def validator_done_def allow_empty_lang)
qed

theorem validator_sound_witness:
  "\<exists>v. validator_new (Spec_seq [Spec_element ''a'', Spec_repeated (Spec_element ''b'') (CHR ''*'')]) = ok v
    \<and> \<not> validator_done v"
  using validator_sound [of "Spec_seq [Spec_element ''a'', Spec_repeated (Spec_element ''b'') (CHR ''*'')]"]
  by auto

text \<open>
  \<open>done\<close> says nothing about missing children: after any child that was accepted it
  is true, also where the language requires more.
\<close>

lemma validator_done_after_child:
  assumes "proper_spec c" "validator_new c = ok v" "accepts ns v = ok (True, v')" "ns \<noteq> []"
  shows "validator_done v'"
proof -
  obtain s where s: "create_state c = ok s" "usable s" using created_usable [OF assms(1)] by blast
  then have "usable (vd_state v)" using assms(2) by (auto simp: validator_new_def)
  then show ?thesis using accepts_sound [OF assms(3)] assms(4) by (simp add: validator_done_def)
qed

lemma validator_done_after_child_witness:
  "\<exists>v v'. validator_new (Spec_seq [Spec_element ''a'', Spec_element ''b'']) = ok v
    \<and> accepts [''a''] v = ok (True, v') \<and> validator_done v'
    \<and> [''a''] \<notin> lang (Spec_seq [Spec_element ''a'', Spec_element ''b''])"
proof -
  let ?c = "Spec_seq [Spec_element ''a'', Spec_element ''b'']"
  let ?v = "\<lparr>vd_state = State_seq [State_element ''a'' False, State_element ''b'' False] 0 0,
    vd_allowed = Some ?c, vd_done = False\<rparr>"
  have v: "validator_new ?c = ok ?v" by (simp add: validator_new_def)
  obtain v' where a: "accepts [''a''] ?v = ok (True, v')" by (simp add: validator_allow_def allow_def Let_def)
  have "validator_done v'" using validator_done_after_child [OF _ v a] by simp
  moreover have "[''a''] \<notin> lang ?c" by (auto simp: conc_def)
  ultimately show ?thesis using v a by blast
qed

text \<open>
  The validator rejects valid content: after the first child of \<open>(a+,b)\<close> it rejects
  \<open>b\<close>, and it rejects \<open>c\<close> as the first child of \<open>((b*|a),c)\<close>. Asked again after it has
  rejected a child, as a parser that does not validate does, it uses the end of a list.
\<close>

lemma validator_rejects_valid:
  "let c = Spec_seq [Spec_repeated (Spec_element ''a'') (CHR ''+''), Spec_element ''b''];
       d = Spec_seq [Spec_choice [Spec_repeated (Spec_element ''b'') (CHR ''*''), Spec_element ''a''] False, Spec_element ''c''];
       e = Spec_seq [Spec_element ''a'']
   in [''a'', ''b''] \<in> lang c \<and> map_sum id fst (bind_res (validator_new c) (accepts [''a'', ''b''])) = ok False
    \<and> [''c''] \<in> lang d \<and> map_sum id fst (bind_res (validator_new d) (accepts [''c''])) = ok False
    \<and> bind_res (validator_new e) (\<lambda>v. bind_res (validator_allow ''a'' v) (\<lambda>(_, v).
        bind_res (validator_allow ''b'' v) (\<lambda>(_, v). validator_allow ''b'' v))) = throw Undefined"
proof -
  have "[''a'', ''b''] \<in> conc (conc {[''a'']} (star {[''a'']})) (conc {[''b'']} {[]})"
    using concI [of "[''a'']" "conc {[''a'']} (star {[''a'']})" "[''b'']"] concI [of "[''a'']" "{[''a'']}" "[]"]
      concI [of "[''b'']" "{[''b'']}" "[]" "{[]}"] by simp
  moreover have "[''c''] \<in> conc (star {[''b'']} \<union> {[''a'']}) (conc {[''c'']} {[]})"
    using concI [of "[]" "star {[''b'']} \<union> {[''a'']}" "[''c'']"] concI [of "[''c'']" "{[''c'']}" "[]" "{[]}"] by simp
  ultimately show ?thesis
    by (simp add: Let_def validator_new_def validator_allow_def allow_def loop_allow_def numeral_2_eq_2)
qed

section \<open>Attributes, entities and elements\<close>

datatype attribute_type = CDATA | ID | IDREF | IDREFS | ENTITY | ENTITIES | NMTOKEN | NMTOKENS | Notation | Enumerated

datatype attribute_default = Default_None | Default_Required | Default_Implied | Default_Fixed | Default_Default

record attribute =
  at_name :: string
  at_type :: attribute_type
  at_default :: attribute_default
  at_default_value :: string
  at_enum :: "string list"
  at_external :: bool

record entity =
  en_name :: string
  en_replacement :: string
  en_ndata :: string
  en_path :: string
  en_parameter :: bool
  en_parsed :: bool
  en_external :: bool
  en_externally_defined :: bool

definition general_entity :: "string \<Rightarrow> string \<Rightarrow> bool \<Rightarrow> bool \<Rightarrow> entity" where
  "general_entity name replacement external parsed =
     \<lparr>en_name = name, en_replacement = replacement, en_ndata = [], en_path = [], en_parameter = False,
      en_parsed = parsed, en_external = external, en_externally_defined = False\<rparr>"

definition parameter_entity :: "string \<Rightarrow> string \<Rightarrow> string \<Rightarrow> entity" where
  "parameter_entity name replacement path =
     \<lparr>en_name = name, en_replacement = replacement, en_ndata = [], en_path = path, en_parameter = True,
      en_parsed = True, en_external = True, en_externally_defined = False\<rparr>"

definition attribute_new :: "string \<Rightarrow> attribute_type \<Rightarrow> string list \<Rightarrow> attribute" where
  "attribute_new name type enums =
     \<lparr>at_name = name, at_type = type, at_default = Default_None, at_default_value = [], at_enum = enums, at_external = False\<rparr>"

text \<open>The checks work on the bytes of the value; each returns its result and the value it leaves.\<close>

definition name_start :: "char \<Rightarrow> bool" where
  "name_start c = is_name_start_char (unicode_of c)"

definition name_ch :: "char \<Rightarrow> bool" where
  "name_ch c = is_name_char (unicode_of c)"

definition is_name :: "string \<Rightarrow> bool \<times> string" where
  "is_name s =
     (let s = trim s in
      (case s of [] \<Rightarrow> True | c # cs \<Rightarrow> name_start c \<and> list_all name_ch cs, s))"

text \<open>
  The loop of \<open>is_names\<close> over what is left of the value; \<open>t\<close> is the value it builds.
  After a first character that cannot start a name the test for a space decides.
\<close>

fun is_names_loop :: "nat \<Rightarrow> string \<Rightarrow> string \<Rightarrow> bool \<times> string" where
  "is_names_loop 0 t s = (True, t)"
| "is_names_loop (Suc n) t [] = (True, t)"
| "is_names_loop (Suc n) t (c # cs) =
     (let result = name_start c;
          name = (if result then takeWhile name_ch cs else []);
          left = (if result then dropWhile name_ch cs else cs);
          t = t @ c # name
      in case left of
           [] \<Rightarrow> (result, t)
         | d # ds \<Rightarrow>
             if isspace d then is_names_loop n (t @ '' '') (dropWhile isspace ds)
             else (False, t @ '' ''))"

definition is_names :: "string \<Rightarrow> bool \<times> string" where
  "is_names s = (let s = trim s in if s = [] then (True, s) else is_names_loop (length s) [] s)"

text \<open>The first character of a name token is not looked at.\<close>

definition is_nmtoken :: "string \<Rightarrow> bool \<times> string" where
  "is_nmtoken s = (let s = trim s in (s \<noteq> [] \<and> list_all name_ch (tl s), s))"

fun is_nmtokens_loop :: "nat \<Rightarrow> string \<Rightarrow> string \<Rightarrow> bool \<times> string" where
  "is_nmtokens_loop 0 t s = (True, t)"
| "is_nmtokens_loop (Suc n) t s =
     (let token = takeWhile name_ch s; left = dropWhile name_ch s; t = t @ token in
      if token = [] then (False, t)
      else if left = [] then (True, t)
      else if hd left \<noteq> CHR '' '' then (False, t @ '' '')
      else is_nmtokens_loop n (t @ '' '') (dropWhile (\<lambda>c. c = CHR '' '') left))"

definition is_nmtokens :: "string \<Rightarrow> bool \<times> string" where
  "is_nmtokens s =
     (let s = trim s in
      if s = [] then (False, s)
      else (case is_nmtokens_loop (length s) [] s of (result, t) \<Rightarrow> if result then (True, t) else (False, s)))"

definition is_unparsed_entity :: "string \<Rightarrow> entity list \<Rightarrow> bool" where
  "is_unparsed_entity s l =
     (case List.find (\<lambda>e. en_name e = s) l of Some e \<Rightarrow> \<not> en_parsed e | None \<Rightarrow> False)"

definition validate_value :: "attribute \<Rightarrow> string \<Rightarrow> entity list \<Rightarrow> bool \<times> string" where
  "validate_value a v entities =
     (case
       (case at_type a of
          CDATA \<Rightarrow> (True, v)
        | ENTITY \<Rightarrow> (case is_name v of (result, v) \<Rightarrow> (result \<and> is_unparsed_entity v entities, v))
        | ID \<Rightarrow> is_name v
        | IDREF \<Rightarrow> is_name v
        | ENTITIES \<Rightarrow>
            (case is_names v of (result, v) \<Rightarrow>
               (result \<and> list_all (\<lambda>x. is_unparsed_entity x entities) (split_on (\<lambda>c. c = CHR '' '') v), v))
        | IDREFS \<Rightarrow> is_names v
        | NMTOKEN \<Rightarrow> is_nmtoken v
        | NMTOKENS \<Rightarrow> is_nmtokens v
        | _ \<Rightarrow> (trim v \<in> set (at_enum a), trim v))
      of (result, v) \<Rightarrow>
        (result \<and> \<not> (at_default a = Default_Fixed \<and> v \<noteq> at_default_value a), v))"

record dtd_element =
  el_name :: string
  el_attlist :: "attribute list"
  el_allowed :: "content_spec option"
  el_declared :: bool

definition element_new :: "string \<Rightarrow> bool \<Rightarrow> dtd_element" where
  "element_new name declared = \<lparr>el_name = name, el_attlist = [], el_allowed = None, el_declared = declared\<rparr>"

definition set_allowed :: "content_spec option \<Rightarrow> dtd_element \<Rightarrow> dtd_element" where
  "set_allowed allowed e = (if allowed \<noteq> el_allowed e then e\<lparr>el_allowed := allowed\<rparr> else e)"

definition get_attribute :: "string \<Rightarrow> dtd_element \<Rightarrow> attribute option" where
  "get_attribute name e = List.find (\<lambda>a. at_name a = name) (el_attlist e)"

text \<open>The first declaration of an attribute counts.\<close>

definition add_attribute :: "attribute \<Rightarrow> dtd_element \<Rightarrow> dtd_element" where
  "add_attribute attrib e =
     (if List.find (\<lambda>a. at_name a = at_name attrib) (el_attlist e) = None
      then e\<lparr>el_attlist := el_attlist e @ [attrib]\<rparr> else e)"

definition element_empty :: "dtd_element \<Rightarrow> bool" where
  "element_empty e \<longleftrightarrow> el_allowed e = Some Spec_empty"

section \<open>Lists of name tokens\<close>

lemma blank_no_name_ch [simp]: "\<not> name_ch (CHR '' '')"
  by (simp add: name_ch_def unicode_of_def unicode_of_char_def char_class_defs)

definition name_token :: "string \<Rightarrow> bool" where
  "name_token w \<longleftrightarrow> w \<noteq> [] \<and> list_all name_ch w"

abbreviation blanks :: "string \<Rightarrow> string list" where
  "blanks s \<equiv> split_on (\<lambda>c. c = CHR '' '') s"

definition joined :: "string list \<Rightarrow> string" where
  "joined ws = concat (map (\<lambda>w. w @ '' '') (butlast ws)) @ last ws"

lemma joined_simps: "joined [w] = w" "ws \<noteq> [] \<Longrightarrow> joined (w # ws) = w @ '' '' @ joined ws"
  by (simp_all add: joined_def)

lemma token_no_blank: "name_token w \<Longrightarrow> \<forall>c \<in> set w. c \<noteq> CHR '' ''"
  by (auto simp: name_token_def list_all_iff)

lemma blanks_word: "\<forall>c \<in> set w. c \<noteq> CHR '' '' \<Longrightarrow> blanks w = [w]"
  by (rule split_on_none) simp

lemma blanks_word_append: "\<forall>c \<in> set w. c \<noteq> CHR '' '' \<Longrightarrow> blanks (w @ CHR '' '' # s) = w # blanks s"
  by (induction w) auto

lemma blanks_skip: "filter (\<lambda>w. w \<noteq> []) (blanks (dropWhile (\<lambda>c. c = CHR '' '') s)) = filter (\<lambda>w. w \<noteq> []) (blanks s)"
  by (induction s) auto

lemma nmtokens_loop:
  "is_nmtokens_loop n t s = (True, v) \<Longrightarrow> s \<noteq> [] \<Longrightarrow> length s \<le> n \<Longrightarrow>
   \<exists>ws. ws \<noteq> [] \<and> v = t @ joined ws \<and> list_all name_token ws \<and> filter (\<lambda>w. w \<noteq> []) (blanks s) = ws"
proof (induction n arbitrary: t s)
  case (Suc n)
  let ?w = "takeWhile name_ch s" and ?l = "dropWhile name_ch s"
  have w: "?w \<noteq> []" using Suc.prems(1) by (auto simp: Let_def split: if_splits)
  have tok: "name_token ?w" using w by (auto simp: name_token_def list_all_iff dest: set_takeWhileD)
  show ?case
  proof (cases "?l = []")
    case True
    then have ws: "?w = s" by (metis append_Nil2 takeWhile_dropWhile_id)
    have "v = t @ ?w" using Suc.prems(1) w True by (simp add: Let_def)
    then show ?thesis
      using tok blanks_word [OF token_no_blank [OF tok]] Suc.prems(2) unfolding ws
      by (intro exI [of _ "[s]"]) (simp add: joined_simps)
  next
    case False
    then obtain l where l: "?l = CHR '' '' # l"
      using Suc.prems(1) w by (cases ?l) (auto simp: Let_def split: if_splits)
    let ?r = "dropWhile (\<lambda>c. c = CHR '' '') l"
    have rec: "is_nmtokens_loop n (t @ ?w @ '' '') ?r = (True, v)"
      using Suc.prems(1) w l by (simp add: Let_def)
    have s: "s = ?w @ CHR '' '' # l" using l by (metis takeWhile_dropWhile_id)
    have "length l < n"
      using Suc.prems(3) s w by (metis Suc_le_eq add_Suc_right le_less_trans length_Cons length_append
          length_greater_0_conv less_add_same_cancel2 not_less_eq)
    then have len: "length ?r \<le> n" "n \<noteq> 0"
      using length_dropWhile_le [of "\<lambda>c. c = CHR '' ''" l] by linarith+
    have "?r \<noteq> []"
    proof
      assume r: "?r = []"
      obtain m where "n = Suc m" using len(2) by (cases n) auto
      then show False using rec r by (simp add: Let_def)
    qed
    from Suc.IH [OF rec this len(1)] obtain ws where ws: "ws \<noteq> []" "v = t @ ?w @ '' '' @ joined ws"
      "list_all name_token ws" "filter (\<lambda>w. w \<noteq> []) (blanks ?r) = ws" by auto
    have "filter (\<lambda>w. w \<noteq> []) (blanks s) = ?w # ws"
      using blanks_word_append [OF token_no_blank [OF tok], of l] s w ws(4) blanks_skip [of l] by simp
    then show ?thesis using ws tok by (intro exI [of _ "?w # ws"]) (simp add: joined_simps)
  qed
qed simp

lemma blanks_joined: "ws \<noteq> [] \<Longrightarrow> list_all name_token ws \<Longrightarrow> blanks (joined ws) = ws"
proof (induction ws)
  case (Cons w ws)
  then have w: "\<forall>c \<in> set w. c \<noteq> CHR '' ''" using token_no_blank [of w] by simp
  show ?case
    using Cons blanks_word [OF w] blanks_word_append [OF w] by (cases "ws = []") (simp_all add: joined_simps)
qed simp

text \<open>
  A value that \<open>is_nmtokens\<close> accepts consists of name tokens, and it is replaced by
  exactly these tokens, separated by one blank each.
\<close>

lemma nmtokens_normalised:
  assumes "is_nmtokens s = (True, v)"
  shows "blanks v \<noteq> [] \<and> list_all name_token (blanks v) \<and> blanks v = filter (\<lambda>w. w \<noteq> []) (blanks (trim s))"
proof -
  have "trim s \<noteq> []" "is_nmtokens_loop (length (trim s)) [] (trim s) = (True, v)"
    using assms by (auto simp: is_nmtokens_def Let_def split: if_splits prod.splits)
  from nmtokens_loop [OF this(2,1)] obtain ws where
    "ws \<noteq> []" "v = joined ws" "list_all name_token ws" "filter (\<lambda>w. w \<noteq> []) (blanks (trim s)) = ws" by auto
  then show ?thesis using blanks_joined by simp
qed

lemma nmtokens_normalised_witness:
  "is_nmtokens ''  ab  c '' = (True, ''ab c'') \<and> blanks ''ab c'' = [''ab'', ''c'']"
proof -
  have n: "name_ch (CHR ''a'')" "name_ch (CHR ''b'')" "name_ch (CHR ''c'')"
    by (simp_all add: name_ch_def unicode_of_def unicode_of_char_def char_class_defs)
  have "is_nmtokens ''  ab  c '' = (True, ''ab c'')"
    by (simp add: is_nmtokens_def trim_def isspace_def Let_def n numeral_eq_Suc)
  then show ?thesis using nmtokens_normalised [of "''  ab  c ''" "''ab c''"] by simp
qed

text \<open>
  The other checks accept what is no name: the first character of a name token is
  not checked, and a single character that cannot start a name is accepted when a space
  follows it.
\<close>

lemma name_checks_too_weak:
  "is_nmtoken (CHR ''!'' # ''a'') = (True, CHR ''!'' # ''a'') \<and> is_names ''1 a'' = (True, ''1 a'')
   \<and> \<not> name_ch (CHR ''!'') \<and> \<not> name_start (CHR ''1'')"
proof -
  have n: "name_ch (CHR ''a'')" "name_start (CHR ''a'')" "\<not> name_ch (CHR ''!'')" "\<not> name_start (CHR ''1'')"
    by (simp_all add: name_ch_def name_start_def unicode_of_def unicode_of_char_def char_class_defs)
  then show ?thesis
    by (simp add: is_nmtoken_def is_names_def trim_def isspace_def Let_def numeral_eq_Suc)
qed

end
