(* ===== verification/Glob.thy ===== *)
theory Glob
  imports Prelude
begin

text \<open>
  The patterns of \<open>lib-http/src/glob.cpp\<close>, which the access rules and the file
  handlers use: \<open>Match\<close> with its wildcards, the expansion of groups in braces and
  \<open>glob_match\<close>. Both arguments of \<open>Match\<close> are C strings: they end at a null character.
\<close>

section \<open>Matching\<close>

text \<open>
  The loops of the cases \<open>**\<close> and \<open>*\<close> try the rest of the pattern at each position that
  is not the end of the name; the second stops at a slash.
\<close>

function (sequential) Match :: "string \<Rightarrow> string \<Rightarrow> bool"
  and deep_loop :: "string \<Rightarrow> string \<Rightarrow> bool"
  and flat_loop :: "string \<Rightarrow> string \<Rightarrow> bool" where
  "Match [] name = (name = [])"
| "Match (op # pattern) name =
     (if op = CHR ''*'' then
        (if take 2 pattern = ''*/'' \<and> Match (drop 2 pattern) name then True
         else if pattern = ''*'' then True
         else if pattern = [] then \<forall>c \<in> set name. c \<noteq> CHR ''/'' \<and> c \<noteq> CHR 0x5C
         else if hd pattern = CHR ''*'' then deep_loop (tl pattern) name
         else flat_loop pattern name)
      else if op = CHR ''?'' then
        (case name of [] \<Rightarrow> False | c # cs \<Rightarrow> Match pattern cs)
      else
        (case name of
           [] \<Rightarrow> False
         | c # cs \<Rightarrow>
             if c = CHR ''/'' \<and> op = CHR 0x5C \<or> c = CHR 0x5C \<and> op = CHR ''/'' \<or> tolower c = tolower op
             then Match pattern cs else False))"
| "deep_loop pattern [] = False"
| "deep_loop pattern (c # cs) = (if Match pattern (c # cs) then True else deep_loop pattern cs)"
| "flat_loop pattern [] = False"
| "flat_loop pattern (c # cs) =
     (if Match pattern (c # cs) then True else if c = CHR ''/'' then False else flat_loop pattern cs)"
  by pat_completeness auto
termination
  by (relation "measures [\<lambda>x. case x of Inl (p, n) \<Rightarrow> length p | Inr (Inl (p, n)) \<Rightarrow> length p | Inr (Inr (p, n)) \<Rightarrow> length p,
      \<lambda>x. case x of Inl (p, n) \<Rightarrow> length n | Inr (Inl (p, n)) \<Rightarrow> length n | Inr (Inr (p, n)) \<Rightarrow> length n,
      \<lambda>x. case x of Inl (p, n) \<Rightarrow> 0 | Inr (Inl (p, n)) \<Rightarrow> 1 | Inr (Inr (p, n)) \<Rightarrow> 1]") auto

declare Match.simps(2) [simp del]

section \<open>Groups\<close>

text \<open>
  The first group the regular expression finds: braces around a text without braces
  that holds a comma. The result is what stands before, in and behind it.
\<close>

definition brace :: "char \<Rightarrow> bool" where
  "brace c \<longleftrightarrow> c = CHR ''{'' \<or> c = CHR ''}''"

fun find_group :: "string \<Rightarrow> (string \<times> string \<times> string) option" where
  "find_group [] = None"
| "find_group (c # cs) =
     (let grp = takeWhile (\<lambda>c. \<not> brace c) cs; suffix = dropWhile (\<lambda>c. \<not> brace c) cs in
      if c = CHR ''{'' \<and> CHR '','' \<in> set grp \<and> suffix \<noteq> [] \<and> hd suffix = CHR ''}''
      then Some ([], grp, tl suffix)
      else (case find_group cs of None \<Rightarrow> None | Some (p, g, s) \<Rightarrow> Some (c # p, g, s)))"

lemma find_group_SomeD:
  "find_group t = Some (p, g, s) \<Longrightarrow> t = p @ ''{'' @ g @ ''}'' @ s \<and> (\<forall>c \<in> set g. \<not> brace c)"
proof (induction t arbitrary: p g s)
  case (Cons c cs)
  show ?case
  proof (cases "c = CHR ''{'' \<and> CHR '','' \<in> set (takeWhile (\<lambda>c. \<not> brace c) cs) \<and> dropWhile (\<lambda>c. \<not> brace c) cs \<noteq> []
      \<and> hd (dropWhile (\<lambda>c. \<not> brace c) cs) = CHR ''}''")
    case True
    then have e: "p = []" "g = takeWhile (\<lambda>c. \<not> brace c) cs" "s = tl (dropWhile (\<lambda>c. \<not> brace c) cs)"
      using Cons.prems by (auto simp: Let_def)
    have "cs = g @ CHR ''}'' # s"
      using True e(2,3) by (metis list.collapse takeWhile_dropWhile_id)
    then show ?thesis using e True by (auto dest: set_takeWhileD)
  next
    case False
    then obtain p' where "find_group cs = Some (p', g, s)" "p = c # p'"
      using Cons.prems by (auto simp: Let_def split: if_splits option.splits)
    then show ?thesis using Cons.IH by auto
  qed
qed simp

lemma split_on_set: "w \<in> set (split_on P s) \<Longrightarrow> set w \<subseteq> set s"
proof (induction s arbitrary: w)
  case (Cons c s)
  then show ?case
    by (cases "split_on P s") (fastforce split: if_splits)+
qed simp

function expand_group :: "string \<Rightarrow> string list" where
  "expand_group pattern =
     (case find_group pattern of
        Some (prefix, grp, suffix) \<Rightarrow>
          concat (map (\<lambda>option. expand_group (prefix @ option @ suffix)) (split_on (\<lambda>c. c = CHR '','') grp))
      | None \<Rightarrow> [pattern])"
  by pat_completeness auto
termination
proof (relation "measure (\<lambda>p. count_list p (CHR ''{''))")
  fix pattern prefix grp suffix option :: string and x y
  assume a: "find_group pattern = Some x" "(prefix, y) = x" "(grp, suffix) = y"
    "option \<in> set (split_on (\<lambda>c. c = CHR '','') grp)"
  then have p: "pattern = prefix @ ''{'' @ grp @ ''}'' @ suffix" "\<forall>c \<in> set grp. \<not> brace c"
    using find_group_SomeD by blast+
  have "count_list option (CHR ''{'') = 0"
    using split_on_set [OF a(4)] p(2) by (auto simp: count_list_0_iff brace_def)
  then show "(prefix @ option @ suffix, pattern) \<in> measure (\<lambda>p. count_list p (CHR ''{''))"
    by (simp add: p(1))
qed simp

declare expand_group.simps [simp del]

section \<open>\<open>glob_match\<close>\<close>

definition c_str :: "string \<Rightarrow> string" where
  "c_str s = takeWhile (\<lambda>c. c \<noteq> CHR 0x00) s"

text \<open>The last character of an empty pattern is undefined.\<close>

definition glob_match :: "string \<Rightarrow> string \<Rightarrow> bool res" where
  "glob_match path glob_pattern =
     (if glob_pattern = [] then throw Undefined
      else
        (let glob_pattern = (if last glob_pattern = CHR ''/'' then glob_pattern @ ''**'' else glob_pattern);
             expandedpatterns = concat (map expand_group (split_on (\<lambda>c. c = CHR '';'') glob_pattern))
         in ok (list_ex (\<lambda>pat. path = [] \<and> pat = [] \<or> Match (c_str pat) (c_str path)) expandedpatterns)))"

section \<open>Directories and alternatives\<close>

definition same_char :: "char \<Rightarrow> char \<Rightarrow> bool" where
  "same_char c op \<longleftrightarrow> c = CHR ''/'' \<and> op = CHR 0x5C \<or> c = CHR 0x5C \<and> op = CHR ''/'' \<or> tolower c = tolower op"

definition plain_pattern :: "string \<Rightarrow> bool" where
  "plain_pattern p \<longleftrightarrow> (\<forall>c \<in> set p. c \<notin> set ''*?{};'' \<and> c \<noteq> CHR 0x00)"

lemma Match_plain_Cons:
  "op \<noteq> CHR ''*'' \<Longrightarrow> op \<noteq> CHR ''?'' \<Longrightarrow>
   Match (op # p) name = (case name of [] \<Rightarrow> False | c # cs \<Rightarrow> same_char c op \<and> Match p cs)"
  by (cases name) (auto simp: Match.simps(2) same_char_def)

lemma Match_deep_end [simp]: "Match ''**'' name"
  by (simp add: Match.simps(2))

lemma Match_plain_deep:
  "plain_pattern p \<Longrightarrow> Match (p @ ''**'') name \<longleftrightarrow> (\<exists>u v. name = u @ v \<and> list_all2 same_char u p)"
proof (induction p arbitrary: name)
  case (Cons op p)
  have op: "op \<noteq> CHR ''*''" "op \<noteq> CHR ''?''" "plain_pattern p"
    using Cons.prems by (auto simp: plain_pattern_def)
  show ?case
    using Cons.IH [OF op(3)] op(1,2) by (cases name) (auto simp: Match_plain_Cons list_all2_Cons2 Cons_eq_append_conv)
qed simp

lemma plain_no_group: "plain_pattern p \<Longrightarrow> find_group p = None"
  by (induction p) (auto simp: plain_pattern_def Let_def)

lemma find_group_append:
  "\<forall>c \<in> set p. c \<noteq> CHR ''{'' \<Longrightarrow> find_group (p @ s) = map_option (\<lambda>(q, g, r). (p @ q, g, r)) (find_group s)"
proof (induction p)
  case Nil
  show ?case by (cases "find_group s") auto
next
  case (Cons c p)
  then show ?case by (cases "find_group s") (auto simp: Let_def)
qed

lemma c_str_id [simp]: "\<forall>c \<in> set s. c \<noteq> CHR 0x00 \<Longrightarrow> c_str s = s"
  by (simp add: c_str_def)

lemma plain_deep_no_group: "plain_pattern p \<Longrightarrow> find_group (p @ ''**'') = None"
  using find_group_append [of p "''**''"] by (auto simp: plain_pattern_def Let_def)

lemma glob_below:
  assumes "plain_pattern dir" "\<forall>c \<in> set path. c \<noteq> CHR 0x00"
  shows "glob_match path (dir @ ''/'') = ok (\<exists>u v. path = u @ v \<and> list_all2 same_char u (dir @ ''/''))"
proof -
  let ?d = "dir @ ''/''"
  have d: "plain_pattern ?d" using assms(1) by (auto simp: plain_pattern_def)
  then have "\<forall>c \<in> set (?d @ ''**''). c \<noteq> CHR '';''" by (auto simp: plain_pattern_def)
  then have "split_on (\<lambda>c. c = CHR '';'') (?d @ ''**'') = [?d @ ''**'']" by (rule split_on_none)
  moreover have "expand_group (?d @ ''**'') = [?d @ ''**'']"
    using plain_deep_no_group [OF d] by (subst expand_group.simps) simp
  moreover have "c_str (?d @ ''**'') = ?d @ ''**''" using d by (intro c_str_id) (auto simp: plain_pattern_def)
  ultimately show ?thesis
    using Match_plain_deep [OF d, of path] assms(2) by (simp add: glob_match_def Let_def)
qed

text \<open>
  C23. A pattern without wildcards that ends in a slash matches exactly the paths below
  that directory, where letter case and the direction of slashes do not count.
\<close>

theorem glob_directory:
  assumes "plain_pattern dir" "\<forall>c \<in> set path. c \<noteq> CHR 0x00"
  shows "glob_match path (dir @ ''/'') = ok (\<exists>u v. path = u @ v \<and> list_all2 same_char u (dir @ ''/''))"
  using assms by (rule glob_below)

theorem glob_directory_witness:
  "glob_match ''/Admin/x'' ''/admin/'' = ok True \<and> glob_match ''/adminx'' ''/admin/'' = ok False"
proof -
  have p: "plain_pattern ''/admin''" by (simp add: plain_pattern_def)
  have a: "char_of (97::nat) = CHR ''a''" using char_of_code [of "CHR ''a''"] by simp
  have "glob_match ''/Admin/x'' (''/admin'' @ ''/'') = ok (\<exists>u v. ''/Admin/x'' = u @ v \<and> list_all2 same_char u (''/admin'' @ ''/''))"
    by (rule glob_directory [OF p]) simp
  moreover have "\<exists>u v. ''/Admin/x'' = u @ v \<and> list_all2 same_char u (''/admin'' @ ''/'')"
    by (rule exI [of _ "''/Admin/''"], rule exI [of _ "''x''"]) (simp add: same_char_def tolower_def isupper_def a)
  moreover have "glob_match ''/adminx'' (''/admin'' @ ''/'') = ok (\<exists>u v. ''/adminx'' = u @ v \<and> list_all2 same_char u (''/admin'' @ ''/''))"
    by (rule glob_directory [OF p]) simp
  moreover have "\<not> (\<exists>u v. ''/adminx'' = u @ v \<and> list_all2 same_char u (''/admin'' @ ''/''))"
  proof
    assume "\<exists>u v. ''/adminx'' = u @ v \<and> list_all2 same_char u (''/admin'' @ ''/'')"
    then obtain u v where u: "''/adminx'' = u @ v" "list_all2 same_char u (''/admin'' @ ''/'')" by blast
    have "length u = 7" using list_all2_lengthD [OF u(2)] by simp
    then have "u ! 6 = CHR ''x''" using arg_cong [OF u(1), of "\<lambda>s. s ! 6"] by (simp add: nth_append)
    moreover have "same_char (u ! 6) (CHR ''/'')"
      using list_all2_nthD [OF u(2), of 6] \<open>length u = 7\<close> by simp
    ultimately show False by (simp add: same_char_def tolower_def isupper_def)
  qed
  ultimately show ?thesis by simp
qed

text \<open>
  A pattern with a group of alternatives in braces matches what the pattern with one
  of the alternatives in its place matches.
\<close>

lemma glob_alternatives:
  assumes "\<forall>c \<in> set (pre @ alts @ suf). c \<noteq> CHR '';''" "\<forall>c \<in> set pre. c \<noteq> CHR ''{''"
    and "\<forall>c \<in> set alts. \<not> brace c" "CHR '','' \<in> set alts" "suf \<noteq> []"
  shows "glob_match path (pre @ ''{'' @ alts @ ''}'' @ suf)
    = ok (\<exists>alt \<in> set (split_on (\<lambda>c. c = CHR '','') alts). glob_match path (pre @ alt @ suf) = ok True)"
proof -
  define suf' where "suf' = (if last suf = CHR ''/'' then suf @ ''**'' else suf)"
  let ?m = "list_ex (\<lambda>pat. path = [] \<and> pat = [] \<or> Match (c_str pat) (c_str path))"
  have suf': "\<forall>c \<in> set suf'. c \<noteq> CHR '';''" using assms(1) by (auto simp: suf'_def)
  have one: "glob_match path (p @ suf) = ok (?m (expand_group (p @ suf')))" if "\<forall>c \<in> set p. c \<noteq> CHR '';''" for p
  proof -
    have "split_on (\<lambda>c. c = CHR '';'') (p @ suf') = [p @ suf']"
      using that suf' by (intro split_on_none) auto
    then show ?thesis using assms(5) by (auto simp: glob_match_def suf'_def)
  qed
  have group: "find_group (''{'' @ alts @ ''}'' @ suf') = Some ([], alts, suf')"
  proof -
    have "takeWhile (\<lambda>c. \<not> brace c) (alts @ CHR ''}'' # suf') = alts"
      "dropWhile (\<lambda>c. \<not> brace c) (alts @ CHR ''}'' # suf') = CHR ''}'' # suf'"
      using assms(3) by (simp_all add: takeWhile_append2 dropWhile_append2 brace_def)
    then show ?thesis using assms(4) by (simp add: Let_def)
  qed
  have "expand_group (pre @ ''{'' @ alts @ ''}'' @ suf')
      = concat (map (\<lambda>alt. expand_group (pre @ alt @ suf')) (split_on (\<lambda>c. c = CHR '','') alts))"
    using find_group_append [OF assms(2), of "''{'' @ alts @ ''}'' @ suf'"] group
    by (subst expand_group.simps) simp
  then have "glob_match path (pre @ ''{'' @ alts @ ''}'' @ suf)
      = ok (\<exists>alt \<in> set (split_on (\<lambda>c. c = CHR '','') alts). ?m (expand_group (pre @ alt @ suf')))"
    using one [of "pre @ ''{'' @ alts @ ''}''"] assms(1) by (auto simp: list_ex_iff)
  moreover have "glob_match path (pre @ alt @ suf) = ok (?m (expand_group (pre @ alt @ suf')))"
    if "alt \<in> set (split_on (\<lambda>c. c = CHR '','') alts)" for alt
    using one [of "pre @ alt"] split_on_set [OF that] assms(1) by auto
  ultimately show ?thesis by simp
qed

lemma glob_alternatives_witness:
  "glob_match ''/b.js'' (''/'' @ ''{'' @ ''a,b'' @ ''}'' @ ''.js'') = ok True"
proof -
  have b: "split_on (\<lambda>c. c = CHR '','') ''a,b'' = [''a'', ''b'']" by simp
  have "glob_match ''/b.js'' ''/b.js'' = ok True"
    by (simp add: glob_match_def expand_group.simps Let_def Match_plain_Cons same_char_def)
  then show ?thesis
    using glob_alternatives [of "''/''" "''a,b''" "''.js''" "''/b.js''"] b by (simp add: brace_def)
qed

end
