(* ===== verification/Http_Uri.thy ===== *)
theory Http_Uri
  imports Http_Request
begin

text \<open>
  What \<open>lib-http/src/request.cpp\<close> computes from the URI with the regular expression
  \<open>kURIRx\<close>, and \<open>get_parameter_ex\<close> with its multipart content. The regular expressions are
  written as the first match their backtracking finds, \<open>std::filesystem::path\<close> with
  \<open>lexically_normal\<close> as the list of its components (POSIX).
\<close>

section \<open>The parts of a URI\<close>

text \<open>Behind the host: an optional slash, the path, and a query that is not empty and has no line break.\<close>

definition line_break :: "char \<Rightarrow> bool" where
  "line_break c \<longleftrightarrow> code c = 10 \<or> code c = 13"

definition match_tail :: "string \<Rightarrow> (string \<times> string) option" where
  "match_tail s =
     (let s = (case s of [] \<Rightarrow> [] | c # cs \<Rightarrow> if c = CHR ''/'' then cs else s);
          path = takeWhile (\<lambda>c. c \<noteq> CHR ''?'') s
      in case dropWhile (\<lambda>c. c \<noteq> CHR ''?'') s of
           [] \<Rightarrow> Some (path, [])
         | _ # query \<Rightarrow> if query \<noteq> [] \<and> (\<forall>c \<in> set query. \<not> line_break c) then Some (path, query) else None)"

text \<open>The host takes as many characters as it can; the match is tried again with fewer.\<close>

fun match_host :: "nat \<Rightarrow> string \<Rightarrow> (string \<times> string \<times> string) option" where
  "match_host 0 s = None"
| "match_host (Suc n) s =
     (case match_tail (drop (Suc n) s) of
        Some (path, query) \<Rightarrow> Some (take (Suc n) s, path, query)
      | None \<Rightarrow> match_host n s)"

definition istarts_with :: "string \<Rightarrow> string \<Rightarrow> bool" where
  "istarts_with s p = starts_with (map tolower s) p"

definition match_uri :: "string \<Rightarrow> (string \<times> string \<times> string) option" where
  "match_uri s =
     (let scheme = (if istarts_with s ''http:'' then Some 5 else if istarts_with s ''https:'' then Some 6 else None);
          with_host = (case scheme of
             None \<Rightarrow> None
           | Some k \<Rightarrow>
               if starts_with (drop k s) ''//'' then
                 (let t = drop (k + 2) s
                  in match_host (length (takeWhile (\<lambda>c. c \<noteq> CHR ''/'') t)) t)
               else None)
      in case with_host of
           Some r \<Rightarrow> Some r
         | None \<Rightarrow> (case match_tail s of Some (path, query) \<Rightarrow> Some ([], path, query) | None \<Rightarrow> None))"

text \<open>\<open>lexically_normal\<close>: \<open>.\<close> goes, \<open>..\<close> takes a name before it, a root takes \<open>..\<close>.\<close>

fun normal_step :: "bool \<Rightarrow> string list \<Rightarrow> string \<Rightarrow> string list" where
  "normal_step root names name =
     (if name = ''.'' then names
      else if name = ''..'' then
        (if names = [] then (if root then [] else [''..''])
         else if last names = ''..'' then names @ [''..''] else butlast names)
      else names @ [name])"

definition path_names :: "string \<Rightarrow> string list" where
  "path_names p = filter (\<lambda>w. w \<noteq> []) (split_on (\<lambda>c. c = CHR ''/'') p)"

fun join_path :: "string list \<Rightarrow> string" where
  "join_path [] = []"
| "join_path [w] = w"
| "join_path (w # ws) = w @ ''/'' @ join_path ws"

definition lexically_normal :: "string \<Rightarrow> string" where
  "lexically_normal p =
     (if p = [] then []
      else
        (let root = hd p = CHR ''/'';
             names = path_names p;
             normal = foldl (normal_step root) [] names;
             trailing = last p = CHR ''/'' \<or> (names \<noteq> [] \<and> last names \<in> {''.'', ''..''});
             result = (if root then ''/'' else []) @ join_path normal
               @ (if trailing \<and> normal \<noteq> [] \<and> last normal \<noteq> ''..'' then ''/'' else [])
         in if result = [] then ''.'' else result))"

definition get_path :: "request \<Rightarrow> string res" where
  "get_path rq =
     (case match_uri (rq_uri rq) of
        None \<Rightarrow> throw (Invalid_argument ''the request uri is not valid'')
      | Some (host, path, query) \<Rightarrow> ok (''/'' @ lexically_normal path))"

definition get_query :: "request \<Rightarrow> string res" where
  "get_query rq =
     (case match_uri (rq_uri rq) of
        None \<Rightarrow> throw (Invalid_argument ''the request uri is not valid'')
      | Some (host, path, query) \<Rightarrow> ok query)"

definition get_host :: "request \<Rightarrow> string res" where
  "get_host rq =
     (case match_uri (rq_uri rq) of
        None \<Rightarrow> throw (Invalid_argument ''the request uri is not valid'')
      | Some (host, path, query) \<Rightarrow> ok host)"

section \<open>Multipart content\<close>

text \<open>The name in a header line \<open>content-disposition: form-data\<close>, as the regular expression finds it.\<close>

definition word_char :: "char \<Rightarrow> bool" where
  "word_char c \<longleftrightarrow> isalpha c \<or> isdigit c \<or> c = CHR ''_''"

fun find_name :: "char \<Rightarrow> string \<Rightarrow> string option" where
  "find_name prev [] = None"
| "find_name prev (c # cs) =
     (let nm = takeWhile (\<lambda>c. c \<noteq> CHR 0x22) (drop 6 (c # cs)); left = dropWhile (\<lambda>c. c \<noteq> CHR 0x22) (drop 6 (c # cs)) in
      if \<not> word_char prev \<and> istarts_with (c # cs) (''name='' @ [CHR 0x22]) \<and> nm \<noteq> [] \<and> left \<noteq> []
      then Some nm else find_name c cs)"

definition disposition_name :: "string \<Rightarrow> string option" where
  "disposition_name line =
     (if istarts_with line ''content-disposition:'' then
        (let s = dropWhile isspace (drop 20 line) in
         if istarts_with s ''form-data;'' then find_name (CHR '';'') (drop 10 s) else None)
      else None)"

datatype part_state = Part_header | Part_content | Part_skip

record multipart =
  mp_state :: part_state
  mp_name :: string
  mp_start :: nat
  mp_found :: bool

text \<open>
  One line \<open>[l, i)\<close> of the payload; the result is the content, when the loop ends here, or
  the changed state.
\<close>

definition part_line :: "string \<Rightarrow> string \<Rightarrow> string \<Rightarrow> nat \<Rightarrow> nat \<Rightarrow> multipart \<Rightarrow> string option + multipart" where
  "part_line payload boundary name l i m =
     (let line = take (i - l) (drop l payload) in
      if take 2 (drop l payload) = ''--'' \<and> take (length boundary) (drop (l + 2) payload) = boundary then
        (if mp_state m = Part_content \<or> take 2 (drop (l + 2 + length boundary) payload) = ''--'' then
           Inl (if mp_start m > 0 then
                  (let r = mp_start m;
                       n = l - r;
                       n = (if n \<ge> 1 \<and> payload ! (r + n - 1) = CHR 0x0A then n - 1 else n);
                       n = (if n \<ge> 1 \<and> payload ! (r + n - 1) = CHR 0x0D then n - 1 else n)
                   in Some (take n (drop r payload)))
                else None)
         else Inr (m\<lparr>mp_state := Part_header\<rparr>))
      else if mp_state m = Part_header then
        (if l = i then
           (if mp_name m = name then
              Inr (m\<lparr>mp_found := True, mp_state := Part_content,
                mp_start := (if take 2 (drop i payload) = [CHR 0x0D, CHR 0x0A] then i + 2 else i + 1)\<rparr>)
            else Inr (m\<lparr>mp_state := Part_skip\<rparr>))
         else (case disposition_name line of Some n \<Rightarrow> Inr (m\<lparr>mp_name := n\<rparr>) | None \<Rightarrow> Inr m))
      else Inr m)"

text \<open>The loop over the positions of the payload, its end included; \<open>k\<close> bounds the positions left.\<close>

fun part_loop :: "nat \<Rightarrow> string \<Rightarrow> string \<Rightarrow> string \<Rightarrow> nat \<Rightarrow> nat \<Rightarrow> multipart \<Rightarrow> string \<times> bool" where
  "part_loop 0 payload boundary name l i m = ([], mp_found m)"
| "part_loop (Suc k) payload boundary name l i m =
     (if i > length payload then ([], mp_found m)
      else if i < length payload \<and> payload ! i \<noteq> CHR 0x0D \<and> payload ! i \<noteq> CHR 0x0A
      then part_loop k payload boundary name l (i + 1) m
      else
        (case part_line payload boundary name l i m of
           Inl c \<Rightarrow> ((case c of Some s \<Rightarrow> s | None \<Rightarrow> []), mp_found m)
         | Inr m \<Rightarrow>
             (let i = (if take 2 (drop i payload) = [CHR 0x0D, CHR 0x0A] then i + 1 else i)
              in part_loop k payload boundary name (i + 1) (i + 1) m)))"

text \<open>Boost's \<open>replace_all\<close> of line ends.\<close>

fun unix_lines :: "string \<Rightarrow> string" where
  "unix_lines (c # d # s) =
     (if c = CHR 0x0D \<and> d = CHR 0x0A then d # unix_lines s else c # unix_lines (d # s))"
| "unix_lines s = s"

definition get_parameter_ex :: "request \<Rightarrow> string \<Rightarrow> string \<times> bool" where
  "get_parameter_ex rq name =
     (let contentType = get_header (rq_headers rq) ''Content-Type'';
          (result, found) = get_form_parameter rq name
      in if found then (result, True)
         else if starts_with contentType ''multipart/form-data'' then
           (case find_string ''boundary='' contentType of
              None \<Rightarrow> (unix_lines result, found)
            | Some b \<Rightarrow>
                (let boundary = drop (b + 9) contentType;
                     payload = rq_payload rq;
                     (result, found) = part_loop (length payload + 1) payload boundary name 0 0
                       \<lparr>mp_state = Part_skip, mp_name = [], mp_start = 0, mp_found = False\<rparr>
                 in (unix_lines result, found)))
         else (result, found))"

definition get_parameter :: "request \<Rightarrow> string \<Rightarrow> string" where
  "get_parameter rq name = fst (get_parameter_ex rq name)"

definition has_parameter :: "request \<Rightarrow> string \<Rightarrow> bool" where
  "has_parameter rq name = snd (get_parameter_ex rq name)"

end
