(* ===== verification/Controllers.thy ===== *)
theory Controllers
  imports Http_Uri Http_Server Glob Json_Element
begin

text \<open>
  The controllers of \<open>lib-http/src/controller.cpp\<close>, \<open>html-controller.cpp\<close> and
  \<open>rest-controller.cpp\<close>: the prefix they are mounted on, the paths below it, and the
  dispatch to the handlers of an application, which are arguments. The scope an HTML
  handler gets is represented by its \<open>baseuri\<close>; the regular expression a REST mount point
  builds from its path is an argument that returns the values of its parameters.
\<close>

section \<open>Prefixes\<close>

fun strip_slashes :: "string \<Rightarrow> string" where
  "strip_slashes (c # d # s) =
     (if c = CHR ''/'' \<and> d = CHR ''/'' then strip_slashes (d # s) else c # d # s)"
| "strip_slashes s = s"

definition prefix_new :: "string \<Rightarrow> string" where
  "prefix_new prefix =
     (case prefix of
        [] \<Rightarrow> []
      | c # _ \<Rightarrow> if c \<noteq> CHR ''/'' then CHR ''/'' # prefix else strip_slashes prefix)"

text \<open>\<open>offset\<close> is the number of slashes before the last one.\<close>

definition path_matches_prefix :: "string \<Rightarrow> string \<Rightarrow> bool" where
  "path_matches_prefix prefix path =
     (if prefix = [] then True
      else if path \<noteq> [] \<and> hd path = CHR ''/'' then
        take (length prefix) (strip_slashes path) = prefix
      else False)"

text \<open>The first character of an empty string is undefined.\<close>

definition get_prefixless_path :: "string \<Rightarrow> request \<Rightarrow> string res" where
  "get_prefixless_path prefix rq =
     bind_res (get_path rq) (\<lambda>p.
       (let p = strip_slashes p in
        if prefix \<noteq> [] \<and> take (length prefix) p \<noteq> prefix then throw Assertion
        else
          (let p = dropWhile (\<lambda>c. c = CHR ''/'') (drop (length prefix) p)
           in if p = [] then throw Undefined else ok p)))"

definition has_role :: "'f float_ops \<Rightarrow> 'f element \<Rightarrow> string \<Rightarrow> bool" where
  "has_role F credentials role =
     (case elem_key credentials ''role'' of
        Inr (Array roles, _) \<Rightarrow> elem_type credentials = Type_object \<and> elem_contains F (Array roles) (String role)
      | _ \<Rightarrow> False)"

section \<open>HTML controllers\<close>

type_synonym html_handler = "request \<Rightarrow> string \<Rightarrow> reply \<Rightarrow> reply \<times> server_exn option"

record mount_point =
  mt_path :: string
  mt_method :: string
  mt_handler :: html_handler

text \<open>Mounting on a path that is taken replaces the handler, if the methods are the same.\<close>

fun mount :: "string \<Rightarrow> string \<Rightarrow> html_handler \<Rightarrow> mount_point list \<Rightarrow> mount_point list res" where
  "mount path method handler [] = ok [\<lparr>mt_path = path, mt_method = method, mt_handler = handler\<rparr>]"
| "mount path method handler (mp # mps) =
     (if mt_path mp = path \<and> (mt_method mp = method \<or> mt_method mp = ''UNDEFINED'' \<or> method = ''UNDEFINED'') then
        (if mt_method mp \<noteq> method then throw (Runtime_error ''cannot mix method UNDEFINED with something else'')
         else ok (mp\<lparr>mt_handler := handler\<rparr> # mps))
      else bind_res (mount path method handler mps) (\<lambda>mps. ok (mp # mps)))"

fun find_mount :: "string \<Rightarrow> string \<Rightarrow> mount_point list \<Rightarrow> mount_point option res" where
  "find_mount uri method [] = ok None"
| "find_mount uri method (mp # mps) =
     bind_res (glob_match uri (mt_path mp)) (\<lambda>matches.
       if matches \<and> (method = ''HEAD'' \<or> method = ''OPTIONS'' \<or> mt_method mp = method \<or> mt_method mp = ''UNDEFINED'')
       then ok (Some mp) else find_mount uri method mps)"

definition html_handle_request ::
  "string \<Rightarrow> string \<Rightarrow> mount_point list \<Rightarrow> request \<Rightarrow> reply \<Rightarrow> reply \<times> (server_exn + bool)" where
  "html_handle_request date prefix mounts req rep =
     (case bind_res (get_prefixless_path prefix req) (\<lambda>uri.
             bind_res (find_mount uri (rq_method req) mounts) (\<lambda>mp. ok (uri, mp))) of
        Inl e \<Rightarrow> (rep, Inl (Exception e))
      | Inr (uri, None) \<Rightarrow> (reply_assign rep (stock_reply date 404 []), Inr False)
      | Inr (uri, Some mp) \<Rightarrow>
          if rq_method req = ''OPTIONS'' then
            (let rep = reply_assign rep (stock_reply date 200 []);
                 rep = reply_set_header rep ''Allow'' ''GET,HEAD,POST,OPTIONS''
             in (set_content rep [] ''text/plain'', Inr True))
          else
            (case mt_handler mp req uri rep of
               (rep, Some e) \<Rightarrow> (rep, Inl e)
             | (rep, None) \<Rightarrow> (rep, Inr True)))"

section \<open>REST controllers\<close>

type_synonym path_params = "(string \<times> string) list"

text \<open>The parameters in the path hide those of the request.\<close>

definition pack_get_parameter :: "path_params \<Rightarrow> request \<Rightarrow> string \<Rightarrow> string" where
  "pack_get_parameter ps req name = (case map_of ps name of Some v \<Rightarrow> v | None \<Rightarrow> get_parameter req name)"

definition pack_get_parameter_ex :: "path_params \<Rightarrow> request \<Rightarrow> string \<Rightarrow> string \<times> bool" where
  "pack_get_parameter_ex ps req name = (case map_of ps name of Some v \<Rightarrow> (v, True) | None \<Rightarrow> get_parameter_ex req name)"

record rest_mount =
  rm_path :: string
  rm_method :: string
  rm_path_params :: "string list"
  rm_match :: "string \<Rightarrow> string list option"
  rm_call :: "path_params \<Rightarrow> request \<Rightarrow> reply \<Rightarrow> reply \<times> server_exn option"

text \<open>The values of the path parameters; the result of \<open>decode_url\<close> is not used.\<close>

definition mount_params :: "rest_mount \<Rightarrow> string \<Rightarrow> path_params option" where
  "mount_params mp p =
     (if rm_path_params mp = [] then (if rm_path mp = p then Some [] else None)
      else map_option (zip (rm_path_params mp)) (rm_match mp p))"

definition set_json :: "'f float_ops \<Rightarrow> reply \<Rightarrow> 'f element \<Rightarrow> reply" where
  "set_json F rep e = set_content rep (serialize F e) ''application/json''"

text \<open>The message of an exception; the one of \<open>std::out_of_range\<close> is the library's.\<close>

definition what :: "string \<Rightarrow> exn \<Rightarrow> string" where
  "what out_of_range e =
     (case e of
        Runtime_error m \<Rightarrow> m
      | Zeep_exception m \<Rightarrow> m
      | Invalid_argument m \<Rightarrow> m
      | Out_of_range \<Rightarrow> out_of_range
      | Invalid_base64 \<Rightarrow> ''invalid base64 input''
      | Invalid_hex \<Rightarrow> ''invalid hexadecimal input''
      | Unauthorized \<Rightarrow> ''unauthorized''
      | Invalid_password \<Rightarrow> ''invalid password''
      | _ \<Rightarrow> [])"

definition error_element :: "string \<Rightarrow> 'f element" where
  "error_element message = elem_of_list [elem_of_list [String ''error'', String message]]"

text \<open>What the two handlers around the call make of an exception; a failed assertion is not caught.\<close>

definition rest_catch :: "'f float_ops \<Rightarrow> string \<Rightarrow> string \<Rightarrow> reply \<times> server_exn option \<Rightarrow> reply \<times> (server_exn + bool)" where
  "rest_catch F date oor result =
     (case result of
        (rep, None) \<Rightarrow> (rep, Inr True)
      | (rep, Some (Status s)) \<Rightarrow>
          (set_json F (reply_assign rep (stock_reply date s [])) (error_element (get_status_description s)), Inr True)
      | (rep, Some (Exception e)) \<Rightarrow>
          if e = Assertion \<or> e = Undefined then (rep, Inl (Exception e))
          else (set_json F (reply_assign rep (stock_reply date 500 [])) (error_element (what oor e)), Inr True))"

fun rest_dispatch ::
  "'f float_ops \<Rightarrow> string \<Rightarrow> string \<Rightarrow> rest_mount list \<Rightarrow> string \<Rightarrow> request \<Rightarrow> reply \<Rightarrow> reply \<times> (server_exn + bool)" where
  "rest_dispatch F date oor [] p req rep = (rep, Inr False)"
| "rest_dispatch F date oor (mp # mps) p req rep =
     (if rq_method req \<noteq> rm_method mp then rest_dispatch F date oor mps p req rep
      else
        (case mount_params mp p of
           None \<Rightarrow> rest_dispatch F date oor mps p req rep
         | Some params \<Rightarrow> rest_catch F date oor (rm_call mp params req rep)))"

definition rest_handle_request ::
  "'f float_ops \<Rightarrow> string \<Rightarrow> string \<Rightarrow> string \<Rightarrow> rest_mount list \<Rightarrow> request \<Rightarrow> reply \<Rightarrow> reply \<times> (server_exn + bool)" where
  "rest_handle_request F date oor prefix mounts req rep =
     (case get_prefixless_path prefix req of
        Inl e \<Rightarrow> (rep, Inl (Exception e))
      | Inr p \<Rightarrow> rest_dispatch F date oor mounts p req rep)"

text \<open>A controller as the server sees it.\<close>

definition html_controller :: "string \<Rightarrow> string \<Rightarrow> mount_point list \<Rightarrow> controller" where
  "html_controller date prefix mounts =
     \<lparr>ct_matches = path_matches_prefix prefix, ct_dispatch = html_handle_request date prefix mounts\<rparr>"

definition rest_controller :: "'f float_ops \<Rightarrow> string \<Rightarrow> string \<Rightarrow> string \<Rightarrow> rest_mount list \<Rightarrow> controller" where
  "rest_controller F date oor prefix mounts =
     \<lparr>ct_matches = path_matches_prefix prefix, ct_dispatch = rest_handle_request F date oor prefix mounts\<rparr>"

section \<open>Errors of REST calls\<close>

lemma set_content_facts: "rp_status (set_content r d t) = 200" "rp_content (set_content r d t) = d"
  by (simp_all add: set_content_def Let_def reply_set_header_def reply_del_header_def)

lemma error_element_object: "error_element m = Object [(''error'', String m)]"
  by (simp add: error_element_def elem_of_list_def is_pair_element_def)

text \<open>
  A REST call that ends with an error is answered with the description of the error
  as JSON, but with the status 200.
\<close>

lemma rest_errors_are_ok:
  assumes "rm_call mp params req rep = (rep', Some (Status s))"
    and "rq_method req = rm_method mp" "mount_params mp p = Some params"
    and "get_prefixless_path prefix req = ok p"
  shows "\<exists>r. rest_handle_request F date oor prefix (mp # mps) req rep = (r, Inr True)
    \<and> rp_status r = 200
    \<and> rp_content r = serialize F (Object [(''error'', String (get_status_description s))])"
  using assms
  by (simp add: rest_handle_request_def rest_catch_def set_json_def set_content_facts error_element_object)

definition failing_mount :: rest_mount where
  "failing_mount =
     \<lparr>rm_path = ''x'', rm_method = ''GET'', rm_path_params = [], rm_match = (\<lambda>_. None),
      rm_call = (\<lambda>ps req rep. (rep, Some (Status 404)))\<rparr>"

lemma rest_errors_are_ok_witness:
  "\<exists>r. rest_handle_request int_ops [] [] ''/'' [failing_mount] (request_new ''GET'' ''/x'' (1, 1) [] []) (reply_new [] 200 (1, 1)) = (r, Inr True)
    \<and> rp_status r = 200"
proof -
  let ?q = "request_new ''GET'' ''/x'' (1, 1) [] []"
  have "get_prefixless_path ''/'' ?q = ok ''x''"
    by (simp add: get_prefixless_path_def get_path_def match_uri_def match_tail_def istarts_with_def
        lexically_normal_def path_names_def request_new_def Let_def)
  then show ?thesis
    using rest_errors_are_ok [of failing_mount "[]" ?q "reply_new [] 200 (1, 1)" _ 404 "''x''" "''/''" int_ops "[]" "[]" "[]"]
    by (auto simp: failing_mount_def mount_params_def request_new_def)
qed

end
