(* ===== verification/Security.thy ===== *)
theory Security
  imports Http_Uri Http_Server Glob Mac Json_Roundtrip
begin

text \<open>
  The access control of \<open>lib-http/src/security.cpp\<close> and \<open>zeep/http/security.hpp\<close>: rules
  for paths, the JSON web token in the cookie \<open>access_token\<close>, the CSRF check, and the
  password encoder. The user service and the password encoders, which an application may
  replace, are arguments. Parsing the token may not end, so results are optional: the
  number \<open>n\<close> bounds the steps of the JSON parser. The elements of a \<open>std::set\<close> are listed
  in their order.
\<close>

section \<open>Passwords\<close>

text \<open>
  The stored password: the name of the encoder, the iterations, the salt and the key. The
  salt, which comes from the random device, is an argument of \<open>encode\<close>.
\<close>

definition pbkdf2_encode :: "nat \<Rightarrow> nat \<Rightarrow> string \<Rightarrow> string \<Rightarrow> string option res" where
  "pbkdf2_encode iterations key_length salt password =
     bind_res (pbkdf2_hmac_sha256 salt password iterations key_length) (\<lambda>key.
       case key of
         None \<Rightarrow> ok None
       | Some key \<Rightarrow>
           bind_res (encode_base64 key 0) (\<lambda>pw.
             ok (Some (''pbkdf2_sha256$'' @ nat_to_string iterations @ ''$'' @ salt @ ''$'' @ pw))))"

text \<open>What the regular expression finds: iterations, salt and key.\<close>

definition split_stored :: "string \<Rightarrow> (string \<times> string \<times> string) option" where
  "split_stored stored =
     (if starts_with stored ''pbkdf2_sha256$'' then
        (let s = drop 14 stored;
             iterations = takeWhile (\<lambda>c. c \<noteq> CHR ''$'') s;
             s = drop (length iterations + 1) s;
             salt = takeWhile (\<lambda>c. c \<noteq> CHR ''$'') s;
             key = drop (length salt + 1) s
         in if iterations \<noteq> [] \<and> list_all isdigit iterations \<and> salt \<noteq> [] \<and> key \<noteq> []
               \<and> (\<forall>c \<in> set key. \<not> line_break c)
            then Some (iterations, salt, key) else None)
      else None)"

definition stoul :: "string \<Rightarrow> nat res" where
  "stoul s =
     (let v = foldl (\<lambda>a c. 10 * a + digit_val c) 0 s in if v < 2 ^ 64 then ok v else throw Out_of_range)"

definition pbkdf2_matches :: "nat \<Rightarrow> string \<Rightarrow> string \<Rightarrow> bool option res" where
  "pbkdf2_matches key_length raw_password stored_password =
     (case split_stored stored_password of
        None \<Rightarrow> ok (Some False)
      | Some (it, salt, key) \<Rightarrow>
          bind_res (stoul it) (\<lambda>iterations.
          bind_res (pbkdf2_hmac_sha256 salt raw_password iterations key_length) (\<lambda>test.
            case test of
              None \<Rightarrow> ok None
            | Some test \<Rightarrow> bind_res (encode_base64 test 0) (\<lambda>test. ok (Some (key = test))))))"

section \<open>Users, rules and the context\<close>

record user_details =
  ud_username :: string
  ud_password :: string
  ud_roles :: "string list"

definition no_user :: user_details where
  "no_user = \<lparr>ud_username = [], ud_password = [], ud_roles = []\<rparr>"

text \<open>The simple user service: an unknown user has empty details.\<close>

definition simple_load_user :: "user_details list \<Rightarrow> string \<Rightarrow> user_details" where
  "simple_load_user users username =
     (case List.find (\<lambda>u. ud_username u = username) users of Some u \<Rightarrow> u | None \<Rightarrow> no_user)"

definition add_user :: "user_details list \<Rightarrow> string \<Rightarrow> string \<Rightarrow> string list \<Rightarrow> user_details list" where
  "add_user users username password roles =
     users @ [\<lparr>ud_username = username, ud_password = password, ud_roles = roles\<rparr>]"

record rule =
  rl_pattern :: string
  rl_roles :: "string list"

type_synonym password_encoder = "string \<times> (string \<Rightarrow> string \<Rightarrow> bool option res)"

record access_context =
  ac_secret :: string
  ac_load_user :: "string \<Rightarrow> user_details res"
  ac_default_allow :: bool
  ac_validate_csrf :: bool
  ac_rules :: "rule list"
  ac_encoders :: "password_encoder list"

definition access_context_new :: "string \<Rightarrow> (string \<Rightarrow> user_details res) \<Rightarrow> bool \<Rightarrow> access_context" where
  "access_context_new secret users default_allow =
     \<lparr>ac_secret = secret, ac_load_user = users, ac_default_allow = default_allow, ac_validate_csrf = False,
      ac_rules = [], ac_encoders = [(''pbkdf2_sha256'', pbkdf2_matches 32)]\<rparr>"

definition register_password_encoder :: "password_encoder \<Rightarrow> access_context \<Rightarrow> access_context" where
  "register_password_encoder e ctx = ctx\<lparr>ac_encoders := ac_encoders ctx @ [e]\<rparr>"

definition add_rule :: "string \<Rightarrow> string list \<Rightarrow> access_context \<Rightarrow> access_context res" where
  "add_rule glob_pattern roles ctx =
     (case glob_pattern of
        [] \<Rightarrow> throw Undefined
      | c # _ \<Rightarrow>
          if c \<noteq> CHR ''/'' then throw Assertion
          else ok (ctx\<lparr>ac_rules := ac_rules ctx @ [\<lparr>rl_pattern = glob_pattern, rl_roles = roles\<rparr>]\<rparr>))"

section \<open>The token\<close>

definition base64url_char :: "char \<Rightarrow> bool" where
  "base64url_char c \<longleftrightarrow> isalpha c \<or> isdigit c \<or> c = CHR ''-'' \<or> c = CHR ''_''"

text \<open>Groups of four characters and a last one of two or three.\<close>

definition base64url_part :: "string \<Rightarrow> bool" where
  "base64url_part s \<longleftrightarrow> list_all base64url_char s \<and> length s mod 4 \<noteq> 1"

definition match_jwt :: "string \<Rightarrow> (string \<times> string \<times> string) option" where
  "match_jwt token =
     (case split_on (\<lambda>c. c = CHR ''.'') token of
        [a, b, c] \<Rightarrow> if base64url_part a \<and> base64url_part b \<and> base64url_part c then Some (a, b, c) else None
      | _ \<Rightarrow> None)"

definition kJOSEHeader :: "'f element" where
  "kJOSEHeader = Object [(''alg'', String ''HS256''), (''typ'', String ''JWT'')]"

definition sign_token :: "string \<Rightarrow> string \<Rightarrow> string \<Rightarrow> string res" where
  "sign_token secret h1 h2 = bind_res (hmac_sha256 (h1 @ ''.'' @ h2) secret) encode_base64url"

definition parse_part :: "'f float_ops \<Rightarrow> nat \<Rightarrow> string \<Rightarrow> 'f element res option" where
  "parse_part F n s = (case decode_base64url s of Inl e \<Rightarrow> Some (throw e) | Inr t \<Rightarrow> parse_json F n t Null)"

text \<open>
  The inner loop, which runs once: the credentials and the roles of a token that is
  accepted. Looking at \<open>credentials["role"]\<close> enters a null when there is none.
\<close>

definition token_credentials ::
  "'f float_ops \<Rightarrow> nat \<Rightarrow> string \<Rightarrow> string \<Rightarrow> ('f element \<times> string list) option res option" where
  "token_credentials F n secret access_token =
     (if access_token = [] then Some (ok None)
      else
        (case match_jwt access_token of
           None \<Rightarrow> Some (ok None)
         | Some (m1, m2, m3) \<Rightarrow>
             seq (parse_part F n m1) (\<lambda>JOSEHeader.
             if \<not> elem_eq F JOSEHeader kJOSEHeader then Some (ok None)
             else
               seq (Some (sign_token secret m1 m2)) (\<lambda>sig.
               if sig \<noteq> m3 then Some (ok None)
               else
                 seq (parse_part F n m2) (\<lambda>credentials.
                 case elem_type credentials of
                   Type_object \<Rightarrow>
                     seq (Some (elem_key credentials ''role'')) (\<lambda>(role, credentials).
                     case role of
                       Array roles \<Rightarrow> Some (ok (Some (credentials, map (as_string F) roles)))
                     | _ \<Rightarrow> Some (ok None))
                 | _ \<Rightarrow> Some (ok None))))))"

text \<open>The first rule that matches the path decides.\<close>

fun rules_allow :: "string \<Rightarrow> string list \<Rightarrow> rule list \<Rightarrow> bool \<Rightarrow> bool res" where
  "rules_allow path roles [] allow = ok allow"
| "rules_allow path roles (rule # rules) allow =
     bind_res (glob_match path (rl_pattern rule)) (\<lambda>matches.
       if \<not> matches then rules_allow path roles rules allow
       else if rl_roles rule = [] then ok True
       else ok (\<exists>r \<in> set roles. r \<in> set (rl_roles rule)))"

definition csrf_ok :: "access_context \<Rightarrow> request \<Rightarrow> bool" where
  "csrf_ok ctx req \<longleftrightarrow>
     \<not> (ac_validate_csrf ctx \<and> has_parameter req ''_csrf''
        \<and> request_get_cookie (rq_headers req) ''csrf-token'' \<noteq> get_parameter req ''_csrf'')"

definition decide :: "access_context \<Rightarrow> request \<Rightarrow> string \<Rightarrow> string list \<Rightarrow> unit res" where
  "decide ctx req path roles =
     bind_res (rules_allow path roles (ac_rules ctx) (ac_default_allow ctx)) (\<lambda>allow.
       if allow \<and> csrf_ok ctx req then ok () else throw Unauthorized)"

text \<open>The result is the value of \<open>m_credentials\<close>, if the request gets one.\<close>

definition validate_request ::
  "'f float_ops \<Rightarrow> nat \<Rightarrow> access_context \<Rightarrow> request \<Rightarrow> 'f element option res option" where
  "validate_request F n ctx req =
     seq (Some (get_path req)) (\<lambda>path.
       (let path = (if path = [] \<or> hd path \<noteq> CHR ''/'' then CHR ''/'' # path else path) in
        seq (token_credentials F n (ac_secret ctx) (request_get_cookie (rq_headers req) ''access_token'')) (\<lambda>found.
        case found of
          None \<Rightarrow> seq (Some (decide ctx req path [])) (\<lambda>_. Some (ok None))
        | Some (credentials, roles) \<Rightarrow> seq (Some (decide ctx req path roles)) (\<lambda>_. Some (ok (Some credentials))))))"

section \<open>Issuing a token\<close>

fun push_roles :: "'f element \<Rightarrow> string list \<Rightarrow> 'f element res" where
  "push_roles credentials [] = ok credentials"
| "push_roles credentials (role # roles) =
     bind_res (elem_key credentials ''role'') (\<lambda>(v, credentials).
     bind_res (elem_push_back v (String role)) (\<lambda>v.
       case credentials of
         Object m \<Rightarrow> push_roles (Object (map (\<lambda>(k, w). if k = ''role'' then (k, v) else (k, w)) m)) roles
       | _ \<Rightarrow> throw Undefined))"

definition user_credentials :: "user_details \<Rightarrow> 'f element res" where
  "user_credentials user =
     push_roles (elem_of_list [elem_of_list [String ''username'', String (ud_username user)]]) (ud_roles user)"

definition add_authorization_headers :: "'f float_ops \<Rightarrow> access_context \<Rightarrow> reply \<Rightarrow> user_details \<Rightarrow> reply res" where
  "add_authorization_headers F ctx rep user =
     bind_res (user_credentials user) (\<lambda>credentials.
     bind_res (encode_base64url (as_string F kJOSEHeader)) (\<lambda>h1.
     bind_res (encode_base64url (as_string F credentials)) (\<lambda>h2.
     bind_res (sign_token (ac_secret ctx) h1 h2) (\<lambda>h3.
       ok (reply_set_cookie rep ''access_token'' (h1 @ ''.'' @ h2 @ ''.'' @ h3)
         [\<lparr>h_name = ''HttpOnly'', h_value = []\<rparr>, \<lparr>h_name = ''SameSite'', h_value = ''Lax''\<rparr>])))))"

text \<open>The first encoder whose name begins the stored password decides; every exception becomes one.\<close>

fun password_match :: "password_encoder list \<Rightarrow> string \<Rightarrow> string \<Rightarrow> bool option res" where
  "password_match [] raw_password stored = ok (Some False)"
| "password_match ((name, matches) # encoders) raw_password stored =
     (if \<not> starts_with stored name then password_match encoders raw_password stored
      else matches raw_password stored)"

definition caught :: "exn \<Rightarrow> exn" where
  "caught e = (if e = Assertion \<or> e = Undefined then e else Invalid_password)"

definition verify_username_password ::
  "'f float_ops \<Rightarrow> access_context \<Rightarrow> string \<Rightarrow> string \<Rightarrow> reply \<Rightarrow> reply res option" where
  "verify_username_password F ctx username raw_password rep =
     (case
        seq (Some (ac_load_user ctx username)) (\<lambda>user.
        case password_match (ac_encoders ctx) raw_password (ud_password user) of
          Inl e \<Rightarrow> Some (throw e)
        | Inr None \<Rightarrow> None
        | Inr (Some matched) \<Rightarrow>
            if \<not> matched then Some (throw Invalid_password)
            else Some (add_authorization_headers F ctx rep user))
      of None \<Rightarrow> None
       | Some (Inl e) \<Rightarrow> Some (throw (caught e))
       | Some (Inr rep) \<Rightarrow> Some (ok rep))"

text \<open>The new token is the random hash, encoded; it is also entered into the request.\<close>

definition get_csrf_token :: "string \<Rightarrow> request \<Rightarrow> ((string \<times> bool) \<times> request) res" where
  "get_csrf_token random_hash req =
     (let csrf = request_get_cookie (rq_headers req) ''csrf-token'' in
      if csrf = [] then
        bind_res (encode_base64url random_hash) (\<lambda>csrf.
          ok ((csrf, True), req\<lparr>rq_headers := request_set_cookie (rq_headers req) ''csrf-token'' csrf\<rparr>))
      else ok ((csrf, False), req))"

section \<open>Passwords are accepted\<close>

lemma starts_with_refl_append [simp]: "starts_with (p @ s) p"
  by (rule starts_with_append)

lemma length_pbkdf2_loop: "pbkdf2_loop k upd fin salt c n s i r = Some t \<Longrightarrow> length t = n"
  by (induction k upd fin salt c n s i r rule: pbkdf2_loop.induct) (auto simp: Let_def split: if_splits prod.splits)

lemma pbkdf2_sha256_short:
  assumes "length password < 64"
  obtains key where "pbkdf2_hmac_sha256 salt password c n = ok (Some key)" "length key = n"
proof -
  have "\<exists>t. pbkdf2_hmac_sha256 salt password c n = ok (Some t)"
    using sha256m.pbkdf2_spec_eq [of password "bytes_of password" salt c n]
    by (simp only: take_key [OF assms] simp_thms pbkdf2_hmac_sha256_def) blast
  then obtain t where t: "pbkdf2_hmac_sha256 salt password c n = ok (Some t)" by blast
  then have "length t = n"
    by (auto simp: pbkdf2_hmac_sha256_def pbkdf2_def bind_simps dest: length_pbkdf2_loop simp del: pbkdf2_loop.simps)
  with t that show ?thesis by blast
qed

lemma encode_groups_no_break:
  "0 < length key \<Longrightarrow> encode_groups key \<noteq> [] \<and> (\<forall>c \<in> set (encode_groups key). \<not> line_break c)"
proof -
  assume "0 < length key"
  then have ne: "encode_groups key \<noteq> []" by (cases key rule: encode_groups.cases) (simp_all add: Let_def)
  have "\<forall>c \<in> set (CHR ''='' # kBase64CharTable). \<not> line_break c"
    by (simp add: kBase64CharTable_def line_break_def)
  moreover obtain core where "encode_groups key = core @ replicate ((3 - length key mod 3) mod 3) CHR ''=''"
    "set core \<subseteq> set kBase64CharTable" using encode_groups_split by blast
  ultimately show ?thesis using ne by (auto simp: in_set_replicate)
qed

lemma dollar_no_digit: "isdigit c \<Longrightarrow> c \<noteq> CHR ''$''"
  by (auto simp: isdigit_def)

lemma split_stored_encoded:
  assumes "salt \<noteq> []" "CHR ''$'' \<notin> set salt" "key \<noteq> []" "\<forall>c \<in> set key. \<not> line_break c"
  shows "split_stored (''pbkdf2_sha256$'' @ nat_to_string it @ ''$'' @ salt @ ''$'' @ key) = Some (nat_to_string it, salt, key)"
proof -
  let ?s = "nat_to_string it @ CHR ''$'' # salt @ CHR ''$'' # key"
  have d: "\<forall>c \<in> set (nat_to_string it). c \<noteq> CHR ''$''" using nat_to_string_digits dollar_no_digit by blast
  then have "takeWhile (\<lambda>c. c \<noteq> CHR ''$'') ?s = nat_to_string it" by (simp add: takeWhile_append2)
  moreover have "takeWhile (\<lambda>c. c \<noteq> CHR ''$'') (salt @ CHR ''$'' # key) = salt"
  proof -
    have "\<forall>c \<in> set salt. c \<noteq> CHR ''$''" using assms(2) by blast
    then show ?thesis by (simp add: takeWhile_append2)
  qed
  ultimately show ?thesis
    using assms nat_to_string_digits [of it] by (simp add: split_stored_def Let_def list_all_iff)
qed

text \<open>
  C25. A password that was encoded, with any salt without a dollar sign and any number of
  iterations an \<open>unsigned long\<close> holds, is accepted when it is given again.
\<close>

theorem password_roundtrip:
  assumes "length password < 64" "salt \<noteq> []" "CHR ''$'' \<notin> set salt" "0 < key_length" "iterations < 2 ^ 64"
  shows "\<exists>stored. pbkdf2_encode iterations key_length salt password = ok (Some stored)
    \<and> pbkdf2_matches key_length password stored = ok (Some True)"
proof -
  obtain key where k: "pbkdf2_hmac_sha256 salt password iterations key_length = ok (Some key)" "length key = key_length"
    using pbkdf2_sha256_short [OF assms(1)] by blast
  let ?stored = "''pbkdf2_sha256$'' @ nat_to_string iterations @ ''$'' @ salt @ ''$'' @ encode_groups key"
  have "split_stored ?stored = Some (nat_to_string iterations, salt, encode_groups key)"
    using split_stored_encoded [OF assms(2,3)] encode_groups_no_break [of key] k(2) assms(4) by simp
  then have "pbkdf2_matches key_length password ?stored = ok (Some True)"
    using assms(5) k(1) by (simp add: pbkdf2_matches_def stoul_def nat_to_string_value del: encode_groups.simps)
  moreover have "pbkdf2_encode iterations key_length salt password = ok (Some ?stored)"
    using k(1) by (simp add: pbkdf2_encode_def)
  ultimately show ?thesis by blast
qed

theorem password_roundtrip_witness:
  "\<exists>stored. pbkdf2_encode 30000 32 ''salt'' ''secret'' = ok (Some stored) \<and> pbkdf2_matches 32 ''secret'' stored = ok (Some True)"
  by (rule password_roundtrip) simp_all

section \<open>Tokens\<close>

text \<open>
  C26. A token whose signature is not the one of the secret gives no rights: a request with
  such a cookie that is let through would be let through with no roles at all, and it
  gets no credentials.
\<close>

theorem forged_token_gives_no_roles:
  fixes F :: "'f float_ops" and n :: nat
  assumes "validate_request F n ctx req = Some (ok found)"
    and "\<forall>h1 h2 h3. match_jwt (request_get_cookie (rq_headers req) ''access_token'') = Some (h1, h2, h3) \<longrightarrow>
      sign_token (ac_secret ctx) h1 h2 \<noteq> ok h3"
  shows "found = None \<and> (\<exists>path. get_path req = ok path \<and> decide ctx req path [] = ok ())"
proof -
  obtain path where p: "get_path req = ok path" using assms(1) by (auto simp: validate_request_def seq_def split: sum.splits)
  then have slash: "path \<noteq> [] \<and> hd path = CHR ''/''" by (auto simp: get_path_def split: option.splits)
  let ?t = "token_credentials F n (ac_secret ctx) (request_get_cookie (rq_headers req) ''access_token'')"
  have "?t = Some (ok None)" if "?t = Some (ok c)" for c
    using that assms(2)
    by (auto simp: token_credentials_def seq_def split: if_splits option.splits sum.splits)
  then show ?thesis using assms(1) p slash
    by (auto simp: validate_request_def seq_def Let_def split: option.splits sum.splits)
qed

definition open_context :: access_context where
  "open_context = access_context_new ''secret'' (\<lambda>_. ok no_user) True"

definition cookie_request :: "string \<Rightarrow> string \<Rightarrow> request" where
  "cookie_request uri token =
     request_new ''GET'' uri (1, 1) [\<lparr>h_name = ''Cookie'', h_value = ''access_token='' @ token\<rparr>] []"

lemma cookie_request_uri [simp]: "rq_uri (cookie_request uri token) = uri"
  by (simp add: cookie_request_def request_new_def)

theorem forged_token_gives_no_roles_witness:
  "validate_request int_ops 9 open_context (cookie_request ''/'' ''x.y'') = Some (ok None)
    \<and> decide open_context (cookie_request ''/'' ''x.y'') ''/'' [] = ok ()"
proof -
  let ?r = "cookie_request ''/'' ''x.y''"
  have c: "request_get_cookie (rq_headers ?r) ''access_token'' = ''x.y''"
    by (simp add: cookie_request_def request_new_def raw_cookies_def trim_def isspace_def)
  have m: "match_jwt ''x.y'' = None" by (simp add: match_jwt_def)
  have p: "get_path ?r = ok ''/''" by (simp add: get_path_def match_uri_def match_tail_def istarts_with_def lexically_normal_def)
  have d: "decide open_context ?r ''/'' [] = ok ()"
    by (simp add: decide_def open_context_def access_context_new_def csrf_ok_def)
  have v: "validate_request int_ops 9 open_context ?r = Some (ok None)"
    using c m p d by (simp add: validate_request_def seq_def token_credentials_def Let_def)
  show ?thesis using forged_token_gives_no_roles [OF v] c m p v by simp
qed

text \<open>
  A request can stop the server before its signature is looked at: with the cookie
  \<open>access_token=MWU..\<close>, whose first part decodes to \<open>1e\<close>, validation never ends, whatever
  the secret, the rules and the bound on the steps.
\<close>

lemma unsigned_token_hangs:
  fixes F :: "'f float_ops"
  shows "validate_request F n ctx (cookie_request ''/'' ''MWU..'') = None"
proof -
  let ?r = "cookie_request ''/'' ''MWU..''"
  have c: "request_get_cookie (rq_headers ?r) ''access_token'' = ''MWU..''"
    by (simp add: cookie_request_def request_new_def raw_cookies_def trim_def isspace_def)
  have m: "match_jwt ''MWU..'' = Some (''MWU'', [], [])"
    by (simp add: match_jwt_def base64url_part_def base64url_char_def isalpha_def isupper_def isdigit_def)
  have p: "get_path ?r = ok ''/''" by (simp add: get_path_def match_uri_def match_tail_def istarts_with_def lexically_normal_def)
  have "encode_base64url ''1e'' = ok ''MWU''"
    by (simp add: encode_base64url_def pop_padding_def replace_char_def kBase64CharTable_def Let_def)
  then have "decode_base64url ''MWU'' = ok ''1e''" using base64url_decodes [of "''1e''"] by simp
  moreover have "nat_to_string 1 = ''1''" using char_of_code [of "CHR ''1''"] by (simp add: nat_to_string.simps)
  then have "parse_json F n ''1e'' Null = None" using exponent_hangs [of 1 F n Null] by simp
  ultimately have "parse_part F n ''MWU'' = None" by (simp add: parse_part_def)
  then show ?thesis
    using c m p by (simp add: validate_request_def seq_def token_credentials_def Let_def)
qed

lemma base64url_table: "\<forall>c \<in> set kBase64CharTable. base64url_char (if c = CHR ''+'' then CHR ''-'' else if c = CHR ''/'' then CHR ''_'' else c)"
  by (simp add: kBase64CharTable_def base64url_char_def isalpha_def isupper_def islower_def isdigit_def)

lemma base64url_is_part: "encode_base64url data = ok t \<Longrightarrow> base64url_part t"
proof -
  assume t: "encode_base64url data = ok t"
  obtain core where core: "set core \<subseteq> set kBase64CharTable"
    and enc: "encode_base64url data = ok (replace_char CHR ''/'' CHR ''_'' (replace_char CHR ''+'' CHR ''-'' core))"
    and len: "length core mod 4 = 0 \<or> length core mod 4 = 3 \<or> length core mod 4 = 2"
    using encode_base64url_core [of data] by metis
  have "t = map (\<lambda>c. if c = CHR ''+'' then CHR ''-'' else if c = CHR ''/'' then CHR ''_'' else c) core"
    using t enc by (auto simp: replace_char_def)
  moreover have "list_all base64url_char \<dots>"
    using core base64url_table by (force simp: list_all_iff)
  ultimately show ?thesis using len by (auto simp: base64url_part_def)
qed

lemma match_jwt_parts:
  assumes "base64url_part a" "base64url_part b" "base64url_part c"
  shows "match_jwt (a @ ''.'' @ b @ ''.'' @ c) = Some (a, b, c)"
proof -
  have no: "\<forall>x \<in> set p. x \<noteq> CHR ''.''" if "base64url_part p" for p
    using that by (auto simp: base64url_part_def list_all_iff base64url_char_def isalpha_def isupper_def islower_def isdigit_def)
  have word: "split_on (\<lambda>c. c = CHR ''.'') (p @ CHR ''.'' # s) = p # split_on (\<lambda>c. c = CHR ''.'') s"
    if "\<forall>x \<in> set p. x \<noteq> CHR ''.''" for p s using that by (induction p) auto
  show ?thesis
    using assms word [OF no [OF assms(1)]] word [OF no [OF assms(2)]] split_on_none [of c "\<lambda>c. c = CHR ''.''"] no [OF assms(3)]
    by (simp add: match_jwt_def)
qed

lemma small_plain_unicode:
  assumes "u < 0x80" "u \<noteq> 0" "u \<noteq> 34" "u \<noteq> 92"
  shows "plain_unicode u"
proof -
  have n: "unat u < 128" using assms(1) by (simp add: word_less_nat_alt)
  then have "u \<noteq> 0xFFFF" "u \<noteq> 0xFFFE" by auto
  moreover have "u \<le> 0x10FFFF" "\<not> 0xD800 \<le> u" using n by (simp_all add: word_le_nat_alt)
  ultimately show ?thesis using assms by (simp add: plain_unicode_def valid_unicode_def)
qed

lemma ascii_plain_key:
  assumes "list_all (\<lambda>c. 0 < code c \<and> code c < 128 \<and> code c \<noteq> 34 \<and> code c \<noteq> 92) s"
  shows "plain_key s"
proof -
  have "s = text_of (map ord32 s)" using assms by (induction s) (simp_all add: utf8_ascii)
  moreover have "plain_unicode (ord32 c)" if "0 < code c" "code c < 128" "code c \<noteq> 34" "code c \<noteq> 92" for c
  proof (rule small_plain_unicode)
    have u: "unat (ord32 c) = code c" using that(2) by (simp add: ord32_def unat_of_nat)
    then show "ord32 c < 0x80" using that(2) by (simp add: word_less_nat_alt)
    have "unat (0 :: unicode) = 0" "unat (34 :: unicode) = 34" "unat (92 :: unicode) = 92" by simp_all
    then show "ord32 c \<noteq> 0" "ord32 c \<noteq> 34" "ord32 c \<noteq> 92" using u that by (metis less_irrefl)+
  qed
  then have "list_all plain_unicode (map ord32 s)" using assms by (simp add: list_all_iff)
  ultimately show ?thesis unfolding plain_key_def by blast
qed

lemma plain_key_utf8: "plain_key s \<Longrightarrow> utf8_string s"
  by (auto simp: plain_key_def utf8_string_def plain_unicode_def list_all_iff)

lemma kJOSE_safe: "safe_element kJOSEHeader" "collapse kJOSEHeader = kJOSEHeader" "elem_eq F kJOSEHeader kJOSEHeader"
proof -
  have "plain_key ''alg''" "plain_key ''typ''" "plain_key ''HS256''" "plain_key ''JWT''"
    by (simp_all add: ascii_plain_key)
  then show "safe_element kJOSEHeader"
    by (auto simp: kJOSEHeader_def dest: plain_key_utf8)
  show "collapse kJOSEHeader = kJOSEHeader" "elem_eq F kJOSEHeader kJOSEHeader"
    by (simp_all add: kJOSEHeader_def obj_of_def)
qed

lemma push_roles_array:
  "push_roles (Object [(''role'', Array es), (''username'', String u)]) roles
   = ok (Object [(''role'', Array (es @ map String roles)), (''username'', String u)])"
proof (induction roles arbitrary: es)
  case (Cons r roles)
  then show ?case by (simp add: elem_key_def elem_push_back_def Let_def)
qed simp

lemma user_credentials_roles:
  assumes "ud_roles user \<noteq> []"
  shows "user_credentials user = ok (Object [(''role'', Array (map String (ud_roles user))), (''username'', String (ud_username user))])"
proof -
  obtain r roles where r: "ud_roles user = r # roles" using assms by (cases "ud_roles user") auto
  have "elem_of_list [elem_of_list [String ''username'', String (ud_username user)]]
      = Object [(''username'', String (ud_username user)) :: string \<times> 'a element]"
    by (simp add: elem_of_list_def is_pair_element_def)
  then show ?thesis using push_roles_array [of "[String r]" "ud_username user" roles]
    by (simp add: user_credentials_def r elem_key_def elem_push_back_def Let_def)
qed

lemma collapse_strings [simp]: "collapse_items (map String ss) = map String ss"
  by (induction ss) simp_all

lemma safe_strings: "safe_items (map String ss) \<longleftrightarrow> list_all utf8_string ss"
  by (induction ss) simp_all

lemma parse_part_serialized:
  assumes "safe_element e" "encode_base64url (serialize F e) = ok t" "2 * length (serialize F e) + 6 \<le> n"
  shows "parse_part F n t = Some (ok (collapse e))"
  using base64url_decodes [of "serialize F e"] parse_serialized_value [OF assms(1,3)] assms(2)
  by (simp add: parse_part_def)

text \<open>
  C24. The token that is issued to a user with roles is accepted by every later request
  that carries it, and gives exactly the roles of the user.
\<close>

theorem issued_token_accepted:
  fixes F :: "'f float_ops"
  assumes "length (ac_secret ctx) < 64" "ud_roles user \<noteq> []"
    and "utf8_string (ud_username user)" "list_all utf8_string (ud_roles user)"
  shows "\<exists>token m. add_authorization_headers F ctx rep user = ok (reply_set_cookie rep ''access_token'' token
      [\<lparr>h_name = ''HttpOnly'', h_value = []\<rparr>, \<lparr>h_name = ''SameSite'', h_value = ''Lax''\<rparr>])
    \<and> (\<forall>n \<ge> m. token_credentials F n (ac_secret ctx) token
        = Some (ok (Some (Object [(''role'', Array (map String (ud_roles user))), (''username'', String (ud_username user))], ud_roles user))))"
proof -
  let ?c = "Object [(''role'', Array (map String (ud_roles user))), (''username'', String (ud_username user))] :: 'f element"
  have cred: "user_credentials user = ok ?c" using user_credentials_roles [OF assms(2)] .
  have safe: "safe_element ?c"
    using assms(3,4) ascii_plain_key [of "''role''"] ascii_plain_key [of "''username''"] by (simp add: safe_strings)
  have coll: "collapse ?c = ?c" using assms(2) by (simp add: obj_of_def arr_of_def)
  obtain h1 where h1: "encode_base64url (serialize F kJOSEHeader) = ok h1" using encode_base64url_ok by blast
  obtain h2 where h2: "encode_base64url (serialize F ?c) = ok h2" using encode_base64url_ok by blast
  have "\<exists>h. hmac_sha256 (h1 @ ''.'' @ h2) (ac_secret ctx) = ok h"
    using sha256m.hmac_string_spec [of "ac_secret ctx" "bytes_of (ac_secret ctx)" "h1 @ ''.'' @ h2"]
    by (simp only: take_key [OF assms(1)] simp_thms hmac_sha256_def) blast
  then obtain h where h: "hmac_sha256 (h1 @ ''.'' @ h2) (ac_secret ctx) = ok h" by blast
  obtain h3 where h3: "encode_base64url h = ok h3" using encode_base64url_ok by blast
  have sign: "sign_token (ac_secret ctx) h1 h2 = ok h3" using h h3 by (simp add: sign_token_def)
  let ?t = "h1 @ ''.'' @ h2 @ ''.'' @ h3"
  have add: "add_authorization_headers F ctx rep user = ok (reply_set_cookie rep ''access_token'' ?t
      [\<lparr>h_name = ''HttpOnly'', h_value = []\<rparr>, \<lparr>h_name = ''SameSite'', h_value = ''Lax''\<rparr>])"
    using cred h1 h2 sign by (simp add: add_authorization_headers_def as_string_def kJOSEHeader_def)
  have jwt: "match_jwt ?t = Some (h1, h2, h3)"
    using match_jwt_parts base64url_is_part h1 h2 h3 by blast
  let ?m = "2 * length (serialize F kJOSEHeader) + 2 * length (serialize F ?c) + 6"
  have "token_credentials F n (ac_secret ctx) ?t = Some (ok (Some (?c, ud_roles user)))" if "?m \<le> n" for n
  proof -
    have "parse_part F n h1 = Some (ok kJOSEHeader)"
      using parse_part_serialized [OF kJOSE_safe(1) h1, of n] that kJOSE_safe(2) by simp
    moreover have "parse_part F n h2 = Some (ok ?c)"
      using parse_part_serialized [OF safe h2, of n] that coll by simp
    ultimately show ?thesis
      using jwt sign kJOSE_safe(3) [of F]
      by (simp add: token_credentials_def seq_def elem_key_def Let_def comp_def as_string_def)
  qed
  then show ?thesis using add by blast
qed

definition admin_user :: user_details where
  "admin_user = \<lparr>ud_username = ''scott'', ud_password = [], ud_roles = [''ADMIN'']\<rparr>"

theorem issued_token_accepted_witness:
  "\<exists>token m. \<forall>n \<ge> m. token_credentials int_ops n ''secret'' token
     = Some (ok (Some (Object [(''role'', Array [String ''ADMIN'']), (''username'', String ''scott'')], [''ADMIN''])))"
proof -
  have "utf8_string ''scott''" "utf8_string ''ADMIN''"
    by (simp_all add: plain_key_utf8 ascii_plain_key)
  then show ?thesis
    using issued_token_accepted [of open_context admin_user int_ops "reply_new [] 200 (1, 1)"]
    by (fastforce simp: open_context_def access_context_new_def admin_user_def)
qed

end
