(* ===== verification/Format.thy ===== *)
theory Format
  imports Json_Element Complex_Main
begin

text \<open>
  The number formatting of \<open>lib-http/src/format.cpp\<close>: decimal digits of a \<open>double\<close>, their
  rounding, and the layout with a decimal point and groups of digits. The locale is the
  record \<open>numpunct\<close> of what the standard library's facet returns; the operations on
  \<open>double\<close> beyond \<open>float_ops\<close> are in \<open>decimal_ops\<close>. An \<open>int\<close> outside its range is
  \<open>Undefined\<close>.
\<close>

record numpunct =
  np_decimal_point :: string
  np_thousands_sep :: string
  np_grouping :: "int list"

text \<open>\<open>dm_exponent\<close> is \<open>static_cast<int>(1 + std::logb(x))\<close>, \<open>dm_trunc\<close> is \<open>lrint(trunc(x))\<close>.\<close>

record 'f decimal_ops =
  dm_fabs :: "'f \<Rightarrow> 'f"
  dm_exponent :: "'f \<Rightarrow> int"
  dm_trunc :: "'f \<Rightarrow> int"

definition int32 :: "int \<Rightarrow> int res" where
  "int32 i = (if - (2 ^ 31) \<le> i \<and> i < 2 ^ 31 then ok i else throw Undefined)"

section \<open>Groups of digits\<close>

text \<open>The loop of \<open>operator()\<close>; without end when a group is not positive.\<close>

fun grouping_loop :: "nat \<Rightarrow> int \<Rightarrow> int \<Rightarrow> int list \<Rightarrow> bool option" where
  "grouping_loop 0 exp10 g gs = None"
| "grouping_loop (Suc n) exp10 g gs =
     (if exp10 < g then Some False
      else if exp10 = g then Some True
      else
        (let gs = (if length gs > 1 then tl gs else gs)
         in grouping_loop n exp10 (g + hd gs) gs))"

definition thousand_grouping :: "nat \<Rightarrow> numpunct \<Rightarrow> int \<Rightarrow> bool option" where
  "thousand_grouping n loc exp10 =
     (case np_grouping loc of
        [] \<Rightarrow> Some False
      | g # gs \<Rightarrow> grouping_loop n exp10 g (g # gs))"

section \<open>The digits of a number\<close>

record 'f decimal =
  dc_crunched :: 'f
  dc_exp10 :: int
  dc_dec :: string

definition tenth :: "'f float_ops \<Rightarrow> 'f" where
  "tenth F = fo_div F (fo_of_int F 1) (fo_of_int F 10)"

text \<open>The product of the powers of ten that the bits of \<open>n\<close> select, multiplied into \<open>x\<close>.\<close>

fun scale_loop :: "'f float_ops \<Rightarrow> nat \<Rightarrow> 'f \<Rightarrow> 'f \<Rightarrow> 'f" where
  "scale_loop F n p x =
     (if n = 0 then x
      else scale_loop F (n div 2) (fo_mul F p p) (if n mod 2 = 1 then fo_mul F x p else x))"

declare scale_loop.simps [simp del]

definition crunch :: "'f float_ops \<Rightarrow> int \<Rightarrow> 'f \<Rightarrow> 'f" where
  "crunch F n x =
     (let ten = fo_of_int F 10 in
      if n < 0 then scale_loop F (nat (- n)) ten x
      else fo_div F x (scale_loop F (nat n) ten (fo_of_int F 1)))"

text \<open>The loops that bring \<open>x\<close> into its range; they need not end.\<close>

fun shrink :: "nat \<Rightarrow> 'f float_ops \<Rightarrow> 'f decimal_ops \<Rightarrow> 'f \<Rightarrow> int \<Rightarrow> ('f \<times> int) res option" where
  "shrink 0 F D x e = None"
| "shrink (Suc n) F D x e =
     (if fo_less F (fo_of_int F 1) (dm_fabs D x) \<or> fo_eq F (dm_fabs D x) (fo_of_int F 1)
      then (case int32 (e + 1) of Inl u \<Rightarrow> Some (throw u) | Inr e \<Rightarrow> shrink n F D (fo_mul F x (tenth F)) e)
      else Some (ok (x, e)))"

fun enlarge :: "nat \<Rightarrow> 'f float_ops \<Rightarrow> 'f decimal_ops \<Rightarrow> 'f \<Rightarrow> int \<Rightarrow> ('f \<times> int) res option" where
  "enlarge 0 F D x e = None"
| "enlarge (Suc n) F D x e =
     (if fo_less F (dm_fabs D x) (tenth F)
      then (case int32 (e - 1) of Inl u \<Rightarrow> Some (throw u) | Inr e \<Rightarrow> enlarge n F D (fo_mul F x (fo_of_int F 10)) e)
      else Some (ok (x, e)))"

text \<open>\<open>Num2Dec\<close>: two rounds of eight digits each.\<close>

fun last_digits :: "nat \<Rightarrow> int \<Rightarrow> string" where
  "last_digits 0 lx = []"
| "last_digits (Suc k) lx = last_digits k (lx div 10) @ [char_of (48 + nat (lx mod 10))]"

fun num2dec :: "nat \<Rightarrow> 'f float_ops \<Rightarrow> 'f decimal_ops \<Rightarrow> 'f \<Rightarrow> string" where
  "num2dec 0 F D x = []"
| "num2dec (Suc k) F D x =
     (let x = fo_mul F x (fo_of_int F (10 ^ 8));
          lx = dm_trunc D x
      in last_digits 8 lx @ num2dec k F D (fo_sub F x (fo_of_int F lx)))"

definition decimal_new :: "nat \<Rightarrow> 'f float_ops \<Rightarrow> 'f decimal_ops \<Rightarrow> 'f \<Rightarrow> 'f decimal res option" where
  "decimal_new n F D x =
     (let ex = (if fo_eq F x (fo_of_int F 0) then 0 else dm_exponent D x);
          e = (ex * 301029) sdiv 1000000
      in case shrink n F D (crunch F e x) e of
           None \<Rightarrow> None
         | Some (Inl u) \<Rightarrow> Some (throw u)
         | Some (Inr (x, e)) \<Rightarrow>
             (case enlarge n F D x e of
                None \<Rightarrow> None
              | Some (Inl u) \<Rightarrow> Some (throw u)
              | Some (Inr (x, e)) \<Rightarrow>
                  (let ax = (if fo_less F x (fo_of_int F 0) then fo_neg F x else x)
                   in Some (ok \<lparr>dc_crunched = x, dc_exp10 = e, dc_dec = num2dec 2 F D ax\<rparr>))))"

section \<open>Rounding\<close>

text \<open>
  The loop that adds the carry to the last digit and drops the digits that become ten. The
  result is the carry and the digits left.
\<close>

fun round_loop :: "nat \<Rightarrow> string \<Rightarrow> nat \<times> string" where
  "round_loop carry dec =
     (if dec = [] then (carry, dec)
      else
        (let c = digit_val (last dec) + carry in
         if c > 9 then round_loop 1 (butlast dec) else (0, butlast dec @ [char_of (c + 48)])))"

declare round_loop.simps [simp del]

definition roundDecimal :: "string \<Rightarrow> int \<Rightarrow> int \<Rightarrow> string \<times> int" where
  "roundDecimal dec exp10 newLength =
     (if newLength < 0 then (''0'', exp10)
      else if newLength < int (length dec) then
        (let k = nat newLength;
             (carry, dec) = round_loop (if dec ! k \<ge> CHR ''5'' then 1 else 0) (take k dec)
         in if newLength > 0 then
              (if carry = 1 then (dec @ ''1'', exp10 + 1) else (dec, exp10))
            else (if carry = 1 then (dec @ ''1'', exp10 + 1) else (''0'', exp10)))
      else (dec, exp10))"

section \<open>Layout\<close>

text \<open>One digit per position \<open>i\<close>, with the separators before it; \<open>digits\<close> counts down.\<close>

fun fixed_loop :: "nat \<Rightarrow> numpunct \<Rightarrow> nat \<Rightarrow> bool \<Rightarrow> int \<Rightarrow> int \<Rightarrow> string \<Rightarrow> string option" where
  "fixed_loop n loc 0 started ex exp10 dec = Some []"
| "fixed_loop n loc (Suc digits) started ex exp10 dec =
     (case (if started then thousand_grouping n loc ex else Some False) of
        None \<Rightarrow> None
      | Some grouped \<Rightarrow>
          (let sep = (if \<not> started then []
                      else if grouped then np_thousands_sep loc
                      else if ex = 0 then np_decimal_point loc
                      else []);
               (c, dec) = (if ex \<le> exp10 \<and> dec \<noteq> [] then (hd dec, tl dec) else (CHR ''0'', dec))
           in map_option (\<lambda>s. sep @ c # s) (fixed_loop n loc digits True (ex - 1) exp10 dec)))"

definition formatFixed :: "nat \<Rightarrow> numpunct \<Rightarrow> 'f decimal \<Rightarrow> int \<Rightarrow> int \<Rightarrow> string res option" where
  "formatFixed n loc d intDigits decimals =
     (case bind_res (int32 (decimals + intDigits)) (\<lambda>digits.
           bind_res (if dc_exp10 d > intDigits
                     then bind_res (int32 (dc_exp10 d - intDigits)) (\<lambda>k. int32 (digits + k)) else ok digits) (\<lambda>digits.
           bind_res (int32 (decimals + dc_exp10 d)) (\<lambda>newLength. ok (digits, newLength)))) of
        Inl u \<Rightarrow> Some (throw u)
      | Inr (digits, newLength) \<Rightarrow>
          (let (dec, exp10) = roundDecimal (dc_dec d) (dc_exp10 d) newLength;
               ex = (if intDigits < exp10 then exp10 else intDigits)
           in map_option ok (fixed_loop n loc (nat digits) False ex exp10 dec)))"

definition FormatDecimal :: "nat \<Rightarrow> 'f float_ops \<Rightarrow> 'f decimal_ops \<Rightarrow> numpunct \<Rightarrow> 'f \<Rightarrow> int \<Rightarrow> int \<Rightarrow> string res option" where
  "FormatDecimal n F D loc d integerDigits decimalDigits =
     (case decimal_new n F D d of
        None \<Rightarrow> None
      | Some (Inl u) \<Rightarrow> Some (throw u)
      | Some (Inr d) \<Rightarrow> formatFixed n loc d integerDigits decimalDigits)"

section \<open>Properties\<close>

definition dec_value :: "string \<Rightarrow> nat" where
  "dec_value s = foldl (\<lambda>a c. 10 * a + digit_val c) 0 s"

lemma dec_value_simps [simp]: "dec_value [] = 0" "dec_value (s @ [c]) = 10 * dec_value s + digit_val c"
  by (simp_all add: dec_value_def)

lemma digit_val_9: "isdigit c \<Longrightarrow> digit_val c \<le> 9"
  by (auto simp: isdigit_def digit_val_def)

text \<open>The digits left after the carry, with the zeros dropped, have the value with the carry added.\<close>

lemma round_loop_value:
  assumes "list_all isdigit dec" "carry \<le> 1" "round_loop carry dec = (k, r)"
  shows "list_all isdigit r \<and> length r \<le> length dec \<and> (k = 0 \<or> k = 1 \<and> r = [])
    \<and> (if k = 1 then 10 ^ length dec else dec_value r * 10 ^ (length dec - length r)) = dec_value dec + carry"
  using assms
proof (induction dec arbitrary: carry k r rule: rev_induct)
  case Nil
  then show ?case by (auto simp: round_loop.simps [of _ "[]"])
next
  case (snoc c ds)
  have c: "isdigit c" "list_all isdigit ds" using snoc.prems(1) by simp_all
  show ?case
  proof (cases "digit_val c + carry > 9")
    case True
    then have v: "digit_val c + carry = 10" using digit_val_9 [OF c(1)] snoc.prems(2) by simp
    have "round_loop 1 ds = (k, r)"
      using snoc.prems(3) True by (simp add: round_loop.simps [of _ "ds @ [c]"])
    from snoc.IH [OF c(2) _ this] have *: "list_all isdigit r" "length r \<le> length ds" "k = 0 \<or> k = 1 \<and> r = []"
      "(if k = 1 then 10 ^ length ds else dec_value r * 10 ^ (length ds - length r)) = dec_value ds + 1" by simp_all
    have "(if k = 1 then 10 ^ length (ds @ [c]) else dec_value r * 10 ^ (length (ds @ [c]) - length r))
        = 10 * (if k = 1 then 10 ^ length ds else dec_value r * 10 ^ (length ds - length r))"
      using *(2) by (simp add: Suc_diff_le)
    also have "\<dots> = dec_value (ds @ [c]) + carry" using *(4) v by simp
    finally show ?thesis using * by simp
  next
    case False
    then have "k = 0" "r = ds @ [char_of (digit_val c + carry + 48)]"
      using snoc.prems(3) by (simp_all add: round_loop.simps [of _ "ds @ [c]"])
    moreover have "isdigit (char_of (digit_val c + carry + 48))" "digit_val (char_of (digit_val c + carry + 48)) = digit_val c + carry"
      using False digit_char [of "digit_val c + carry"] digit_val_char [of "digit_val c + carry"] by (simp_all add: add.commute)
    ultimately show ?thesis using c by simp
  qed
qed

lemma dec_value_append: "dec_value (s @ t) = dec_value s * 10 ^ length t + dec_value t"
proof (induction t rule: rev_induct)
  case (snoc c t)
  have "dec_value (s @ t @ [c]) = 10 * dec_value (s @ t) + digit_val c"
    using dec_value_simps(2) [of "s @ t"] by simp
  with snoc show ?case by simp
qed simp

lemma dec_value_bound: "list_all isdigit s \<Longrightarrow> dec_value s < 10 ^ length s"
proof (induction s rule: rev_induct)
  case (snoc c s)
  then show ?case using digit_val_9 [of c] by simp
qed simp

lemma round_half:
  fixes a d b m :: nat
  assumes "d \<le> 9" "b < m" "0 < m"
  shows "(a * (10 * m) + (d * m + b) + 5 * m) div (10 * m) = a + (if d \<ge> 5 then 1 else 0)"
proof (cases "d \<ge> 5")
  case True
  define j where "j = d - 5"
  have d: "d = 5 + j" "j \<le> 4" using True assms(1) by (simp_all add: j_def)
  have "j * m + b < 10 * m" using d(2) assms(2) mult_le_mono1 [of j 4 m] by linarith
  then have "((a + 1) * (10 * m) + (j * m + b)) div (10 * m) = a + 1"
    by (intro div_nat_eqI) (simp_all add: algebra_simps)
  moreover have "a * (10 * m) + (d * m + b) + 5 * m = (a + 1) * (10 * m) + (j * m + b)"
    by (simp add: d(1) algebra_simps)
  ultimately show ?thesis using True by metis
next
  case False
  have "d * m + b + 5 * m < 10 * m" using False assms(2) mult_le_mono1 [of d 4 m] by linarith
  then have "(a * (10 * m) + (d * m + b + 5 * m)) div (10 * m) = a"
    using assms(3) by simp
  then show ?thesis using False by (simp add: algebra_simps)
qed

lemma five_digit: "isdigit c \<Longrightarrow> CHR ''5'' \<le> c \<longleftrightarrow> 5 \<le> digit_val c"
  by (auto simp: less_eq_char_def isdigit_def digit_val_def)

text \<open>
  C28. Rounding to \<open>n\<close> digits after the point rounds half up: when the digits stand for
  \<open>0.dec * 10^exp10\<close>, the result stands for that number with \<open>n\<close> digits kept, and a carry out
  of the first digit is seen in the exponent.
\<close>

theorem rounding_half_up:
  assumes "list_all isdigit dec" "n < length dec" "roundDecimal dec exp10 (int n) = (dec', exp10')"
  shows "\<exists>e. exp10' = exp10 + int e \<and> e \<le> 1 \<and> list_all isdigit dec'
    \<and> dec_value dec' * 10 ^ (n + e - length dec')
      = (dec_value dec + 5 * 10 ^ (length dec - n - 1)) div 10 ^ (length dec - n)"
proof -
  let ?k = "if dec ! n \<ge> CHR ''5'' then 1 else (0::nat)" and ?m = "10 ^ (length dec - n - 1) :: nat"
  obtain carry r where r: "round_loop ?k (take n dec) = (carry, r)" by (cases "round_loop ?k (take n dec)")
  have t: "list_all isdigit (take n dec)" "isdigit (dec ! n)" "list_all isdigit (drop (Suc n) dec)"
    using assms(1,2) by (auto simp: list_all_length)
  have "dec = take n dec @ dec ! n # drop (Suc n) dec" using assms(2) by (rule id_take_nth_drop)
  then have "dec_value dec = dec_value (take n dec @ [dec ! n] @ drop (Suc n) dec)" by simp
  also have "\<dots> = (dec_value (take n dec) * 10 + digit_val (dec ! n)) * ?m + dec_value (drop (Suc n) dec)"
    using dec_value_append [of "take n dec @ [dec ! n]" "drop (Suc n) dec"] by (simp add: mult.commute)
  finally have v: "dec_value dec = dec_value (take n dec) * (10 * ?m) + (digit_val (dec ! n) * ?m + dec_value (drop (Suc n) dec))"
    by (simp add: algebra_simps)
  have p: "10 ^ (length dec - n) = 10 * ?m" using assms(2) by (cases "length dec - n") simp_all
  have "dec_value (drop (Suc n) dec) < ?m" using dec_value_bound [OF t(3)] by simp
  then have half: "(dec_value dec + 5 * ?m) div 10 ^ (length dec - n) = dec_value (take n dec) + ?k"
    using round_half [OF digit_val_9 [OF t(2)], of "dec_value (drop (Suc n) dec)" ?m "dec_value (take n dec)"]
    by (simp add: p v five_digit [OF t(2)])
  have l: "list_all isdigit r" "length r \<le> n" "carry = 0 \<or> carry = 1 \<and> r = []"
    "(if carry = 1 then 10 ^ n else dec_value r * 10 ^ (n - length r)) = dec_value (take n dec) + ?k"
    using round_loop_value [OF t(1) _ r] assms(2) by auto
  have one: "dec_value ''1'' = 1" "dec_value ''0'' = 0" "isdigit (CHR ''1'')" "isdigit (CHR ''0'')"
    using dec_value_simps(2) [of "[]"] by (simp_all add: digit_val_def isdigit_def)
  have d: "(dec', exp10') = (if carry = 1 then (''1'', exp10 + 1) else if n = 0 then (''0'', exp10) else (r, exp10))"
    using assms(2,3) l(3) by (auto simp: roundDecimal_def r)
  show ?thesis
  proof (cases "carry = 1")
    case True
    then show ?thesis using d l(4) half one by (intro exI [of _ 1]) simp
  next
    case False
    then show ?thesis using d l half one by (intro exI [of _ 0]) (auto split: if_splits)
  qed
qed

theorem rounding_half_up_witness:
  "roundDecimal ''9996'' 2 3 = (''1'', 3)
   \<and> (\<exists>e. (3::int) = 2 + int e \<and> dec_value ''1'' * 10 ^ (3 + e - 1) = (9996 + 5) div 10)"
proof -
  have r: "roundDecimal ''9996'' 2 3 = (''1'', 3)"
    by (simp add: roundDecimal_def round_loop.simps digit_val_def less_eq_char_def)
  have v: "dec_value ''9996'' = 9996" by (simp add: dec_value_def digit_val_def)
  have d: "list_all isdigit ''9996''" by (simp add: isdigit_def)
  from rounding_half_up [OF d, of 3 2 "''1''" 3] r v show ?thesis by auto
qed
text \<open>Exact numbers as an instance of the operations, to evaluate the functions.\<close>

definition rat_ops :: "rat float_ops" where
  "rat_ops = \<lparr>fo_add = (+), fo_sub = (-), fo_mul = (*), fo_div = (/), fo_neg = uminus, fo_pow = (\<lambda>b e. b),
     fo_eq = (=), fo_less = (<), fo_isnormal = (\<lambda>d. d \<noteq> 0), fo_of_int = of_int, fo_to_int = (\<lambda>d. Some \<lfloor>d\<rfloor>),
     fo_show = (\<lambda>d. [])\<rparr>"

definition rat_decimal :: "rat decimal_ops" where
  "rat_decimal = \<lparr>dm_fabs = abs, dm_exponent = (\<lambda>_. 1), dm_trunc = floor\<rparr>"

definition english :: numpunct where
  "english = \<lparr>np_decimal_point = ''.'', np_thousands_sep = '','', np_grouping = [3]\<rparr>"

lemma thousands:
  assumes "np_grouping loc = [3]" "0 \<le> e"  "e < 3 * int n"
  shows "thousand_grouping n loc e = Some (0 < e \<and> 3 dvd e)"
proof -
  have "grouping_loop n e g [3] = Some (g \<le> e \<and> 3 dvd (e - g))" if "e < g + 3 * int n - 3" "0 < n" for g :: int
    using that
  proof (induction n arbitrary: g)
    case (Suc n)
    show ?case
    proof (cases "e \<le> g")
      case False
      then have "0 < n" using Suc.prems by (cases n) auto
      moreover have "3 dvd (e - (g + 3)) \<longleftrightarrow> 3 dvd (e - g)" by presburger
      moreover have "g + 3 \<le> e \<or> \<not> 3 dvd (e - g)" using False by presburger
      ultimately show ?thesis using Suc.IH [of "g + 3"] Suc.prems False by auto
    qed auto
  qed simp
  moreover have "3 \<le> e \<and> 3 dvd (e - 3) \<longleftrightarrow> 0 < e \<and> 3 dvd e" using assms(2) by presburger
  ultimately show ?thesis using assms by (cases n) (simp_all add: thousand_grouping_def)
qed

text \<open>The sign is lost: the digits are those of the absolute value and nothing else is written.\<close>

lemma negative_number_formatted: "FormatDecimal 100 rat_ops rat_decimal english (- 1234567 / 1000) 1 2 = Some (ok ''1,234.57'')"
  by code_simp

text \<open>What IEEE arithmetic does with zero.\<close>

definition zero_laws :: "'f float_ops \<Rightarrow> 'f decimal_ops \<Rightarrow> bool" where
  "zero_laws F D \<longleftrightarrow>
     (\<forall>y. fo_eq F y (fo_of_int F 0) \<longrightarrow>
        fo_eq F (fo_mul F y (fo_of_int F 10)) (fo_of_int F 0) \<and> fo_eq F (fo_div F y (fo_of_int F 1)) (fo_of_int F 0)
        \<and> fo_less F (dm_fabs D y) (tenth F)
        \<and> \<not> fo_less F (fo_of_int F 1) (dm_fabs D y) \<and> \<not> fo_eq F (dm_fabs D y) (fo_of_int F 1))"

lemma enlarge_zero:
  assumes "zero_laws F D" "fo_eq F y (fo_of_int F 0)"
  shows "enlarge n F D y e \<noteq> Some (ok r)"
  using assms(2)
proof (induction n arbitrary: y e)
  case (Suc n)
  then show ?case using assms(1) by (auto simp: zero_laws_def int32_def)
qed simp

text \<open>
  Formatting zero never gives a text: the loop that multiplies by ten until the number
  is at least 0.1 goes on until the exponent leaves its range.
\<close>

lemma zero_is_never_formatted:
  assumes "zero_laws F D" "fo_eq F x (fo_of_int F 0)"
  shows "FormatDecimal n F D loc x integerDigits decimalDigits \<noteq> Some (ok s)"
proof -
  let ?y = "fo_div F x (fo_of_int F 1)"
  have y: "fo_eq F ?y (fo_of_int F 0)" using assms by (simp add: zero_laws_def)
  have c: "crunch F 0 x = ?y" by (simp add: crunch_def scale_loop.simps [of _ 0])
  have "shrink n F D ?y 0 = None \<or> shrink n F D ?y 0 = Some (ok (?y, 0))"
    using assms(1) y by (cases n) (simp_all add: zero_laws_def)
  then have "decimal_new n F D x \<noteq> Some (ok d)" for d
    using enlarge_zero [OF assms(1) y, of n 0] assms(2)
    by (auto simp: decimal_new_def c Let_def split: option.splits sum.splits)
  then show ?thesis by (auto simp: FormatDecimal_def split: option.splits sum.splits)
qed

lemma zero_is_never_formatted_witness: "\<forall>s. FormatDecimal 9 rat_ops rat_decimal english 0 1 0 \<noteq> Some (ok s)"
proof -
  have "zero_laws rat_ops rat_decimal" by (simp add: zero_laws_def rat_ops_def rat_decimal_def tenth_def)
  then show ?thesis using zero_is_never_formatted [of rat_ops rat_decimal 0 9 english 1 0] by (simp add: rat_ops_def)
qed

end
