(* ===== verification/El_Lexer.thy ===== *)
theory El_Lexer
  imports Json_Parser
begin

text \<open>
  The tokenizer of the expression language (\<open>lib-http/src/el-processing.cpp\<close>): the state of
  the \<open>interpreter\<close>, reading and putting back UTF-8 characters, and \<open>get_next_token\<close> with
  one definition per state of its switch. The text from \<open>m_ptr\<close> on is a field of the state;
  putting back moves the last bytes of the token to its front.
\<close>

section \<open>Character classes and tokens\<close>

definition el_name_start_char :: "unicode \<Rightarrow> bool" where
  "el_name_start_char uc \<longleftrightarrow>
     uc = 0x3A \<or>
     (uc \<ge> 0x41 \<and> uc \<le> 0x5A) \<or>
     uc = 0x5F \<or>
     (uc \<ge> 0x61 \<and> uc \<le> 0x7A) \<or>
     (uc \<ge> 0x0C0 \<and> uc \<le> 0x0D6) \<or>
     (uc \<ge> 0x0D8 \<and> uc \<le> 0x0F6) \<or>
     (uc \<ge> 0x0F8 \<and> uc \<le> 0x02FF) \<or>
     (uc \<ge> 0x0370 \<and> uc \<le> 0x037D) \<or>
     (uc \<ge> 0x037F \<and> uc \<le> 0x01FFF) \<or>
     (uc \<ge> 0x0200C \<and> uc \<le> 0x0200D) \<or>
     (uc \<ge> 0x02070 \<and> uc \<le> 0x0218F) \<or>
     (uc \<ge> 0x02C00 \<and> uc \<le> 0x02FEF) \<or>
     (uc \<ge> 0x03001 \<and> uc \<le> 0x0D7FF) \<or>
     (uc \<ge> 0x0F900 \<and> uc \<le> 0x0FDCF) \<or>
     (uc \<ge> 0x0FDF0 \<and> uc \<le> 0x0FFFD) \<or>
     (uc \<ge> 0x010000 \<and> uc \<le> 0x0EFFFF)"

definition el_name_char :: "unicode \<Rightarrow> bool" where
  "el_name_char uc \<longleftrightarrow>
     uc = 0x2D \<or>
     uc = 0x2E \<or>
     (uc \<ge> 0x30 \<and> uc \<le> 0x39) \<or>
     uc = 0x0B7 \<or>
     el_name_start_char uc \<or>
     (uc \<ge> 0x00300 \<and> uc \<le> 0x0036F) \<or>
     (uc \<ge> 0x0203F \<and> uc \<le> 0x02040)"

datatype el_token =
    El_eof | El_number_int | El_number_float | El_string | El_object | El_assign
  | El_and | El_or | El_not | El_eq | El_ne | El_lt | El_le | El_ge | El_gt
  | El_plus | El_minus | El_div | El_mod | El_mult
  | El_lparen | El_rparen | El_lbracket | El_rbracket | El_lbrace | El_rbrace
  | El_if | El_elvis | El_else | El_dot | El_hash | El_bar
  | El_true | El_false | El_in | El_comma | El_whitespace | El_fragment_separator
  | El_variable_template | El_selection_template | El_message_template | El_link_template | El_fragment_template
  | El_error

text \<open>The token \<open>undef\<close> is the value the loop starts with; no token is ever \<open>undef\<close>.\<close>

record 'f interp =
  in_lookahead :: el_token
  in_token :: string
  in_int :: int
  in_float :: 'f
  in_rest :: string
  in_white :: bool

section \<open>Characters\<close>

text \<open>At the end of the text the byte is zero; it too is appended to the token.\<close>

definition el_next_byte :: "'f interp \<Rightarrow> unicode \<times> 'f interp" where
  "el_next_byte st =
     (case in_rest st of
        [] \<Rightarrow> (0, st\<lparr>in_token := in_token st @ [CHR 0x00]\<rparr>)
      | c # cs \<Rightarrow> (ord32 c, st\<lparr>in_token := in_token st @ [c], in_rest := cs\<rparr>))"

definition el_continuation :: "unicode \<Rightarrow> bool" where
  "el_continuation b \<longleftrightarrow> b AND 0xC0 = 0x80"

definition el_get_next_char :: "'f interp \<Rightarrow> (unicode \<times> 'f interp) res" where
  "el_get_next_char st =
     (let (b0, st) = el_next_byte st in
      if b0 AND 0x80 = 0 then ok (b0, st)
      else if b0 AND 0xE0 = 0xC0 then
        (let (b1, st) = el_next_byte st in
         if \<not> el_continuation b1 then throw (Zeep_exception ''Invalid utf-8'')
         else ok (push_bit 6 (b0 AND 0x1F) OR (b1 AND 0x3F), st))
      else if b0 AND 0xF0 = 0xE0 then
        (let (b1, st) = el_next_byte st; (b2, st) = el_next_byte st in
         if \<not> el_continuation b1 \<or> \<not> el_continuation b2 then throw (Zeep_exception ''Invalid utf-8'')
         else ok (push_bit 12 (b0 AND 0x0F) OR push_bit 6 (b1 AND 0x3F) OR (b2 AND 0x3F), st))
      else if b0 AND 0xF8 = 0xF0 then
        (let (b1, st) = el_next_byte st; (b2, st) = el_next_byte st; (b3, st) = el_next_byte st in
         if \<not> el_continuation b1 \<or> \<not> el_continuation b2 \<or> \<not> el_continuation b3 then throw (Zeep_exception ''Invalid utf-8'')
         else
           (let uc = push_bit 18 (b0 AND 0x07) OR push_bit 12 (b1 AND 0x3F) OR push_bit 6 (b2 AND 0x3F) OR (b3 AND 0x3F)
            in if uc > 0x10FFFF then throw (Zeep_exception ''invalid utf-8 character (out of range)'') else ok (uc, st)))
      else ok (0, st))"

text \<open>
  \<open>retract\<close> goes back over continuation bytes to the byte before them. The zero that
  stands for the end of the text is not put back.
\<close>

definition cont_char :: "char \<Rightarrow> bool" where
  "cont_char c \<longleftrightarrow> el_continuation (ord32 c)"

definition el_retract :: "'f interp \<Rightarrow> 'f interp res" where
  "el_retract st =
     (let t = rev (in_token st); tail = rev (takeWhile cont_char t) in
      case dropWhile cont_char t of
        [] \<Rightarrow> throw Undefined
      | c # t \<Rightarrow>
          ok (st\<lparr>in_token := rev t,
                 in_rest := (if in_rest st \<noteq> [] \<or> c \<noteq> CHR 0x00 then c # tail @ in_rest st else in_rest st)\<rparr>))"

section \<open>The states of \<open>get_next_token\<close>\<close>

datatype el_state =
    El_Start | El_Equals | El_ExclamationMark | El_LessThan | El_GreaterThan | El_Question | El_Number | El_NumberFraction
  | El_Name | El_Literal | El_Colon | El_Hash | El_TemplateStart

text \<open>What one round of the loop leads to: a token, or the next state and fraction.\<close>

datatype 'f el_result = El_found el_token "'f interp" | El_goto el_state 'f "'f interp"

type_synonym 'f el_rule = "'f \<Rightarrow> unicode \<Rightarrow> 'f interp \<Rightarrow> 'f el_result res"

definition el_putback :: "el_token \<Rightarrow> 'f interp \<Rightarrow> 'f el_result res" where
  "el_putback t st = bind_res (el_retract st) (\<lambda>st. ok (El_found t st))"

definition el_simple_tokens :: "(char \<times> el_token) list" where
  "el_simple_tokens =
     [(CHR ''('', El_lparen), (CHR '')'', El_rparen), (CHR ''['', El_lbracket), (CHR '']'', El_rbracket),
      (CHR ''{'', El_lbrace), (CHR ''}'', El_rbrace), (CHR ''/'', El_div), (CHR ''+'', El_plus), (CHR ''-'', El_minus),
      (CHR ''.'', El_dot), (CHR '','', El_comma), (CHR ''|'', El_bar)]"

definition el_first_chars :: "(char \<times> el_state) list" where
  "el_first_chars =
     [(CHR ''?'', El_Question), (CHR ''='', El_Equals), (CHR ''!'', El_ExclamationMark), (CHR ''<'', El_LessThan),
      (CHR ''>'', El_GreaterThan), (CHR '':'', El_Colon), (CHR ''*'', El_TemplateStart), (CHR ''$'', El_TemplateStart),
      (CHR ''#'', El_TemplateStart), (CHR ''@'', El_TemplateStart), (CHR ''~'', El_TemplateStart), (CHR 0x27, El_Literal)]"

definition el_white :: "unicode \<Rightarrow> bool" where
  "el_white ch \<longleftrightarrow> ch = 0x20 \<or> ch = 0x0A \<or> ch = 0x0D \<or> ch = 0x09"

definition el_start :: "'f el_rule" where
  "el_start fr ch st =
     (if ch = 0 then ok (El_found El_eof st)
      else if el_white ch then
        (if in_white st then ok (El_found El_whitespace st) else ok (El_goto El_Start fr (st\<lparr>in_token := []\<rparr>)))
      else if digit_ch ch then ok (El_goto El_Number fr (st\<lparr>in_int := digit_of ch\<rparr>))
      else
        (case (if ch < 0x80 then map_of el_simple_tokens (chr32 ch) else None) of
           Some t \<Rightarrow> ok (El_found t st)
         | None \<Rightarrow>
             (case (if ch < 0x80 then map_of el_first_chars (chr32 ch) else None) of
                Some S \<Rightarrow> ok (El_goto S fr st)
              | None \<Rightarrow>
                  if el_name_start_char ch then ok (El_goto El_Name fr st) else ok (El_found El_error st))))"

definition el_template_start :: "'f el_rule" where
  "el_template_start fr ch st =
     (if ch = ord32 CHR ''{'' then
        (case in_token st of
           [] \<Rightarrow> throw Assertion
         | c # _ \<Rightarrow>
             if c = CHR ''$'' then ok (El_found El_variable_template st)
             else if c = CHR ''*'' then ok (El_found El_selection_template st)
             else if c = CHR ''#'' then ok (El_found El_message_template st)
             else if c = CHR ''@'' then ok (El_found El_link_template st)
             else if c = CHR ''~'' then ok (El_found El_fragment_template st)
             else throw Assertion)
      else
        bind_res (el_retract st) (\<lambda>st.
          case in_token st of
            [] \<Rightarrow> ok (El_found El_error st)
          | c # _ \<Rightarrow>
              if c = CHR ''*'' then ok (El_found El_mult st)
              else if c = CHR ''#'' then ok (El_goto El_Hash fr st)
              else ok (El_found El_error st)))"

definition el_equals :: "'f el_rule" where
  "el_equals fr ch st = (if ch \<noteq> ord32 CHR ''='' then el_putback El_assign st else ok (El_found El_eq st))"

definition el_question :: "'f el_rule" where
  "el_question fr ch st = (if ch = ord32 CHR '':'' then ok (El_found El_elvis st) else el_putback El_if st)"

text \<open>The token \<open>error\<close> is overwritten: the assignment of \<open>ne\<close> follows the test.\<close>

definition el_exclamation_mark :: "'f el_rule" where
  "el_exclamation_mark fr ch st = (if ch \<noteq> ord32 CHR ''='' then el_putback El_ne st else ok (El_found El_ne st))"

definition el_less_than :: "'f el_rule" where
  "el_less_than fr ch st = (if ch = ord32 CHR ''='' then ok (El_found El_le st) else el_putback El_lt st)"

definition el_greater_than :: "'f el_rule" where
  "el_greater_than fr ch st = (if ch = ord32 CHR ''='' then ok (El_found El_ge st) else el_putback El_gt st)"

definition el_number :: "'f float_ops \<Rightarrow> 'f el_rule" where
  "el_number F fr ch st =
     (if digit_ch ch then
        bind_res (int64 (10 * in_int st + digit_of ch)) (\<lambda>i. ok (El_goto El_Number fr (st\<lparr>in_int := i\<rparr>)))
      else if ch = ord32 CHR ''.'' then
        ok (El_goto El_NumberFraction (fo_div F (fo_of_int F 1) (fo_of_int F 10)) (st\<lparr>in_float := fo_of_int F (in_int st)\<rparr>))
      else el_putback El_number_int st)"

definition el_number_fraction :: "'f float_ops \<Rightarrow> 'f el_rule" where
  "el_number_fraction F fr ch st =
     (if digit_ch ch then
        ok (El_goto El_NumberFraction (fo_div F fr (fo_of_int F 10))
          (st\<lparr>in_float := fo_add F (in_float st) (fo_mul F fr (fo_of_int F (digit_of ch)))\<rparr>))
      else el_putback El_number_float st)"

definition el_keywords :: "(string \<times> el_token) list" where
  "el_keywords =
     [(''div'', El_div), (''mod'', El_mod), (''and'', El_and), (''or'', El_or), (''not'', El_not), (''lt'', El_lt),
      (''le'', El_le), (''ge'', El_ge), (''gt'', El_gt), (''ne'', El_ne), (''eq'', El_eq), (''true'', El_true),
      (''false'', El_false), (''in'', El_in)]"

definition el_name :: "'f el_rule" where
  "el_name fr ch st =
     (if ch = ord32 CHR ''.'' \<or> ch = ord32 CHR '':'' \<or> \<not> el_name_char ch then
        bind_res (el_retract st) (\<lambda>st.
          case map_of el_keywords (in_token st) of
            Some t \<Rightarrow> ok (El_found t st)
          | None \<Rightarrow> ok (El_found El_object st))
      else ok (El_goto El_Name fr st))"

definition el_literal :: "'f el_rule" where
  "el_literal fr ch st =
     (if ch = 0 then ok (El_found El_error st)
      else if ch = 0x27 then ok (El_found El_string (st\<lparr>in_token := butlast (tl (in_token st))\<rparr>))
      else ok (El_goto El_Literal fr st))"

definition el_hash :: "'f el_rule" where
  "el_hash fr ch st =
     (if ch = ord32 CHR ''.'' \<or> \<not> el_name_char ch then el_putback El_hash st else ok (El_goto El_Hash fr st))"

definition el_colon :: "'f el_rule" where
  "el_colon fr ch st =
     (if ch = ord32 CHR '':'' then ok (El_found El_fragment_separator st) else el_putback El_else st)"

fun el_round :: "'f float_ops \<Rightarrow> el_state \<Rightarrow> 'f el_rule" where
  "el_round F El_Start = el_start"
| "el_round F El_TemplateStart = el_template_start"
| "el_round F El_Equals = el_equals"
| "el_round F El_Question = el_question"
| "el_round F El_ExclamationMark = el_exclamation_mark"
| "el_round F El_LessThan = el_less_than"
| "el_round F El_GreaterThan = el_greater_than"
| "el_round F El_Number = el_number F"
| "el_round F El_NumberFraction = el_number_fraction F"
| "el_round F El_Name = el_name"
| "el_round F El_Literal = el_literal"
| "el_round F El_Hash = el_hash"
| "el_round F El_Colon = el_colon"

fun el_token_loop :: "'f float_ops \<Rightarrow> nat \<Rightarrow> el_state \<Rightarrow> 'f \<Rightarrow> 'f interp \<Rightarrow> (el_token \<times> 'f interp) res option" where
  "el_token_loop F 0 S fr st = None"
| "el_token_loop F (Suc n) S fr st =
     (case bind_res (el_get_next_char st) (\<lambda>(ch, st). el_round F S fr ch st) of
        Inl e \<Rightarrow> Some (throw e)
      | Inr (El_found t st) \<Rightarrow> Some (ok (t, st))
      | Inr (El_goto S fr st) \<Rightarrow> el_token_loop F n S fr st)"

text \<open>The fuel is more than enough: see \<open>el_lexer_returns\<close>.\<close>

definition el_get_next_token :: "'f float_ops \<Rightarrow> 'f interp \<Rightarrow> 'f interp res option" where
  "el_get_next_token F st =
     (case el_token_loop F (length (in_rest st) + 3) El_Start (fo_of_int F 1) (st\<lparr>in_token := []\<rparr>) of
        None \<Rightarrow> None
      | Some (Inl e) \<Rightarrow> Some (throw e)
      | Some (Inr (t, st)) \<Rightarrow> Some (ok (st\<lparr>in_lookahead := t\<rparr>)))"

definition el_match :: "'f float_ops \<Rightarrow> el_token \<Rightarrow> 'f interp \<Rightarrow> 'f interp res option" where
  "el_match F t st =
     (if t \<noteq> in_lookahead st then Some (throw (Zeep_exception ''syntax error'')) else el_get_next_token F st)"

section \<open>The tokenizer always returns\<close>

lemma continuation_bits: "el_continuation b \<Longrightarrow> bit b 7 \<and> \<not> bit b 6"
proof -
  assume "el_continuation b"
  then have *: "b AND 0xC0 = 0x80" by (simp add: el_continuation_def)
  have "bit (b AND 0xC0) 7 = bit (0x80 :: unicode) 7" "bit (b AND 0xC0) 6 = bit (0x80 :: unicode) 6" by (simp_all only: *)
  then show ?thesis by (simp add: bit_simps)
qed

lemma not_lead:
  assumes "el_continuation b"
  shows "b AND 0x80 \<noteq> 0" "b AND 0xE0 \<noteq> 0xC0" "b AND 0xF0 \<noteq> 0xE0" "b AND 0xF8 \<noteq> 0xF0"
proof -
  note b = continuation_bits [OF assms]
  have "bit (b AND 0x80) 7" "\<not> bit (b AND 0xE0) 6" "\<not> bit (b AND 0xF0) 6" "\<not> bit (b AND 0xF8) 6"
    using b by (simp_all add: bit_simps)
  moreover have "bit (0xC0 :: unicode) 6" "bit (0xE0 :: unicode) 6" "bit (0xF0 :: unicode) 6" by (simp_all add: bit_simps)
  ultimately show "b AND 0x80 \<noteq> 0" "b AND 0xE0 \<noteq> 0xC0" "b AND 0xF0 \<noteq> 0xE0" "b AND 0xF8 \<noteq> 0xF0" by auto
qed

lemma zero_no_continuation [simp]: "\<not> el_continuation 0" "\<not> cont_char CHR 0x00"
  by (simp_all add: el_continuation_def cont_char_def ord32_def)

lemma el_next_byte_cases:
  obtains "in_rest st = []" "el_next_byte st = (0, st\<lparr>in_token := in_token st @ [CHR 0x00]\<rparr>)"
  | c cs where "in_rest st = c # cs" "el_next_byte st = (ord32 c, st\<lparr>in_token := in_token st @ [c], in_rest := cs\<rparr>)"
  by (cases "in_rest st") (simp_all add: el_next_byte_def)

definition el_frame :: "'f interp \<Rightarrow> 'f interp \<Rightarrow> bool" where
  "el_frame st st' \<longleftrightarrow> in_lookahead st' = in_lookahead st \<and> in_int st' = in_int st \<and> in_float st' = in_float st
     \<and> in_white st' = in_white st"

lemma el_frame_simps [simp]:
  "el_frame st st" "el_frame st (st'\<lparr>in_token := t\<rparr>) = el_frame st st'" "el_frame st (st'\<lparr>in_rest := r\<rparr>) = el_frame st st'"
  "el_frame st a \<Longrightarrow> el_frame a b \<Longrightarrow> el_frame st b"
  by (simp_all add: el_frame_def)

text \<open>A character that was read: a byte and the continuation bytes after it.\<close>

lemma el_next_byte_cont:
  assumes "el_next_byte st = (b, st')" "el_continuation b"
  obtains c where "cont_char c" "in_rest st = c # in_rest st'" "in_token st' = in_token st @ [c]"
    "el_frame st st'"
  using assms by (cases st rule: el_next_byte_cases) (auto simp: cont_char_def)

lemma el_get_next_charD:
  assumes "el_get_next_char st = ok (ch, st')"
  shows "\<exists>c v. in_token st' = in_token st @ c # v \<and> list_all cont_char v
    \<and> (if in_rest st = [] then c = CHR 0x00 \<and> v = [] \<and> in_rest st' = [] \<and> ch = 0
       else in_rest st = c # v @ in_rest st' \<and> (ch \<noteq> 0 \<longrightarrow> \<not> cont_char c) \<and> (\<not> cont_char c \<or> v = []))
    \<and> el_frame st st'"
proof (cases st rule: el_next_byte_cases)
  case 1
  then show ?thesis using assms by (auto simp: el_get_next_char_def)
next
  case (2 c cs)
  let ?s = "st\<lparr>in_token := in_token st @ [c], in_rest := cs\<rparr>" and ?b = "ord32 c"
  obtain b1 s1 where n1: "el_next_byte ?s = (b1, s1)" by (cases "el_next_byte ?s")
  obtain b2 s2 where n2: "el_next_byte s1 = (b2, s2)" by (cases "el_next_byte s1")
  obtain b3 s3 where n3: "el_next_byte s2 = (b3, s3)" by (cases "el_next_byte s2")
  note r = assms [unfolded el_get_next_char_def Let_def 2(2) split n1 n2 n3]
  consider "ch = 0 \<or> ?b AND 0x80 = 0" "st' = ?s" | "\<not> cont_char c" "el_continuation b1" "st' = s1"
    | "\<not> cont_char c" "el_continuation b1" "el_continuation b2" "st' = s2"
    | "\<not> cont_char c" "el_continuation b1" "el_continuation b2" "el_continuation b3" "st' = s3"
    using r not_lead [of ?b] by (auto simp: cont_char_def split: if_splits)
  then show ?thesis
  proof cases
    case 1
    then show ?thesis using 2(1) not_lead [of ?b] by (auto simp: cont_char_def)
  next
    case c2: 2
    obtain d where "cont_char d" "cs = d # in_rest s1" "in_token s1 = in_token st @ [c, d]" "el_frame st s1"
      using el_next_byte_cont [OF n1 c2(2)] by (auto simp: el_frame_def)
    then show ?thesis using 2(1) c2 by (intro exI [of _ c] exI [of _ "[d]"]) simp
  next
    case c3: 3
    obtain d where d: "cont_char d" "cs = d # in_rest s1" "in_token s1 = in_token st @ [c, d]" "el_frame st s1"
      using el_next_byte_cont [OF n1 c3(2)] by (auto simp: el_frame_def)
    obtain e where "cont_char e" "in_rest s1 = e # in_rest s2" "in_token s2 = in_token s1 @ [e]" "el_frame s1 s2"
      using el_next_byte_cont [OF n2 c3(3)] by auto
    with d show ?thesis using 2(1) c3 by (intro exI [of _ c] exI [of _ "[d, e]"]) (auto simp: el_frame_def)
  next
    case c4: 4
    obtain d where d: "cont_char d" "cs = d # in_rest s1" "in_token s1 = in_token st @ [c, d]" "el_frame st s1"
      using el_next_byte_cont [OF n1 c4(2)] by (auto simp: el_frame_def)
    obtain e where e: "cont_char e" "in_rest s1 = e # in_rest s2" "in_token s2 = in_token s1 @ [e]" "el_frame s1 s2"
      using el_next_byte_cont [OF n2 c4(3)] by auto
    obtain f where "cont_char f" "in_rest s2 = f # in_rest s3" "in_token s3 = in_token s2 @ [f]" "el_frame s2 s3"
      using el_next_byte_cont [OF n3 c4(4)] by auto
    with d e show ?thesis using 2(1) c4 by (intro exI [of _ c] exI [of _ "[d, e, f]"]) (auto simp: el_frame_def)
  qed
qed
fun el_rounds :: "el_state \<Rightarrow> nat" where
  "el_rounds El_Start = 2"
| "el_rounds El_TemplateStart = 2"
| "el_rounds _ = 1"

lemma el_rounds_one: "S \<noteq> El_Start \<Longrightarrow> S \<noteq> El_TemplateStart \<Longrightarrow> el_rounds S = 1"
  by (cases S) simp_all

definition el_lex_ok :: "el_state \<Rightarrow> 'f interp \<Rightarrow> bool" where
  "el_lex_ok S st \<longleftrightarrow>
     (S = El_Start \<longrightarrow> in_token st = []) \<and> (S = El_TemplateStart \<longrightarrow> (\<exists>c v. in_token st = c # v \<and> \<not> cont_char c \<and> list_all cont_char v))"

lemma el_retract_char:
  assumes "in_token st = t @ c # v" "list_all cont_char v" "\<not> cont_char c"
  shows "el_retract st = ok (st\<lparr>in_token := t, in_rest := (if in_rest st \<noteq> [] \<or> c \<noteq> CHR 0x00 then c # v @ in_rest st else in_rest st)\<rparr>)"
proof -
  have "rev (in_token st) = rev v @ c # rev t" using assms(1) by simp
  moreover have "\<And>x. x \<in> set (rev v) \<Longrightarrow> cont_char x" using assms(2) by (simp add: list_all_iff)
  ultimately have "takeWhile cont_char (rev (in_token st)) = rev v" "dropWhile cont_char (rev (in_token st)) = c # rev t"
    using assms(3) by (simp_all only: takeWhile_append2 dropWhile_append2 takeWhile.simps dropWhile.simps if_False append_Nil2)
  then show ?thesis by (simp add: el_retract_def Let_def)
qed

lemma zero_char [simp]: "\<not> el_name_char 0" "\<not> digit_ch 0" "ord32 CHR ''.'' \<noteq> 0"
  by (simp_all add: el_name_char_def el_name_start_char_def between_def ord32_def)

lemma zero_goto: "el_round F S fr 0 st = ok (El_goto S' fr' st') \<Longrightarrow> S = El_TemplateStart"
  by (cases S)
    (auto simp: el_start_def el_putback_def el_equals_def el_question_def el_exclamation_mark_def el_less_than_def
      el_greater_than_def el_number_def el_number_fraction_def el_name_def el_literal_def el_hash_def el_colon_def bind_simps
      split: if_splits option.splits)

lemma first_chars_not_start: "map_of el_first_chars c = Some S \<Longrightarrow> S \<noteq> El_Start"
  by (drule map_of_SomeD) (auto simp: el_first_chars_def)

lemma start_goto:
  assumes "el_start fr ch st = ok (El_goto S fr' st')"
  shows "in_rest st' = in_rest st \<and> in_token st' = (if S = El_Start then [] else in_token st)"
proof -
  have "S \<noteq> El_Start \<and> st' = st \<or> S = El_Start \<and> st' = st\<lparr>in_token := []\<rparr> \<or> S = El_Number \<and> st' = st\<lparr>in_int := digit_of ch\<rparr>"
  proof (cases "ch = 0 \<or> el_white ch \<or> digit_ch ch")
    case True
    then show ?thesis using assms unfolding el_start_def by (simp split: if_split_asm)
  next
    case False
    define a where "a = (if ch < 0x80 then map_of el_simple_tokens (chr32 ch) else None)"
    define b where "b = (if ch < 0x80 then map_of el_first_chars (chr32 ch) else None)"
    have b: "b = Some S' \<Longrightarrow> S' \<noteq> El_Start" for S'
      using first_chars_not_start [of "chr32 ch"] unfolding b_def by (simp split: if_split_asm)
    have "(case a of Some t \<Rightarrow> ok (El_found t st)
         | None \<Rightarrow> (case b of Some S \<Rightarrow> ok (El_goto S fr st)
              | None \<Rightarrow> if el_name_start_char ch then ok (El_goto El_Name fr st) else ok (El_found El_error st)))
         = (ok (El_goto S fr' st') :: 'a el_result res)"
      using assms False unfolding el_start_def a_def b_def by simp
    then show ?thesis using b by (cases a; cases b) (simp_all split: if_split_asm)
  qed
  then show ?thesis by auto
qed

lemma other_goto:
  assumes "el_round F S fr ch st = ok (El_goto S' fr' st')" "S \<noteq> El_Start" "S \<noteq> El_TemplateStart"
  shows "in_rest st' = in_rest st \<and> S' \<noteq> El_Start \<and> S' \<noteq> El_TemplateStart"
  using assms
  by (cases S)
    (auto simp: el_putback_def el_equals_def el_question_def el_exclamation_mark_def el_less_than_def
      el_greater_than_def el_number_def el_number_fraction_def el_name_def el_literal_def el_hash_def el_colon_def bind_simps
      split: if_splits option.splits)

lemma template_goto:
  assumes "el_template_start fr ch st = ok (El_goto S' fr' st')"
  shows "el_retract st = ok st' \<and> S' = El_Hash \<and> in_token st' \<noteq> []"
proof (cases "ch = ord32 CHR ''{''")
  case True
  with assms show ?thesis unfolding el_template_start_def by (simp split: list.split_asm if_split_asm)
next
  case False
  with assms obtain st3 where "el_retract st = ok st3"
    "(case in_token st3 of [] \<Rightarrow> ok (El_found El_error st3)
      | c # _ \<Rightarrow> if c = CHR ''*'' then ok (El_found El_mult st3)
        else if c = CHR ''#'' then ok (El_goto El_Hash fr st3) else ok (El_found El_error st3)) = ok (El_goto S' fr' st')"
    unfolding el_template_start_def by (auto simp: bind_simps)
  then show ?thesis by (simp split: list.split_asm if_split_asm)
qed

lemma round_progress:
  assumes i: "el_lex_ok S st" and g: "el_get_next_char st = ok (ch, st1)" and r: "el_round F S fr ch st1 = ok (El_goto S' fr' st2)"
  shows "el_lex_ok S' st2 \<and> length (in_rest st2) + el_rounds S' < length (in_rest st) + el_rounds S"
proof -
  obtain c v where cv: "in_token st1 = in_token st @ c # v" "list_all cont_char v"
    "if in_rest st = [] then c = CHR 0x00 \<and> v = [] \<and> in_rest st1 = [] \<and> ch = 0
     else in_rest st = c # v @ in_rest st1 \<and> (ch \<noteq> 0 \<longrightarrow> \<not> cont_char c) \<and> (\<not> cont_char c \<or> v = [])"
    using el_get_next_charD [OF g] by blast
  have z: "ch \<noteq> 0 \<Longrightarrow> in_rest st = c # v @ in_rest st1 \<and> \<not> cont_char c" using cv(3) by (auto split: if_splits)
  show ?thesis
  proof (cases "S = El_TemplateStart")
    case True
    obtain d w where d: "in_token st = d # w" "\<not> cont_char d" "list_all cont_char w"
      using i True by (auto simp: el_lex_ok_def)
    have s: "el_retract st1 = ok st2" "S' = El_Hash" "in_token st2 \<noteq> []"
      using r True template_goto [of fr ch st1 S' fr' st2] by simp_all
    have "length (in_rest st2) \<le> length (in_rest st)"
    proof (cases "cont_char c")
      case False
      then show ?thesis using s(1) el_retract_char [OF cv(1,2) False] cv(3) by (auto split: if_splits)
    next
      case True
      have "in_token st1 = [] @ d # (w @ c # v)" "list_all cont_char (w @ c # v)" using cv(1,2) d True by simp_all
      from el_retract_char [OF this d(2)] s(1,3) have False by auto
      then show ?thesis ..
    qed
    then show ?thesis using s(2) True by (simp add: el_lex_ok_def)
  next
    case False
    then have "ch \<noteq> 0" using r zero_goto by metis
    with z have z: "in_rest st = c # v @ in_rest st1" "\<not> cont_char c" by simp_all
    then have l: "length (in_rest st1) < length (in_rest st)" by simp
    show ?thesis
    proof (cases "S = El_Start")
      case True
      then have "el_start fr ch st1 = ok (El_goto S' fr' st2)" using r by simp
      note s = start_goto [OF this]
      have "in_token st1 = c # v" using i True cv(1) by (simp add: el_lex_ok_def)
      then show ?thesis using s z(2) l True cv(2) by (cases S') (auto simp: el_lex_ok_def)
    next
      case not_start: False
      then have "in_rest st2 = in_rest st1" "S' \<noteq> El_Start" "S' \<noteq> El_TemplateStart"
        using other_goto [OF r] False by simp_all
      moreover have "el_rounds S' = 1" "el_rounds S = 1"
        using calculation(2,3) not_start False el_rounds_one by blast+
      ultimately show ?thesis using l by (simp add: el_lex_ok_def)
    qed
  qed
qed

lemma el_token_loop_returns:
  "el_lex_ok S st \<Longrightarrow> length (in_rest st) + el_rounds S \<le> n \<Longrightarrow> el_token_loop F n S fr st \<noteq> None"
proof (induction n arbitrary: S fr st)
  case 0
  then show ?case by (cases S) simp_all
next
  case (Suc n)
  show ?case
  proof (cases "bind_res (el_get_next_char st) (\<lambda>(ch, st). el_round F S fr ch st)")
    case (Inr res)
    then obtain ch st1 where g: "el_get_next_char st = ok (ch, st1)" "el_round F S fr ch st1 = ok res" by (auto simp: bind_simps)
    show ?thesis
    proof (cases res)
      case (El_goto S' fr' st2)
      from round_progress [OF Suc.prems(1) g(1)] g(2) El_goto
      have "el_lex_ok S' st2" "length (in_rest st2) + el_rounds S' < length (in_rest st) + el_rounds S" by blast+
      then show ?thesis using Suc.IH [of S' st2 fr'] Suc.prems(2) Inr El_goto by simp
    qed (use Inr in simp)
  qed simp
qed

text \<open>
  C31. The tokenizer returns for every text, whatever its bytes: its loop reads at least one
  byte in each round but for the two after a template character and at the end of the text.
\<close>

theorem el_lexer_returns: "el_get_next_token F st \<noteq> None"
proof -
  let ?s = "st\<lparr>in_token := []\<rparr>"
  have "el_token_loop F (length (in_rest ?s) + 3) El_Start (fo_of_int F 1) ?s \<noteq> None"
    by (rule el_token_loop_returns) (simp_all add: el_lex_ok_def)
  then show ?thesis by (auto simp: el_get_next_token_def split: sum.splits)
qed

text \<open>
  An overlong encoding of the dollar sign, which the reader does not reject, leads to the
  state of templates with a token that begins with another byte, where the assertion fails.
\<close>

lemma overlong_template_fails:
  assumes "in_rest st = [CHR 0xC0, CHR 0xA4, CHR ''{'']"
  shows "el_get_next_token F st = Some (throw Assertion)"
proof -
  let ?s = "st\<lparr>in_token := []\<rparr>" and ?t = "st\<lparr>in_token := [CHR 0xC0, CHR 0xA4], in_rest := ''{''\<rparr>"
  have w: "ord32 (CHR 0xC0) = 0xC0" "ord32 (CHR 0xA4) = 0xA4" by (simp_all add: ord32_def)
  have g: "el_get_next_char ?s = ok (0x24, ?t)"
    using assms by (simp add: el_get_next_char_def el_next_byte_def el_continuation_def w)
  have "chr32 0x24 = CHR ''$''" using char_of_code [of "CHR ''$''"] by (simp add: chr32_def)
  then have r: "el_start fr 0x24 ?t = ok (El_goto El_TemplateStart fr ?t)" for fr
    by (simp add: el_start_def el_white_def between_def ord32_def el_simple_tokens_def el_first_chars_def)
  have "el_get_next_char ?t = ok (ord32 CHR ''{'', ?t\<lparr>in_token := [CHR 0xC0, CHR 0xA4, CHR ''{''], in_rest := []\<rparr>)"
    by (simp add: el_get_next_char_def el_next_byte_def ord32_def)
  then show ?thesis using assms g r by (simp add: el_get_next_token_def el_template_start_def numeral_eq_Suc)
qed

text \<open>An exclamation mark is the operator \<open>ne\<close>, with or without the equals sign behind it.\<close>

lemma exclamation_mark_is_ne: "el_exclamation_mark fr ch st = ok res \<Longrightarrow> \<exists>st. res = El_found El_ne st"
  by (auto simp: el_exclamation_mark_def el_putback_def bind_simps split: if_splits)

end
