(* ===== verification/El_Scope.thy ===== *)
theory El_Scope
  imports Controllers Format
begin

text \<open>
  The scopes of the expression language and its utility objects (\<open>el-processing.cpp\<close>,
  \<open>zeep/http/el-processing.hpp\<close>). A chain of scopes is the list of its members, this scope
  first; the request, with its credentials, and the server's context name are those of
  every member. Cached node sets are not modelled. The utility object \<open>dates\<close>, which
  formats with the library's time facets, and those of an application are the argument
  \<open>sc_utilities\<close>.
\<close>

record 'f frame =
  fr_data :: "(string \<times> 'f element) list"
  fr_selected :: "'f element"

record 'f scope =
  sc_frames :: "'f frame list"
  sc_request :: "(request \<times> 'f element) option"
  sc_server :: "string option"
  sc_utilities :: "string \<Rightarrow> (string \<Rightarrow> 'f element list \<Rightarrow> 'f element res option) option"
  sc_locale :: numpunct

section \<open>Variables\<close>

fun put_member :: "string \<Rightarrow> 'a \<Rightarrow> (string \<times> 'a) list \<Rightarrow> (string \<times> 'a) list" where
  "put_member k v [] = [(k, v)]"
| "put_member k v ((k', v') # m) =
     (if k < k' then (k, v) # (k', v') # m
      else if k = k' then (k, v) # m
      else (k', v') # put_member k v m)"

definition empty_frame :: "'f frame" where
  "empty_frame = \<lparr>fr_data = [], fr_selected = Null\<rparr>"

text \<open>The constructor that chains fails at a depth of more than 1000.\<close>

definition scope_nest :: "'f scope \<Rightarrow> 'f scope res" where
  "scope_nest sc =
     (if length (sc_frames sc) > 1000 then throw (Runtime_error ''scope stack overflow'')
      else ok (sc\<lparr>sc_frames := empty_frame # sc_frames sc\<rparr>))"

definition scope_put :: "string \<Rightarrow> 'f element \<Rightarrow> 'f scope \<Rightarrow> 'f scope" where
  "scope_put name v sc =
     (case sc_frames sc of
        [] \<Rightarrow> sc
      | f # fs \<Rightarrow> sc\<lparr>sc_frames := f\<lparr>fr_data := put_member name v (fr_data f)\<rparr> # fs\<rparr>)"

definition scope_put_range :: "string \<Rightarrow> 'f element list \<Rightarrow> 'f scope \<Rightarrow> 'f scope" where
  "scope_put_range name elements sc = scope_put name (Array elements) sc"

definition select_object :: "'f element \<Rightarrow> 'f scope \<Rightarrow> 'f scope" where
  "select_object v sc =
     (case sc_frames sc of [] \<Rightarrow> sc | f # fs \<Rightarrow> sc\<lparr>sc_frames := f\<lparr>fr_selected := v\<rparr> # fs\<rparr>)"

text \<open>
  What the selected object holds under a name: the member of an object; in an array, where
  \<open>contains\<close> and \<open>find\<close> look for a value, the name itself.
\<close>

definition selected_member :: "'f float_ops \<Rightarrow> 'f element \<Rightarrow> string \<Rightarrow> 'f element option" where
  "selected_member F selected name =
     (if elem_contains F selected (String name) then
        (case selected of
           Object m \<Rightarrow> map_of m name
         | Array es \<Rightarrow> List.find (\<lambda>e. elem_eq F e (String name)) es
         | _ \<Rightarrow> None)
      else None)"

text \<open>The constant \<open>lookup\<close>: the first member of the chain that has the name, or null.\<close>

fun frames_lookup :: "'f float_ops \<Rightarrow> 'f frame list \<Rightarrow> string \<Rightarrow> bool \<Rightarrow> 'f element" where
  "frames_lookup F [] name includeSelected = Null"
| "frames_lookup F (f # fs) name includeSelected =
     (case map_of (fr_data f) name of
        Some v \<Rightarrow> v
      | None \<Rightarrow>
          (case (if includeSelected then selected_member F (fr_selected f) name else None) of
             Some v \<Rightarrow> v
           | None \<Rightarrow> frames_lookup F fs name includeSelected))"

definition scope_lookup :: "'f float_ops \<Rightarrow> 'f scope \<Rightarrow> string \<Rightarrow> bool \<Rightarrow> 'f element" where
  "scope_lookup F sc name includeSelected = frames_lookup F (sc_frames sc) name includeSelected"

text \<open>The \<open>lookup\<close> that returns a reference enters a null in the last member of the chain.\<close>

fun frames_ref :: "'f frame list \<Rightarrow> string \<Rightarrow> 'f element \<times> 'f frame list" where
  "frames_ref [] name = (Null, [])"
| "frames_ref (f # fs) name =
     (case map_of (fr_data f) name of
        Some v \<Rightarrow> (v, f # fs)
      | None \<Rightarrow>
          if fs \<noteq> [] then (let (v, fs) = frames_ref fs name in (v, f # fs))
          else (Null, [f\<lparr>fr_data := put_member name Null (fr_data f)\<rparr>]))"

definition scope_ref :: "'f scope \<Rightarrow> string \<Rightarrow> 'f element \<times> 'f scope" where
  "scope_ref sc name = (let (v, fs) = frames_ref (sc_frames sc) name in (v, sc\<lparr>sc_frames := fs\<rparr>))"

definition scope_get_request :: "'f scope \<Rightarrow> request res" where
  "scope_get_request sc =
     (case sc_request sc of None \<Rightarrow> throw (Zeep_exception ''Invalid scope, no request'') | Some (rq, _) \<Rightarrow> ok rq)"

definition get_context_name :: "'f scope \<Rightarrow> string res" where
  "get_context_name sc =
     (case sc_server sc of None \<Rightarrow> throw (Zeep_exception ''Invalid scope, no server'') | Some name \<Rightarrow> ok name)"

definition get_credentials :: "'f scope \<Rightarrow> 'f element res" where
  "get_credentials sc =
     (case (sc_request sc, sc_server sc) of
        (Some (_, credentials), Some _) \<Rightarrow> ok credentials
      | _ \<Rightarrow> throw (Zeep_exception ''Invalid scope, no request, no server''))"

definition scope_get_csrf_token :: "'f scope \<Rightarrow> string res" where
  "scope_get_csrf_token sc = bind_res (scope_get_request sc) (\<lambda>rq. ok (request_get_cookie (rq_headers rq) ''csrf-token''))"

section \<open>Utility objects\<close>

text \<open>\<open>as<int>\<close>: a boolean gives its value, an integer its low 32 bits.\<close>

definition as_int32 :: "'f float_ops \<Rightarrow> 'f element \<Rightarrow> int res" where
  "as_int32 F e =
     (case e of
        Null \<Rightarrow> ok 0
      | Boolean b \<Rightarrow> ok (if b then 1 else 0)
      | Number_int i \<Rightarrow> ok ((i + 2 ^ 31) mod 2 ^ 32 - 2 ^ 31)
      | Number_float d \<Rightarrow> (case fo_to_int F d of None \<Rightarrow> throw Undefined | Some i \<Rightarrow> int32 i)
      | _ \<Rightarrow> throw (wrong_number e))"

text \<open>A digit count among the parameters of a call.\<close>

definition int_param :: "'f float_ops \<Rightarrow> nat \<Rightarrow> int \<Rightarrow> 'f element list \<Rightarrow> int res" where
  "int_param F k dflt params =
     (if k < length params \<and> elem_type (params ! k) = Type_number_int then as_int32 F (params ! k) else ok dflt)"

definition string_result :: "string res option \<Rightarrow> 'f element res option" where
  "string_result r = map_option (\<lambda>r. bind_res r (\<lambda>s. ok (String s))) r"

fun disk_size_loop :: "nat \<Rightarrow> 'f float_ops \<Rightarrow> 'f \<Rightarrow> nat \<Rightarrow> ('f \<times> nat) option" where
  "disk_size_loop 0 F nr base = None"
| "disk_size_loop (Suc n) F nr base =
     (if fo_less F (fo_of_int F 1024) nr then disk_size_loop n F (fo_div F nr (fo_of_int F 1024)) (base + 1)
      else Some (nr, base))"

text \<open>Reading \<open>kBase\<close> behind its seven letters is undefined.\<close>

definition disk_unit :: "nat \<Rightarrow> string \<Rightarrow> string res" where
  "disk_unit base s = (if base < 7 then ok (s @ '' '' @ [''BKMGTPE'' ! base]) else throw Undefined)"

definition number_util :: "nat \<Rightarrow> 'f float_ops \<Rightarrow> 'f decimal_ops \<Rightarrow> 'f scope \<Rightarrow> string \<Rightarrow> 'f element list \<Rightarrow> 'f element res option" where
  "number_util n F D sc method params =
     (if method = ''formatDecimal'' \<and> params \<noteq> [] \<and> is_number (hd params) then
        (case bind_res (int_param F 1 1 params) (\<lambda>intDigits.
              bind_res (int_param F 2 0 params) (\<lambda>decimals.
              bind_res (as_float F (hd params)) (\<lambda>d.
              bind_res (scope_get_request sc) (\<lambda>_. ok (intDigits, decimals, d))))) of
           Inl e \<Rightarrow> Some (throw e)
         | Inr (intDigits, decimals, d) \<Rightarrow> string_result (FormatDecimal n F D (sc_locale sc) d intDigits decimals))
      else if method = ''formatDiskSize'' \<and> params \<noteq> [] \<and> is_number (hd params) then
        (case as_float F (hd params) of
           Inl e \<Rightarrow> Some (throw e)
         | Inr nr \<Rightarrow>
             (case disk_size_loop n F nr 0 of
                None \<Rightarrow> None
              | Some (nr, base) \<Rightarrow>
                  (case bind_res (int_param F 1 0 params) (\<lambda>decimals. bind_res (scope_get_request sc) (\<lambda>_. ok decimals)) of
                     Inl e \<Rightarrow> Some (throw e)
                   | Inr decimals \<Rightarrow>
                       string_result (map_option (\<lambda>r. bind_res r (disk_unit base)) (FormatDecimal n F D (sc_locale sc) nr 1 decimals)))))
      else Some (ok Null))"

definition request_util :: "'f float_ops \<Rightarrow> 'f scope \<Rightarrow> string \<Rightarrow> 'f element list \<Rightarrow> 'f element res" where
  "request_util F sc method params =
     (if method = ''getRequestURI'' \<or> method = ''getRequestURL'' then
        bind_res (scope_get_request sc) (\<lambda>rq. ok (String (rq_uri rq)))
      else if method = ''getParameter'' \<and> length params = 1 then
        bind_res (scope_get_request sc) (\<lambda>rq. ok (String (get_parameter rq (c_str (as_string F (hd params))))))
      else ok Null)"

text \<open>The credentials are a copy, so \<open>operator[]\<close> changes nothing that lasts.\<close>

definition security_util :: "'f float_ops \<Rightarrow> 'f scope \<Rightarrow> string \<Rightarrow> 'f element list \<Rightarrow> 'f element res" where
  "security_util F sc method params =
     (if method = ''hasRole'' then
        (if length params = 1 \<and> elem_type (hd params) = Type_string then
           bind_res (get_credentials sc) (\<lambda>credentials.
           bind_res (elem_key credentials ''role'') (\<lambda>(roles, _).
             ok (Boolean (elem_type roles = Type_array \<and> elem_contains F roles (hd params)))))
         else ok Null)
      else if method = ''authorized'' then
        bind_res (get_credentials sc) (\<lambda>credentials.
        bind_res (elem_key credentials ''username'') (\<lambda>(username, _). ok (Boolean (elem_type username = Type_string))))
      else if method = ''username'' then
        bind_res (get_credentials sc) (\<lambda>credentials.
        bind_res (elem_key credentials ''username'') (\<lambda>(username, _). ok username))
      else ok Null)"

definition evaluate_utility ::
  "nat \<Rightarrow> 'f float_ops \<Rightarrow> 'f decimal_ops \<Rightarrow> 'f scope \<Rightarrow> string \<Rightarrow> string \<Rightarrow> 'f element list \<Rightarrow> 'f element res option" where
  "evaluate_utility n F D sc className method params =
     (case sc_utilities sc className of
        Some util \<Rightarrow> util method params
      | None \<Rightarrow>
          if className = ''numbers'' then number_util n F D sc method params
          else if className = ''request'' then Some (request_util F sc method params)
          else if className = ''security'' then Some (security_util F sc method params)
          else Some (ok Null))"

section \<open>Properties\<close>

lemma put_member_of [simp]: "map_of (put_member k v m) = (map_of m)(k \<mapsto> v)"
  by (induction k v m rule: put_member.induct) (auto simp: fun_eq_iff)

text \<open>
  A variable put into a scope is found under its name in this scope and in a scope
  nested in it, where it hides the variables of that name further out; other names are
  looked up as before, and a nested scope that was changed leaves the outer one as it was.
\<close>

lemma scope_variables:
  assumes "sc_frames sc \<noteq> []" "scope_nest sc = ok inner" "other \<noteq> name"
  shows "scope_lookup F (scope_put name v sc) name sel = v
    \<and> scope_lookup F (scope_put name v inner) name sel = v
    \<and> scope_lookup F (scope_put name v inner) other False = scope_lookup F sc other False
    \<and> tl (sc_frames (scope_put name v inner)) = sc_frames sc"
proof -
  have i: "sc_frames inner = empty_frame # sc_frames sc" using assms(2) by (auto simp: scope_nest_def split: if_splits)
  have "scope_lookup F (scope_put name v sc) name sel = v"
    using assms(1) by (cases "sc_frames sc") (simp_all add: scope_lookup_def scope_put_def)
  moreover have "scope_lookup F (scope_put name v inner) name sel = v"
    by (simp add: scope_lookup_def scope_put_def i)
  moreover have "scope_lookup F (scope_put name v inner) other False = scope_lookup F sc other False"
    using assms(3) by (simp add: scope_lookup_def scope_put_def i empty_frame_def)
  moreover have "tl (sc_frames (scope_put name v inner)) = sc_frames sc"
    by (simp add: scope_put_def i)
  ultimately show ?thesis by blast
qed

definition new_scope :: "'f scope" where
  "new_scope = \<lparr>sc_frames = [empty_frame], sc_request = None, sc_server = None, sc_utilities = (\<lambda>_. None),
     sc_locale = \<lparr>np_decimal_point = ''.'', np_thousands_sep = [], np_grouping = []\<rparr>\<rparr>"

lemma scope_variables_witness:
  "\<exists>inner. scope_nest new_scope = ok inner
    \<and> scope_lookup int_ops (scope_put ''a'' (Number_int 1) inner) ''a'' False = Number_int 1
    \<and> scope_lookup int_ops (scope_put ''a'' (Number_int 1) inner) ''b'' False = scope_lookup int_ops new_scope ''b'' False"
proof -
  have "sc_frames (new_scope :: int scope) \<noteq> []" by (simp add: new_scope_def)
  moreover have "scope_nest (new_scope :: int scope) = ok (new_scope\<lparr>sc_frames := [empty_frame, empty_frame]\<rparr>)"
    by (simp add: new_scope_def scope_nest_def)
  ultimately show ?thesis
    using scope_variables [of new_scope "new_scope\<lparr>sc_frames := [empty_frame, empty_frame]\<rparr>" "''b''" "''a''" int_ops "Number_int 1" False]
    by (intro exI [of _ "new_scope\<lparr>sc_frames := [empty_frame, empty_frame]\<rparr>"]) simp
qed

text \<open>Reading a variable that is missing through a reference enters it in the outermost scope.\<close>

lemma missing_variable_goes_outermost:
  assumes "fs \<noteq> []" "\<forall>f \<in> set fs. map_of (fr_data f) name = None"
  shows "frames_ref fs name = (Null, butlast fs @ [(last fs)\<lparr>fr_data := put_member name Null (fr_data (last fs))\<rparr>])"
  using assms by (induction fs) (auto split: prod.split)

end
