(* ===== verification/El_Interp.thy ===== *)
theory El_Interp
  imports El_Lexer El_Scope
begin

text \<open>
  The interpreter of the expression language (\<open>el-processing.cpp\<close>): a recursive descent over
  the tokens that evaluates while it parses. A function takes the state of the interpreter
  and returns a value and the changed state, an exception, or \<open>None\<close> when its fuel \<open>n\<close> runs
  out. Each level is written with the functions it calls as arguments; \<open>parse_expr\<close> and
  \<open>parse_primary_expr\<close> close the recursion.
\<close>

type_synonym ('f, 'a) el = "'f interp \<Rightarrow> ('a \<times> 'f interp) res option"

type_synonym 'f el_parser = "('f, 'f element) el"

definition el_return :: "'a res \<Rightarrow> 'f interp \<Rightarrow> ('a \<times> 'f interp) res option" where
  "el_return r st = Some (bind_res r (\<lambda>v. ok (v, st)))"

text \<open>\<open>match(m_lookahead)\<close> never fails to match.\<close>

abbreviation el_next :: "'f float_ops \<Rightarrow> 'f interp \<Rightarrow> 'f interp res option" where
  "el_next F st \<equiv> el_match F (in_lookahead st) st"

section \<open>Operators\<close>

definition parse_unary_expr :: "'f float_ops \<Rightarrow> 'f el_parser \<Rightarrow> 'f el_parser" where
  "parse_unary_expr F primary st =
     (if in_lookahead st = El_minus then
        seq (el_next F st) (\<lambda>st. seq (primary st) (\<lambda>(v, st). el_return (elem_neg F v) st))
      else if in_lookahead st = El_not then
        seq (el_next F st) (\<lambda>st. seq (primary st) (\<lambda>(v, st). el_return (ok (Boolean (\<not> as_bool F v))) st))
      else primary st)"

fun mult_loop :: "'f float_ops \<Rightarrow> nat \<Rightarrow> 'f el_parser \<Rightarrow> 'f element \<Rightarrow> 'f el_parser" where
  "mult_loop F 0 unary v st = None"
| "mult_loop F (Suc n) unary v st =
     (if in_lookahead st = El_mult then
        seq (el_next F st) (\<lambda>st. seq (unary st) (\<lambda>(w, st). seq (el_return (elem_mul F v w) st) (\<lambda>(v, st). mult_loop F n unary v st)))
      else if in_lookahead st = El_div then
        seq (el_next F st) (\<lambda>st. seq (unary st) (\<lambda>(w, st). seq (el_return (elem_div F v w) st) (\<lambda>(v, st). mult_loop F n unary v st)))
      else if in_lookahead st = El_mod then
        seq (el_next F st) (\<lambda>st. seq (unary st) (\<lambda>(w, st). seq (el_return (elem_mod F v w) st) (\<lambda>(v, st). mult_loop F n unary v st)))
      else el_return (ok v) st)"

definition parse_multiplicative_expr :: "'f float_ops \<Rightarrow> nat \<Rightarrow> 'f el_parser \<Rightarrow> 'f el_parser" where
  "parse_multiplicative_expr F n primary st =
     seq (parse_unary_expr F primary st) (\<lambda>(v, st). mult_loop F n (parse_unary_expr F primary) v st)"

fun add_loop :: "'f float_ops \<Rightarrow> nat \<Rightarrow> 'f el_parser \<Rightarrow> 'f element \<Rightarrow> 'f el_parser" where
  "add_loop F 0 multiplicative v st = None"
| "add_loop F (Suc n) multiplicative v st =
     (if in_lookahead st = El_plus then
        seq (el_next F st) (\<lambda>st. seq (multiplicative st) (\<lambda>(w, st). seq (el_return (elem_add F v w) st) (\<lambda>(v, st). add_loop F n multiplicative v st)))
      else if in_lookahead st = El_minus then
        seq (el_next F st) (\<lambda>st. seq (multiplicative st) (\<lambda>(w, st). seq (el_return (elem_sub F v w) st) (\<lambda>(v, st). add_loop F n multiplicative v st)))
      else el_return (ok v) st)"

definition parse_additive_expr :: "'f float_ops \<Rightarrow> nat \<Rightarrow> 'f el_parser \<Rightarrow> 'f el_parser" where
  "parse_additive_expr F n primary st =
     seq (parse_multiplicative_expr F n primary st) (\<lambda>(v, st). add_loop F n (parse_multiplicative_expr F n primary) v st)"

definition parse_relational_expr :: "'f float_ops \<Rightarrow> nat \<Rightarrow> 'f el_parser \<Rightarrow> 'f el_parser" where
  "parse_relational_expr F n primary st =
     (let additive = parse_additive_expr F n primary;
          compare = (\<lambda>f v st. seq (el_next F st) (\<lambda>st. seq (additive st) (\<lambda>(w, st). el_return (ok (Boolean (f v w))) st)))
      in
      seq (additive st) (\<lambda>(v, st).
        if in_lookahead st = El_lt then compare (\<lambda>v w. elem_less F v w) v st
        else if in_lookahead st = El_le then compare (\<lambda>v w. \<not> elem_less F w v) v st
        else if in_lookahead st = El_ge then compare (\<lambda>v w. \<not> elem_less F v w) v st
        else if in_lookahead st = El_gt then compare (\<lambda>v w. elem_less F w v) v st
        else if in_lookahead st = El_not then
          seq (el_match F El_not st) (\<lambda>st. seq (el_match F El_in st) (\<lambda>st.
            seq (additive st) (\<lambda>(lst, st). el_return (ok (Boolean (\<not> elem_contains F lst v))) st)))
        else if in_lookahead st = El_in then compare (\<lambda>v lst. elem_contains F lst v) v st
        else el_return (ok v) st))"

definition parse_equality_expr :: "'f float_ops \<Rightarrow> nat \<Rightarrow> 'f el_parser \<Rightarrow> 'f el_parser" where
  "parse_equality_expr F n primary st =
     (let relational = parse_relational_expr F n primary in
      seq (relational st) (\<lambda>(v, st).
        if in_lookahead st = El_eq then
          seq (el_next F st) (\<lambda>st. seq (relational st) (\<lambda>(w, st). el_return (ok (Boolean (elem_eq F v w))) st))
        else if in_lookahead st = El_ne then
          seq (el_next F st) (\<lambda>st. seq (relational st) (\<lambda>(w, st). el_return (ok (Boolean (\<not> elem_eq F v w))) st))
        else el_return (ok v) st))"

text \<open>Both sides of \<open>and\<close> and \<open>or\<close> are evaluated.\<close>

fun and_loop :: "'f float_ops \<Rightarrow> nat \<Rightarrow> 'f el_parser \<Rightarrow> 'f element \<Rightarrow> 'f el_parser" where
  "and_loop F 0 equality v st = None"
| "and_loop F (Suc n) equality v st =
     (if in_lookahead st = El_and then
        seq (el_next F st) (\<lambda>st. seq (equality st) (\<lambda>(w, st).
          and_loop F n equality (Boolean (as_bool F v \<and> as_bool F w)) st))
      else el_return (ok v) st)"

definition parse_and_expr :: "'f float_ops \<Rightarrow> nat \<Rightarrow> 'f el_parser \<Rightarrow> 'f el_parser" where
  "parse_and_expr F n primary st =
     seq (parse_equality_expr F n primary st) (\<lambda>(v, st). and_loop F n (parse_equality_expr F n primary) v st)"

fun or_loop :: "'f float_ops \<Rightarrow> nat \<Rightarrow> 'f el_parser \<Rightarrow> 'f element \<Rightarrow> 'f el_parser" where
  "or_loop F 0 conjunct v st = None"
| "or_loop F (Suc n) conjunct v st =
     (if in_lookahead st = El_or then
        seq (el_next F st) (\<lambda>st. seq (conjunct st) (\<lambda>(w, st).
          or_loop F n conjunct (Boolean (as_bool F v \<or> as_bool F w)) st))
      else el_return (ok v) st)"

definition parse_or_expr :: "'f float_ops \<Rightarrow> nat \<Rightarrow> 'f el_parser \<Rightarrow> 'f el_parser" where
  "parse_or_expr F n primary st =
     seq (parse_and_expr F n primary st) (\<lambda>(v, st). or_loop F n (parse_and_expr F n primary) v st)"

text \<open>All the parts of a conditional are evaluated, then one is chosen.\<close>

definition expr_body :: "'f float_ops \<Rightarrow> nat \<Rightarrow> 'f el_parser \<Rightarrow> 'f el_parser \<Rightarrow> 'f el_parser" where
  "expr_body F n expr primary st =
     seq (parse_or_expr F n primary st) (\<lambda>(v, st).
       if in_lookahead st = El_if then
         seq (el_next F st) (\<lambda>st. seq (expr st) (\<lambda>(a, st).
           if in_lookahead st = El_else then
             seq (el_match F El_else st) (\<lambda>st. seq (expr st) (\<lambda>(b, st).
               el_return (ok (if elem_bool F v then a else b)) st))
           else el_return (ok (if elem_bool F v then a else Null)) st))
       else if in_lookahead st = El_elvis then
         seq (el_next F st) (\<lambda>st. seq (expr st) (\<lambda>(a, st).
           el_return (ok (if elem_bool F v then v else a)) st))
       else el_return (ok v) st)"

section \<open>Members and elements of a value\<close>

text \<open>
  An index is an \<open>int\<close> converted to \<open>size_t\<close>. The array grows up to the index; for -1 the
  test for growth wraps around and the read is undefined, a smaller index makes \<open>resize\<close>
  throw.
\<close>

definition array_element :: "'f float_ops \<Rightarrow> 'f element \<Rightarrow> 'f element \<Rightarrow> 'f element res" where
  "array_element F v index =
     bind_res (as_int32 F index) (\<lambda>i.
       if i = -1 then throw Undefined
       else if i < 0 then throw Out_of_range
       else bind_res (elem_index v (nat i)) (\<lambda>(w, _). ok w))"

definition object_member :: "'f element \<Rightarrow> string \<Rightarrow> 'f element res" where
  "object_member v name = bind_res (elem_key v name) (\<lambda>(w, _). ok w)"

definition dotted_member :: "'f element \<Rightarrow> string \<Rightarrow> 'f element res" where
  "dotted_member v name =
     (if elem_type v = Type_array \<and> (name = ''count'' \<or> name = ''length'') then ok (Number_int (int (elem_size v) mod 2 ^ 32))
      else if name = ''empty'' then ok (Boolean (elem_empty v))
      else if elem_type v = Type_object then bind_res (elem_key_const v name) (\<lambda>(w, _). ok w)
      else ok Null)"

text \<open>The loop after a name in \<open>parse_primary_expr\<close>: a null value stays null.\<close>

fun member_loop :: "'f float_ops \<Rightarrow> nat \<Rightarrow> 'f el_parser \<Rightarrow> 'f element \<Rightarrow> 'f el_parser" where
  "member_loop F 0 expr v st = None"
| "member_loop F (Suc n) expr v st =
     (if in_lookahead st = El_dot then
        seq (el_next F st) (\<lambda>st.
        seq (el_return (if v = Null then ok Null else dotted_member v (in_token st)) st) (\<lambda>(v, st).
        seq (el_match F El_object st) (\<lambda>st. member_loop F n expr v st)))
      else if in_lookahead st = El_lbracket then
        seq (el_next F st) (\<lambda>st. seq (expr st) (\<lambda>(index, st). seq (el_match F El_rbracket st) (\<lambda>st.
        seq (el_return
          (if v = Null then ok Null
           else if elem_empty v \<or> elem_empty index then ok Null
           else if elem_type v = Type_array then array_element F v index
           else if elem_type v = Type_object then object_member v (as_string F index)
           else ok Null) st) (\<lambda>(v, st). member_loop F n expr v st))))
      else el_return (ok v) st)"

text \<open>The same in a selection template, where the members of null are looked at.\<close>

fun selection_loop :: "'f float_ops \<Rightarrow> nat \<Rightarrow> 'f el_parser \<Rightarrow> 'f element \<Rightarrow> 'f el_parser" where
  "selection_loop F 0 expr v st = None"
| "selection_loop F (Suc n) expr v st =
     (if in_lookahead st = El_dot then
        seq (el_next F st) (\<lambda>st.
        seq (el_return
          (if elem_type v = Type_array \<and> (in_token st = ''count'' \<or> in_token st = ''length'') then ok (Number_int (int (elem_size v)))
           else dotted_member v (in_token st)) st) (\<lambda>(v, st).
        seq (el_match F El_object st) (\<lambda>st. selection_loop F n expr v st)))
      else if in_lookahead st = El_lbracket then
        seq (el_next F st) (\<lambda>st. seq (expr st) (\<lambda>(index, st). seq (el_match F El_rbracket st) (\<lambda>st.
        seq (el_return
          (if elem_empty index \<or> elem_type v \<noteq> Type_array \<and> elem_type v \<noteq> Type_object then ok Null
           else if elem_type v = Type_array then array_element F v index
           else object_member v (as_string F index)) st) (\<lambda>(v, st). selection_loop F n expr v st))))
      else el_return (ok v) st)"

section \<open>Templates\<close>

text \<open>
  \<open>parse_template_expr\<close>: \<open>m_return_whitespace\<close> is off inside and is restored before the
  closing brace is matched, because that reads the token behind it.
\<close>

definition close_template :: "'f float_ops \<Rightarrow> bool \<Rightarrow> 'f element \<times> 'f interp \<Rightarrow> ('f element \<times> 'f interp) res option" where
  "close_template F white =
     (\<lambda>(v, st). seq (el_match F El_rbrace (st\<lparr>in_white := white\<rparr>)) (\<lambda>st. el_return (ok v) st))"

definition variable_template :: "'f float_ops \<Rightarrow> 'f el_parser \<Rightarrow> 'f el_parser" where
  "variable_template F expr st =
     (let white = in_white st in
      seq (el_match F El_variable_template (st\<lparr>in_white := False\<rparr>)) (\<lambda>st. seq (expr st) (close_template F white)))"

definition selection_template :: "'f float_ops \<Rightarrow> nat \<Rightarrow> 'f scope \<Rightarrow> 'f el_parser \<Rightarrow> 'f el_parser" where
  "selection_template F n sc expr st =
     (let white = in_white st in
      seq (el_match F El_selection_template (st\<lparr>in_white := False\<rparr>)) (\<lambda>st.
        seq (if in_lookahead st = El_object then
               (let v = scope_lookup F sc (in_token st) True in
                seq (el_match F El_object st) (\<lambda>st. selection_loop F n expr v st))
             else expr st)
          (close_template F white)))"

definition link_template :: "'f float_ops \<Rightarrow> 'f el_parser \<Rightarrow> 'f el_parser" where
  "link_template F link st =
     (let white = in_white st in
      seq (el_match F El_link_template (st\<lparr>in_white := False\<rparr>)) (\<lambda>st. seq (link st) (close_template F white)))"

text \<open>\<open>m_return_whitespace\<close> stays off after the exception.\<close>

definition parse_template_expr :: "'f float_ops \<Rightarrow> nat \<Rightarrow> 'f scope \<Rightarrow> 'f el_parser \<Rightarrow> 'f el_parser \<Rightarrow> 'f el_parser" where
  "parse_template_expr F n sc expr link st =
     (if in_lookahead st = El_variable_template then variable_template F expr st
      else if in_lookahead st = El_link_template then link_template F link st
      else if in_lookahead st = El_selection_template then selection_template F n sc expr st
      else Some (throw (Zeep_exception (''syntax error, unexpected token: '' @ in_token st))))"

section \<open>Literal substitution\<close>

text \<open>The text between bars; a message template is an error, as \<open>parse_template_expr\<close> has no case for it.\<close>

fun literal_loop :: "'f float_ops \<Rightarrow> nat \<Rightarrow> 'f el_parser \<Rightarrow> string \<Rightarrow> ('f, string) el" where
  "literal_loop F 0 template s st = None"
| "literal_loop F (Suc n) template s st =
     (if in_lookahead st = El_bar \<or> in_lookahead st = El_eof then el_return (ok s) st
      else if in_lookahead st = El_variable_template \<or> in_lookahead st = El_selection_template \<or> in_lookahead st = El_message_template
      then seq (template st) (\<lambda>(v, st). literal_loop F n template (s @ as_string F v) st)
      else seq (el_next F st) (\<lambda>st'. literal_loop F n template (s @ in_token st) st'))"

definition parse_literal_substitution :: "'f float_ops \<Rightarrow> nat \<Rightarrow> 'f el_parser \<Rightarrow> 'f el_parser" where
  "parse_literal_substitution F n template st =
     seq (literal_loop F n template [] (st\<lparr>in_white := True\<rparr>)) (\<lambda>(s, st). el_return (ok (String s)) (st\<lparr>in_white := False\<rparr>))"

section \<open>Links\<close>

fun link_path :: "'f float_ops \<Rightarrow> nat \<Rightarrow> 'f scope \<Rightarrow> 'f el_parser \<Rightarrow> string \<Rightarrow> nat \<Rightarrow> ('f, string) el" where
  "link_path F 0 sc expr path braces st = None"
| "link_path F (Suc n) sc expr path braces st =
     (if in_lookahead st = El_lparen \<or> in_lookahead st = El_eof then el_return (ok path) st
      else if in_lookahead st = El_rbrace then
        (if braces = 0 then el_return (ok path) st
         else seq (el_match F El_rbrace st) (\<lambda>st'. link_path F n sc expr (path @ in_token st) (braces - 1) st'))
      else if in_lookahead st = El_variable_template then
        seq (variable_template F expr st) (\<lambda>(v, st). link_path F n sc expr (path @ as_string F v) braces st)
      else if in_lookahead st = El_selection_template then
        seq (selection_template F n sc expr st) (\<lambda>(v, st). link_path F n sc expr (path @ as_string F v) braces st)
      else if in_lookahead st = El_lbrace then
        seq (el_match F El_lbrace st) (\<lambda>st'. link_path F n sc expr (path @ in_token st) (braces + 1) st')
      else seq (el_next F st) (\<lambda>st'. link_path F n sc expr (path @ in_token st) braces st'))"

text \<open>Every occurrence of \<open>{name}\<close> is replaced; what was inserted is not searched again.\<close>

lemma starts_with_length: "starts_with s p \<Longrightarrow> length p \<le> length s"
  by (auto simp: starts_with_iff)

lemma find_string_length: "find_string p s = Some k \<Longrightarrow> p \<noteq> [] \<Longrightarrow> k + length p \<le> length s"
  by (induction p s arbitrary: k rule: find_string.induct)
    (auto split: if_splits dest: starts_with_length)

function replace_all :: "string \<Rightarrow> string \<Rightarrow> string \<Rightarrow> string" where
  "replace_all pat v s =
     (if pat = [] then s
      else (case find_string pat s of
              None \<Rightarrow> s
            | Some k \<Rightarrow> take k s @ v @ replace_all pat v (drop (k + length pat) s)))"
  by pat_completeness auto
termination
  by (relation "measure (\<lambda>(pat, v, s). length s)") (auto dest!: find_string_length, metis Suc_le_eq add_leD2 add_is_0 diff_less length_greater_0_conv less_le_trans not_gr_zero)

declare replace_all.simps [simp del]

fun link_parameters ::
  "'f float_ops \<Rightarrow> nat \<Rightarrow> 'f el_parser \<Rightarrow> string \<Rightarrow> (string \<times> string) list \<Rightarrow> ('f, string \<times> (string \<times> string) list) el" where
  "link_parameters F 0 primary path parameters st = None"
| "link_parameters F (Suc n) primary path parameters st =
     (let name = in_token st;
          next = (\<lambda>path parameters st.
            if in_lookahead st = El_comma then
              seq (el_match F El_comma st) (\<lambda>st. link_parameters F n primary path parameters st)
            else el_return (ok (path, parameters)) st)
      in
      seq (el_match F El_object st) (\<lambda>st.
        if in_lookahead st = El_assign then
          seq (el_match F El_assign st) (\<lambda>st. seq (primary st) (\<lambda>(v, st).
            (let pat = ''{'' @ name @ ''}'' in
             if find_string pat path = None then next path (map_assign name (as_string F v) parameters) st
             else next (replace_all pat (as_string F v) path) parameters st)))
        else next path (map_assign name [] parameters) st))"

fun query_string :: "(string \<times> string) list \<Rightarrow> string" where
  "query_string [] = []"
| "query_string ((k, v) # ps) =
     encode_url k @ (if v \<noteq> [] then ''='' @ encode_url v else []) @ (if ps \<noteq> [] then ''&'' else []) @ query_string ps"

definition parse_link_template_expr :: "'f float_ops \<Rightarrow> nat \<Rightarrow> 'f scope \<Rightarrow> 'f el_parser \<Rightarrow> 'f el_parser \<Rightarrow> 'f el_parser" where
  "parse_link_template_expr F n sc expr primary st =
     seq (if in_lookahead st = El_div then
            seq (el_match F El_div st) (\<lambda>st. seq (el_return (get_context_name sc) st) (\<lambda>(context, st).
              el_return (ok (''/'' @ (if context \<noteq> [] then context @ ''/'' else []))) st))
          else el_return (ok []) st) (\<lambda>(path, st).
     seq (link_path F n sc expr path 0 st) (\<lambda>(path, st).
       if in_lookahead st = El_lparen then
         seq (el_match F El_lparen st) (\<lambda>st.
         seq (link_parameters F n primary path [] st) (\<lambda>((path, parameters), st).
         seq (el_match F El_rparen st) (\<lambda>st.
           el_return (ok (String (if parameters \<noteq> [] then path @ ''?'' @ query_string parameters else path))) st)))
       else el_return (ok (String path)) st))"

section \<open>Fragments\<close>

text \<open>The predicates of a step in a selector; the state is the path so far and the flag \<open>by-id\<close>.\<close>

fun predicate_text :: "'f float_ops \<Rightarrow> nat \<Rightarrow> string \<Rightarrow> ('f, string) el" where
  "predicate_text F 0 xpath st = None"
| "predicate_text F (Suc n) xpath st =
     (let xpath = xpath @ in_token st in
      seq (el_next F st) (\<lambda>st.
        if in_lookahead st \<noteq> El_rbracket \<and> in_lookahead st \<noteq> El_eof then predicate_text F n xpath st
        else (let xpath = xpath @ in_token st in seq (el_match F El_rbracket st) (\<lambda>st. el_return (ok xpath) st))))"

fun selector_predicates :: "'f float_ops \<Rightarrow> nat \<Rightarrow> string \<Rightarrow> bool \<Rightarrow> ('f, string \<times> bool) el" where
  "selector_predicates F 0 xpath by_id st = None"
| "selector_predicates F (Suc n) xpath by_id st =
     (if in_lookahead st = El_lbracket then
        seq (predicate_text F n xpath st) (\<lambda>(xpath, st). selector_predicates F n xpath by_id st)
      else if in_lookahead st = El_dot then
        seq (el_next F st) (\<lambda>st.
          (let xpath = xpath @ ''[@class='' @ [CHR 0x27] @ in_token st @ [CHR 0x27] @ '']'' in
           seq (el_match F El_object st) (\<lambda>st. selector_predicates F n xpath by_id st)))
      else if in_lookahead st = El_hash then
        (case in_token st of
           [] \<Rightarrow> Some (throw Out_of_range)
         | _ # name \<Rightarrow>
             (let xpath = xpath @ ''[@id='' @ [CHR 0x27] @ name @ [CHR 0x27] @ '']'' in
              seq (el_next F st) (\<lambda>st. selector_predicates F n xpath True st)))
      else el_return (ok (xpath, by_id)) st)"

text \<open>The parameters of a fragment.\<close>

fun selector_params :: "'f float_ops \<Rightarrow> nat \<Rightarrow> 'f el_parser \<Rightarrow> 'f element list \<Rightarrow> ('f, 'f element list) el" where
  "selector_params F 0 expr params st = None"
| "selector_params F (Suc n) expr params st =
     (if in_lookahead st = El_rparen \<or> in_lookahead st = El_eof then el_return (ok params) st
      else
        seq (expr st) (\<lambda>(v, st).
          if in_lookahead st = El_comma then seq (el_next F st) (\<lambda>st. selector_params F n expr (params @ [v]) st)
          else el_return (ok (params @ [v])) st))"

definition fragment_step :: "string \<Rightarrow> string" where
  "fragment_step name =
     (let q = [CHR 0x27] in
      ''*[name()='' @ q @ name @ q @ '' or attribute::*[namespace-uri() = $ns and (local-name() = '' @ q @ ''ref'' @ q
      @ '' or local-name() = '' @ q @ ''fragment'' @ q @ '') and starts-with(string(), '' @ q @ name @ q @ '')]]'')"

definition node_test :: "string \<Rightarrow> bool" where
  "node_test name \<longleftrightarrow> name \<in> {''text'', ''comment'', ''processing-instruction'', ''node''}"

fun selector_loop ::
  "'f float_ops \<Rightarrow> nat \<Rightarrow> 'f el_parser \<Rightarrow> string \<Rightarrow> bool \<Rightarrow> 'f element list \<Rightarrow> ('f, string \<times> bool \<times> 'f element list) el" where
  "selector_loop F 0 expr xpath by_id params st = None"
| "selector_loop F (Suc n) expr xpath by_id params st =
     (if in_lookahead st \<in> {El_div, El_object, El_lbracket, El_dot, El_hash} then
        seq (if in_lookahead st = El_div then
               seq (el_next F st) (\<lambda>st.
                 if in_lookahead st = El_div then seq (el_next F st) (\<lambda>st. el_return (ok (True, xpath @ ''//'')) st)
                 else el_return (ok (True, xpath @ ''/'')) st)
             else el_return (ok (False, xpath @ ''//'')) st) (\<lambda>((divided, xpath), st).
        seq (if in_lookahead st = El_object then
               (let name = in_token st in
                seq (el_next F st) (\<lambda>st.
                  if in_lookahead st = El_lparen \<and> node_test name then
                    seq (el_next F st) (\<lambda>st. seq (el_match F El_rparen st) (\<lambda>st. el_return (ok (xpath @ name @ ''()'', params)) st))
                  else
                    (let xpath = xpath @ (if divided then name else fragment_step name) in
                     if in_lookahead st = El_lparen then
                       seq (el_match F El_lparen st) (\<lambda>st. seq (selector_params F n expr params st) (\<lambda>(params, st).
                         seq (el_match F El_rparen st) (\<lambda>st. el_return (ok (xpath, params)) st)))
                     else el_return (ok (xpath, params)) st)))
             else el_return (ok (xpath @ ''*'', params)) st) (\<lambda>((xpath, params), st).
        seq (selector_predicates F n xpath by_id st) (\<lambda>((xpath, by_id), st).
          selector_loop F n expr xpath by_id params st)))
      else el_return (ok (xpath, by_id, params)) st)"

definition parse_selector :: "'f float_ops \<Rightarrow> nat \<Rightarrow> 'f el_parser \<Rightarrow> 'f el_parser" where
  "parse_selector F n expr st =
     seq (selector_loop F n expr [] False [] st) (\<lambda>((xpath, by_id, params), st).
       (let m = (if params \<noteq> [] then put_member ''params'' (Array params) [] else []);
            m = (if by_id then put_member ''by-id'' (Boolean True) m else m)
        in el_return (ok (Object (put_member ''xpath'' (String xpath) m))) st))"

definition parse_fragment_expr :: "'f float_ops \<Rightarrow> nat \<Rightarrow> 'f el_parser \<Rightarrow> 'f el_parser" where
  "parse_fragment_expr F n expr st =
     (let m = [(''fragment-spec'', Boolean True)]; this = String ''this'' in
      seq (if in_lookahead st = El_fragment_separator then el_return (ok (put_member ''template'' this m)) st
           else if in_lookahead st = El_object then
             (let name = String (in_token st) in seq (el_next F st) (\<lambda>st. el_return (ok (put_member ''template'' name m)) st))
           else if in_lookahead st = El_rbrace then
             el_return (ok (put_member ''selector'' (Object [(''xpath'', String [])]) (put_member ''template'' this m))) st
           else seq (expr st) (\<lambda>(v, st). el_return (ok (put_member ''template'' v m)) st)) (\<lambda>(m, st).
        if in_lookahead st = El_fragment_separator then
          seq (el_match F El_fragment_separator st) (\<lambda>st. seq (parse_selector F n expr st) (\<lambda>(v, st).
            el_return (ok (Object (put_member ''selector'' v m))) st))
        else el_return (ok (Object m)) st))"

section \<open>Utility objects\<close>

fun call_params :: "'f float_ops \<Rightarrow> nat \<Rightarrow> 'f el_parser \<Rightarrow> 'f element list \<Rightarrow> ('f, 'f element list) el" where
  "call_params F 0 expr params st = None"
| "call_params F (Suc n) expr params st =
     (if in_lookahead st = El_rparen then el_return (ok params) st
      else
        seq (expr st) (\<lambda>(v, st).
          if in_lookahead st = El_comma then seq (el_match F El_comma st) (\<lambda>st. call_params F n expr (params @ [v]) st)
          else el_return (ok (params @ [v])) st))"

definition call_method ::
  "nat \<Rightarrow> 'f float_ops \<Rightarrow> 'f decimal_ops \<Rightarrow> 'f scope \<Rightarrow> string \<Rightarrow> string \<Rightarrow> 'f element list \<Rightarrow> 'f element res option" where
  "call_method n F D sc className method params =
     (case className of
        [] \<Rightarrow> Some (ok Null)
      | c # name \<Rightarrow> if c = CHR ''#'' then evaluate_utility n F D sc name method params else Some (ok Null))"

definition parse_utility_expr :: "'f float_ops \<Rightarrow> 'f decimal_ops \<Rightarrow> nat \<Rightarrow> 'f scope \<Rightarrow> 'f el_parser \<Rightarrow> 'f el_parser" where
  "parse_utility_expr F D n sc expr st =
     (let className = in_token st in
      seq (el_match F El_hash st) (\<lambda>st. seq (el_match F El_dot st) (\<lambda>st.
        (let method = in_token st in
         seq (el_match F El_object st) (\<lambda>st.
         seq (if in_lookahead st = El_lparen then
                seq (el_match F El_lparen st) (\<lambda>st. seq (call_params F n expr [] st) (\<lambda>(params, st).
                  seq (el_match F El_rparen st) (\<lambda>st. el_return (ok params) st)))
              else el_return (ok []) st) (\<lambda>(params, st).
         seq (call_method n F D sc className method params) (\<lambda>v. el_return (ok v) st)))))))"

section \<open>Primary expressions\<close>

fun list_loop :: "'f float_ops \<Rightarrow> nat \<Rightarrow> 'f el_parser \<Rightarrow> 'f element list \<Rightarrow> 'f el_parser" where
  "list_loop F 0 expr vs st = None"
| "list_loop F (Suc n) expr vs st =
     seq (expr st) (\<lambda>(v, st).
       if in_lookahead st = El_comma then seq (el_next F st) (\<lambda>st. list_loop F n expr (vs @ [v]) st)
       else el_return (ok (Array (vs @ [v]))) st)"

definition literal_value :: "'f float_ops \<Rightarrow> 'f element \<Rightarrow> 'f el_parser" where
  "literal_value F v st = seq (el_next F st) (\<lambda>st. el_return (ok v) st)"

definition primary_body :: "'f float_ops \<Rightarrow> 'f decimal_ops \<Rightarrow> nat \<Rightarrow> 'f scope \<Rightarrow> 'f el_parser \<Rightarrow> 'f el_parser \<Rightarrow> 'f el_parser" where
  "primary_body F D n sc expr primary st =
     (let link = parse_link_template_expr F n sc expr primary;
          template = parse_template_expr F n sc expr link
      in
      case in_lookahead st of
        El_true \<Rightarrow> literal_value F (Boolean True) st
      | El_false \<Rightarrow> literal_value F (Boolean False) st
      | El_number_int \<Rightarrow> literal_value F (Number_int (in_int st)) st
      | El_number_float \<Rightarrow> literal_value F (Number_float (in_float st)) st
      | El_string \<Rightarrow> literal_value F (String (in_token st)) st
      | El_lparen \<Rightarrow>
          seq (el_next F st) (\<lambda>st. seq (expr st) (\<lambda>(v, st). seq (el_match F El_rparen st) (\<lambda>st. el_return (ok v) st)))
      | El_hash \<Rightarrow> parse_utility_expr F D n sc expr st
      | El_lbrace \<Rightarrow>
          seq (el_next F st) (\<lambda>st. seq (list_loop F n expr [] st) (\<lambda>(v, st).
            seq (el_match F El_rbrace st) (\<lambda>st. el_return (ok v) st)))
      | El_bar \<Rightarrow>
          seq (el_match F El_bar st) (\<lambda>st. seq (parse_literal_substitution F n template st) (\<lambda>(v, st).
            seq (el_match F El_bar st) (\<lambda>st. el_return (ok v) st)))
      | El_object \<Rightarrow>
          (let v = scope_lookup F sc (in_token st) False in
           seq (el_match F El_object st) (\<lambda>st. member_loop F n expr v st))
      | El_variable_template \<Rightarrow> template st
      | El_link_template \<Rightarrow> template st
      | El_selection_template \<Rightarrow> template st
      | El_fragment_template \<Rightarrow>
          seq (el_match F El_fragment_template st) (\<lambda>st. seq (parse_fragment_expr F n expr st) (\<lambda>(v, st).
            seq (el_match F El_rbrace st) (\<lambda>st. el_return (ok v) st)))
      | _ \<Rightarrow> Some (throw (Zeep_exception ''syntax error, expected number, string or object'')))"

fun parse_expr :: "'f float_ops \<Rightarrow> 'f decimal_ops \<Rightarrow> 'f scope \<Rightarrow> nat \<Rightarrow> 'f el_parser"
  and parse_primary_expr :: "'f float_ops \<Rightarrow> 'f decimal_ops \<Rightarrow> 'f scope \<Rightarrow> nat \<Rightarrow> 'f el_parser" where
  "parse_expr F D sc 0 st = None"
| "parse_expr F D sc (Suc n) st = expr_body F n (parse_expr F D sc n) (parse_primary_expr F D sc n) st"
| "parse_primary_expr F D sc 0 st = None"
| "parse_primary_expr F D sc (Suc n) st = primary_body F D n sc (parse_expr F D sc n) (parse_primary_expr F D sc n) st"

section \<open>Evaluation\<close>

text \<open>The members the constructor does not set are set before they are read.\<close>

definition interp_start :: "'f float_ops \<Rightarrow> string \<Rightarrow> 'f interp res option" where
  "interp_start F s =
     el_get_next_token F \<lparr>in_lookahead = El_eof, in_token = [], in_int = 0, in_float = fo_of_int F 0, in_rest = s, in_white = False\<rparr>"

definition caught_error :: "string \<Rightarrow> 'f element res option \<Rightarrow> 'f element res option" where
  "caught_error oor r =
     (case r of
        Some (Inl e) \<Rightarrow>
          if e = Assertion \<or> e = Undefined then r
          else Some (ok (String (''Error parsing expression: '' @ what oor e)))
      | _ \<Rightarrow> r)"

definition whole_expr :: "'f float_ops \<Rightarrow> 'f decimal_ops \<Rightarrow> 'f scope \<Rightarrow> nat \<Rightarrow> string \<Rightarrow> 'f element res option" where
  "whole_expr F D sc n s =
     seq (interp_start F s) (\<lambda>st.
     seq (if in_lookahead st \<noteq> El_eof then parse_expr F D sc n st else el_return (ok Null) st) (\<lambda>(v, st).
     seq (el_match F El_eof st) (\<lambda>st. Some (ok v))))"

definition evaluate_el :: "'f float_ops \<Rightarrow> 'f decimal_ops \<Rightarrow> string \<Rightarrow> 'f scope \<Rightarrow> nat \<Rightarrow> string \<Rightarrow> 'f element res option" where
  "evaluate_el F D oor sc n s = caught_error oor (whole_expr F D sc n s)"

text \<open>\<open>process\<close>: whether there was a result, and the text, which is replaced by it.\<close>

definition process_el :: "'f float_ops \<Rightarrow> 'f decimal_ops \<Rightarrow> 'f scope \<Rightarrow> nat \<Rightarrow> string \<Rightarrow> (bool \<times> string) res option" where
  "process_el F D sc n s =
     (case whole_expr F D sc n s of
        None \<Rightarrow> None
      | Some (Inl e) \<Rightarrow> if e = Assertion \<or> e = Undefined then Some (throw e) else Some (ok (False, s))
      | Some (Inr v) \<Rightarrow> Some (ok (True, if v = Null then [] else as_string F v)))"

definition process_el_2 :: "'f float_ops \<Rightarrow> 'f decimal_ops \<Rightarrow> 'f scope \<Rightarrow> nat \<Rightarrow> string \<Rightarrow> string res option" where
  "process_el_2 F D sc n text = seq (process_el F D sc n text) (\<lambda>(b, s). Some (ok (if b then s else text)))"

fun attr_loop :: "'f float_ops \<Rightarrow> nat \<Rightarrow> 'f el_parser \<Rightarrow> (string \<times> string) list \<Rightarrow> ('f, (string \<times> string) list) el" where
  "attr_loop F 0 expr result st = None"
| "attr_loop F (Suc n) expr result st =
     (let var = in_token st in
      seq (el_match F El_object st) (\<lambda>st. seq (el_match F El_assign st) (\<lambda>st. seq (expr st) (\<lambda>(v, st).
        (let result = result @ [(var, as_string F v)] in
         if in_lookahead st \<noteq> El_comma then el_return (ok result) st
         else seq (el_match F El_comma st) (\<lambda>st. attr_loop F n expr result st))))))"

definition evaluate_el_attr :: "'f float_ops \<Rightarrow> 'f decimal_ops \<Rightarrow> 'f scope \<Rightarrow> nat \<Rightarrow> string \<Rightarrow> (string \<times> string) list res option" where
  "evaluate_el_attr F D sc n s =
     seq (interp_start F s) (\<lambda>st. seq (attr_loop F n (parse_expr F D sc n) [] st) (\<lambda>(result, st).
     seq (el_match F El_eof st) (\<lambda>st. Some (ok result))))"

fun assert_loop :: "'f float_ops \<Rightarrow> nat \<Rightarrow> 'f el_parser \<Rightarrow> 'f interp \<Rightarrow> bool res option" where
  "assert_loop F 0 expr st = None"
| "assert_loop F (Suc n) expr st =
     seq (expr st) (\<lambda>(v, st).
       if \<not> elem_bool F v then Some (ok False)
       else if in_lookahead st \<noteq> El_comma then Some (ok True)
       else seq (el_match F El_comma st) (\<lambda>st. assert_loop F n expr st))"

definition evaluate_el_assert :: "'f float_ops \<Rightarrow> 'f decimal_ops \<Rightarrow> 'f scope \<Rightarrow> nat \<Rightarrow> string \<Rightarrow> bool res option" where
  "evaluate_el_assert F D sc n s = seq (interp_start F s) (\<lambda>st. assert_loop F n (parse_expr F D sc n) st)"

text \<open>\<open>evaluate_with\<close>: a later definition sees the earlier ones; the comma between them may be left out.\<close>

fun with_loop :: "'f float_ops \<Rightarrow> 'f decimal_ops \<Rightarrow> nat \<Rightarrow> 'f scope \<Rightarrow> ('f, 'f scope) el" where
  "with_loop F D 0 sc st = None"
| "with_loop F D (Suc n) sc st =
     (if in_lookahead st = El_object then
        (let name = in_token st in
         seq (el_match F El_object st) (\<lambda>st. seq (el_match F El_assign st) (\<lambda>st. seq (parse_expr F D sc n st) (\<lambda>(v, st).
           (let sc = scope_put name v sc in
            if in_lookahead st = El_comma then seq (el_match F El_comma st) (\<lambda>st. with_loop F D n sc st)
            else with_loop F D n sc st)))))
      else el_return (ok sc) st)"

definition evaluate_el_with :: "'f float_ops \<Rightarrow> 'f decimal_ops \<Rightarrow> 'f scope \<Rightarrow> nat \<Rightarrow> string \<Rightarrow> 'f scope res option" where
  "evaluate_el_with F D sc n s =
     seq (interp_start F s) (\<lambda>st. seq (with_loop F D n sc st) (\<lambda>(sc, st). seq (el_match F El_eof st) (\<lambda>st. Some (ok sc))))"

definition evaluate_el_link :: "'f float_ops \<Rightarrow> 'f decimal_ops \<Rightarrow> string \<Rightarrow> 'f scope \<Rightarrow> nat \<Rightarrow> string \<Rightarrow> 'f element res option" where
  "evaluate_el_link F D oor sc n s =
     caught_error oor
       (seq (interp_start F s) (\<lambda>st.
        seq (if in_lookahead st = El_object \<or> in_lookahead st = El_fragment_separator then
               parse_fragment_expr F n (parse_expr F D sc n) st
             else if in_lookahead st = El_link_template then
               seq (el_match F El_link_template st) (\<lambda>st. seq (parse_fragment_expr F n (parse_expr F D sc n) st) (\<lambda>(v, st).
                 seq (el_match F El_rbrace st) (\<lambda>st. el_return (ok v) st)))
             else parse_primary_expr F D sc n st) (\<lambda>(v, st).
        seq (el_match F El_eof st) (\<lambda>st. Some (ok v)))))"

end
