(* ===== verification/El_Reference.thy ===== *)
theory El_Reference
  imports El_Interp
begin

text \<open>
  A reference for the expression language: expressions as trees, their evaluation, and
  their text with the parentheses the usual precedences ask for. The interpreter, reading
  that text, computes what the reference says, errors included.
\<close>

section \<open>Expressions\<close>

datatype binary_op =
    Op_or | Op_and | Op_eq | Op_ne | Op_lt | Op_le | Op_ge | Op_gt | Op_in
  | Op_plus | Op_minus | Op_mult | Op_div | Op_mod

datatype el_expr =
    Int_lit nat
  | Str_lit string
  | Bool_lit bool
  | Var string
  | Neg el_expr
  | Not el_expr
  | Binary binary_op el_expr el_expr
  | Cond el_expr el_expr el_expr
  | Elvis el_expr el_expr

fun op_level :: "binary_op \<Rightarrow> nat" where
  "op_level Op_or = 1"
| "op_level Op_and = 2"
| "op_level Op_eq = 3"
| "op_level Op_ne = 3"
| "op_level Op_lt = 4"
| "op_level Op_le = 4"
| "op_level Op_ge = 4"
| "op_level Op_gt = 4"
| "op_level Op_in = 4"
| "op_level Op_plus = 5"
| "op_level Op_minus = 5"
| "op_level Op_mult = 6"
| "op_level Op_div = 6"
| "op_level Op_mod = 6"

fun op_token :: "binary_op \<Rightarrow> el_token" where
  "op_token Op_or = El_or"
| "op_token Op_and = El_and"
| "op_token Op_eq = El_eq"
| "op_token Op_ne = El_ne"
| "op_token Op_lt = El_lt"
| "op_token Op_le = El_le"
| "op_token Op_ge = El_ge"
| "op_token Op_gt = El_gt"
| "op_token Op_in = El_in"
| "op_token Op_plus = El_plus"
| "op_token Op_minus = El_minus"
| "op_token Op_mult = El_mult"
| "op_token Op_div = El_div"
| "op_token Op_mod = El_mod"

section \<open>What they evaluate to\<close>

fun apply_op :: "'f float_ops \<Rightarrow> binary_op \<Rightarrow> 'f element \<Rightarrow> 'f element \<Rightarrow> 'f element res" where
  "apply_op F Op_or v w = ok (Boolean (as_bool F v \<or> as_bool F w))"
| "apply_op F Op_and v w = ok (Boolean (as_bool F v \<and> as_bool F w))"
| "apply_op F Op_eq v w = ok (Boolean (elem_eq F v w))"
| "apply_op F Op_ne v w = ok (Boolean (\<not> elem_eq F v w))"
| "apply_op F Op_lt v w = ok (Boolean (elem_less F v w))"
| "apply_op F Op_le v w = ok (Boolean (\<not> elem_less F w v))"
| "apply_op F Op_ge v w = ok (Boolean (\<not> elem_less F v w))"
| "apply_op F Op_gt v w = ok (Boolean (elem_less F w v))"
| "apply_op F Op_in v w = ok (Boolean (elem_contains F w v))"
| "apply_op F Op_plus v w = elem_add F v w"
| "apply_op F Op_minus v w = elem_sub F v w"
| "apply_op F Op_mult v w = elem_mul F v w"
| "apply_op F Op_div v w = elem_div F v w"
| "apply_op F Op_mod v w = elem_mod F v w"

fun meaning :: "'f float_ops \<Rightarrow> 'f scope \<Rightarrow> el_expr \<Rightarrow> 'f element res" where
  "meaning F sc (Int_lit n) = ok (Number_int (int n))"
| "meaning F sc (Str_lit s) = ok (String s)"
| "meaning F sc (Bool_lit b) = ok (Boolean b)"
| "meaning F sc (Var x) = ok (scope_lookup F sc x False)"
| "meaning F sc (Neg e) = bind_res (meaning F sc e) (elem_neg F)"
| "meaning F sc (Not e) = bind_res (meaning F sc e) (\<lambda>v. ok (Boolean (\<not> as_bool F v)))"
| "meaning F sc (Binary op a b) =
     bind_res (meaning F sc a) (\<lambda>v. bind_res (meaning F sc b) (apply_op F op v))"
| "meaning F sc (Cond c a b) =
     bind_res (meaning F sc c) (\<lambda>v. bind_res (meaning F sc a) (\<lambda>x. bind_res (meaning F sc b) (\<lambda>y.
       ok (if elem_bool F v then x else y))))"
| "meaning F sc (Elvis c a) =
     bind_res (meaning F sc c) (\<lambda>v. bind_res (meaning F sc a) (\<lambda>x. ok (if elem_bool F v then v else x)))"

section \<open>Their text\<close>

datatype el_word = Fixed el_token | Int_word nat | Str_word string | Name_word string

fun fixed_text :: "el_token \<Rightarrow> string" where
  "fixed_text El_or = ''or''"
| "fixed_text El_and = ''and''"
| "fixed_text El_not = ''not''"
| "fixed_text El_eq = ''==''"
| "fixed_text El_ne = ''!=''"
| "fixed_text El_lt = ''<''"
| "fixed_text El_le = ''<=''"
| "fixed_text El_ge = ''>=''"
| "fixed_text El_gt = ''>''"
| "fixed_text El_in = ''in''"
| "fixed_text El_plus = ''+''"
| "fixed_text El_minus = ''-''"
| "fixed_text El_mult = ''*''"
| "fixed_text El_div = ''/''"
| "fixed_text El_mod = ''mod''"
| "fixed_text El_lparen = ''(''"
| "fixed_text El_rparen = '')''"
| "fixed_text El_if = ''?''"
| "fixed_text El_elvis = ''?:''"
| "fixed_text El_else = '':''"
| "fixed_text El_true = ''true''"
| "fixed_text El_false = ''false''"
| "fixed_text _ = []"

fun word_text :: "el_word \<Rightarrow> string" where
  "word_text (Fixed t) = fixed_text t"
| "word_text (Int_word n) = nat_to_string n"
| "word_text (Str_word s) = [CHR 0x27] @ s @ [CHR 0x27]"
| "word_text (Name_word x) = x"

fun word_token :: "el_word \<Rightarrow> el_token" where
  "word_token (Fixed t) = t"
| "word_token (Int_word _) = El_number_int"
| "word_token (Str_word _) = El_string"
| "word_token (Name_word _) = El_object"

definition words_text :: "el_word list \<Rightarrow> string" where
  "words_text ws = concat (map (\<lambda>w. word_text w @ '' '') ws)"

fun expr_level :: "el_expr \<Rightarrow> nat" where
  "expr_level (Binary op a b) = op_level op"
| "expr_level (Cond c a b) = 0"
| "expr_level (Elvis c a) = 0"
| "expr_level (Neg e) = 7"
| "expr_level (Not e) = 7"
| "expr_level _ = 8"

text \<open>Comparisons do not chain, the other operators group to the left.\<close>

definition left_level :: "binary_op \<Rightarrow> nat" where
  "left_level op = (if op_level op = 3 \<or> op_level op = 4 then op_level op + 1 else op_level op)"

fun words :: "nat \<Rightarrow> el_expr \<Rightarrow> el_word list" and body_words :: "el_expr \<Rightarrow> el_word list" where
  "words k e = (if expr_level e < k then [Fixed El_lparen] @ body_words e @ [Fixed El_rparen] else body_words e)"
| "body_words (Int_lit n) = [Int_word n]"
| "body_words (Str_lit s) = [Str_word s]"
| "body_words (Bool_lit b) = [Fixed (if b then El_true else El_false)]"
| "body_words (Var x) = [Name_word x]"
| "body_words (Neg e) = Fixed El_minus # words 8 e"
| "body_words (Not e) = Fixed El_not # words 8 e"
| "body_words (Binary op a b) = words (left_level op) a @ [Fixed (op_token op)] @ words (op_level op + 1) b"
| "body_words (Cond c a b) = words 1 c @ [Fixed El_if] @ words 0 a @ [Fixed El_else] @ words 0 b"
| "body_words (Elvis c a) = words 1 c @ [Fixed El_elvis] @ words 0 a"

definition show_expr :: "el_expr \<Rightarrow> string" where
  "show_expr e = words_text (words 0 e)"

section \<open>Reading the words back\<close>

declare unat_ord32 [simp] chr32_ord32 [simp] seq_simps [simp]

lemma ord32_less: "ord32 c < 0x80 \<longleftrightarrow> code c < 128"
  by (simp add: word_less_nat_alt)

lemma read_ascii:
  assumes "in_rest st = c # cs" "code c < 128"
  shows "el_get_next_char st = ok (ord32 c, st\<lparr>in_token := in_token st @ [c], in_rest := cs\<rparr>)"
  using assms ascii_high [of "ord32 c"] by (simp add: el_get_next_char_def el_next_byte_def ord32_less)

lemma ascii_no_cont: "code c < 128 \<Longrightarrow> \<not> cont_char c"
proof
  assume "code c < 128" "cont_char c"
  then have "ord32 c AND 0x80 = 0" "bit (ord32 c) 7"
    using ascii_high [of "ord32 c"] continuation_bits by (auto simp: ord32_less cont_char_def)
  then have "\<not> bit (ord32 c AND 0x80) 7" by simp
  then show False using \<open>bit (ord32 c) 7\<close> by (simp add: bit_simps)
qed

lemma putback_ascii:
  assumes "in_token st = t @ [c]" "code c < 128" "c \<noteq> CHR 0x00"
  shows "el_retract st = ok (st\<lparr>in_token := t, in_rest := c # in_rest st\<rparr>)"
  using el_retract_char [of st t c "[]"] assms ascii_no_cont by simp

definition el_ident_char :: "char \<Rightarrow> bool" where
  "el_ident_char c \<longleftrightarrow> isalpha c \<or> isdigit c \<or> c = CHR ''_''"

lemma ident_ascii: "el_ident_char c \<Longrightarrow> code c < 128"
  by (auto simp: el_ident_char_def isalpha_def isupper_def islower_def isdigit_def)

lemma ord32_le: "ord32 c \<le> ord32 d \<longleftrightarrow> code c \<le> code d"
  by (simp add: word_le_nat_alt)

lemma ord32_eq: "ord32 c = ord32 d \<longleftrightarrow> c = d"
  by (metis chr32_ord32)

lemma digit_ord [simp]: "digit_ch (ord32 c) \<longleftrightarrow> isdigit c"
  by (auto simp: between_def ord32_le isdigit_def)

lemma digit_of_ord: "isdigit c \<Longrightarrow> digit_of (ord32 c) = int (digit_val c)"
proof -
  assume "isdigit c"
  then have "ord32 CHR ''0'' \<le> ord32 c" by (simp add: ord32_le isdigit_def)
  then have "unat (ord32 c - ord32 CHR ''0'') = code c - code CHR ''0''" by (simp add: unat_sub)
  then show ?thesis by (simp add: digit_of_def digit_val_def uint_nat)
qed

lemma ident_name_char:
  assumes "el_ident_char c"
  shows "el_name_char (ord32 c)" "\<not> isdigit c \<Longrightarrow> el_name_start_char (ord32 c)"
proof -
  have u: "ord32 CHR ''_'' = 0x5F" by (simp add: ord32_def)
  consider "0x41 \<le> ord32 c" "ord32 c \<le> 0x5A" | "0x61 \<le> ord32 c" "ord32 c \<le> 0x7A" | "ord32 c = 0x5F"
    | "isdigit c" "0x30 \<le> ord32 c" "ord32 c \<le> 0x39"
    using assms u by (auto simp: el_ident_char_def isalpha_def isupper_def islower_def isdigit_def word_le_nat_alt)
  then show "el_name_char (ord32 c)" "\<not> isdigit c \<Longrightarrow> el_name_start_char (ord32 c)"
    by (cases; simp only: el_name_char_def el_name_start_char_def; blast)+
qed

lemma space_no_name: "\<not> el_name_char (ord32 CHR '' '')"
  by (simp add: el_name_char_def el_name_start_char_def ord32_def)

lemma ident_not_special: "el_ident_char c \<Longrightarrow> ord32 c \<noteq> ord32 CHR ''.'' \<and> ord32 c \<noteq> ord32 CHR '':''"
  by (auto simp: ord32_eq el_ident_char_def isalpha_def isupper_def islower_def isdigit_def)

text \<open>The loops over the characters of a name, a number and a string.\<close>

lemma name_chars:
  assumes "list_all el_ident_char u" "in_rest st = u @ '' '' @ R" "length u < n"
  shows "el_token_loop F n El_Name fr st = Some (ok (case map_of el_keywords (in_token st @ u) of Some t \<Rightarrow> t | None \<Rightarrow> El_object,
    st\<lparr>in_token := in_token st @ u, in_rest := '' '' @ R\<rparr>))"
  using assms
proof (induction u arbitrary: st n)
  case Nil
  then obtain m where n: "n = Suc m" by (cases n) simp_all
  show ?case using Nil(2) read_ascii [of st "CHR '' ''" R]
      putback_ascii [of "st\<lparr>in_token := in_token st @ '' '', in_rest := R\<rparr>" "in_token st" "CHR '' ''"] space_no_name
    by (simp add: n el_name_def split: option.split)
next
  case (Cons c u)
  then obtain m where n: "n = Suc m" by (cases n) simp_all
  have c: "el_ident_char c" using Cons.prems by simp
  show ?case
    using Cons.IH [of "st\<lparr>in_token := in_token st @ [c], in_rest := u @ '' '' @ R\<rparr>" m] Cons.prems n
      read_ascii [of st c "u @ '' '' @ R"] ident_ascii [OF c] ident_name_char(1) [OF c] ident_not_special [OF c]
    by (simp add: el_name_def)
qed

lemma number_chars:
  assumes "list_all isdigit u" "in_rest st = u @ '' '' @ R" "length u < n"
    and "foldl (\<lambda>a c. 10 * a + int (digit_val c)) (in_int st) u < 2 ^ 63" "0 \<le> in_int st"
  shows "el_token_loop F n El_Number fr st = Some (ok (El_number_int,
    st\<lparr>in_token := in_token st @ u, in_rest := '' '' @ R, in_int := foldl (\<lambda>a c. 10 * a + int (digit_val c)) (in_int st) u\<rparr>))"
  using assms
proof (induction u arbitrary: st n)
  case Nil
  then obtain m where n: "n = Suc m" by (cases n) simp_all
  have "\<not> isdigit (CHR '' '')" by (simp add: isdigit_def)
  then show ?case using Nil(2) read_ascii [of st "CHR '' ''" R]
      putback_ascii [of "st\<lparr>in_token := in_token st @ '' '', in_rest := R\<rparr>" "in_token st" "CHR '' ''"]
    by (simp add: n el_number_def ord32_eq el_putback_def)
next
  case (Cons c u)
  then obtain m where n: "n = Suc m" by (cases n) simp_all
  have c: "isdigit c" using Cons.prems by simp
  let ?i = "10 * in_int st + int (digit_val c)"
  have mono: "a \<le> foldl (\<lambda>a c. 10 * a + int (digit_val c)) a w" if "0 \<le> a" for a w
    using that
  proof (induction w arbitrary: a)
    case (Cons x w)
    from Cons.IH [of "10 * a + int (digit_val x)"] Cons.prems show ?case by simp
  qed simp
  have i: "0 \<le> ?i" "?i < 2 ^ 63" using Cons.prems(4,5) mono [of ?i u] by simp_all
  have "code c < 128" using c by (simp add: isdigit_def)
  then show ?case
    using Cons.IH [of "st\<lparr>in_token := in_token st @ [c], in_rest := u @ '' '' @ R, in_int := ?i\<rparr>" m] Cons.prems n
      read_ascii [of st c "u @ '' '' @ R"] c i
    by (simp add: el_number_def digit_of_ord int64_def)
qed

definition plain_char :: "char \<Rightarrow> bool" where
  "plain_char c \<longleftrightarrow> code c < 128 \<and> c \<noteq> CHR 0x00 \<and> c \<noteq> CHR 0x27"

lemma literal_chars:
  assumes "list_all plain_char u" "in_rest st = u @ [CHR 0x27] @ R" "length u < n" "in_token st = CHR 0x27 # t"
  shows "el_token_loop F n El_Literal fr st = Some (ok (El_string, st\<lparr>in_token := t @ u, in_rest := R\<rparr>))"
  using assms
proof (induction u arbitrary: st t n)
  case Nil
  then obtain m where n: "n = Suc m" by (cases n) simp_all
  have q: "ord32 (CHR 0x27) = 0x27" by (simp add: ord32_def)
  show ?case using Nil(2,4) read_ascii [of st "CHR 0x27" R]
    by (simp add: n el_literal_def q)
next
  case (Cons c u)
  then obtain m where n: "n = Suc m" by (cases n) simp_all
  have c: "code c < 128" "c \<noteq> CHR 0x00" "c \<noteq> CHR 0x27" using Cons.prems by (simp_all add: plain_char_def)
  have "ord32 c \<noteq> 0" "ord32 c \<noteq> 0x27"
    using c ord32_eq [of c "CHR 0x00"] ord32_eq [of c "CHR 0x27"] by (auto simp: ord32_def)
  then show ?case
    using Cons.IH [of "st\<lparr>in_token := in_token st @ [c], in_rest := u @ [CHR 0x27] @ R\<rparr>" m "t @ [c]"] Cons.prems n
      read_ascii [of st c "u @ [CHR 0x27] @ R"] c
    by (simp add: el_literal_def)
qed
text \<open>Well-formed words, and what the state holds after one was read.\<close>

definition el_identifier :: "string \<Rightarrow> bool" where
  "el_identifier x \<longleftrightarrow> x \<noteq> [] \<and> \<not> isdigit (hd x) \<and> list_all el_ident_char x \<and> map_of el_keywords x = None"

fun word_ok :: "el_word \<Rightarrow> bool" where
  "word_ok (Fixed t) = (fixed_text t \<noteq> [])"
| "word_ok (Int_word n) = (n < 2 ^ 63)"
| "word_ok (Str_word s) = list_all plain_char s"
| "word_ok (Name_word x) = el_identifier x"

fun word_held :: "el_word \<Rightarrow> 'f interp \<Rightarrow> bool" where
  "word_held (Fixed t) st = True"
| "word_held (Int_word n) st = (in_int st = int n)"
| "word_held (Str_word s) st = (in_token st = s)"
| "word_held (Name_word x) st = (in_token st = x)"

lemma el_white_code: "el_white (ord32 c) \<Longrightarrow> code c \<le> 32"
proof -
  assume "el_white (ord32 c)"
  then have "ord32 c \<in> {0x20, 0x0A, 0x0D, 0x09}" by (simp add: el_white_def)
  then have "unat (ord32 c) \<in> unat ` {0x20, 0x0A, 0x0D, 0x09 :: unicode}" by (rule imageI)
  then show ?thesis by auto
qed

lemma ord32_zero: "ord32 c = 0 \<longleftrightarrow> code c = 0"
  by (metis unat_ord32 unat_eq_zero)

lemma ident_codes: "el_ident_char c \<Longrightarrow> 48 \<le> code c \<and> code c < 128 \<and> code c \<notin> {58, 60, 61, 62, 63, 64, 91, 93, 123, 124, 125, 126}"
  by (auto simp: el_ident_char_def isalpha_def isupper_def islower_def isdigit_def)

lemma table_codes:
  "\<forall>k \<in> fst ` set el_simple_tokens. code k < 48 \<or> code k \<in> {91, 93, 123, 124, 125}"
  "\<forall>k \<in> fst ` set el_first_chars. code k < 48 \<or> code k \<in> {58, 60, 61, 62, 63, 64, 126}"
  by (simp_all add: el_simple_tokens_def el_first_chars_def)

lemma ident_no_table: "el_ident_char c \<Longrightarrow> map_of el_simple_tokens c = None \<and> map_of el_first_chars c = None"
  unfolding map_of_eq_None_iff using ident_codes table_codes by fastforce

lemma start_name:
  assumes "el_ident_char c" "\<not> isdigit c"
  shows "el_start fr (ord32 c) st = ok (El_goto El_Name fr st)"
  using ident_codes [OF assms(1)] ident_no_table [OF assms(1)] el_white_code [of c] ident_name_char(2) [OF assms] assms(2)
  by (auto simp: el_start_def ord32_less ord32_zero)

lemma read_name:
  assumes "list_all el_ident_char (c # u)" "\<not> isdigit c" "in_rest st = c # u @ '' '' @ R" "in_token st = []" "length u + 1 < n"
  shows "el_token_loop F n El_Start fr st = Some (ok (case map_of el_keywords (c # u) of Some t \<Rightarrow> t | None \<Rightarrow> El_object,
    st\<lparr>in_token := c # u, in_rest := '' '' @ R\<rparr>))"
proof -
  obtain m where n: "n = Suc m" "length u < m" using assms(5) by (cases n) simp_all
  have c: "el_ident_char c" using assms(1) by simp
  have "el_start fr (ord32 c) t = ok (El_goto El_Name fr t)" for t :: "'a interp" by (rule start_name [OF c assms(2)])
  then show ?thesis
    using read_ascii [of st c "u @ '' '' @ R"] ident_ascii [OF c] assms(1,3,4) n
      name_chars [of u "st\<lparr>in_token := [c], in_rest := u @ '' '' @ R\<rparr>" R m F fr]
    by simp
qed

lemma read_number:
  assumes "list_all isdigit (c # u)" "in_rest st = c # u @ '' '' @ R" "in_token st = []" "length u + 1 < n"
    and "foldl (\<lambda>a c. 10 * a + digit_val c) 0 (c # u) < 2 ^ 63"
  shows "el_token_loop F n El_Start fr st = Some (ok (El_number_int,
    st\<lparr>in_token := c # u, in_rest := '' '' @ R, in_int := int (foldl (\<lambda>a c. 10 * a + digit_val c) 0 (c # u))\<rparr>))"
proof -
  obtain m where n: "n = Suc m" "length u < m" using assms(4) by (cases n) simp_all
  have c: "isdigit c" "code c < 128" using assms(1) by (simp_all add: isdigit_def)
  have f: "foldl (\<lambda>a c. 10 * a + int (digit_val c)) (int a) w = int (foldl (\<lambda>a c. 10 * a + digit_val c) a w)" for a w
  proof (induction w arbitrary: a)
    case (Cons x w)
    from Cons.IH [of "10 * a + digit_val x"] show ?case by simp
  qed simp
  have z: "ord32 c \<noteq> 0" "\<not> el_white (ord32 c)" using c(1) el_white_code [of c] by (auto simp: ord32_zero isdigit_def)
  have "int (foldl (\<lambda>a c. 10 * a + digit_val c) 0 (c # u)) < 2 ^ 63" using assms(5) by (simp flip: of_nat_less_iff)
  then have "foldl (\<lambda>a c. 10 * a + int (digit_val c)) (int (digit_val c)) u < 2 ^ 63"
    using f [of "digit_val c" u] by simp
  then show ?thesis
    using read_ascii [of st c "u @ '' '' @ R"] c z assms(1,2,3) n f [of "digit_val c" u]
      number_chars [of u "st\<lparr>in_token := [c], in_rest := u @ '' '' @ R, in_int := int (digit_val c)\<rparr>" R m F fr]
    by (simp add: el_start_def digit_of_ord)
qed

lemma read_string:
  assumes "list_all plain_char s" "in_rest st = [CHR 0x27] @ s @ [CHR 0x27] @ R" "in_token st = []" "length s + 1 < n"
  shows "el_token_loop F n El_Start fr st = Some (ok (El_string, st\<lparr>in_token := s, in_rest := R\<rparr>))"
proof -
  obtain m where n: "n = Suc m" "length s < m" using assms(4) by (cases n) simp_all
  have "\<not> el_white (ord32 CHR 0x27)" "ord32 CHR 0x27 \<noteq> 0" using el_white_code [of "CHR 0x27"] ord32_zero [of "CHR 0x27"] by auto
  then have "el_start fr (ord32 CHR 0x27) t = ok (El_goto El_Literal fr t)" for t :: "'a interp"
    by (simp add: el_start_def ord32_less isdigit_def el_simple_tokens_def el_first_chars_def)
  then show ?thesis
    using read_ascii [of st "CHR 0x27" "s @ [CHR 0x27] @ R"] assms(1,2,3) n
      literal_chars [of s "st\<lparr>in_token := [CHR 0x27], in_rest := s @ [CHR 0x27] @ R\<rparr>" R m "[]" F fr]
    by simp
qed
lemma start_symbol:
  assumes "33 \<le> code c" "code c < 128" "\<not> isdigit c"
  shows "map_of el_simple_tokens c = Some t \<Longrightarrow> el_start fr (ord32 c) st = ok (El_found t st)"
    and "map_of el_simple_tokens c = None \<Longrightarrow> map_of el_first_chars c = Some S \<Longrightarrow> el_start fr (ord32 c) st = ok (El_goto S fr st)"
  using assms el_white_code [of c] by (auto simp: el_start_def ord32_less ord32_zero)

lemma read_simple:
  assumes "map_of el_simple_tokens c = Some t" "33 \<le> code c" "code c < 128" "\<not> isdigit c" "in_rest st = c # R" "in_token st = []"
  shows "el_token_loop F (Suc n) El_Start fr st = Some (ok (t, st\<lparr>in_token := [c], in_rest := R\<rparr>))"
proof -
  have "el_start fr (ord32 c) s = ok (El_found t s)" for s :: "'a interp" using start_symbol(1) [OF assms(2,3,4,1)] .
  then show ?thesis using read_ascii [of st c R] assms by simp
qed

lemma read_two:
  assumes "map_of el_simple_tokens c = None" "map_of el_first_chars c = Some S" "33 \<le> code c" "code c < 128" "\<not> isdigit c"
    and "in_rest st = c # d # R" "in_token st = []" "code d < 128"
  shows "el_token_loop F (Suc (Suc n)) El_Start fr st
    = (case el_round F S fr (ord32 d) (st\<lparr>in_token := [c, d], in_rest := R\<rparr>) of
         Inl e \<Rightarrow> Some (throw e) | Inr (El_found t st) \<Rightarrow> Some (ok (t, st)) | Inr (El_goto S fr st) \<Rightarrow> el_token_loop F n S fr st)"
proof -
  have "el_start fr (ord32 c) s = ok (El_goto S fr s)" for s :: "'a interp" using start_symbol(2) [OF assms(3,4,5,1,2)] .
  then show ?thesis
    using read_ascii [of st c "d # R"] read_ascii [of "st\<lparr>in_token := [c], in_rest := d # R\<rparr>" d R] assms by simp
qed

lemma space_back [simp]:
  "in_token st = [c, CHR '' ''] \<Longrightarrow> el_retract st = ok (st\<lparr>in_token := [c], in_rest := CHR '' '' # in_rest st\<rparr>)"
  using putback_ascii [of st "[c]" "CHR '' ''"] by simp

lemma read_fixed:
  assumes "fixed_text t \<noteq> []" "in_rest st = fixed_text t @ '' '' @ R" "in_token st = []" "length (fixed_text t) < n"
  shows "\<exists>st'. el_token_loop F n El_Start fr st = Some (ok (t, st')) \<and> in_rest st' = '' '' @ R \<and> in_white st' = in_white st"
proof -
  note ident = el_ident_char_def isalpha_def isupper_def islower_def isdigit_def
  note rounds = el_simple_tokens_def el_first_chars_def isdigit_def ord32_eq el_putback_def el_equals_def el_exclamation_mark_def
    el_less_than_def el_greater_than_def el_question_def el_colon_def el_template_start_def
  consider (name) c u where "fixed_text t = c # u" "list_all el_ident_char (c # u)" "\<not> isdigit c" "map_of el_keywords (c # u) = Some t"
    | (one) c where "fixed_text t = [c]" "map_of el_simple_tokens c = Some t" "33 \<le> code c" "code c < 128" "\<not> isdigit c"
    | (two) c S where "map_of el_simple_tokens c = None" "map_of el_first_chars c = Some S" "33 \<le> code c" "code c < 128" "\<not> isdigit c"
      "(\<exists>d. fixed_text t = [c, d] \<and> code d < 128 \<and> (\<forall>s. el_round F S fr (ord32 d) s = ok (El_found t (s :: 'a interp))))
       \<or> fixed_text t = [c] \<and> (\<forall>s. in_token s = [c, CHR '' ''] \<longrightarrow> el_round F S fr (ord32 CHR '' '') s
            = ok (El_found t (s\<lparr>in_token := [c], in_rest := CHR '' '' # in_rest s\<rparr>)))"
  proof (cases t)
    case El_or
    with that(1) [of "CHR ''o''" "''r''"] show ?thesis by (simp add: el_keywords_def ident)
  next
    case El_and
    with that(1) [of "CHR ''a''" "''nd''"] show ?thesis by (simp add: el_keywords_def ident)
  next
    case El_not
    with that(1) [of "CHR ''n''" "''ot''"] show ?thesis by (simp add: el_keywords_def ident)
  next
    case El_in
    with that(1) [of "CHR ''i''" "''n''"] show ?thesis by (simp add: el_keywords_def ident)
  next
    case El_mod
    with that(1) [of "CHR ''m''" "''od''"] show ?thesis by (simp add: el_keywords_def ident)
  next
    case El_true
    with that(1) [of "CHR ''t''" "''rue''"] show ?thesis by (simp add: el_keywords_def ident)
  next
    case El_false
    with that(1) [of "CHR ''f''" "''alse''"] show ?thesis by (simp add: el_keywords_def ident)
  next
    case El_plus
    with that(2) [of "CHR ''+''"] show ?thesis by (simp add: el_simple_tokens_def isdigit_def)
  next
    case El_minus
    with that(2) [of "CHR ''-''"] show ?thesis by (simp add: el_simple_tokens_def isdigit_def)
  next
    case El_div
    with that(2) [of "CHR ''/''"] show ?thesis by (simp add: el_simple_tokens_def isdigit_def)
  next
    case El_lparen
    with that(2) [of "CHR ''(''"] show ?thesis by (simp add: el_simple_tokens_def isdigit_def)
  next
    case El_rparen
    with that(2) [of "CHR '')''"] show ?thesis by (simp add: el_simple_tokens_def isdigit_def)
  next
    case El_eq
    with that(3) [of "CHR ''=''" El_Equals] show ?thesis by (simp add: rounds)
  next
    case El_ne
    with that(3) [of "CHR ''!''" El_ExclamationMark] show ?thesis by (simp add: rounds)
  next
    case El_le
    with that(3) [of "CHR ''<''" El_LessThan] show ?thesis by (simp add: rounds)
  next
    case El_ge
    with that(3) [of "CHR ''>''" El_GreaterThan] show ?thesis by (simp add: rounds)
  next
    case El_elvis
    with that(3) [of "CHR ''?''" El_Question] show ?thesis by (simp add: rounds)
  next
    case El_lt
    with that(3) [of "CHR ''<''" El_LessThan] show ?thesis by (simp add: rounds)
  next
    case El_gt
    with that(3) [of "CHR ''>''" El_GreaterThan] show ?thesis by (simp add: rounds)
  next
    case El_mult
    with that(3) [of "CHR ''*''" El_TemplateStart] show ?thesis by (simp add: rounds)
  next
    case El_if
    with that(3) [of "CHR ''?''" El_Question] show ?thesis by (simp add: rounds)
  next
    case El_else
    with that(3) [of "CHR '':''" El_Colon] show ?thesis by (simp add: rounds)
  qed (use assms(1) in simp_all)
  then show ?thesis
  proof cases
    case name
    then show ?thesis using assms read_name [of c u st R n F fr] by simp
  next
    case one
    then obtain m where "n = Suc m" using assms(4) by (cases n) simp_all
    then show ?thesis using assms one read_simple [OF one(2-5), of st "'' '' @ R" F m fr] by simp
  next
    case two
    obtain m where n: "n = Suc (Suc m)" using assms(4) two(6) by (cases n; cases "n - 1") auto
    from two(6) show ?thesis
    proof
      assume "\<exists>d. fixed_text t = [c, d] \<and> code d < 128 \<and> (\<forall>s. el_round F S fr (ord32 d) s = ok (El_found t (s :: 'a interp)))"
      then obtain d where "fixed_text t = [c, d]" "code d < 128" "\<forall>s. el_round F S fr (ord32 d) s = ok (El_found t (s :: 'a interp))"
        by blast
      then show ?thesis using assms(2,3) read_two [OF two(1-5), of st d "'' '' @ R" F m fr] by (simp add: n)
    next
      assume "fixed_text t = [c] \<and> (\<forall>s. in_token s = [c, CHR '' ''] \<longrightarrow> el_round F S fr (ord32 CHR '' '') s
            = ok (El_found t ((s :: 'a interp)\<lparr>in_token := [c], in_rest := CHR '' '' # in_rest s\<rparr>)))"
      then show ?thesis using assms(2,3) read_two [OF two(1-5), of st "CHR '' ''" R F m fr] by (simp add: n)
    qed
  qed
qed
lemma read_word:
  assumes "word_ok w" "in_rest st = word_text w @ '' '' @ R" "in_token st = []" "length (word_text w) < n"
  shows "\<exists>st'. el_token_loop F n El_Start fr st = Some (ok (word_token w, st')) \<and> in_rest st' = '' '' @ R
    \<and> in_white st' = in_white st \<and> word_held w st'"
proof (cases w)
  case (Fixed t)
  then show ?thesis using assms read_fixed [of t st R n F fr] by simp
next
  case (Int_word k)
  have d: "list_all isdigit (nat_to_string k)" using nat_to_string_digits [of k] by (simp add: list_all_iff)
  obtain c u where u: "nat_to_string k = c # u" by (cases "nat_to_string k") simp_all
  then show ?thesis
    using assms Int_word d read_number [of c u st R n F fr] nat_to_string_value [of k] by simp
next
  case (Str_word s)
  then show ?thesis using assms read_string [of s st "'' '' @ R" n F fr] by simp
next
  case (Name_word x)
  then obtain c u where u: "x = c # u" "\<not> isdigit c" "list_all el_ident_char (c # u)" "map_of el_keywords (c # u) = None"
    using assms(1) by (cases x) (simp_all add: el_identifier_def)
  then show ?thesis using assms Name_word read_name [of c u st R n F fr] by simp
qed

definition at_words :: "el_word list \<Rightarrow> 'f interp \<Rightarrow> bool" where
  "at_words ws st \<longleftrightarrow> \<not> in_white st \<and>
     (case ws of
        [] \<Rightarrow> in_lookahead st = El_eof \<and> in_rest st = []
      | w # ws \<Rightarrow> in_lookahead st = word_token w \<and> word_held w st \<and> in_rest st = '' '' @ words_text ws \<and> list_all word_ok ws)"

lemma words_text_Cons [simp]: "words_text [] = []" "words_text (w # ws) = word_text w @ '' '' @ words_text ws"
  by (simp_all add: words_text_def)

lemma read_blank:
  assumes "in_rest st = CHR '' '' # R" "\<not> in_white st"
  shows "el_token_loop F (Suc n) El_Start fr st = el_token_loop F n El_Start fr (st\<lparr>in_rest := R, in_token := []\<rparr>)"
proof -
  have "ord32 CHR '' '' = 0x20" by (simp add: ord32_def)
  then have "el_start fr (ord32 CHR '' '') s = ok (El_goto El_Start fr (s\<lparr>in_token := []\<rparr>))" if "\<not> in_white s" for s :: "'a interp"
    using that by (simp add: el_start_def el_white_def)
  then show ?thesis using read_ascii [of st "CHR '' ''" R] assms by simp
qed

lemma held_keep [simp]:
  "word_held w (st\<lparr>in_lookahead := t\<rparr>) = word_held w st"
  by (cases w) simp_all

lemma next_word:
  assumes "list_all word_ok ws" "\<not> in_white st" "in_rest st = words_text ws \<or> in_rest st = '' '' @ words_text ws"
  shows "\<exists>st'. el_get_next_token F st = Some (ok st') \<and> at_words ws st'"
proof -
  let ?fr = "fo_of_int F 1" and ?s = "st\<lparr>in_rest := words_text ws, in_token := []\<rparr>"
  obtain n where n: "length (words_text ws) < n"
    "el_token_loop F (length (in_rest st) + 3) El_Start ?fr (st\<lparr>in_token := []\<rparr>) = el_token_loop F n El_Start ?fr ?s"
  proof (cases "in_rest st = words_text ws")
    case True
    then have "st\<lparr>in_token := []\<rparr> = ?s" by (cases st) simp
    then show thesis using that [of "length (in_rest st) + 3"] True by (simp only:)
  next
    case False
    then have r: "in_rest st = CHR '' '' # words_text ws" using assms(3) by simp
    have e: "length (in_rest st) + 3 = Suc (length (in_rest st) + 2)" by simp
    show thesis
    proof (rule that)
      show "length (words_text ws) < length (in_rest st) + 2" by (simp add: r)
      show "el_token_loop F (length (in_rest st) + 3) El_Start ?fr (st\<lparr>in_token := []\<rparr>)
          = el_token_loop F (length (in_rest st) + 2) El_Start ?fr ?s"
        using read_blank [of "st\<lparr>in_token := []\<rparr>" "words_text ws" F "length (in_rest st) + 2" ?fr] assms(2) r
        unfolding e by (simp del: el_token_loop.simps)
    qed
  qed
  have "\<exists>st'. el_token_loop F n El_Start ?fr ?s = Some (ok (case ws of [] \<Rightarrow> El_eof | w # _ \<Rightarrow> word_token w, st'))
      \<and> at_words ws (st'\<lparr>in_lookahead := case ws of [] \<Rightarrow> El_eof | w # _ \<Rightarrow> word_token w\<rparr>)"
  proof (cases ws)
    case Nil
    then obtain m where "n = Suc m" using n(1) by (cases n) simp_all
    then show ?thesis using Nil assms(2)
      by (simp add: el_get_next_char_def el_next_byte_def el_start_def at_words_def)
  next
    case (Cons w vs)
    then have "length (word_text w) < n" using n(1) by simp
    then show ?thesis using Cons assms(1,2) read_word [of w ?s "words_text vs" n F ?fr] by (auto simp: at_words_def)
  qed
  then show ?thesis using n(2) by (auto simp: el_get_next_token_def)
qed

lemma match_word:
  assumes "at_words (w # ws) st"
  shows "\<exists>st'. el_match F (word_token w) st = Some (ok st') \<and> at_words ws st'"
  using assms next_word [of ws st F] by (simp add: at_words_def el_match_def)

lemma at_wordsD: "at_words (w # ws) st \<Longrightarrow> in_lookahead st = word_token w \<and> word_held w st"
  by (simp add: at_words_def)

section \<open>The levels of the parser\<close>

definition next_class :: "el_word list \<Rightarrow> el_token" where
  "next_class ws = (case ws of [] \<Rightarrow> El_eof | w # _ \<Rightarrow> word_token w)"

lemma at_words_class: "at_words ws st \<Longrightarrow> in_lookahead st = next_class ws"
  by (cases ws) (simp_all add: at_words_def next_class_def)
definition par :: "'f float_ops \<Rightarrow> 'f decimal_ops \<Rightarrow> 'f scope \<Rightarrow> nat \<Rightarrow> nat \<Rightarrow> 'f el_parser" where
  "par F D sc n k =
     (let expr = parse_expr F D sc n; primary = parse_primary_expr F D sc n in
      if k = 0 then expr_body F n expr primary
      else if k = 1 then parse_or_expr F n primary
      else if k = 2 then parse_and_expr F n primary
      else if k = 3 then parse_equality_expr F n primary
      else if k = 4 then parse_relational_expr F n primary
      else if k = 5 then parse_additive_expr F n primary
      else if k = 6 then parse_multiplicative_expr F n primary
      else if k = 7 then parse_unary_expr F primary
      else primary)"

text \<open>The tokens that go on with an expression at a level, and all from a level on.\<close>

fun goes_on :: "nat \<Rightarrow> el_token \<Rightarrow> bool" where
  "goes_on k t =
     (t \<in> (if k = 0 then {El_if, El_elvis} else if k = 1 then {El_or} else if k = 2 then {El_and} else if k = 3 then {El_eq, El_ne}
        else if k = 4 then {El_lt, El_le, El_ge, El_gt, El_not, El_in} else if k = 5 then {El_plus, El_minus}
        else if k = 6 then {El_mult, El_div, El_mod} else if k = 7 then {} else {El_dot, El_lbracket}))"

declare goes_on.simps [simp del]

definition stops :: "nat \<Rightarrow> el_word list \<Rightarrow> bool" where
  "stops k ws \<longleftrightarrow> (\<forall>l. k \<le> l \<and> l \<le> 8 \<longrightarrow> \<not> goes_on l (next_class ws))"

lemma stops_mono: "stops k ws \<Longrightarrow> k \<le> l \<Longrightarrow> stops l ws"
  by (simp add: stops_def)

text \<open>The loop of a level, after its first operand.\<close>

definition loop :: "'f float_ops \<Rightarrow> 'f decimal_ops \<Rightarrow> 'f scope \<Rightarrow> nat \<Rightarrow> nat \<Rightarrow> nat \<Rightarrow> 'f element \<Rightarrow> 'f el_parser" where
  "loop F D sc n k m =
     (if k = 1 then or_loop F m (par F D sc n 2)
      else if k = 2 then and_loop F m (par F D sc n 3)
      else if k = 5 then add_loop F m (par F D sc n 6)
      else mult_loop F m (par F D sc n 7))"

definition loop_level :: "nat \<Rightarrow> bool" where
  "loop_level k \<longleftrightarrow> k \<in> {1, 2, 5, 6}"

lemma par_loop: "loop_level k \<Longrightarrow> par F D sc n k st = seq (par F D sc n (k + 1) st) (\<lambda>(v, st). loop F D sc n k n v st)"
  by (auto simp: loop_level_def par_def loop_def parse_or_expr_def parse_and_expr_def parse_additive_expr_def
      parse_multiplicative_expr_def Let_def)

lemma el_return_simps [simp]: "el_return (ok v) st = Some (ok (v, st))" "el_return (throw e) st = Some (throw e)"
  by (simp_all add: el_return_def)

lemma loop_stops:
  assumes "loop_level k" "\<not> goes_on k (in_lookahead st)"
  shows "loop F D sc n k (Suc m) v st = Some (ok (v, st))"
  using assms by (auto simp: loop_level_def goes_on.simps loop_def)

lemma loop_operator:
  assumes "loop_level (op_level op)" "in_lookahead st = op_token op"
  shows "loop F D sc n (op_level op) (Suc m) v st =
    seq (el_match F (op_token op) st) (\<lambda>st. seq (par F D sc n (op_level op + 1) st) (\<lambda>(w, st).
      seq (el_return (apply_op F op v w) st) (\<lambda>(v, st). loop F D sc n (op_level op) m v st)))"
  using assms by (cases op) (simp_all add: loop_level_def loop_def eval_nat_numeral)

text \<open>The levels of comparisons.\<close>

lemma par_3:
  "par F D sc n 3 st = seq (par F D sc n 4 st) (\<lambda>(v, st).
     if in_lookahead st = El_eq \<or> in_lookahead st = El_ne then
       seq (el_next F st) (\<lambda>st'. seq (par F D sc n 4 st') (\<lambda>(w, st').
         el_return (apply_op F (if in_lookahead st = El_eq then Op_eq else Op_ne) v w) st'))
     else el_return (ok v) st)"
  unfolding par_def parse_equality_expr_def Let_def by (auto simp: seq_def split: option.split sum.split)

lemma par_4:
  assumes "in_lookahead st' \<noteq> El_not"
  shows "par F D sc n 5 st = Some (ok (v, st')) \<Longrightarrow> par F D sc n 4 st =
    (case map_of [(El_lt, Op_lt), (El_le, Op_le), (El_ge, Op_ge), (El_gt, Op_gt), (El_in, Op_in)] (in_lookahead st') of
       Some op \<Rightarrow> seq (el_next F st') (\<lambda>st. seq (par F D sc n 5 st) (\<lambda>(w, st). el_return (apply_op F op v w) st))
     | None \<Rightarrow> Some (ok (v, st')))"
  and "par F D sc n 5 st = Some (throw e) \<Longrightarrow> par F D sc n 4 st = Some (throw e)"
  using assms unfolding par_def parse_relational_expr_def Let_def by (cases "in_lookahead st'"; simp)+

lemma comparison:
  assumes "op_level op = 3 \<or> op_level op = 4" "par F D sc n (op_level op + 1) st = Some (ok (v, st'))" "in_lookahead st' = op_token op"
  shows "par F D sc n (op_level op) st =
    seq (el_match F (op_token op) st') (\<lambda>st. seq (par F D sc n (op_level op + 1) st) (\<lambda>(w, st). el_return (apply_op F op v w) st))"
  using assms par_4(1) [of st' F D sc n st v] par_3 [of F D sc n st] by (cases op) (simp_all add: split_beta')

lemma no_comparison:
  assumes "k = 3 \<or> k = 4" "par F D sc n (k + 1) st = Some (ok (v, st'))" "\<not> goes_on k (in_lookahead st')"
  shows "par F D sc n k st = Some (ok (v, st'))"
  using assms par_4(1) [of st' F D sc n st v] par_3 [of F D sc n st] by (auto simp: goes_on.simps)

lemma throw_comparison:
  assumes "k = 3 \<or> k = 4" "par F D sc n (k + 1) st = Some (throw e)"
  shows "par F D sc n k st = Some (throw e)"
  using assms par_4(2) [of "st\<lparr>in_lookahead := El_eof\<rparr>" F D sc n st e] par_3 [of F D sc n st] by auto
section \<open>The interpreter implements the reference\<close>

fun expr_ok :: "el_expr \<Rightarrow> bool" where
  "expr_ok (Int_lit n) = (n < 2 ^ 63)"
| "expr_ok (Str_lit s) = list_all plain_char s"
| "expr_ok (Bool_lit b) = True"
| "expr_ok (Var x) = el_identifier x"
| "expr_ok (Neg e) = expr_ok e"
| "expr_ok (Not e) = expr_ok e"
| "expr_ok (Binary op a b) = (expr_ok a \<and> expr_ok b)"
| "expr_ok (Cond c a b) = (expr_ok c \<and> expr_ok a \<and> expr_ok b)"
| "expr_ok (Elvis c a) = (expr_ok c \<and> expr_ok a)"

text \<open>Fuel that is enough.\<close>

fun need :: "el_expr \<Rightarrow> nat" where
  "need (Neg e) = need e + 3"
| "need (Not e) = need e + 3"
| "need (Binary op a b) = need a + need b + 3"
| "need (Cond c a b) = need c + need a + need b + 3"
| "need (Elvis c a) = need c + need a + 3"
| "need _ = 4"

definition parsed :: "'f element res \<Rightarrow> el_word list \<Rightarrow> ('f element \<times> 'f interp) res option \<Rightarrow> bool" where
  "parsed r rest result =
     (case r of Inl x \<Rightarrow> result = Some (throw x) | Inr v \<Rightarrow> \<exists>st. at_words rest st \<and> result = Some (ok (v, st)))"

definition reached ::
  "'f float_ops \<Rightarrow> 'f decimal_ops \<Rightarrow> 'f scope \<Rightarrow> nat \<Rightarrow> nat \<Rightarrow> nat \<Rightarrow> 'f element res \<Rightarrow> el_word list \<Rightarrow> ('f element \<times> 'f interp) res option \<Rightarrow> bool" where
  "reached F D sc n k c r rest result =
     (case r of
        Inl x \<Rightarrow> result = Some (throw x)
      | Inr v \<Rightarrow> \<exists>st j. j \<le> c \<and> at_words rest st \<and> result = loop F D sc n k (n - j) v st)"

lemma parsed_throw [simp]: "parsed (throw x) rest result \<longleftrightarrow> result = Some (throw x)"
  by (simp add: parsed_def)

lemma parsed_ok: "parsed (ok v) rest result \<longleftrightarrow> (\<exists>st. at_words rest st \<and> result = Some (ok (v, st)))"
  by (simp add: parsed_def)

lemma parsed_seq:
  assumes "parsed r rest result" "\<And>v st. r = ok v \<Longrightarrow> at_words rest st \<Longrightarrow> parsed (f v) rest' (g (v, st))"
  shows "parsed (bind_res r f) rest' (seq result g)"
  using assms by (cases r) (auto simp: parsed_ok)

lemma parsed_match:
  assumes "at_words (w # ws) st" "t = word_token w" "\<And>st. at_words ws st \<Longrightarrow> parsed r rest (f st)"
  shows "parsed r rest (seq (el_match F t st) f)"
  using match_word [OF assms(1), of F] assms(2,3) by auto

lemma parsed_return: "at_words rest st \<Longrightarrow> parsed r rest (el_return r st)"
  by (cases r) (auto simp: parsed_ok)

lemma parsed_here [simp]: "at_words rest st \<Longrightarrow> parsed (ok v) rest (Some (ok (v, st)))"
  by (auto simp: parsed_ok)

lemma stops_class: "stops k rest \<Longrightarrow> k \<le> l \<Longrightarrow> l \<le> 8 \<Longrightarrow> at_words rest st \<Longrightarrow> \<not> goes_on l (in_lookahead st)"
  by (simp add: stops_def at_words_class)

lemma par_0: "par F D sc n 0 = expr_body F n (parse_expr F D sc n) (parse_primary_expr F D sc n)"
  and par_7: "par F D sc n 7 = parse_unary_expr F (par F D sc n 8)"
  and par_8: "par F D sc n 8 = parse_primary_expr F D sc n"
  and par_1: "parse_or_expr F n (parse_primary_expr F D sc n) = par F D sc n 1"
  by (simp_all add: par_def Let_def)

lemma descend_step:
  assumes "parsed r rest (par F D sc n (k + 1) st)" "stops k rest" "0 < n" "k \<le> 7"
    and "k = 7 \<longrightarrow> in_lookahead st \<noteq> El_minus \<and> in_lookahead st \<noteq> El_not"
  shows "parsed r rest (par F D sc n k st)"
proof -
  obtain m where n: "n = Suc m" using assms(3) by (cases n) simp_all
  consider "k = 0" | "loop_level k" | "k = 3 \<or> k = 4" | "k = 7" using assms(4) by (fastforce simp: loop_level_def)
  then show ?thesis
  proof cases
    case 1
    show ?thesis
    proof (cases r)
      case (Inl e)
      then show ?thesis using assms(1) 1 by (simp add: par_0 expr_body_def par_1)
    next
      case (Inr v)
      then obtain st' where p: "at_words rest st'" "par F D sc n 1 st = Some (ok (v, st'))" using assms(1) 1 by (auto simp: parsed_ok)
      then have "in_lookahead st' \<noteq> El_if" "in_lookahead st' \<noteq> El_elvis"
        using stops_class [OF assms(2) _ _ p(1), of 0] 1 by (auto simp: goes_on.simps)
      then show ?thesis using p Inr 1 by (simp add: par_0 expr_body_def par_1 parsed_ok)
    qed
  next
    case 2
    show ?thesis
    proof (cases r)
      case (Inl e)
      then show ?thesis using assms(1) by (simp add: par_loop [OF 2])
    next
      case (Inr v)
      then obtain st' where p: "at_words rest st'" "par F D sc n (k + 1) st = Some (ok (v, st'))" using assms(1) by (auto simp: parsed_ok)
      have "\<not> goes_on k (in_lookahead st')" using stops_class [OF assms(2) _ _ p(1)] assms(4) by simp
      from loop_stops [OF 2 this] show ?thesis using p Inr by (simp add: par_loop [OF 2] n parsed_ok)
    qed
  next
    case 3
    show ?thesis
    proof (cases r)
      case (Inl e)
      then show ?thesis using assms(1) throw_comparison [OF 3] by simp
    next
      case (Inr v)
      then obtain st' where p: "at_words rest st'" "par F D sc n (k + 1) st = Some (ok (v, st'))" using assms(1) by (auto simp: parsed_ok)
      have "\<not> goes_on k (in_lookahead st')" using stops_class [OF assms(2) _ _ p(1)] assms(4) by simp
      from no_comparison [OF 3 p(2) this] show ?thesis using p(1) Inr by (auto simp: parsed_ok)
    qed
  next
    case 4
    then show ?thesis using assms(1,5) by (simp add: par_7 parse_unary_expr_def)
  qed
qed

lemma descend:
  assumes "parsed r rest (par F D sc n l st)" "stops k rest" "0 < n" "k \<le> l" "l \<le> 8"
    and "l = 8 \<longrightarrow> in_lookahead st \<noteq> El_minus \<and> in_lookahead st \<noteq> El_not"
  shows "parsed r rest (par F D sc n k st)"
  using assms(4,2)
proof (induction "l - k" arbitrary: k)
  case 0
  then show ?case using assms(1) by simp
next
  case (Suc d)
  have "d = l - (k + 1)" "k + 1 \<le> l" using Suc.hyps(2) by simp_all
  moreover have "stops (k + 1) rest" using Suc.prems(2) by (rule stops_mono) simp
  ultimately have p: "parsed r rest (par F D sc n (k + 1) st)" by (rule Suc.hyps(1))
  show ?case
  proof (rule descend_step [OF p Suc.prems(2) assms(3)])
    show "k \<le> 7" using \<open>k + 1 \<le> l\<close> assms(5) by simp
    show "k = 7 \<longrightarrow> in_lookahead st \<noteq> El_minus \<and> in_lookahead st \<noteq> El_not"
      using \<open>k + 1 \<le> l\<close> assms(5,6) by auto
  qed
qed

lemma reached_next:
  assumes "loop_level k" "parsed r rest (par F D sc n (k + 1) st)"
  shows "reached F D sc n k c r rest (par F D sc n k st)"
proof (cases r)
  case (Inl e)
  then show ?thesis using assms(2) by (simp add: reached_def par_loop [OF assms(1)])
next
  case (Inr v)
  then obtain st' where p: "at_words rest st'" "par F D sc n (k + 1) st = Some (ok (v, st'))" using assms(2) by (auto simp: parsed_ok)
  then have "par F D sc n k st = loop F D sc n k (n - 0) v st'" by (simp add: par_loop [OF assms(1)])
  with p(1) Inr show ?thesis unfolding reached_def by (simp only: sum.case) (rule exI [of _ st'], rule exI [of _ 0], simp)
qed
definition reads_body :: "'f float_ops \<Rightarrow> 'f decimal_ops \<Rightarrow> 'f scope \<Rightarrow> el_expr \<Rightarrow> bool" where
  "reads_body F D sc e \<longleftrightarrow>
     (\<forall>n st rest. need e \<le> n + 2 \<longrightarrow> at_words (body_words e @ rest) st \<longrightarrow>
        (stops (expr_level e) rest \<longrightarrow> parsed (meaning F sc e) rest (par F D sc n (expr_level e) st))
        \<and> (loop_level (expr_level e) \<longrightarrow> stops (expr_level e + 1) rest \<longrightarrow>
             reached F D sc n (expr_level e) (need e) (meaning F sc e) rest (par F D sc n (expr_level e) st)))"

definition reads :: "'f float_ops \<Rightarrow> 'f decimal_ops \<Rightarrow> 'f scope \<Rightarrow> el_expr \<Rightarrow> bool" where
  "reads F D sc e \<longleftrightarrow>
     (\<forall>k n st rest. k \<le> 8 \<longrightarrow> need e \<le> n \<longrightarrow> at_words (words k e @ rest) st \<longrightarrow>
        (stops k rest \<longrightarrow> parsed (meaning F sc e) rest (par F D sc n k st))
        \<and> (loop_level k \<longrightarrow> stops (k + 1) rest \<longrightarrow>
             reached F D sc n k (need e) (meaning F sc e) rest (par F D sc n k st)))"

lemma readsD:
  assumes "reads F D sc e" "k \<le> 8" "need e \<le> n" "at_words (words k e @ rest) st"
  shows "stops k rest \<Longrightarrow> parsed (meaning F sc e) rest (par F D sc n k st)"
    and "loop_level k \<Longrightarrow> stops (k + 1) rest \<Longrightarrow> reached F D sc n k (need e) (meaning F sc e) rest (par F D sc n k st)"
  using assms unfolding reads_def by blast+

lemma reads_bodyD:
  assumes "reads_body F D sc e" "need e \<le> n + 2" "at_words (body_words e @ rest) st"
  shows "stops (expr_level e) rest \<Longrightarrow> parsed (meaning F sc e) rest (par F D sc n (expr_level e) st)"
    and "loop_level (expr_level e) \<Longrightarrow> stops (expr_level e + 1) rest \<Longrightarrow>
      reached F D sc n (expr_level e) (need e) (meaning F sc e) rest (par F D sc n (expr_level e) st)"
  using assms unfolding reads_body_def by blast+

lemma need_4: "4 \<le> need e"
  by (induction e) auto

lemma op_level_bounds: "1 \<le> op_level op" "op_level op \<le> 6"
  by (cases op; simp)+

lemma expr_level_le: "expr_level e \<le> 8"
proof (cases e)
  case (Binary op a b)
  then show ?thesis using op_level_bounds(2) [of op] by simp
qed simp_all

lemma stops_8: "stops 8 (Fixed t # ws) \<longleftrightarrow> t \<noteq> El_dot \<and> t \<noteq> El_lbracket"
  by (auto simp: stops_def goes_on.simps next_class_def dest: le_antisym)

lemma stops_close [simp]: "stops k (Fixed El_rparen # ws)" "stops k (Fixed El_else # ws)" "stops k []"
  by (simp_all add: stops_def goes_on.simps next_class_def)

lemma stops_if [simp]: "0 < k \<Longrightarrow> stops k (Fixed El_if # ws)" "0 < k \<Longrightarrow> stops k (Fixed El_elvis # ws)"
  by (simp_all add: stops_def goes_on.simps next_class_def)

lemma stops_op: "op_level op < k \<Longrightarrow> stops k (Fixed (op_token op) # ws)"
  by (cases op) (auto simp: stops_def goes_on.simps next_class_def)

lemma primary_first:
  assumes "expr_level e = 8" "at_words (body_words e @ rest) st"
  shows "in_lookahead st \<noteq> El_minus \<and> in_lookahead st \<noteq> El_not"
proof (cases e)
  case (Binary op a b)
  then show ?thesis using assms(1) op_level_bounds(2) [of op] by simp
qed (use assms in \<open>auto dest!: at_wordsD split: if_splits\<close>)

lemma read_parens:
  assumes "reads_body F D sc e" "need e \<le> n" "at_words ([Fixed El_lparen] @ body_words e @ [Fixed El_rparen] @ rest) st"
  shows "parsed (meaning F sc e) rest (par F D sc n 8 st)"
proof -
  obtain m where n: "n = Suc (Suc m)" using assms(2) need_4 [of e] by (cases n; cases "n - 1") auto
  have l: "in_lookahead st = El_lparen" using assms(3) by (auto dest!: at_wordsD)
  have "parsed (bind_res (meaning F sc e) ok) rest (par F D sc n 8 st)"
    unfolding par_8 n parse_primary_expr.simps primary_body_def Let_def l el_token.case
  proof (rule parsed_match)
    show "at_words (Fixed El_lparen # body_words e @ Fixed El_rparen # rest) st" using assms(3) by simp
    fix st1 assume a: "at_words (body_words e @ Fixed El_rparen # rest) (st1 :: 'a interp)"
    show "parsed (bind_res (meaning F sc e) ok) rest
      (seq (parse_expr F D sc (Suc m) st1) (\<lambda>(v, st). seq (el_match F El_rparen st) (\<lambda>st. el_return (ok v) st)))"
    proof (rule parsed_seq)
      have "parsed (meaning F sc e) (Fixed El_rparen # rest) (par F D sc m (expr_level e) st1)"
        using assms(2) by (intro reads_bodyD(1) [OF assms(1) _ a]) (simp_all add: n)
      moreover have "0 < m" using assms(2) need_4 [of e] n by simp
      ultimately have "parsed (meaning F sc e) (Fixed El_rparen # rest) (par F D sc m 0 st1)"
        using descend [of _ _ F D sc m "expr_level e" st1 0] primary_first [OF _ a] expr_level_le by simp
      then show "parsed (meaning F sc e) (Fixed El_rparen # rest) (parse_expr F D sc (Suc m) st1)" by (simp add: par_0)
      fix v st2 assume "at_words (Fixed El_rparen # rest) (st2 :: 'a interp)"
      then have "parsed (ok v) rest (seq (el_match F El_rparen st2) (\<lambda>st. el_return (ok v) st))"
        by (rule parsed_match) simp_all
      then show "parsed (ok v) rest (case (v, st2) of (v, st) \<Rightarrow> seq (el_match F El_rparen st) (\<lambda>st. el_return (ok v) st))" by simp
    qed
  qed simp
  then show ?thesis by (cases "meaning F sc e") simp_all
qed

lemma reads_words:
  assumes "reads_body F D sc e"
  shows "reads F D sc e"
  unfolding reads_def
proof (intro allI impI conjI)
  fix k n st rest
  assume k: "k \<le> 8" and n: "need e \<le> n" and a: "at_words (words k e @ rest) (st :: 'a interp)"
  have pos: "0 < n" using n need_4 [of e] by simp
  have any: "parsed (meaning F sc e) rest (par F D sc n l st)"
    if "stops l rest" "l \<le> 8" "expr_level e < k \<or> l \<le> expr_level e" for l
  proof (cases "expr_level e < k")
    case True
    then have p: "at_words ([Fixed El_lparen] @ body_words e @ [Fixed El_rparen] @ rest) st" using a by simp
    then have "in_lookahead st = El_lparen" by (auto dest!: at_wordsD)
    then show ?thesis using descend [OF read_parens [OF assms n p] that(1) pos that(2)] by simp
  next
    case False
    then have b: "at_words (body_words e @ rest) st" using a by simp
    have "stops (expr_level e) rest" using that False by (auto intro: stops_mono)
    then show ?thesis
      using descend [OF reads_bodyD(1) [OF assms _ b] that(1) pos _ expr_level_le] that(3) False n primary_first [OF _ b] by simp
  qed
  show "parsed (meaning F sc e) rest (par F D sc n k st)" if "stops k rest" using any [OF that k] by linarith
  show "reached F D sc n k (need e) (meaning F sc e) rest (par F D sc n k st)" if "loop_level k" "stops (k + 1) rest"
  proof (cases "expr_level e = k")
    case True
    then have b: "at_words (body_words e @ rest) st" using a by simp
    show ?thesis using reads_bodyD(2) [OF assms _ b] that n True by simp
  next
    case False
    have "k + 1 \<le> 8" using that(1) by (auto simp: loop_level_def)
    then have "parsed (meaning F sc e) rest (par F D sc n (k + 1) st)" using False by (intro any [OF that(2)]) auto
    then show ?thesis by (rule reached_next [OF that(1)])
  qed
qed

lemma reads_leaf:
  assumes "expr_level e = 8" "\<And>m st rest. at_words (body_words e @ rest) st \<Longrightarrow> stops 8 rest \<Longrightarrow>
    parsed (meaning F sc e) rest (primary_body F D (Suc m) sc (parse_expr F D sc (Suc m)) (parse_primary_expr F D sc (Suc m)) st)"
  shows "reads F D sc e"
proof (rule reads_words, unfold reads_body_def, intro allI impI conjI)
  fix n st rest
  assume n: "need e \<le> n + 2" and a: "at_words (body_words e @ rest) (st :: 'a interp)"
  then obtain m where m: "n = Suc (Suc m)" using need_4 [of e] by (cases n; cases "n - 1") auto
  show "parsed (meaning F sc e) rest (par F D sc n (expr_level e) st)" if "stops (expr_level e) rest"
    using assms(2) [OF a] that by (simp add: assms(1) par_8 m)
  show "reached F D sc n (expr_level e) (need e) (meaning F sc e) rest (par F D sc n (expr_level e) st)"
    if "loop_level (expr_level e)" using that by (simp add: assms(1) loop_level_def)
qed

lemma parsed_literal:
  assumes "at_words (w # rest) st" "in_lookahead st = t"
  shows "parsed (ok v) rest (literal_value F v st)"
  unfolding literal_value_def using assms(1) at_wordsD [OF assms(1)] by (auto intro: parsed_match)

lemma reads_leaves:
  "reads F D sc (Int_lit i)" "reads F D sc (Str_lit s)" "reads F D sc (Bool_lit b)" "reads F D sc (Var x)"
proof -
  show "reads F D sc (Int_lit i)"
  proof (rule reads_leaf)
    fix m st rest assume "at_words (body_words (Int_lit i) @ rest) (st :: 'a interp)"
    then have h: "at_words (Int_word i # rest) st" by simp
    show "parsed (meaning F sc (Int_lit i)) rest
        (primary_body F D (Suc m) sc (parse_expr F D sc (Suc m)) (parse_primary_expr F D sc (Suc m)) st)"
      using at_wordsD [OF h] parsed_literal [OF h, of _ _ F] by (simp add: primary_body_def Let_def)
  qed simp
  show "reads F D sc (Str_lit s)"
  proof (rule reads_leaf)
    fix m st rest assume "at_words (body_words (Str_lit s) @ rest) (st :: 'a interp)"
    then have h: "at_words (Str_word s # rest) st" by simp
    show "parsed (meaning F sc (Str_lit s)) rest
        (primary_body F D (Suc m) sc (parse_expr F D sc (Suc m)) (parse_primary_expr F D sc (Suc m)) st)"
      using at_wordsD [OF h] parsed_literal [OF h, of _ _ F] by (simp add: primary_body_def Let_def)
  qed simp
  show "reads F D sc (Bool_lit b)"
  proof (rule reads_leaf)
    fix m st rest assume "at_words (body_words (Bool_lit b) @ rest) (st :: 'a interp)"
    then have h: "at_words (Fixed (if b then El_true else El_false) # rest) st" by simp
    show "parsed (meaning F sc (Bool_lit b)) rest
        (primary_body F D (Suc m) sc (parse_expr F D sc (Suc m)) (parse_primary_expr F D sc (Suc m)) st)"
      using at_wordsD [OF h] parsed_literal [OF h, of _ _ F] by (simp add: primary_body_def Let_def split: if_splits)
  qed simp
  show "reads F D sc (Var x)"
  proof (rule reads_leaf)
    fix m st rest assume "at_words (body_words (Var x) @ rest) (st :: 'a interp)" and stop: "stops 8 rest"
    then have h: "at_words (Name_word x # rest) st" by simp
    have t: "in_lookahead st = El_object" "in_token st = x" using at_wordsD [OF h] by simp_all
    have "parsed (meaning F sc (Var x)) rest
        (seq (el_match F El_object st) (\<lambda>st. member_loop F (Suc m) (parse_expr F D sc (Suc m)) (scope_lookup F sc x False) st))"
    proof (rule parsed_match [OF h])
      fix st1 assume a: "at_words rest (st1 :: 'a interp)"
      have "in_lookahead st1 \<noteq> El_dot" "in_lookahead st1 \<noteq> El_lbracket"
        using stops_class [OF stop _ _ a, of 8] by (auto simp: goes_on.simps)
      then show "parsed (meaning F sc (Var x)) rest
          (member_loop F (Suc m) (parse_expr F D sc (Suc m)) (scope_lookup F sc x False) st1)" using a by simp
    qed (simp only: word_token.simps)
    then show "parsed (meaning F sc (Var x)) rest
        (primary_body F D (Suc m) sc (parse_expr F D sc (Suc m)) (parse_primary_expr F D sc (Suc m)) st)"
      using t by (simp add: primary_body_def Let_def del: member_loop.simps)
  qed simp
qed

lemma reads_unary:
  assumes "reads F D sc e"
  shows "reads F D sc (Neg e)" "reads F D sc (Not e)"
proof -
  have "reads F D sc u" if u: "u = Neg e \<or> u = Not e" for u
  proof (rule reads_words, unfold reads_body_def, intro allI impI conjI)
    fix n st rest
    assume n: "need u \<le> n + 2" and a: "at_words (body_words u @ rest) (st :: 'a interp)"
    define t where "t = (if u = Neg e then El_minus else El_not)"
    have h: "at_words (Fixed t # words 8 e @ rest) st" using a u by (auto simp: t_def)
    have n': "need e \<le> n" using n u by auto
    show "parsed (meaning F sc u) rest (par F D sc n (expr_level u) st)" if "stops (expr_level u) rest"
    proof -
      have s8: "stops 8 rest" using that u by (auto intro: stops_mono)
      define f where "f = (if u = Neg e then elem_neg F else (\<lambda>v. ok (Boolean (\<not> as_bool F v))))"
      have "parsed (bind_res (meaning F sc e) f) rest
          (seq (el_match F t st) (\<lambda>st. seq (par F D sc n 8 st) (\<lambda>(v, st). el_return (f v) st)))"
      proof (rule parsed_match [OF h])
        fix st1 assume b: "at_words (words 8 e @ rest) (st1 :: 'a interp)"
        have p: "parsed (meaning F sc e) rest (par F D sc n 8 st1)" using readsD(1) [OF assms _ n' b s8] by simp
        show "parsed (bind_res (meaning F sc e) f) rest (seq (par F D sc n 8 st1) (\<lambda>(v, st). el_return (f v) st))"
          by (rule parsed_seq [OF p]) (simp add: parsed_return)
      qed simp
      then show ?thesis using at_wordsD [OF h] u
        by (auto simp: par_7 parse_unary_expr_def t_def f_def split_beta' split: if_splits)
    qed
    show "reached F D sc n (expr_level u) (need u) (meaning F sc u) rest (par F D sc n (expr_level u) st)"
      if "loop_level (expr_level u)" using that u by (auto simp: loop_level_def)
  qed
  then show "reads F D sc (Neg e)" "reads F D sc (Not e)" by simp_all
qed
lemma reached_stops:
  assumes "reached F D sc n k c r rest result" "loop_level k" "stops k rest" "c < n"
  shows "parsed r rest result"
proof (cases r)
  case (Inl x)
  then show ?thesis using assms(1) by (simp add: reached_def)
next
  case (Inr v)
  then obtain st j where j: "j \<le> c" "at_words rest st" "result = loop F D sc n k (n - j) v st"
    using assms(1) by (auto simp: reached_def)
  then obtain m where "n - j = Suc m" using assms(4) by (cases "n - j") simp_all
  moreover have "k \<le> 8" using assms(2) by (auto simp: loop_level_def)
  then have "\<not> goes_on k (in_lookahead st)" using stops_class [OF assms(3) _ _ j(2)] by simp
  ultimately show ?thesis using loop_stops [OF assms(2), of st F D sc n m v] j(2,3) Inr by (auto simp: parsed_ok)
qed

lemma reached_more: "reached F D sc n k c r rest result \<Longrightarrow> c \<le> c' \<Longrightarrow> reached F D sc n k c' r rest result"
  unfolding reached_def by (cases r) (auto intro: order_trans)

lemma left_of_op: "left_level op = (if loop_level (op_level op) then op_level op else op_level op + 1)"
  and comparison_level: "\<not> loop_level (op_level op) \<Longrightarrow> op_level op = 3 \<or> op_level op = 4"
  by (cases op; simp add: left_level_def loop_level_def)+

lemma reads_loop:
  assumes "reads F D sc a" "reads F D sc b" "loop_level (op_level op)" "need a + need b < n"
    and "at_words (words (op_level op) a @ Fixed (op_token op) # words (op_level op + 1) b @ rest) st" "stops (op_level op + 1) rest"
  shows "reached F D sc n (op_level op) (need a + 1) (meaning F sc (Binary op a b)) rest (par F D sc n (op_level op) st)"
proof -
  let ?k = "op_level op"
  have k: "?k \<le> 8" "?k + 1 \<le> 8" using op_level_bounds [of op] by simp_all
  have "stops (?k + 1) (Fixed (op_token op) # words (?k + 1) b @ rest)" by (rule stops_op) simp
  then have ra: "reached F D sc n ?k (need a) (meaning F sc a) (Fixed (op_token op) # words (?k + 1) b @ rest) (par F D sc n ?k st)"
    using readsD(2) [OF assms(1) k(1) _ assms(5,3)] assms(4) by simp
  show ?thesis
  proof (cases "meaning F sc a")
    case (Inl x)
    then show ?thesis using ra by (simp add: reached_def)
  next
    case (Inr v)
    then obtain st1 j where j: "j \<le> need a" "at_words (Fixed (op_token op) # words (?k + 1) b @ rest) st1"
      "par F D sc n ?k st = loop F D sc n ?k (n - j) v st1"
      using ra by (auto simp: reached_def)
    obtain m where m: "n - j = Suc m" using j(1) assms(4) by (cases "n - j") simp_all
    obtain st2 where s2: "el_match F (op_token op) st1 = Some (ok st2)" "at_words (words (?k + 1) b @ rest) st2"
      using match_word [OF j(2), of F] by auto
    have l: "in_lookahead st1 = op_token op" using at_wordsD [OF j(2)] by simp
    have e: "par F D sc n ?k st = seq (par F D sc n (?k + 1) st2) (\<lambda>(w, st).
        seq (el_return (apply_op F op v w) st) (\<lambda>(v, st). loop F D sc n ?k m v st))"
      using loop_operator [OF assms(3) l, of F D sc n m v] j(3) m s2(1) by simp
    have pb: "parsed (meaning F sc b) rest (par F D sc n (?k + 1) st2)"
      using readsD(1) [OF assms(2) k(2) _ s2(2) assms(6)] assms(4) by simp
    show ?thesis
    proof (cases "meaning F sc b")
      case (Inl x)
      then show ?thesis using pb e Inr by (simp add: reached_def)
    next
      case w: (Inr w)
      then obtain st3 where s3: "at_words rest st3" "par F D sc n (?k + 1) st2 = Some (ok (w, st3))" using pb by (auto simp: parsed_ok)
      have "m = n - Suc j" using m by simp
      moreover have "Suc j \<le> need a + 1" using j(1) by simp
      ultimately show ?thesis using e s3 Inr w unfolding reached_def
        by (cases "apply_op F op v w") auto
    qed
  qed
qed

lemma reads_comparison:
  assumes "reads F D sc a" "reads F D sc b" "op_level op = 3 \<or> op_level op = 4" "need a \<le> n" "need b \<le> n"
    and "at_words (words (op_level op + 1) a @ Fixed (op_token op) # words (op_level op + 1) b @ rest) st" "stops (op_level op + 1) rest"
  shows "parsed (meaning F sc (Binary op a b)) rest (par F D sc n (op_level op) st)"
proof -
  let ?k = "op_level op"
  have k: "?k + 1 \<le> 8" using op_level_bounds [of op] by simp
  have "stops (?k + 1) (Fixed (op_token op) # words (?k + 1) b @ rest)" by (rule stops_op) simp
  then have pa: "parsed (meaning F sc a) (Fixed (op_token op) # words (?k + 1) b @ rest) (par F D sc n (?k + 1) st)"
    using readsD(1) [OF assms(1) k assms(4,6)] by simp
  show ?thesis
  proof (cases "meaning F sc a")
    case (Inl x)
    then show ?thesis using pa throw_comparison [OF assms(3)] by simp
  next
    case (Inr v)
    then obtain st1 where s1: "at_words (Fixed (op_token op) # words (?k + 1) b @ rest) st1" "par F D sc n (?k + 1) st = Some (ok (v, st1))"
      using pa by (auto simp: parsed_ok)
    have "parsed (bind_res (meaning F sc b) (apply_op F op v)) rest
      (seq (el_match F (op_token op) st1) (\<lambda>st. seq (par F D sc n (?k + 1) st) (\<lambda>(w, st). el_return (apply_op F op v w) st)))"
    proof (rule parsed_match [OF s1(1)])
      fix st2 assume "at_words (words (?k + 1) b @ rest) (st2 :: 'a interp)"
      then have "parsed (meaning F sc b) rest (par F D sc n (?k + 1) st2)"
        using readsD(1) [OF assms(2) k assms(5) _ assms(7)] by simp
      then show "parsed (bind_res (meaning F sc b) (apply_op F op v)) rest
          (seq (par F D sc n (?k + 1) st2) (\<lambda>(w, st). el_return (apply_op F op v w) st))"
        by (rule parsed_seq) (simp add: parsed_return)
    qed simp
    then show ?thesis using comparison [OF assms(3) s1(2)] at_wordsD [OF s1(1)] Inr by simp
  qed
qed

lemma reads_binary:
  assumes "reads F D sc a" "reads F D sc b"
  shows "reads F D sc (Binary op a b)"
proof (rule reads_words, unfold reads_body_def, intro allI impI)
  fix n st rest
  let ?k = "op_level op" and ?e = "Binary op a b"
  assume n: "need ?e \<le> n + 2" and "at_words (body_words ?e @ rest) (st :: 'a interp)"
  then have h: "at_words (words (left_level op) a @ Fixed (op_token op) # words (?k + 1) b @ rest) st" by simp
  have le: "expr_level ?e = ?k" by simp
  show "(stops (expr_level ?e) rest \<longrightarrow> parsed (meaning F sc ?e) rest (par F D sc n (expr_level ?e) st)) \<and>
    (loop_level (expr_level ?e) \<longrightarrow> stops (expr_level ?e + 1) rest \<longrightarrow>
      reached F D sc n (expr_level ?e) (need ?e) (meaning F sc ?e) rest (par F D sc n (expr_level ?e) st))"
    unfolding le
  proof (cases "loop_level ?k")
    case True
    have r: "reached F D sc n ?k (need a + 1) (meaning F sc ?e) rest (par F D sc n ?k st)" if "stops (?k + 1) rest"
      using h n that True by (intro reads_loop [OF assms True]) (simp_all add: left_of_op)
    have "parsed (meaning F sc ?e) rest (par F D sc n ?k st)" if "stops ?k rest"
    proof (rule reached_stops [OF r True that])
      show "stops (?k + 1) rest" using that by (rule stops_mono) simp
      show "need a + 1 < n" using n need_4 [of b] by simp
    qed
    moreover have "reached F D sc n ?k (need ?e) (meaning F sc ?e) rest (par F D sc n ?k st)" if "stops (?k + 1) rest"
      by (rule reached_more [OF r [OF that]]) simp
    ultimately show "(stops ?k rest \<longrightarrow> parsed (meaning F sc ?e) rest (par F D sc n ?k st)) \<and>
      (loop_level ?k \<longrightarrow> stops (?k + 1) rest \<longrightarrow> reached F D sc n ?k (need ?e) (meaning F sc ?e) rest (par F D sc n ?k st))"
      by blast
  next
    case False
    have "parsed (meaning F sc ?e) rest (par F D sc n ?k st)" if s: "stops ?k rest"
    proof (rule reads_comparison [OF assms comparison_level [OF False]])
      show "stops (?k + 1) rest" using s by (rule stops_mono) simp
      show "need a \<le> n" "need b \<le> n" using n need_4 [of a] need_4 [of b] by simp_all
      show "at_words (words (?k + 1) a @ Fixed (op_token op) # words (?k + 1) b @ rest) st" using h False by (simp add: left_of_op)
    qed
    then show "(stops ?k rest \<longrightarrow> parsed (meaning F sc ?e) rest (par F D sc n ?k st)) \<and>
      (loop_level ?k \<longrightarrow> stops (?k + 1) rest \<longrightarrow> reached F D sc n ?k (need ?e) (meaning F sc ?e) rest (par F D sc n ?k st))"
      using False by blast
  qed
qed
lemma parse_par: "parse_expr F D sc (Suc m) = par F D sc m 0"
  by (rule ext) (simp add: par_0)

lemma reads_elvis:
  assumes "reads F D sc c" "reads F D sc a"
  shows "reads F D sc (Elvis c a)"
proof (rule reads_words, unfold reads_body_def, intro allI impI conjI)
  fix n st rest
  let ?e = "Elvis c a"
  assume n: "need ?e \<le> n + 2" and "at_words (body_words ?e @ rest) (st :: 'a interp)"
  then have h: "at_words (words 1 c @ Fixed El_elvis # words 0 a @ rest) st" by simp
  obtain m where m: "n = Suc m" "need a \<le> m" using n need_4 [of c] by (cases n) simp_all
  show "parsed (meaning F sc ?e) rest (par F D sc n (expr_level ?e) st)" if "stops (expr_level ?e) rest"
  proof -
    have stop: "stops 0 rest" using that by simp
    have pc: "parsed (meaning F sc c) (Fixed El_elvis # words 0 a @ rest) (par F D sc n 1 st)"
      using readsD(1) [OF assms(1) _ _ h] n need_4 [of a] by simp
    have "parsed (meaning F sc ?e) rest (seq (par F D sc n 1 st) (\<lambda>(v, st).
        seq (el_match F El_elvis st) (\<lambda>st. seq (par F D sc m 0 st) (\<lambda>(x, st). el_return (ok (if elem_bool F v then v else x)) st))))"
      unfolding meaning.simps
    proof (rule parsed_seq [OF pc], unfold prod.case)
      fix v st1 assume "at_words (Fixed El_elvis # words 0 a @ rest) (st1 :: 'a interp)"
      then show "parsed (bind_res (meaning F sc a) (\<lambda>x. ok (if elem_bool F v then v else x))) rest (seq (el_match F El_elvis st1)
          (\<lambda>st. seq (par F D sc m 0 st) (\<lambda>(x, st). el_return (ok (if elem_bool F v then v else x)) st)))"
      proof (rule parsed_match)
        fix st2 assume "at_words (words 0 a @ rest) (st2 :: 'a interp)"
        then have "parsed (meaning F sc a) rest (par F D sc m 0 st2)" using readsD(1) [OF assms(2) _ m(2) _ stop] by simp
        then show "parsed (bind_res (meaning F sc a) (\<lambda>x. ok (if elem_bool F v then v else x))) rest
            (seq (par F D sc m 0 st2) (\<lambda>(x, st). el_return (ok (if elem_bool F v then v else x)) st))"
          by (rule parsed_seq) (simp only: prod.case parsed_return)
      qed simp
    qed
    moreover have "par F D sc n 0 st = seq (par F D sc n 1 st) (\<lambda>(v, st).
        seq (el_match F El_elvis st) (\<lambda>st. seq (par F D sc m 0 st) (\<lambda>(x, st). el_return (ok (if elem_bool F v then v else x)) st)))"
      using pc unfolding par_0 [of F D sc n] expr_body_def par_1 parse_par [of F D sc m, folded m(1)]
      by (cases "meaning F sc c") (auto simp: parsed_ok split_beta' dest!: at_wordsD)
    ultimately show ?thesis by simp
  qed
  show "reached F D sc n (expr_level ?e) (need ?e) (meaning F sc ?e) rest (par F D sc n (expr_level ?e) st)"
    if "loop_level (expr_level ?e)" using that by (simp add: loop_level_def)
qed

lemma reads_cond:
  assumes "reads F D sc c" "reads F D sc a" "reads F D sc b"
  shows "reads F D sc (Cond c a b)"
proof (rule reads_words, unfold reads_body_def, intro allI impI conjI)
  fix n st rest
  let ?e = "Cond c a b"
  assume n: "need ?e \<le> n + 2" and "at_words (body_words ?e @ rest) (st :: 'a interp)"
  then have h: "at_words (words 1 c @ Fixed El_if # words 0 a @ Fixed El_else # words 0 b @ rest) st" by simp
  obtain m where m: "n = Suc m" "need a \<le> m" "need b \<le> m" using n need_4 [of c] by (cases n) simp_all
  show "parsed (meaning F sc ?e) rest (par F D sc n (expr_level ?e) st)" if "stops (expr_level ?e) rest"
  proof -
    have stop: "stops 0 rest" using that by simp
    have pc: "parsed (meaning F sc c) (Fixed El_if # words 0 a @ Fixed El_else # words 0 b @ rest) (par F D sc n 1 st)"
      using readsD(1) [OF assms(1) _ _ h] n need_4 [of a] by simp
    define last where "last = (\<lambda>v x (st :: 'a interp). if in_lookahead st = El_else then
      seq (el_match F El_else st) (\<lambda>st. seq (par F D sc m 0 st) (\<lambda>(y, st). el_return (ok (if elem_bool F v then x else y)) st))
      else el_return (ok (if elem_bool F v then x else Null)) st)"
    have last: "parsed (bind_res (meaning F sc b) (\<lambda>y. ok (if elem_bool F v then x else y))) rest (last v x st3)"
      if a3: "at_words (Fixed El_else # words 0 b @ rest) st3" for v x st3
    proof -
      have "parsed (bind_res (meaning F sc b) (\<lambda>y. ok (if elem_bool F v then x else y))) rest (seq (el_match F El_else st3)
          (\<lambda>st. seq (par F D sc m 0 st) (\<lambda>(y, st). el_return (ok (if elem_bool F v then x else y)) st)))"
      proof (rule parsed_match [OF a3])
        fix st4 assume "at_words (words 0 b @ rest) (st4 :: 'a interp)"
        then have "parsed (meaning F sc b) rest (par F D sc m 0 st4)" using readsD(1) [OF assms(3) _ m(3) _ stop] by simp
        then show "parsed (bind_res (meaning F sc b) (\<lambda>y. ok (if elem_bool F v then x else y))) rest
            (seq (par F D sc m 0 st4) (\<lambda>(y, st). el_return (ok (if elem_bool F v then x else y)) st))"
          by (rule parsed_seq) (simp only: prod.case parsed_return)
      qed simp
      then show ?thesis using at_wordsD [OF a3] by (simp add: last_def split_beta')
    qed
    have "parsed (meaning F sc ?e) rest (seq (par F D sc n 1 st) (\<lambda>(v, st).
        seq (el_match F El_if st) (\<lambda>st. seq (par F D sc m 0 st) (\<lambda>(x, st). last v x st))))"
      unfolding meaning.simps
    proof (rule parsed_seq [OF pc], unfold prod.case)
      fix v st1 assume "at_words (Fixed El_if # words 0 a @ Fixed El_else # words 0 b @ rest) (st1 :: 'a interp)"
      then show "parsed (bind_res (meaning F sc a) (\<lambda>x. bind_res (meaning F sc b) (\<lambda>y. ok (if elem_bool F v then x else y)))) rest
          (seq (el_match F El_if st1) (\<lambda>st. seq (par F D sc m 0 st) (\<lambda>(x, st). last v x st)))"
      proof (rule parsed_match)
        fix st2 assume "at_words (words 0 a @ Fixed El_else # words 0 b @ rest) (st2 :: 'a interp)"
        then have "parsed (meaning F sc a) (Fixed El_else # words 0 b @ rest) (par F D sc m 0 st2)"
          using readsD(1) [OF assms(2) _ m(2), of 0] by simp
        then show "parsed (bind_res (meaning F sc a) (\<lambda>x. bind_res (meaning F sc b) (\<lambda>y. ok (if elem_bool F v then x else y)))) rest
            (seq (par F D sc m 0 st2) (\<lambda>(x, st). last v x st))"
          by (rule parsed_seq) (simp only: prod.case last)
      qed simp
    qed
    moreover have "par F D sc n 0 st = seq (par F D sc n 1 st) (\<lambda>(v, st).
        seq (el_match F El_if st) (\<lambda>st. seq (par F D sc m 0 st) (\<lambda>(x, st). last v x st)))"
      using pc unfolding par_0 [of F D sc n] expr_body_def par_1 parse_par [of F D sc m, folded m(1)]
      by (cases "meaning F sc c") (auto simp: parsed_ok last_def split_beta' dest!: at_wordsD)
    ultimately show ?thesis by simp
  qed
  show "reached F D sc n (expr_level ?e) (need ?e) (meaning F sc ?e) rest (par F D sc n (expr_level ?e) st)"
    if "loop_level (expr_level ?e)" using that by (simp add: loop_level_def)
qed

lemma interpreter_reads: "reads F D sc e"
  by (induction e) (intro reads_leaves reads_unary reads_binary reads_elvis reads_cond; assumption)+

lemma words_ok: "expr_ok e \<Longrightarrow> list_all word_ok (body_words e)"
proof (induction e)
  case (Binary op a b)
  then show ?case by (cases op) simp_all
qed (auto simp: el_identifier_def)

lemma expr_read:
  assumes "expr_ok e" "need e < n"
  shows "whole_expr F D sc n (show_expr e) = Some (meaning F sc e)"
proof -
  obtain m where m: "n = Suc m" "need e \<le> m" using assms(2) by (cases n) simp_all
  have w: "words 0 e = body_words e" by simp
  obtain st where st: "interp_start F (show_expr e) = Some (ok st)" "at_words (words 0 e @ []) st"
    using next_word [of "words 0 e" "\<lparr>in_lookahead = El_eof, in_token = [], in_int = 0, in_float = fo_of_int F 0, in_rest = show_expr e, in_white = False\<rparr>" F]
      words_ok [OF assms(1)] by (auto simp: interp_start_def show_expr_def)
  have p: "parsed (meaning F sc e) [] (parse_expr F D sc n st)"
    using readsD(1) [OF interpreter_reads [of F D sc e] _ m(2) st(2)] by (simp add: m(1) par_0)
  have "body_words e \<noteq> []" by (cases e) simp_all
  then obtain x ws where b: "body_words e = x # ws" by (cases "body_words e") simp_all
  then have "word_ok x" using words_ok [OF assms(1)] by simp
  then have "word_token x \<noteq> El_eof" by (cases x) auto
  then have "next_class (words 0 e @ []) \<noteq> El_eof" using b by (simp add: next_class_def)
  then have l: "in_lookahead st \<noteq> El_eof" using at_words_class [OF st(2)] by simp
  show ?thesis
  proof (cases "meaning F sc e")
    case (Inl x)
    then show ?thesis using p l st(1) by (simp add: whole_expr_def)
  next
    case (Inr v)
    then obtain st1 where s1: "at_words [] st1" "parse_expr F D sc n st = Some (ok (v, st1))" using p by (auto simp: parsed_ok)
    then have "el_match F El_eof st1 = el_get_next_token F st1" by (simp add: at_words_def el_match_def)
    moreover obtain st2 where "el_get_next_token F st1 = Some (ok st2)" using next_word [of "[]" st1 F] s1(1) by (auto simp: at_words_def)
    ultimately show ?thesis using Inr l st(1) s1(2) by (simp add: whole_expr_def)
  qed
qed

text \<open>
  C29. The interpreter implements the reference: the text of an expression evaluates to its
  meaning, with the usual precedences, left grouping and parentheses; an exception of an
  operation gives the error message, and an undefined operation is reached.
\<close>
theorem interpreter_implements_reference:
  assumes "expr_ok e" "need e < n"
  shows "evaluate_el F D oor sc n (show_expr e) = caught_error oor (Some (meaning F sc e))"
  unfolding evaluate_el_def expr_read [OF assms] ..

theorem interpreter_implements_reference_witness:
  "\<forall>F D oor sc. evaluate_el F D oor sc 40 (show_expr (Binary Op_mult (Int_lit 7) (Binary Op_plus (Int_lit 2) (Int_lit 3))))
     = Some (ok (Number_int 35))"
proof (intro allI)
  fix F D oor sc
  let ?e = "Binary Op_mult (Int_lit 7) (Binary Op_plus (Int_lit 2) (Int_lit 3))"
  have "expr_ok ?e" "need ?e < 40" by simp_all
  from interpreter_implements_reference [OF this, of F D oor sc]
  show "evaluate_el F D oor sc 40 (show_expr ?e) = Some (ok (Number_int 35))"
    by (simp add: caught_error_def elem_mul_def elem_add_def number_of_def int64_def)
qed

text \<open>
  A conditional evaluates both branches: an error of the branch that is not taken is the
  error of the whole.
\<close>
lemma conditional_evaluates_both:
  assumes "expr_ok (Cond c a b)" "need (Cond c a b) < n"
    and "meaning F sc c = ok v" "meaning F sc a = ok x" "meaning F sc b = throw e"
  shows "evaluate_el F D oor sc n (show_expr (Cond c a b)) = caught_error oor (Some (throw e))"
  unfolding evaluate_el_def expr_read [OF assms(1,2)] by (simp add: assms)

lemma conditional_evaluates_both_witness:
  "\<forall>F D oor sc. evaluate_el F D oor sc 40 (show_expr (Cond (Bool_lit True) (Int_lit 1) (Binary Op_div (Int_lit 1) (Int_lit 0))))
     = Some (throw Undefined)"
proof (intro allI)
  fix F D oor sc
  let ?b = "Binary Op_div (Int_lit 1) (Int_lit 0)"
  have "expr_ok (Cond (Bool_lit True) (Int_lit 1) ?b)" "need (Cond (Bool_lit True) (Int_lit 1) ?b) < 40" by simp_all
  from conditional_evaluates_both [OF this, of F sc "Boolean True" "Number_int 1" Undefined D oor]
  show "evaluate_el F D oor sc 40 (show_expr (Cond (Bool_lit True) (Int_lit 1) ?b)) = Some (throw Undefined)"
    by (simp add: caught_error_def elem_div_def number_of_def int64_div_def)
qed

section \<open>Literal substitution\<close>

text \<open>
  \<open>retract\<close> steps back over a continuation byte to the byte before it, also where the
  continuation byte was the character to put back.
\<close>

lemma stray_continuation_read:
  assumes "in_rest st = CHR 0x80 # cs"
  shows "el_get_next_char st = ok (0, st\<lparr>in_token := in_token st @ [CHR 0x80], in_rest := cs\<rparr>)"
  using assms by (simp add: el_get_next_char_def el_next_byte_def ord32_def)

lemma stray_continuation_name:
  assumes "in_rest st = CHR ''a'' # CHR 0x80 # R" "in_token st = []"
  shows "el_token_loop F (Suc (Suc n)) El_Start fr st = Some (ok (El_object, st))"
proof -
  let ?one = "st\<lparr>in_token := ''a'', in_rest := CHR 0x80 # R\<rparr>" and ?two = "st\<lparr>in_token := ''a'' @ [CHR 0x80], in_rest := R\<rparr>"
  have a: "el_ident_char CHR ''a''" "\<not> isdigit CHR ''a''" by (simp_all add: el_ident_char_def isalpha_def islower_def isdigit_def)
  have c: "cont_char CHR 0x80" "\<not> cont_char CHR ''a''" by (simp_all add: cont_char_def el_continuation_def ord32_def)
  have "\<not> el_name_char 0" by (simp add: el_name_char_def el_name_start_char_def)
  moreover have "el_retract ?two = ok (st\<lparr>in_token := [], in_rest := CHR ''a'' # CHR 0x80 # R\<rparr>)"
    using el_retract_char [of ?two "[]" "CHR ''a''" "[CHR 0x80]"] c by simp
  ultimately have two: "el_token_loop F (Suc n) El_Name fr ?one = Some (ok (El_object, st\<lparr>in_token := [], in_rest := CHR ''a'' # CHR 0x80 # R\<rparr>))"
    using stray_continuation_read [of ?one R] by (simp add: el_name_def el_keywords_def)
  have "st\<lparr>in_token := [], in_rest := CHR ''a'' # CHR 0x80 # R\<rparr> = st" using assms by (cases st) simp
  with two start_name [OF a, of fr ?one] show ?thesis
    using read_ascii [of st "CHR ''a''" "CHR 0x80 # R"] assms by simp
qed

definition stuck_text :: string where
  "stuck_text = ''|a'' @ [CHR 0x80] @ ''|''"

definition stuck_state :: "'f float_ops \<Rightarrow> 'f interp" where
  "stuck_state F = \<lparr>in_lookahead = El_object, in_token = [], in_int = 0, in_float = fo_of_int F 0, in_rest = ''a'' @ [CHR 0x80] @ ''|'', in_white = True\<rparr>"

lemma stuck_state: "el_match F El_object (stuck_state F) = Some (ok (stuck_state F))"
  using stray_continuation_name [of "stuck_state F" "''|''" F 4 "fo_of_int F 1"]
  by (simp add: el_match_def el_get_next_token_def stuck_state_def eval_nat_numeral del: el_token_loop.simps)

definition stuck_first :: "'f float_ops \<Rightarrow> 'f interp" where
  "stuck_first F = stuck_state F\<lparr>in_lookahead := El_bar, in_token := ''|'', in_white := False\<rparr>"

lemma stuck_start: "interp_start F stuck_text = Some (ok (stuck_first F))"
  using read_simple [of "CHR ''|''" El_bar "\<lparr>in_lookahead = El_eof, in_token = [], in_int = 0, in_float = fo_of_int F 0, in_rest = stuck_text, in_white = False\<rparr>"
     "''a'' @ [CHR 0x80] @ ''|''" F 6 "fo_of_int F 1"]
  by (simp add: interp_start_def el_get_next_token_def stuck_text_def stuck_first_def stuck_state_def el_simple_tokens_def isdigit_def
      eval_nat_numeral del: el_token_loop.simps)

lemma stuck_bar: "el_match F El_bar (stuck_first F) = Some (ok (stuck_state F\<lparr>in_white := False\<rparr>))"
  using stray_continuation_name [of "stuck_first F\<lparr>in_token := []\<rparr>" "''|''" F 4 "fo_of_int F 1"]
  by (simp add: el_match_def el_get_next_token_def stuck_first_def stuck_state_def eval_nat_numeral del: el_token_loop.simps)

lemma literal_loop_stuck:
  assumes "in_lookahead st = El_object" "el_match F El_object st = Some (ok st)"
  shows "literal_loop F n template s st = None"
  using assms by (induction n arbitrary: s) simp_all

lemma stuck_primary: "parse_primary_expr F D sc n (stuck_first F) = None"
proof (cases n)
  case (Suc m)
  have "in_lookahead (stuck_first F) = El_bar" by (simp add: stuck_first_def)
  moreover have "stuck_state F\<lparr>in_white := True\<rparr> = stuck_state F" "in_lookahead (stuck_state F) = El_object" by (simp_all add: stuck_state_def)
  ultimately show ?thesis
    using literal_loop_stuck [OF _ stuck_state [of F]] stuck_bar [of F]
    by (simp add: Suc primary_body_def Let_def parse_literal_substitution_def)
qed simp

lemma stuck_par: "1 \<le> k \<Longrightarrow> k \<le> 8 \<Longrightarrow> par F D sc n k (stuck_first F) = None"
proof (induction "8 - k" arbitrary: k)
  case 0
  then have "k = 8" by simp
  then show ?case by (simp add: par_8 stuck_primary)
next
  case (Suc d)
  then have next_level: "par F D sc n (k + 1) (stuck_first F) = None" by (cases "k = 8") simp_all
  have "in_lookahead (stuck_first F) = El_bar" by (simp add: stuck_first_def)
  then have seven: "k = 7 \<Longrightarrow> ?case" using next_level by (simp add: par_7 parse_unary_expr_def)
  have four: "k = 4 \<Longrightarrow> ?case" using next_level by (simp add: par_def parse_relational_expr_def Let_def)
  have "k = 7 \<or> loop_level k \<or> k = 3 \<or> k = 4" using Suc.hyps(2) Suc.prems by (fastforce simp: loop_level_def)
  then show ?case using next_level seven four by (auto simp: par_loop par_3)
qed

text \<open>
  C30. Literal substitution can go on for ever: on a name followed by a stray continuation
  byte, between bars, the evaluation returns for no amount of fuel.
\<close>
theorem literal_substitution_never_returns:
  "evaluate_el F D oor sc n stuck_text = None"
proof (cases n)
  case (Suc m)
  have "in_lookahead (stuck_first F) \<noteq> El_eof" by (simp add: stuck_first_def)
  moreover have "par F D sc m 1 (stuck_first F) = None" by (rule stuck_par) simp_all
  then have "parse_expr F D sc n (stuck_first F) = None" by (simp add: Suc expr_body_def par_1)
  ultimately show ?thesis by (simp add: evaluate_el_def whole_expr_def stuck_start caught_error_def)
qed (simp add: evaluate_el_def whole_expr_def stuck_start caught_error_def stuck_first_def)

end
