(* ===== verification/Xml_Node.thy ===== *)
theory Xml_Node
  imports Prelude "HOL-Library.Multiset"
begin

text \<open>
  The XML tree (\<open>zeep/xml/node.hpp\<close>, \<open>node.cpp\<close>) on top of its child lists, which \<open>Node_List\<close>
  models: names and namespaces, attributes, comparison, copies and text. A node is a tree;
  what it asks its parents is an argument, the attributes of its ancestors, the nearest
  first.
\<close>

section \<open>Nodes and names\<close>

record xml_attr =
  at_qname :: string
  at_value :: string
  at_id :: bool

datatype xml_node =
    Xelement string "xml_attr list" "xml_node list"
  | Xtext string
  | Xcdata string
  | Xcomment string
  | Xpi string string

type_synonym ancestors = "xml_attr list list"

definition attr :: "string \<Rightarrow> string \<Rightarrow> xml_attr" where
  "attr qname v = \<lparr>at_qname = qname, at_value = v, at_id = False\<rparr>"

fun get_qname :: "xml_node \<Rightarrow> string" where
  "get_qname (Xelement qname _ _) = qname"
| "get_qname (Xpi target _) = target"
| "get_qname _ = []"

fun node_attributes :: "xml_node \<Rightarrow> xml_attr list" where
  "node_attributes (Xelement _ as _) = as"
| "node_attributes _ = []"

fun child_nodes :: "xml_node \<Rightarrow> xml_node list" where
  "child_nodes (Xelement _ _ ns) = ns"
| "child_nodes _ = []"

fun is_element :: "xml_node \<Rightarrow> bool" where
  "is_element (Xelement _ _ _) = True"
| "is_element _ = False"

text \<open>What \<open>dynamic_cast<text*>\<close> finds; \<open>cdata\<close> is derived from \<open>text\<close>.\<close>

fun text_of_node :: "xml_node \<Rightarrow> string option" where
  "text_of_node (Xtext s) = Some s"
| "text_of_node (Xcdata s) = Some s"
| "text_of_node _ = None"

definition local_name :: "string \<Rightarrow> string" where
  "local_name qn = (case find_char CHR '':'' qn of Some i \<Rightarrow> drop (i + 1) qn | None \<Rightarrow> qn)"

definition prefix_of :: "string \<Rightarrow> string" where
  "prefix_of qn = (case find_char CHR '':'' qn of Some i \<Rightarrow> take i qn | None \<Rightarrow> [])"

definition prefixed :: "string \<Rightarrow> string \<Rightarrow> string" where
  "prefixed prefix name = (if prefix = [] then name else prefix @ '':'' @ name)"

definition is_namespace :: "xml_attr \<Rightarrow> bool" where
  "is_namespace a \<longleftrightarrow> take 5 (at_qname a) = ''xmlns''
     \<and> (case drop 5 (at_qname a) of [] \<Rightarrow> True | c # _ \<Rightarrow> c = CHR 0x00 \<or> c = CHR '':'')"

section \<open>Attributes\<close>

definition find_attr :: "string \<Rightarrow> xml_attr list \<Rightarrow> xml_attr option" where
  "find_attr qname as = List.find (\<lambda>a. at_qname a = qname) as"

text \<open>\<open>emplace\<close>: an attribute with that name takes over the value and the id flag.\<close>

fun emplace_attr :: "xml_attr \<Rightarrow> xml_attr list \<Rightarrow> xml_attr list" where
  "emplace_attr a [] = [a]"
| "emplace_attr a (b # bs) = (if at_qname b = at_qname a then a # bs else b # emplace_attr a bs)"

fun erase_attr :: "string \<Rightarrow> xml_attr list \<Rightarrow> xml_attr list" where
  "erase_attr qname [] = []"
| "erase_attr qname (b # bs) = (if at_qname b = qname then bs else b # erase_attr qname bs)"

definition copy_attrs :: "xml_attr list \<Rightarrow> xml_attr list" where
  "copy_attrs as = foldl (\<lambda>bs a. emplace_attr a bs) [] as"

definition element_get_attribute :: "string \<Rightarrow> xml_attr list \<Rightarrow> string" where
  "element_get_attribute qname as = (case find_attr qname as of Some a \<Rightarrow> at_value a | None \<Rightarrow> [])"

definition set_attribute :: "string \<Rightarrow> string \<Rightarrow> xml_attr list \<Rightarrow> xml_attr list" where
  "set_attribute qname v as = emplace_attr (attr qname v) as"

definition element_id :: "xml_attr list \<Rightarrow> string" where
  "element_id as = (case List.find at_id as of Some a \<Rightarrow> at_value a | None \<Rightarrow> [])"

text \<open>
  \<open>sort\<close> of a list exchanges the contents of two nodes that are out of order;
  \<open>attribute::swap\<close> exchanges name and value, and leaves the id flag.
\<close>

definition swap_attr :: "xml_attr \<Rightarrow> xml_attr \<Rightarrow> xml_attr \<times> xml_attr" where
  "swap_attr a b = (b\<lparr>at_id := at_id a\<rparr>, a\<lparr>at_id := at_id b\<rparr>)"

fun sort_inner :: "(xml_attr \<Rightarrow> xml_attr \<Rightarrow> bool) \<Rightarrow> xml_attr \<Rightarrow> xml_attr list \<Rightarrow> xml_attr \<times> xml_attr list" where
  "sort_inner lt a [] = (a, [])"
| "sort_inner lt a (b # bs) =
     (let (a, b) = (if lt b a then swap_attr a b else (a, b)); (a, bs) = sort_inner lt a bs in (a, b # bs))"

lemma sort_inner_length: "length (snd (sort_inner lt a bs)) = length bs"
  by (induction lt a bs rule: sort_inner.induct) (auto simp: Let_def split: prod.splits)

function sort_attrs :: "(xml_attr \<Rightarrow> xml_attr \<Rightarrow> bool) \<Rightarrow> xml_attr list \<Rightarrow> xml_attr list" where
  "sort_attrs lt [] = []"
| "sort_attrs lt (a # as) = (let (a, as) = sort_inner lt a as in a # sort_attrs lt as)"
  by pat_completeness auto
termination
proof (relation "measure (\<lambda>(lt, as). length as)")
  fix lt a as x p q
  assume "x = sort_inner lt a as" "(p, q) = x"
  then have "length q = length as" by (metis snd_conv sort_inner_length)
  then show "((lt, q), (lt, a # as)) \<in> measure (\<lambda>(lt, as). length as)" by simp
qed simp

section \<open>Namespaces\<close>

fun declared_namespace :: "string \<Rightarrow> xml_attr list \<Rightarrow> string" where
  "declared_namespace prefix [] = []"
| "declared_namespace prefix (a # as) =
     (if \<not> is_namespace a then declared_namespace prefix as
      else if local_name (at_qname a) = ''xmlns'' then (if prefix = [] then at_value a else declared_namespace prefix as)
      else if local_name (at_qname a) = prefix then at_value a
      else declared_namespace prefix as)"

text \<open>An empty result is looked for further out, also where the declaration was empty.\<close>

fun namespace_for_prefix :: "ancestors \<Rightarrow> string \<Rightarrow> string" where
  "namespace_for_prefix [] prefix = []"
| "namespace_for_prefix (as # up) prefix =
     (let result = declared_namespace prefix as in
      if result = [] then namespace_for_prefix up prefix else result)"

fun declared_prefix :: "string \<Rightarrow> xml_attr list \<Rightarrow> string option" where
  "declared_prefix uri [] = None"
| "declared_prefix uri (a # as) =
     (if is_namespace a \<and> at_value a = uri then Some (if length (at_qname a) > 6 then drop 6 (at_qname a) else [])
      else declared_prefix uri as)"

fun prefix_for_namespace :: "ancestors \<Rightarrow> string \<Rightarrow> string option" where
  "prefix_for_namespace [] uri = None"
| "prefix_for_namespace (as # up) uri =
     (case declared_prefix uri as of Some p \<Rightarrow> Some p | None \<Rightarrow> prefix_for_namespace up uri)"

definition prefix_tag :: "ancestors \<Rightarrow> string \<Rightarrow> string \<Rightarrow> string" where
  "prefix_tag up tag uri = (case prefix_for_namespace up uri of Some p \<Rightarrow> p @ '':'' @ tag | None \<Rightarrow> tag)"

definition get_ns :: "ancestors \<Rightarrow> xml_node \<Rightarrow> string" where
  "get_ns up n = namespace_for_prefix (if is_element n then node_attributes n # up else up) (prefix_of (get_qname n))"

text \<open>The attribute \<open>xml:lang\<close> of the nearest element that has one.\<close>

fun element_lang :: "ancestors \<Rightarrow> string" where
  "element_lang [] = []"
| "element_lang (as # up) = (case find_attr ''xml:lang'' as of Some a \<Rightarrow> at_value a | None \<Rightarrow> element_lang up)"

section \<open>Comparison\<close>

definition is_space_text :: "xml_node \<Rightarrow> bool" where
  "is_space_text n = (case text_of_node n of Some s \<Rightarrow> list_all (\<lambda>c. c \<in> {CHR '' '', CHR 0x09, CHR 0x0A, CHR 0x0D}) s | None \<Rightarrow> False)"

definition same_attr :: "xml_attr \<Rightarrow> xml_attr \<Rightarrow> bool" where
  "same_attr a b \<longleftrightarrow> at_qname a = at_qname b \<and> at_value a = at_value b"

text \<open>A \<open>std::set\<close> of attributes: ordered by name, the first of equal names is kept.\<close>

fun insert_attr :: "xml_attr \<Rightarrow> xml_attr list \<Rightarrow> xml_attr list" where
  "insert_attr a [] = [a]"
| "insert_attr a (b # bs) =
     (if at_qname a < at_qname b then a # b # bs else if at_qname b < at_qname a then b # insert_attr a bs else b # bs)"

definition attr_set :: "xml_attr list \<Rightarrow> xml_attr list" where
  "attr_set as = foldl (\<lambda>bs a. insert_attr a bs) [] as"

text \<open>
  The loop over two such sets. Where it stops at a difference, both iterators have moved on,
  and the result is computed from them afresh.
\<close>

fun compare_attrs :: "xml_attr list \<Rightarrow> xml_attr list \<Rightarrow> string set \<Rightarrow> string set \<Rightarrow> bool" where
  "compare_attrs [] [] nsa nsb = (nsa = nsb)"
| "compare_attrs [] (b # bs) nsa nsb = (if is_namespace b then compare_attrs [] bs nsa (insert (at_value b) nsb) else False)"
| "compare_attrs (a # as) [] nsa nsb = (if is_namespace a then compare_attrs as [] (insert (at_value a) nsa) nsb else False)"
| "compare_attrs (a # as) (b # bs) nsa nsb =
     (if is_namespace a then compare_attrs as (b # bs) (insert (at_value a) nsa) nsb
      else if is_namespace b then compare_attrs (a # as) bs nsa (insert (at_value b) nsb)
      else if \<not> same_attr a b then as = [] \<and> bs = [] \<and> nsa = nsb
      else compare_attrs as bs nsa nsb)"

definition attrs_equal :: "xml_attr list \<Rightarrow> xml_attr list \<Rightarrow> bool" where
  "attrs_equal as bs \<longleftrightarrow> list_all2 same_attr as bs \<or> compare_attrs (attr_set as) (attr_set bs) {} {}"

function xml_equals :: "ancestors \<Rightarrow> ancestors \<Rightarrow> xml_node \<Rightarrow> xml_node \<Rightarrow> bool"
  and children_equal :: "ancestors \<Rightarrow> ancestors \<Rightarrow> xml_node list \<Rightarrow> xml_node list \<Rightarrow> bool" where
  "xml_equals u v (Xelement q as ms) (Xelement r bs ns) =
     (let e = Xelement q as ms; f = Xelement r bs ns in
      children_equal (as # u) (bs # v) ms ns \<and> local_name q = local_name r \<and> get_ns u e = get_ns v f \<and> attrs_equal as bs)"
| "xml_equals u v (Xelement q as ms) (Xtext t) = False"
| "xml_equals u v (Xelement q as ms) (Xcdata t) = False"
| "xml_equals u v (Xelement q as ms) (Xcomment t) = False"
| "xml_equals u v (Xelement q as ms) (Xpi t' t) = False"
| "xml_equals u v (Xtext s) n = (case text_of_node n of Some t \<Rightarrow> trim s = trim t | None \<Rightarrow> False)"
| "xml_equals u v (Xcdata s) n = (case n of Xcdata t \<Rightarrow> s = t | _ \<Rightarrow> False)"
| "xml_equals u v (Xcomment s) n = (case n of Xcomment t \<Rightarrow> s = t | _ \<Rightarrow> False)"
| "xml_equals u v (Xpi p s) n = (case n of Xpi r t \<Rightarrow> s = t | _ \<Rightarrow> False)"
| "children_equal u v [] [] = True"
| "children_equal u v [] (n # ns) = (if is_space_text n then children_equal u v [] ns else False)"
| "children_equal u v (m # ms) [] = (if is_space_text m then children_equal u v ms [] else False)"
| "children_equal u v (m # ms) (n # ns) =
     (if xml_equals u v m n then children_equal u v ms ns
      else if is_space_text m then children_equal u v ms (n # ns)
      else if is_space_text n then children_equal u v (m # ms) ns
      else False)"
  by pat_completeness auto
termination
  by (relation "measure (\<lambda>x. case x of Inl (u, v, m, n) \<Rightarrow> size m + size n | Inr (u, v, ms, ns) \<Rightarrow> size_list size ms + size_list size ns)") simp_all

section \<open>Copies\<close>

text \<open>\<open>clone\<close>; the copy of a processing instruction has its target for its text.\<close>

fun clone :: "xml_node \<Rightarrow> xml_node" where
  "clone (Xelement q as ns) = Xelement q (copy_attrs as) (map clone ns)"
| "clone (Xtext s) = Xtext s"
| "clone (Xcdata s) = Xcdata s"
| "clone (Xcomment s) = Xcomment s"
| "clone (Xpi target s) = Xpi target target"

text \<open>The assignment \<open>e = f\<close> of elements; the name of \<open>e\<close> stays.\<close>

fun assign_element :: "xml_node \<Rightarrow> xml_node \<Rightarrow> xml_node" where
  "assign_element (Xelement q as ms) (Xelement r bs ns) = Xelement q (copy_attrs bs) (map clone ns)"
| "assign_element e f = e"

section \<open>Text\<close>

definition get_content :: "xml_node list \<Rightarrow> string" where
  "get_content ns = concat (map (\<lambda>n. case text_of_node n of Some s \<Rightarrow> s | None \<Rightarrow> []) ns)"

text \<open>
  The loop that removes the text nodes: after a removal the iterator is at the next node,
  which the step of the loop skips.
\<close>

fun remove_texts :: "xml_node list \<Rightarrow> xml_node list" where
  "remove_texts [] = []"
| "remove_texts [n] = (if text_of_node n \<noteq> None then [] else [n])"
| "remove_texts (n # m # ns) = (if text_of_node n \<noteq> None then m # remove_texts ns else n # remove_texts (m # ns))"

definition element_set_content :: "string \<Rightarrow> xml_node list \<Rightarrow> xml_node list" where
  "element_set_content s ns = remove_texts ns @ [Xtext s]"

text \<open>\<open>str\<close>: that of a comment or processing instruction is its text.\<close>

fun node_str :: "xml_node \<Rightarrow> string" where
  "node_str (Xelement _ _ ns) = concat (map node_str ns)"
| "node_str (Xtext s) = s"
| "node_str (Xcdata s) = s"
| "node_str (Xcomment s) = s"
| "node_str (Xpi _ s) = s"

definition add_text :: "string \<Rightarrow> xml_node list \<Rightarrow> xml_node list" where
  "add_text s ns =
     (case rev ns of
        Xtext t # rs \<Rightarrow> rev rs @ [Xtext (t @ s)]
      | _ \<Rightarrow> ns @ [Xtext s])"

fun append_text :: "string \<Rightarrow> xml_node \<Rightarrow> xml_node" where
  "append_text s (Xtext t) = Xtext (t @ s)"
| "append_text s (Xcdata t) = Xcdata (t @ s)"
| "append_text s n = n"

function flatten_text :: "xml_node list \<Rightarrow> xml_node list" where
  "flatten_text [] = []"
| "flatten_text [n] = [n]"
| "flatten_text (n # m # ns) =
     (if text_of_node n = None then n # flatten_text (m # ns)
      else (case text_of_node m of
              None \<Rightarrow> n # flatten_text (m # ns)
            | Some s \<Rightarrow> flatten_text (append_text s n # ns)))"
  by pat_completeness auto
termination
  by (relation "measure length") simp_all

section \<open>Moving to another namespace\<close>

fun set_declaration :: "string \<Rightarrow> string \<Rightarrow> xml_attr list \<Rightarrow> xml_attr list option" where
  "set_declaration prefix uri [] = None"
| "set_declaration prefix uri (a # as) =
     (if is_namespace a \<and> length (at_qname a) > 6 \<and> drop 6 (at_qname a) = prefix then Some (a\<lparr>at_value := uri\<rparr> # as)
      else map_option (\<lambda>as. a # as) (set_declaration prefix uri as))"

definition declare_prefix :: "ancestors \<Rightarrow> string \<Rightarrow> string \<Rightarrow> xml_attr list \<Rightarrow> xml_attr list res" where
  "declare_prefix up prefix uri as =
     (case prefix_for_namespace (as # up) uri of
        Some p \<Rightarrow>
          if p \<noteq> prefix then throw (Zeep_exception (''Invalid prefix in move_to_name_space, already known as '' @ [CHR 0x27] @ p @ [CHR 0x27]))
          else ok as
      | None \<Rightarrow>
          (case set_declaration prefix uri as of
             Some as \<Rightarrow> ok as
           | None \<Rightarrow> ok (emplace_attr (attr (if prefix = [] then ''xmlns'' else ''xmlns:'' @ prefix) uri) as)))"

text \<open>The loops over the attributes, which see the names changed so far: \<open>done\<close> is behind them.\<close>

fun move_declarations :: "ancestors \<Rightarrow> xml_attr list \<Rightarrow> xml_attr list \<Rightarrow> xml_attr list" where
  "move_declarations up seen [] = seen"
| "move_declarations up seen (a # as) =
     (if is_namespace a \<and> prefix_for_namespace ((seen @ a # as) # up) (at_value a) = None
      then move_declarations up (seen @ [a\<lparr>at_qname := prefixed ''xmlns'' []\<rparr>]) as
      else move_declarations up (seen @ [a]) as)"

fun move_attributes :: "ancestors \<Rightarrow> string \<Rightarrow> xml_attr list \<Rightarrow> xml_attr list \<Rightarrow> xml_attr list res" where
  "move_attributes up prefix seen [] = ok seen"
| "move_attributes up prefix seen (a # as) =
     (if is_namespace a then move_attributes up prefix (seen @ [a]) as
      else
        (let ns = namespace_for_prefix ((seen @ a # as) # up) (prefix_of (at_qname a)) in
         if ns = [] then
           move_attributes up prefix (seen @ [a\<lparr>at_qname := prefix @ '':'' @ local_name (at_qname a)\<rparr>]) as
         else
           (case prefix_for_namespace ((seen @ a # as) # up) ns of
              None \<Rightarrow> throw (Zeep_exception (''Cannot move element to new namespace, namespace not found: '' @ ns))
            | Some p \<Rightarrow> move_attributes up prefix (seen @ [a\<lparr>at_qname := prefixed p (local_name (at_qname a))\<rparr>]) as)))"

function move_to_name_space :: "ancestors \<Rightarrow> string \<Rightarrow> string \<Rightarrow> bool \<Rightarrow> bool \<Rightarrow> xml_node \<Rightarrow> xml_node res"
  and move_children :: "ancestors \<Rightarrow> string \<Rightarrow> string \<Rightarrow> bool \<Rightarrow> xml_node list \<Rightarrow> xml_node list res" where
  "move_to_name_space up prefix uri recursive attributes (Xelement q as ns) =
     bind_res (declare_prefix up prefix uri as) (\<lambda>as.
     bind_res (if attributes then move_attributes up prefix [] (move_declarations up [] as) else ok as) (\<lambda>as.
     bind_res (if recursive then move_children (as # up) prefix uri attributes ns else ok ns) (\<lambda>ns.
       ok (Xelement (prefixed prefix (local_name q)) as ns))))"
| "move_to_name_space up prefix uri recursive attributes (Xtext s) = ok (Xtext s)"
| "move_to_name_space up prefix uri recursive attributes (Xcdata s) = ok (Xcdata s)"
| "move_to_name_space up prefix uri recursive attributes (Xcomment s) = ok (Xcomment s)"
| "move_to_name_space up prefix uri recursive attributes (Xpi t s) = ok (Xpi t s)"
| "move_children up prefix uri attributes [] = ok []"
| "move_children up prefix uri attributes (n # ns) =
     bind_res (move_to_name_space up prefix uri True attributes n) (\<lambda>n.
     bind_res (move_children up prefix uri attributes ns) (\<lambda>ns. ok (n # ns)))"
  by pat_completeness auto
termination
  by (relation "measure (\<lambda>x. case x of Inl (up, p, u, r, a, n) \<Rightarrow> size n | Inr (up, p, u, a, ns) \<Rightarrow> size_list size ns)") simp_all

text \<open>
  \<open>fix_namespaces\<close> for an element \<open>e\<close> that is not the destination: the stack visits a node,
  then its attributes from the last, then its elements from the last. The state is the
  prefixes met and the attributes of the destination.
\<close>

type_synonym fix_state = "(string \<times> string) list \<times> xml_attr list"

definition fix_name :: "ancestors \<Rightarrow> ancestors \<Rightarrow> ancestors \<Rightarrow> string \<Rightarrow> fix_state \<Rightarrow> string \<times> fix_state" where
  "fix_name chain source dest_up q st =
     (let (mapped, dest) = st; p = prefix_of q in
      if p = [] then (q, st)
      else
        (case map_of mapped p of
           Some p' \<Rightarrow> (if p' \<noteq> p then prefixed p' (local_name q) else q, st)
         | None \<Rightarrow>
             (let ns = namespace_for_prefix chain p;
                  ns = (if ns = [] then namespace_for_prefix source p else ns)
              in
              case prefix_for_namespace (dest # dest_up) ns of
                Some p' \<Rightarrow> (prefixed p' (local_name q), (p, p') # mapped, dest)
              | None \<Rightarrow> (q, (p, p) # mapped, emplace_attr (attr (''xmlns:'' @ p) ns) dest))))"

fun fix_attributes :: "ancestors \<Rightarrow> ancestors \<Rightarrow> ancestors \<Rightarrow> xml_attr list \<Rightarrow> xml_attr list \<Rightarrow> fix_state \<Rightarrow> xml_attr list \<times> fix_state" where
  "fix_attributes up source dest_up [] fixed st = (fixed, st)"
| "fix_attributes up source dest_up (a # rest) fixed st =
     (let (q, st) = fix_name ((rev rest @ a # fixed) # up) source dest_up (at_qname a) st in
      fix_attributes up source dest_up rest (a\<lparr>at_qname := q\<rparr> # fixed) st)"

function fix_element :: "ancestors \<Rightarrow> ancestors \<Rightarrow> ancestors \<Rightarrow> xml_node \<Rightarrow> fix_state \<Rightarrow> xml_node \<times> fix_state"
  and fix_children :: "ancestors \<Rightarrow> ancestors \<Rightarrow> ancestors \<Rightarrow> xml_node list \<Rightarrow> fix_state \<Rightarrow> xml_node list \<times> fix_state" where
  "fix_element up source dest_up (Xelement q as ns) st =
     (let (q, st) = fix_name (as # up) source dest_up q st;
          (as, st) = fix_attributes up source dest_up (rev as) [] st;
          (ns, st) = fix_children (as # up) source dest_up ns st
      in (Xelement q as ns, st))"
| "fix_element up source dest_up (Xtext s) st = (Xtext s, st)"
| "fix_element up source dest_up (Xcdata s) st = (Xcdata s, st)"
| "fix_element up source dest_up (Xcomment s) st = (Xcomment s, st)"
| "fix_element up source dest_up (Xpi t s) st = (Xpi t s, st)"
| "fix_children up source dest_up [] st = ([], st)"
| "fix_children up source dest_up (n # ns) st =
     (let (ns, st) = fix_children up source dest_up ns st; (n, st) = fix_element up source dest_up n st in (n # ns, st))"
  by pat_completeness auto
termination
  by (relation "measure (\<lambda>x. case x of Inl (up, s, d, n, st) \<Rightarrow> size n | Inr (up, s, d, ns, st) \<Rightarrow> size_list size ns)") simp_all

definition fix_namespaces :: "ancestors \<Rightarrow> ancestors \<Rightarrow> ancestors \<Rightarrow> xml_node \<Rightarrow> xml_attr list \<Rightarrow> xml_node \<times> xml_attr list" where
  "fix_namespaces up source dest_up e dest =
     (let (e, mapped, dest) = fix_element up source dest_up e ([], dest) in (e, dest))"
section \<open>Attributes behave as a map\<close>

definition attrs_ok :: "xml_attr list \<Rightarrow> bool" where
  "attrs_ok as \<longleftrightarrow> distinct (map at_qname as)"

lemma find_attr_simps [simp]:
  "find_attr q [] = None" "find_attr q (a # as) = (if at_qname a = q then Some a else find_attr q as)"
  by (simp_all add: find_attr_def)

lemma find_attr_None [simp]: "find_attr q as = None \<longleftrightarrow> q \<notin> at_qname ` set as"
  by (induction as) auto

lemma find_emplace [simp]: "find_attr q (emplace_attr a as) = (if q = at_qname a then Some a else find_attr q as)"
  by (induction a as rule: emplace_attr.induct) auto

lemma emplace_names: "at_qname ` set (emplace_attr a as) = insert (at_qname a) (at_qname ` set as)"
  by (induction a as rule: emplace_attr.induct) auto

lemma attrs_ok_emplace [simp]: "attrs_ok as \<Longrightarrow> attrs_ok (emplace_attr a as)"
proof (induction a as rule: emplace_attr.induct)
  case (2 a b bs)
  then show ?case using emplace_names [of a bs] by (auto simp: attrs_ok_def)
qed (simp add: attrs_ok_def)

lemma erase_names: "at_qname ` set (erase_attr q as) \<subseteq> at_qname ` set as"
  by (induction q as rule: erase_attr.induct) auto

lemma attrs_ok_erase [simp]: "attrs_ok as \<Longrightarrow> attrs_ok (erase_attr q as)"
proof (induction q as rule: erase_attr.induct)
  case (2 q b bs)
  then show ?case using erase_names [of q bs] by (auto simp: attrs_ok_def)
qed simp

lemma find_erase: "attrs_ok as \<Longrightarrow> find_attr p (erase_attr q as) = (if p = q then None else find_attr p as)"
  by (induction q as rule: erase_attr.induct) (auto simp: attrs_ok_def)

lemma emplace_new: "at_qname a \<notin> at_qname ` set as \<Longrightarrow> emplace_attr a as = as @ [a]"
  by (induction a as rule: emplace_attr.induct) auto

lemma foldl_emplace: "attrs_ok (bs @ as) \<Longrightarrow> foldl (\<lambda>bs a. emplace_attr a bs) bs as = bs @ as"
proof (induction as arbitrary: bs)
  case (Cons a as)
  then have "emplace_attr a bs = bs @ [a]" by (intro emplace_new) (auto simp: attrs_ok_def)
  then show ?case using Cons by simp
qed simp

lemma copy_attrs_id: "attrs_ok as \<Longrightarrow> copy_attrs as = as"
  using foldl_emplace [of "[]" as] by (simp add: copy_attrs_def)

text \<open>A copy is the node itself, where no processing instruction is in it.\<close>

fun copyable :: "xml_node \<Rightarrow> bool" where
  "copyable (Xelement q as ns) = (attrs_ok as \<and> list_all copyable ns)"
| "copyable (Xpi target s) = (s = target)"
| "copyable n = True"

lemma clone_copyable: "copyable n \<Longrightarrow> clone n = n"
proof (induction n)
  case (Xelement q as ns)
  then have "map clone ns = ns" by (intro map_idI) (auto simp: list_all_iff)
  then show ?case using Xelement.prems by (simp add: copy_attrs_id)
qed simp_all

section \<open>Sorting\<close>

definition contents :: "xml_attr \<Rightarrow> string \<times> string" where
  "contents a = (at_qname a, at_value a)"

lemma swap_attr_contents [simp]:
  "contents (fst (swap_attr a b)) = contents b" "contents (snd (swap_attr a b)) = contents a"
  "at_id (fst (swap_attr a b)) = at_id a" "at_id (snd (swap_attr a b)) = at_id b"
  by (simp_all add: swap_attr_def contents_def)

lemma sort_inner_result:
  assumes lt: "\<And>x y. lt x y \<longleftrightarrow> f (contents x) < (f (contents y) :: 'k :: linorder)"
  shows "sort_inner lt a bs = (a', bs') \<Longrightarrow>
    mset (map contents (a' # bs')) = mset (map contents (a # bs)) \<and> map at_id (a' # bs') = map at_id (a # bs)
    \<and> f (contents a') \<le> f (contents a) \<and> (\<forall>b \<in> set bs'. f (contents a') \<le> f (contents b))"
proof (induction bs arbitrary: a a' bs')
  case (Cons b bs)
  define p where "p = (if lt b a then swap_attr a b else (a, b))"
  obtain a1 b1 where p: "p = (a1, b1)" by (cases p)
  obtain a2 cs where r: "sort_inner lt a1 bs = (a2, cs)" by (cases "sort_inner lt a1 bs")
  have a': "a' = a2" "bs' = b1 # cs" using Cons.prems p r by (simp_all add: Let_def p_def [symmetric])
  have swap: "{#contents a1, contents b1#} = {#contents a, contents b#}" "at_id a1 = at_id a" "at_id b1 = at_id b"
    "f (contents a1) \<le> f (contents a)" "f (contents a1) \<le> f (contents b1)"
  proof -
    have "(a1 = fst (swap_attr a b) \<and> b1 = snd (swap_attr a b) \<and> f (contents b) < f (contents a)) \<or> (a1 = a \<and> b1 = b \<and> f (contents a) \<le> f (contents b))"
      using p lt [of b a] by (cases "lt b a") (auto simp: p_def)
    then show "{#contents a1, contents b1#} = {#contents a, contents b#}" "at_id a1 = at_id a" "at_id b1 = at_id b"
      "f (contents a1) \<le> f (contents a)" "f (contents a1) \<le> f (contents b1)" by auto
  qed
  from Cons.IH [OF r] have ih: "mset (map contents (a2 # cs)) = mset (map contents (a1 # bs))" "map at_id (a2 # cs) = map at_id (a1 # bs)"
    "f (contents a2) \<le> f (contents a1)" "\<forall>b \<in> set cs. f (contents a2) \<le> f (contents b)" by blast+
  have "mset (map contents (a' # bs')) = add_mset (contents b1) (mset (map contents (a2 # cs)))" using a' by (simp add: add_mset_commute)
  also have "\<dots> = {#contents a1, contents b1#} + mset (map contents bs)" using ih(1) by (simp add: add_mset_commute)
  also have "\<dots> = mset (map contents (a # b # bs))" using swap(1) by simp
  finally show ?case using swap ih(2-4) a' by auto
qed simp

lemma sort_attrs_result:
  assumes lt: "\<And>x y. lt x y \<longleftrightarrow> f (contents x) < (f (contents y) :: 'k :: linorder)"
  shows "mset (map contents (sort_attrs lt as)) = mset (map contents as) \<and> map at_id (sort_attrs lt as) = map at_id as
    \<and> sorted_wrt (\<lambda>a b. f (contents a) \<le> f (contents b)) (sort_attrs lt as)"
proof (induction "length as" arbitrary: as)
  case (Suc n)
  then obtain a bs where as: "as = a # bs" by (cases as) simp_all
  obtain a' bs' where r: "sort_inner lt a bs = (a', bs')" by (cases "sort_inner lt a bs")
  note inner = sort_inner_result [of lt f, OF lt r]
  have "length bs' = n" using inner Suc.hyps(2) as by (metis length_map list.size(4) add_right_cancel One_nat_def add.right_neutral add_Suc_right)
  note rest = Suc.hyps(1) [of bs', OF this [symmetric]]
  have "contents ` set (sort_attrs lt bs') = contents ` set bs'" using rest by (metis image_set set_mset_mset)
  then have "\<forall>b \<in> set (sort_attrs lt bs'). f (contents a') \<le> f (contents b)" using inner by (metis (mono_tags, lifting) imageE imageI)
  then show ?case using inner rest as r by simp
qed simp
section \<open>Comparison\<close>

lemma attrs_equal_refl: "attrs_equal as as"
  by (simp add: attrs_equal_def list.rel_refl same_attr_def)

lemma children_equal_self: "(\<And>n. n \<in> set ns \<Longrightarrow> xml_equals u v n n) \<Longrightarrow> children_equal u v ns ns"
  by (induction ns) simp_all

lemma xml_equals_self: "\<forall>p. namespace_for_prefix u p = namespace_for_prefix v p \<Longrightarrow> xml_equals u v n n"
proof (induction n arbitrary: u v)
  case (Xelement q as ns)
  then have "children_equal (as # u) (as # v) ns ns" by (intro children_equal_self Xelement.IH) (simp_all add: Let_def)
  then show ?case using Xelement.prems by (simp add: Let_def attrs_equal_refl get_ns_def)
qed simp_all

lemma last_attribute_ignored:
  assumes "\<not> is_namespace (attr k v)"
  shows "xml_equals u u (Xelement q [attr k v] ns) (Xelement q [attr k w] ns)"
proof -
  have "\<not> is_namespace (attr k w)" using assms by (simp add: is_namespace_def attr_def)
  then have "attrs_equal [attr k v] [attr k w]"
    using assms by (auto simp: attrs_equal_def attr_set_def)
  moreover have d: "declared_namespace p [attr k v] = []" "declared_namespace p [attr k w] = []" for p
    using assms \<open>\<not> is_namespace (attr k w)\<close> by simp_all
  then have n: "namespace_for_prefix ([attr k v] # u) p = namespace_for_prefix ([attr k w] # u) p" for p by simp
  then have "get_ns u (Xelement q [attr k v] ns) = get_ns u (Xelement q [attr k w] ns)" by (simp add: get_ns_def)
  moreover have "children_equal ([attr k v] # u) ([attr k w] # u) ns ns" using n by (intro children_equal_self xml_equals_self) simp
  ultimately show ?thesis by (simp add: Let_def)
qed
section \<open>Namespaces\<close>

definition declaration_of :: "string \<Rightarrow> string" where
  "declaration_of p = (if p = [] then ''xmlns'' else ''xmlns:'' @ p)"

definition plain_prefix :: "string \<Rightarrow> bool" where
  "plain_prefix p \<longleftrightarrow> CHR '':'' \<notin> set p \<and> p \<noteq> ''xmlns''"

text \<open>Attribute lists whose namespace declarations are of the two usual forms.\<close>

definition plain_attrs :: "xml_attr list \<Rightarrow> bool" where
  "plain_attrs as \<longleftrightarrow> attrs_ok as
     \<and> (\<forall>a \<in> set as. is_namespace a \<longrightarrow> (\<exists>p. plain_prefix p \<and> at_qname a = declaration_of p))"

lemma declaration_of_simps:
  "length (declaration_of p) > 6 \<longleftrightarrow> p \<noteq> []" "drop 6 (declaration_of p) = p" "declaration_of p = declaration_of q \<longleftrightarrow> p = q"
  by (auto simp: declaration_of_def)

lemma local_declaration: "plain_prefix p \<Longrightarrow> local_name (declaration_of p) = (if p = [] then ''xmlns'' else p)"
  by (simp add: local_name_def declaration_of_def)

lemma is_namespace_declaration: "at_qname a = declaration_of p \<Longrightarrow> is_namespace a"
  by (simp add: is_namespace_def declaration_of_def)

lemma declared_namespace_eq:
  assumes "plain_attrs as" "plain_prefix p"
  shows "declared_namespace p as = (case find_attr (declaration_of p) as of Some a \<Rightarrow> at_value a | None \<Rightarrow> [])"
  using assms(1)
proof (induction as)
  case (Cons a as)
  have rest: "plain_attrs as" using Cons.prems by (simp add: plain_attrs_def attrs_ok_def)
  show ?case
  proof (cases "is_namespace a")
    case True
    then obtain q where q: "plain_prefix q" "at_qname a = declaration_of q" using Cons.prems by (auto simp: plain_attrs_def)
    then show ?thesis using Cons.IH [OF rest] True local_declaration [OF q(1)] assms(2)
      by (auto simp: declaration_of_simps plain_prefix_def)
  next
    case False
    then have "at_qname a \<noteq> declaration_of p" using is_namespace_declaration [of a p] by blast
    then show ?thesis using Cons.IH [OF rest] False by simp
  qed
qed simp

lemma declared_prefix_SomeD:
  assumes "plain_attrs as" "declared_prefix uri as = Some p"
  shows "plain_prefix p \<and> (\<exists>a. find_attr (declaration_of p) as = Some a \<and> at_value a = uri)"
  using assms
proof (induction as)
  case (Cons a as)
  have rest: "plain_attrs as" and new: "at_qname a \<notin> at_qname ` set as" using Cons.prems by (auto simp: plain_attrs_def attrs_ok_def)
  show ?case
  proof (cases "is_namespace a \<and> at_value a = uri")
    case True
    then obtain q where q: "plain_prefix q" "at_qname a = declaration_of q" using Cons.prems by (auto simp: plain_attrs_def)
    moreover have "p = q" using True Cons.prems(2) q(2) declaration_of_simps(1,2) [of q] by (auto split: if_splits)
    ultimately show ?thesis using True by simp
  next
    case False
    then have "declared_prefix uri as = Some p" using Cons.prems(2) by (simp split: if_splits)
    then obtain b where b: "plain_prefix p" "find_attr (declaration_of p) as = Some b" "at_value b = uri"
      using Cons.IH [OF rest] by blast
    then have "declaration_of p \<in> at_qname ` set as" using find_attr_None [of "declaration_of p" as] by auto
    then show ?thesis using b new by auto
  qed
qed simp

fun unhidden :: "string \<Rightarrow> string \<Rightarrow> ancestors \<Rightarrow> bool" where
  "unhidden uri p [] = True"
| "unhidden uri p (as # up) = (declared_prefix uri as \<noteq> None \<or> declared_namespace p as = [] \<and> unhidden uri p up)"

lemma prefix_resolves:
  assumes "list_all plain_attrs chain" "prefix_for_namespace chain uri = Some p" "unhidden uri p chain" "uri \<noteq> []"
  shows "namespace_for_prefix chain p = uri"
  using assms
proof (induction chain)
  case (Cons as up)
  show ?case
  proof (cases "declared_prefix uri as")
    case None
    then show ?thesis using Cons by simp
  next
    case (Some q)
    then have q: "q = p" "plain_attrs as" using Cons.prems by simp_all
    obtain a where "plain_prefix p" "find_attr (declaration_of p) as = Some a" "at_value a = uri"
      using declared_prefix_SomeD [OF q(2)] Some q(1) by blast
    then show ?thesis using declared_namespace_eq [OF q(2)] Cons.prems(4) by simp
  qed
qed simp

text \<open>A declaration nearer to the element can hide the prefix; an empty one hides nothing.\<close>

lemma hidden_prefix:
  "prefix_for_namespace [[attr ''xmlns:p'' ''v''], [attr ''xmlns:p'' ''u'']] ''u'' = Some ''p''"
  "namespace_for_prefix [[attr ''xmlns:p'' ''v''], [attr ''xmlns:p'' ''u'']] ''p'' = ''v''"
  by (simp_all add: attr_def is_namespace_def local_name_def)

lemma empty_declaration_ignored: "namespace_for_prefix ([attr ''xmlns'' []] # up) [] = namespace_for_prefix up []"
  by (simp add: attr_def is_namespace_def)

lemma default_prefix_tag: "prefix_tag [[attr ''xmlns'' uri]] tag uri = CHR '':'' # tag"
  by (simp add: prefix_tag_def attr_def is_namespace_def)

text \<open>A namespace declaration is itself a name with the prefix \<open>xmlns\<close>, for which a declaration is added.\<close>

lemma declaration_gets_declared:
  "snd (fix_namespaces [] [] [] (Xelement ''e'' [attr ''xmlns:p'' ''u''] []) []) = [attr ''xmlns:xmlns'' []]"
  by (simp add: fix_namespaces_def fix_name_def prefix_of_def attr_def is_namespace_def local_name_def Let_def)

lemma prefix_rebound:
  assumes "plain_prefix p" "p \<noteq> []" "u \<noteq> v" "u \<noteq> []" "CHR '':'' \<notin> set name"
  shows "fix_namespaces [] [[attr (''xmlns:'' @ p) u]] [] (Xelement (p @ '':'' @ name) [] []) [attr (''xmlns:'' @ p) v]
    = (Xelement (p @ '':'' @ name) [] [], [attr (''xmlns:'' @ p) u])"
proof -
  have c: "CHR '':'' \<notin> set p" using assms(1) by (simp add: plain_prefix_def)
  have p: "prefix_of (p @ '':'' @ name) = p" using find_char_append [OF c, of name] by (simp add: prefix_of_def)
  have n: "is_namespace (attr (''xmlns:'' @ p) w)" for w by (simp add: is_namespace_def attr_def)
  have l: "local_name (''xmlns:'' @ p) = p" using local_declaration [OF assms(1)] assms(2) by (simp add: declaration_of_def)
  have "declared_namespace p [attr (''xmlns:'' @ p) u] = u" using n [of u] l assms(1) by (simp add: attr_def plain_prefix_def)
  moreover have "declared_prefix u [attr (''xmlns:'' @ p) v] = None" using assms(3) by (auto simp: attr_def)
  ultimately show ?thesis
    using assms(2,4) p by (simp add: fix_namespaces_def fix_name_def attr_def)
qed

section \<open>Text\<close>

fun separate_texts :: "xml_node list \<Rightarrow> bool" where
  "separate_texts (n # m # ns) = (\<not> (text_of_node n \<noteq> None \<and> text_of_node m \<noteq> None) \<and> separate_texts (m # ns))"
| "separate_texts _ = True"

lemma content_simps [simp]:
  "get_content [] = []" "get_content (ms @ ns) = get_content ms @ get_content ns"
  "get_content (n # ns) = (case text_of_node n of Some s \<Rightarrow> s | None \<Rightarrow> []) @ get_content ns"
  by (simp_all add: get_content_def)

lemma remove_separate: "separate_texts ns \<Longrightarrow> get_content (remove_texts ns) = [] \<and> filter is_element (remove_texts ns) = filter is_element ns"
proof (induction ns rule: remove_texts.induct)
  case (2 n)
  then show ?case by (cases n) auto
next
  case (3 n m ns)
  have s: "separate_texts ns" using 3(3) by (cases ns) auto
  show ?case
  proof (cases "text_of_node n")
    case None
    then show ?thesis using 3(2,3) by simp
  next
    case (Some t)
    then have "text_of_node m = None" "\<not> is_element n" using 3(3) by (cases n, auto)+
    then show ?thesis using 3(1) Some s by simp
  qed
qed simp

lemma adjacent_text_survives:
  "get_content (element_set_content s [Xtext t, Xcdata u]) = u @ s"
  by (simp add: element_set_content_def)
section \<open>Properties\<close>



text \<open>
  Sorting the attributes by what they contain orders their names and values, but leaves
  the id flags where they were, so a flag may end up with another attribute.
\<close>

lemma sort_moves_contents_not_ids:
  assumes "\<forall>x y. lt x y \<longleftrightarrow> f (contents x) < (f (contents y) :: nat)"
  shows "mset (map contents (sort_attrs lt as)) = mset (map contents as) \<and> map at_id (sort_attrs lt as) = map at_id as
    \<and> sorted_wrt (\<lambda>a b. f (contents a) \<le> f (contents b)) (sort_attrs lt as)"
  by (rule sort_attrs_result [of lt f as]) (use assms in blast)

lemma sort_moves_contents_not_ids_witness:
  "map at_id (sort_attrs (\<lambda>x y. length (at_qname x) < length (at_qname y)) [\<lparr>at_qname = ''id'', at_value = ''x'', at_id = True\<rparr>, attr ''a'' ''y''])
    = [True, False]"
  using sort_moves_contents_not_ids [of "\<lambda>x y. length (at_qname x) < length (at_qname y)" "\<lambda>(q, v). length q"
      "[\<lparr>at_qname = ''id'', at_value = ''x'', at_id = True\<rparr>, attr ''a'' ''y'']"]
  by (simp add: contents_def attr_def)

text \<open>
  C36. The prefix that is found for a namespace stands for that namespace, where no
  declaration between hides it.
\<close>

theorem prefix_stands_for_namespace:
  assumes "list_all plain_attrs chain" "prefix_for_namespace chain uri = Some p" "unhidden uri p chain" "uri \<noteq> []"
  shows "namespace_for_prefix chain p = uri"
  by (rule prefix_resolves [OF assms])

theorem prefix_stands_for_namespace_witness:
  "namespace_for_prefix [[attr ''a'' ''1''], [attr ''xmlns'' ''u'', attr ''xmlns:p'' ''v'']] ''p'' = ''v''"
proof (rule prefix_stands_for_namespace)
  have "\<exists>p. plain_prefix p \<and> at_qname (attr ''xmlns'' ''u'') = declaration_of p"
    by (rule exI [of _ "[]"]) (simp add: attr_def declaration_of_def plain_prefix_def)
  moreover have "\<exists>p. plain_prefix p \<and> at_qname (attr ''xmlns:p'' ''v'') = declaration_of p"
    by (rule exI [of _ "''p''"]) (simp add: attr_def declaration_of_def plain_prefix_def)
  ultimately have "plain_attrs [attr ''xmlns'' ''u'', attr ''xmlns:p'' ''v'']"
    by (simp add: plain_attrs_def attrs_ok_def) (simp add: attr_def)
  then show "list_all plain_attrs [[attr ''a'' ''1''], [attr ''xmlns'' ''u'', attr ''xmlns:p'' ''v'']]"
    by (simp add: plain_attrs_def [of "[attr ''a'' ''1'']"] attrs_ok_def) (simp add: attr_def is_namespace_def)
qed (simp_all add: attr_def is_namespace_def local_name_def)



text \<open>
  C38. \<open>fix_namespaces\<close> overwrites the declaration of a prefix in the destination, when the
  source uses the prefix for another namespace: what was there under the prefix changes its
  namespace.
\<close>

theorem fix_namespaces_rebinds_prefix:
  assumes "plain_prefix p" "p \<noteq> []" "u \<noteq> v" "u \<noteq> []" "CHR '':'' \<notin> set name"
  shows "fix_namespaces [] [[attr (''xmlns:'' @ p) u]] [] (Xelement (p @ '':'' @ name) [] []) [attr (''xmlns:'' @ p) v]
    = (Xelement (p @ '':'' @ name) [] [], [attr (''xmlns:'' @ p) u])"
  by (rule prefix_rebound [OF assms])

theorem fix_namespaces_rebinds_prefix_witness:
  "snd (fix_namespaces [] [[attr ''xmlns:p'' ''u'']] [] (Xelement ''p:e'' [] []) [attr ''xmlns:p'' ''v'']) = [attr ''xmlns:p'' ''u'']"
  using fix_namespaces_rebinds_prefix [of "''p''" "''u''" "''v''" "''e''"] by (simp add: plain_prefix_def)

text \<open>
  Where no two text nodes are next to each other, \<open>element_set_content\<close> makes its argument the
  content of the element and keeps the elements in it.
\<close>

lemma set_content_sets:
  assumes "separate_texts ns"
  shows "get_content (element_set_content s ns) = s \<and> filter is_element (element_set_content s ns) = filter is_element ns"
  using remove_separate [OF assms] by (simp add: element_set_content_def)

lemma set_content_sets_witness:
  "get_content (element_set_content ''new'' [Xtext ''old'', Xelement ''e'' [] [], Xcdata ''more'']) = ''new''"
  using set_content_sets [of "[Xtext ''old'', Xelement ''e'' [] [], Xcdata ''more'']" "''new''"] by simp

end
