(* ===== verification/Xml_Write.thy ===== *)
theory Xml_Write
  imports Complex_Main Xml_Node Char_Class Unicode_Support
begin

text \<open>
  Writing the XML tree as text (\<open>node.cpp\<close>, \<open>document.cpp\<close>). An output that fails gives the
  exception; what was written before it is dropped. The version of a document is a rational number.
\<close>

section \<open>Escaping\<close>

record format_info =
  fi_indent :: bool
  fi_indent_attributes :: bool
  fi_collapse_tags :: bool
  fi_suppress_comments :: bool
  fi_escape_white_space :: bool
  fi_escape_double_quote :: bool
  fi_html :: bool
  fi_indent_width :: nat
  fi_indent_level :: nat
  fi_version :: rat

definition default_format :: format_info where
  "default_format = \<lparr>fi_indent = False, fi_indent_attributes = False, fi_collapse_tags = True, fi_suppress_comments = False,
     fi_escape_white_space = False, fi_escape_double_quote = True, fi_html = False, fi_indent_width = 0,
     fi_indent_level = 0, fi_version = 1\<rparr>"

definition escaped_char :: "bool \<Rightarrow> bool \<Rightarrow> rat \<Rightarrow> unicode \<Rightarrow> string \<Rightarrow> string res" where
  "escaped_char escape_whitespace escape_quot version c bytes =
     (if c = ord32 CHR ''&'' then ok ''&amp;''
      else if c = ord32 CHR ''<'' then ok ''&lt;''
      else if c = ord32 CHR ''>'' then ok ''&gt;''
      else if c = 0x22 then ok (if escape_quot then ''&quot;'' else [CHR 0x22])
      else if c = 0x0A then ok (if escape_whitespace then ''&#10;'' else [CHR 0x0A])
      else if c = 0x0D then ok (if escape_whitespace then ''&#13;'' else [CHR 0x0D])
      else if c = 0x09 then ok (if escape_whitespace then ''&#9;'' else [CHR 0x09])
      else if c = 0 then throw (Zeep_exception ''Invalid null character in XML content'')
      else if c \<ge> 0xA0 \<or> (if version = 1 then is_valid_xml_1_0_char c else is_valid_xml_1_1_char c) then ok bytes
      else ok (''&#'' @ nat_to_string (unat c) @ '';''))"

function write_string :: "string \<Rightarrow> bool \<Rightarrow> bool \<Rightarrow> bool \<Rightarrow> rat \<Rightarrow> bool \<Rightarrow> string res" where
  "write_string s escape_whitespace escape_quot trimming version last_is_space =
     (if s = [] then ok []
      else
        (case get_first_char s of
           Inl e \<Rightarrow> throw e
         | Inr (c, t) \<Rightarrow>
             bind_res
               (if c = 0x20 then ok (if trimming \<and> last_is_space then [] else '' '')
                else escaped_char escape_whitespace escape_quot version c (take (length s - length t) s)) (\<lambda>out.
             bind_res (write_string t escape_whitespace escape_quot trimming version (c = 0x20 \<or> c = 0x0A)) (\<lambda>rest.
               ok (out @ rest)))))"
  by pat_completeness auto
termination
  by (relation "measure (\<lambda>(s, _). length s)") (auto dest: get_first_char_less)

declare write_string.simps [simp del]

section \<open>Nodes\<close>

definition new_line :: string where
  "new_line = [CHR 0x0A]"

fun hyphen_loop :: "bool \<Rightarrow> string \<Rightarrow> string" where
  "hyphen_loop lastWasHyphen [] = []"
| "hyphen_loop lastWasHyphen (ch # s) =
     (if ch = CHR ''-'' \<and> lastWasHyphen then '' '' else []) @ [ch] @ hyphen_loop (ch = CHR ''-'') s"

definition write_comment :: "string \<Rightarrow> format_info \<Rightarrow> string" where
  "write_comment s fmt =
     (if fi_suppress_comments fmt then []
      else ''<!--'' @ hyphen_loop False s @ ''-->'' @ (if fi_indent_width fmt \<noteq> 0 then new_line else []))"

definition indentation :: "format_info \<Rightarrow> string" where
  "indentation fmt = replicate (fi_indent_level fmt * fi_indent_width fmt) CHR '' ''"

definition write_pi :: "string \<Rightarrow> string \<Rightarrow> format_info \<Rightarrow> string" where
  "write_pi target s fmt =
     (if fi_indent fmt then new_line @ indentation fmt else []) @ ''<?'' @ target @ '' '' @ s @ ''?>''
     @ (if fi_indent fmt then new_line else [])"

definition write_cdata :: "string \<Rightarrow> format_info \<Rightarrow> string" where
  "write_cdata s fmt =
     (if fi_indent fmt then new_line @ indentation fmt else []) @ ''<![CDATA['' @ s @ '']]>''
     @ (if fi_indent fmt then new_line else [])"

definition write_attribute :: "xml_attr \<Rightarrow> format_info \<Rightarrow> string res" where
  "write_attribute a fmt =
     bind_res (write_string (at_value a) (fi_escape_white_space fmt) True False (fi_version fmt) False) (\<lambda>v.
       ok ((if fi_indent_width fmt \<noteq> 0 then new_line @ replicate (fi_indent_width fmt) CHR '' '' else '' '')
           @ at_qname a @ [CHR ''='', CHR 0x22] @ v @ [CHR 0x22]))"

fun write_attributes :: "xml_attr list \<Rightarrow> nat \<Rightarrow> format_info \<Rightarrow> format_info \<Rightarrow> string res" where
  "write_attributes [] column fmt attr_fmt = ok []"
| "write_attributes (a # as) column fmt attr_fmt =
     bind_res (write_attribute a attr_fmt) (\<lambda>out.
     bind_res (write_attributes as column fmt
       (if fi_indent_width attr_fmt = 0 \<and> fi_indent_attributes fmt then attr_fmt\<lparr>fi_indent_width := column\<rparr> else attr_fmt)) (\<lambda>rest.
       ok (out @ rest)))"

definition kEmptyHTMLElements :: "string list" where
  "kEmptyHTMLElements =
     [''area'', ''base'', ''br'', ''col'', ''embed'', ''hr'', ''img'', ''input'', ''keygen'', ''link'', ''meta'', ''param'',
      ''source'', ''track'', ''wbr'']"

fun write_node :: "xml_node \<Rightarrow> format_info \<Rightarrow> string res" and write_nodes :: "xml_node list \<Rightarrow> format_info \<Rightarrow> string res" where
  "write_node (Xelement q as ns) fmt =
     bind_res (write_attributes as (length (indentation fmt) + 1 + length q + 1) fmt (fmt\<lparr>fi_indent_width := 0\<rparr>)) (\<lambda>attrs.
     bind_res
       (if fi_html fmt \<and> q \<in> set kEmptyHTMLElements \<or> \<not> fi_html fmt \<and> fi_collapse_tags fmt \<and> ns = [] then ok ''/>''
        else
          bind_res (write_nodes ns (fmt\<lparr>fi_indent_level := fi_indent_level fmt + 1\<rparr>)) (\<lambda>body.
            ok (''>'' @ body
                @ (if ns \<noteq> [] \<and> is_element (last ns) \<and> fi_indent fmt then new_line @ indentation fmt else [])
                @ ''</'' @ q @ ''>''))) (\<lambda>rest.
       ok ((if fi_indent fmt then (if fi_indent_level fmt > 0 then new_line else []) @ indentation fmt else [])
           @ ''<'' @ q @ attrs @ rest)))"
| "write_node (Xtext s) fmt =
     write_string s (fi_escape_white_space fmt) (fi_escape_double_quote fmt) False (fi_version fmt) False"
| "write_node (Xcdata s) fmt = ok (write_cdata s fmt)"
| "write_node (Xcomment s) fmt = ok (write_comment s fmt)"
| "write_node (Xpi target s) fmt = ok (write_pi target s fmt)"
| "write_nodes [] fmt = ok []"
| "write_nodes (n # ns) fmt = bind_res (write_node n fmt) (\<lambda>out. bind_res (write_nodes ns fmt) (\<lambda>rest. ok (out @ rest)))"

end
