(* ===== verification/Xml_Source.thy ===== *)
theory Xml_Source
  imports Complex_Main Unicode_Support
begin

text \<open>
  The sources an XML parser reads from (\<open>lib-xml/src/parser.cpp\<close>): streams of bytes in one of
  five encodings, with the normalisation of line ends, and strings, which hold the
  replacement texts of entities. A version is a rational number; the rounding of \<open>float\<close> is not modelled.
\<close>

unbundle bit_operations_syntax

section \<open>State\<close>

datatype source_kind = Stream_source | String_source

record data_source =
  ds_kind :: source_kind
  ds_data :: string
  ds_base :: string
  ds_encoding :: encoding_type
  ds_version :: rat
  ds_id :: nat
  ds_line_nr :: nat
  ds_char_buffer :: unicode
  ds_has_bom :: bool

section \<open>Encodings\<close>

text \<open>
  The byte order mark. At the end of the data the character read is 0xFF, what \<open>eof\<close>
  gives as a \<open>char\<close>.
\<close>

definition peek_byte :: "string \<Rightarrow> char" where
  "peek_byte s = (case s of [] \<Rightarrow> CHR 0xFF | c # _ \<Rightarrow> c)"

definition guess_encoding :: "string \<Rightarrow> encoding_type \<times> bool \<times> string" where
  "guess_encoding s =
     (case s of
        [] \<Rightarrow> (UTF8, False, s)
      | ch1 # s1 \<Rightarrow>
          if ch1 = CHR 0xFE \<and> peek_byte s1 = CHR 0xFF then (UTF16BE, True, tl s1)
          else if ch1 = CHR 0xFF \<and> peek_byte s1 = CHR 0xFE then (UTF16LE, True, tl s1)
          else if ch1 = CHR 0xEF \<and> peek_byte s1 = CHR 0xBB \<and> peek_byte (tl s1) = CHR 0xBF then (UTF8, True, tl (tl s1))
          else (UTF8, False, s))"

definition stream_source :: "nat \<Rightarrow> string \<Rightarrow> data_source" where
  "stream_source n s =
     (case guess_encoding s of (enc, bom, rest) \<Rightarrow>
        \<lparr>ds_kind = Stream_source, ds_data = rest, ds_base = ''.'', ds_encoding = enc, ds_version = 1, ds_id = n, ds_line_nr = 1,
         ds_char_buffer = 0, ds_has_bom = bom\<rparr>)"

definition string_source :: "nat \<Rightarrow> string \<Rightarrow> data_source" where
  "string_source n s =
     \<lparr>ds_kind = String_source, ds_data = s, ds_base = ''.'', ds_encoding = UTF8, ds_version = 1, ds_id = n, ds_line_nr = 1,
      ds_char_buffer = 0, ds_has_bom = False\<rparr>"

definition entity_source :: "nat \<Rightarrow> string \<Rightarrow> string \<Rightarrow> data_source" where
  "entity_source n s path = (string_source n s)\<lparr>ds_base := path\<rparr>"

definition parameter_entity_source :: "nat \<Rightarrow> string \<Rightarrow> string \<Rightarrow> data_source" where
  "parameter_entity_source n s path = (string_source n ('' '' @ s @ '' ''))\<lparr>ds_base := path\<rparr>"

definition set_encoding :: "encoding_type \<Rightarrow> data_source \<Rightarrow> data_source res" where
  "set_encoding enc src =
     (if ds_kind src = Stream_source \<and> enc \<noteq> ds_encoding src
         \<and> \<not> (is_single_byte_encoding enc \<and> is_single_byte_encoding (ds_encoding src))
      then throw (Invalid_document ''Invalid encoding specified, incompatible with actual encoding'')
      else ok (src\<lparr>ds_encoding := enc\<rparr>))"

section \<open>Characters of a stream\<close>

text \<open>Behind the last byte there are zeros.\<close>

definition next_byte :: "string \<Rightarrow> unicode \<times> string" where
  "next_byte s = (case s of [] \<Rightarrow> (0, []) | c # cs \<Rightarrow> (ord32 c, cs))"

definition is_trailing_byte :: "unicode \<Rightarrow> bool" where
  "is_trailing_byte b \<longleftrightarrow> b AND 0xC0 = 0x80"

definition next_utf8_char :: "string \<Rightarrow> (unicode \<times> string) res" where
  "next_utf8_char s =
     (let (b, s) = next_byte s in
      if b AND 0x80 = 0 then ok (b, s)
      else if b AND 0xE0 = 0xC0 then
        (let (c0, s) = next_byte s in
         if \<not> is_trailing_byte c0 then throw (Source_exception ''Invalid utf-8'')
         else ok (push_bit 6 (b AND 0x1F) OR (c0 AND 0x3F), s))
      else if b AND 0xF0 = 0xE0 then
        (let (c0, s) = next_byte s; (c1, s) = next_byte s in
         if \<not> is_trailing_byte c0 \<or> \<not> is_trailing_byte c1 then throw (Source_exception ''Invalid utf-8'')
         else ok (push_bit 12 (b AND 0x0F) OR push_bit 6 (c0 AND 0x3F) OR (c1 AND 0x3F), s))
      else if b AND 0xF8 = 0xF0 then
        (let (c0, s) = next_byte s; (c1, s) = next_byte s; (c2, s) = next_byte s in
         if \<not> is_trailing_byte c0 \<or> \<not> is_trailing_byte c1 \<or> \<not> is_trailing_byte c2 then throw (Source_exception ''Invalid utf-8'')
         else
           (let result = push_bit 18 (b AND 0x07) OR push_bit 12 (c0 AND 0x3F) OR push_bit 6 (c1 AND 0x3F) OR (c2 AND 0x3F)
            in if result > 0x10FFFF then throw (Source_exception ''invalid utf-8 character (out of range)'') else ok (result, s)))
      else ok (b, s))"

definition not_wf_at :: "nat \<Rightarrow> string \<Rightarrow> exn" where
  "not_wf_at line msg = Not_wf (''Document (line: '' @ nat_to_string line @ msg)"

definition pair_16 :: "bool \<Rightarrow> string \<Rightarrow> unicode" where
  "pair_16 big s =
     (let (c1, s) = next_byte s; (c2, _) = next_byte s in if big then push_bit 8 c1 OR c2 else push_bit 8 c2 OR c1)"

function next_utf16_char :: "bool \<Rightarrow> nat \<Rightarrow> string \<Rightarrow> (unicode \<times> string) res" where
  "next_utf16_char big line s =
     (let ch = pair_16 big s; rest = drop 2 s in
      if ch \<ge> 0xD800 \<and> ch \<le> 0xDBFF then
        bind_res (next_utf16_char big line rest) (\<lambda>(uc2, rest).
          if uc2 \<ge> 0xDC00 \<and> uc2 \<le> 0xDFFF then ok ((ch - 0xD800) * 0x400 + (uc2 - 0xDC00) + 0x010000, rest)
          else throw (not_wf_at line '' not well-formed: leading surrogate character without trailing surrogate character''))
      else if ch \<ge> 0xDC00 \<and> ch \<le> 0xDFFF then
        throw (not_wf_at line '' not well-formed: trailing surrogate character without a leading surrogate'')
      else ok (ch, rest))"
  by pat_completeness auto
termination
proof (relation "measure (\<lambda>(_, _, s). length s)")
  fix big :: bool and line :: nat and s :: string and ch rest
  assume ch: "ch = pair_16 big s" "rest = drop 2 s" "ch \<ge> 0xD800 \<and> ch \<le> 0xDBFF"
  then have "s \<noteq> []" by (auto simp: pair_16_def next_byte_def)
  with ch(2) show "((big, line, rest), big, line, s) \<in> measure (\<lambda>(_, _, s). length s)" by simp
qed simp

declare next_utf16_char.simps [simp del]

definition next_ascii_char :: "string \<Rightarrow> (unicode \<times> string) res" where
  "next_ascii_char s =
     (let (c, s) = next_byte s in if c > 127 then throw (Not_wf ''Invalid ascii value'') else ok (c, s))"

text \<open>\<open>m_next\<close>, the reader the encoding selects.\<close>

definition next_of :: "data_source \<Rightarrow> (unicode \<times> data_source) res" where
  "next_of src =
     bind_res
       (case ds_encoding src of
          UTF8 \<Rightarrow> next_utf8_char (ds_data src)
        | UTF16LE \<Rightarrow> next_utf16_char False (ds_line_nr src) (ds_data src)
        | UTF16BE \<Rightarrow> next_utf16_char True (ds_line_nr src) (ds_data src)
        | ISO88591 \<Rightarrow> ok (next_byte (ds_data src))
        | ASCII \<Rightarrow> next_ascii_char (ds_data src)) (\<lambda>(c, s). ok (c, src\<lparr>ds_data := s\<rparr>))"

definition newline_char :: "data_source \<Rightarrow> unicode \<Rightarrow> unicode" where
  "newline_char src ch =
     (if ds_encoding src \<noteq> ASCII
         \<and> (ds_version src > 1 \<and> ch = 0x85 \<or> ds_encoding src \<noteq> ISO88591 \<and> ds_version src > 1 \<and> ch = 0x2028)
      then 0x0A else ch)"

definition count_line :: "unicode \<Rightarrow> data_source \<Rightarrow> unicode \<times> data_source" where
  "count_line ch src = (ch, if ch = 0x0A then src\<lparr>ds_line_nr := ds_line_nr src + 1\<rparr> else src)"

definition stream_get_next_char :: "data_source \<Rightarrow> (unicode \<times> data_source) res" where
  "stream_get_next_char src =
     bind_res (if ds_char_buffer src = 0 then next_of src else ok (ds_char_buffer src, src\<lparr>ds_char_buffer := 0\<rparr>)) (\<lambda>(ch, src).
       if ch = 0xFFFF \<or> ch = 0xFFFE then
         throw (not_wf_at (ds_line_nr src) ('' not well-formed: character '' @ to_hex ch @ '' is not allowed''))
       else if ch = 0x0D then
         bind_res (next_of src) (\<lambda>(ch, src).
           ok (count_line 0x0A
             (if ch \<noteq> 0x0A \<and> (ds_version src = 1 \<or> ch \<noteq> 0x85 \<or> ds_encoding src = ASCII) then src\<lparr>ds_char_buffer := ch\<rparr> else src)))
       else ok (count_line (newline_char src ch) src))"

section \<open>Characters of a source\<close>

definition string_get_next_char :: "data_source \<Rightarrow> (unicode \<times> data_source) res" where
  "string_get_next_char src =
     (if ds_data src = [] then ok (0, src)
      else bind_res (get_first_char (ds_data src)) (\<lambda>(result, s). ok (count_line result (src\<lparr>ds_data := s\<rparr>))))"

definition source_get_next_char :: "data_source \<Rightarrow> (unicode \<times> data_source) res" where
  "source_get_next_char src =
     (case ds_kind src of Stream_source \<Rightarrow> stream_get_next_char src | String_source \<Rightarrow> string_get_next_char src)"

text \<open>The rest of a source as an entity takes it: characters up to the first zero.\<close>

section \<open>Paths\<close>

definition is_absolute_path :: "string \<Rightarrow> bool" where
  "is_absolute_path s =
     (case s of
        [] \<Rightarrow> False
      | c # cs \<Rightarrow> c = CHR ''/'' \<or> isalpha c \<and> (case dropWhile isalpha cs of [] \<Rightarrow> False | d # _ \<Rightarrow> d = CHR '':''))"

definition is_valid_url :: "string \<Rightarrow> bool" where
  "is_valid_url url \<longleftrightarrow>
     (case find_char CHR '':'' url of None \<Rightarrow> False | Some cp \<Rightarrow> cp > 1 \<and> isalpha (hd url))"

end
