(* ===== verification/Xml_Scanner.thy ===== *)
theory Xml_Scanner
  imports Xml_Source Char_Class Doctype
begin

text \<open>
  The scanner of the XML parser (\<open>lib-xml/src/parser.cpp\<close>, \<open>zeep/xml/parser.hpp\<close>): the state of
  \<open>parser_imp\<close>, its stack of sources, \<open>get_next_char\<close> and \<open>retract\<close>, and the two scanners
  \<open>get_next_token\<close> and \<open>get_next_content\<close>, one rule per state of their loops. The handlers of
  the client and the loader of external entities are fields of the state, as in the
  code; the handlers are one function of an event that changes the state of the client,
  and may throw. Loops have fuel.
\<close>

section \<open>What the parser reports\<close>

text \<open>An attribute: name, namespace, value and whether it is an id.\<close>

record sax_attr =
  sa_name :: string
  sa_ns :: string
  sa_value :: string
  sa_id :: bool

datatype xml_event =
    Xml_declaration bool rat
  | Doctype_declaration string string string
  | Notation_declaration string string string
  | Start_namespace string string
  | Start_element string string "sax_attr list"
  | End_element string string
  | Characters string
  | Start_cdata
  | End_cdata
  | Comment_event string
  | Pi_event string string
  | Invalidation string

section \<open>State\<close>

datatype xml_token =
    Tk_eq | Tk_question_mark | Tk_greater_than | Tk_open_bracket | Tk_close_bracket | Tk_open_paren | Tk_close_paren
  | Tk_percent | Tk_plus | Tk_pipe | Tk_asterisk | Tk_slash | Tk_comma | Tk_eof | Tk_other | Tk_xml_decl | Tk_space
  | Tk_comment | Tk_name | Tk_nmtoken | Tk_string | Tk_pi | Tk_stag | Tk_etag | Tk_doctype | Tk_element | Tk_attlist
  | Tk_entity | Tk_notation | Tk_required | Tk_implied | Tk_pcdata | Tk_fixed | Tk_include_ignore | Tk_pereference
  | Tk_charref | Tk_reference | Tk_cdsect | Tk_content

fun describe_token :: "xml_token \<Rightarrow> string" where
  "describe_token Tk_eq = ''=''"
| "describe_token Tk_question_mark = ''?''"
| "describe_token Tk_greater_than = ''>''"
| "describe_token Tk_open_bracket = ''[''"
| "describe_token Tk_close_bracket = '']''"
| "describe_token Tk_open_paren = ''(''"
| "describe_token Tk_close_paren = '')''"
| "describe_token Tk_percent = ''%''"
| "describe_token Tk_plus = ''+''"
| "describe_token Tk_pipe = ''|''"
| "describe_token Tk_asterisk = ''*''"
| "describe_token Tk_slash = ''/''"
| "describe_token Tk_comma = '',''"
| "describe_token Tk_eof = ''end of file''"
| "describe_token Tk_other = ''an invalid character''"
| "describe_token Tk_xml_decl = [CHR 0x27] @ ''<?xml'' @ [CHR 0x27]"
| "describe_token Tk_space = ''space character''"
| "describe_token Tk_comment = ''comment''"
| "describe_token Tk_name = ''identifier or name''"
| "describe_token Tk_nmtoken = ''nmtoken''"
| "describe_token Tk_string = ''quoted string''"
| "describe_token Tk_pi = ''processing instruction''"
| "describe_token Tk_stag = ''tag''"
| "describe_token Tk_etag = ''end tag''"
| "describe_token Tk_doctype = ''<!DOCTYPE''"
| "describe_token Tk_element = ''<!ELEMENT''"
| "describe_token Tk_attlist = ''<!ATTLIST''"
| "describe_token Tk_entity = ''<!ENTITY''"
| "describe_token Tk_notation = ''<!NOTATION''"
| "describe_token Tk_required = ''#REQUIRED''"
| "describe_token Tk_implied = ''#IMPLIED''"
| "describe_token Tk_fixed = ''#FIXED''"
| "describe_token Tk_pcdata = ''#PCData''"
| "describe_token Tk_pereference = ''parameter entity reference''"
| "describe_token Tk_charref = ''character reference''"
| "describe_token Tk_reference = ''entity reference''"
| "describe_token Tk_cdsect = ''CDATA section''"
| "describe_token Tk_content = ''content''"
| "describe_token Tk_include_ignore = ''<![ (as in <![INCLUDE[ )''"

text \<open>What a source on the stack keeps of the scanner it interrupts.\<close>

record source_state =
  ss_source :: data_source
  ss_buffer :: "unicode list"
  ss_lookahead :: xml_token
  ss_token :: string
  ss_inserted :: bool

text \<open>The namespaces an element declares.\<close>

record ns_state =
  ns_default :: string
  ns_known :: "(string \<times> string) list"
  ns_unbound :: "string list"

text \<open>
  \<open>m_buffer\<close> holds the characters put back, the next one first. The counter
  \<open>xp_next_id\<close> is the static one that numbers the sources.
\<close>

record 'd xml_parser =
  xp_handler :: "xml_event \<Rightarrow> 'd \<Rightarrow> 'd res"
  xp_external :: "string \<Rightarrow> string \<Rightarrow> string \<Rightarrow> string option"
  xp_user :: 'd
  xp_validating :: bool
  xp_validating_ns :: bool
  xp_has_dtd :: bool
  xp_lookahead :: xml_token
  xp_token :: string
  xp_sources :: "source_state list"
  xp_buffer :: "unicode list"
  xp_version :: rat
  xp_encoding :: encoding_type
  xp_standalone :: bool
  xp_external_subset :: bool
  xp_internal_subset :: bool
  xp_allow_peref :: bool
  xp_in_declsep :: bool
  xp_in_external_dtd :: bool
  xp_in_content :: bool
  xp_entities_on_stack :: "string list"
  xp_ns :: "ns_state list"
  xp_root_element :: string
  xp_parameter_entities :: "entity list"
  xp_general_entities :: "entity list"
  xp_doctype :: "dtd_element list"
  xp_notations :: "string list"
  xp_ids :: "string list"
  xp_unresolved_ids :: "string list"
  xp_next_id :: nat

type_synonym ('a, 'd) xml_res = "('a \<times> 'd xml_parser) res"

definition quote_text :: "string \<Rightarrow> string" where
  "quote_text s = [CHR 0x27] @ s @ [CHR 0x27]"

section \<open>Reports and errors\<close>

definition report_event :: "xml_event \<Rightarrow> 'd xml_parser \<Rightarrow> 'd xml_parser res" where
  "report_event e p = bind_res (xp_handler p e (xp_user p)) (\<lambda>d. ok (p\<lparr>xp_user := d\<rparr>))"

definition located :: "string \<Rightarrow> string \<Rightarrow> 'd xml_parser \<Rightarrow> string" where
  "located what msg p =
     (case xp_sources p of
        [] \<Rightarrow> ''Document '' @ what @ msg
      | s # _ \<Rightarrow> ''Document (line: '' @ nat_to_string (ds_line_nr (ss_source s)) @ '') '' @ what @ msg)"

definition not_well_formed :: "string \<Rightarrow> 'd xml_parser \<Rightarrow> 'a res" where
  "not_well_formed msg p = throw (Not_wf (located ''not well-formed: '' msg p))"

definition not_valid :: "string \<Rightarrow> 'd xml_parser \<Rightarrow> 'd xml_parser res" where
  "not_valid msg p =
     (if xp_validating p then throw (Invalid_document (located ''not valid: '' msg p))
      else report_event (Invalidation msg) p)"

section \<open>Sources\<close>

definition push_source :: "(nat \<Rightarrow> data_source) \<Rightarrow> bool \<Rightarrow> 'd xml_parser \<Rightarrow> 'd xml_parser" where
  "push_source src inserted p =
     p\<lparr>xp_sources :=
         \<lparr>ss_source = (src (xp_next_id p))\<lparr>ds_version := xp_version p\<rparr>, ss_buffer = xp_buffer p,
          ss_lookahead = xp_lookahead p, ss_token = xp_token p, ss_inserted = inserted\<rparr> # xp_sources p,
       xp_buffer := [], xp_token := [], xp_next_id := xp_next_id p + 1\<rparr>"

definition restore_source :: "source_state \<Rightarrow> source_state list \<Rightarrow> 'd xml_parser \<Rightarrow> 'd xml_parser" where
  "restore_source s ss p =
     p\<lparr>xp_sources := ss, xp_buffer := ss_buffer s, xp_token := ss_token s, xp_lookahead := ss_lookahead s\<rparr>"

definition pop_source :: "'d xml_parser \<Rightarrow> 'd xml_parser res" where
  "pop_source p = (case xp_sources p of [] \<Rightarrow> throw Assertion | s # ss \<Rightarrow> ok (restore_source s ss p))"

definition top_source :: "'d xml_parser \<Rightarrow> data_source res" where
  "top_source p = (case xp_sources p of [] \<Rightarrow> throw Undefined | s # _ \<Rightarrow> ok (ss_source s))"

definition change_source :: "(data_source \<Rightarrow> data_source res) \<Rightarrow> 'd xml_parser \<Rightarrow> 'd xml_parser res" where
  "change_source f p =
     (case xp_sources p of
        [] \<Rightarrow> throw Undefined
      | s # ss \<Rightarrow> bind_res (f (ss_source s)) (\<lambda>src. ok (p\<lparr>xp_sources := s\<lparr>ss_source := src\<rparr> # ss\<rparr>)))"

section \<open>Characters\<close>

text \<open>
  An inserted source that has ended gives way to the one it was inserted in, which
  restores the token and the characters put back there.
\<close>

fun read_sources :: "source_state list \<Rightarrow> 'd xml_parser \<Rightarrow> (unicode, 'd) xml_res" where
  "read_sources [] p = ok (0, p)"
| "read_sources (s # ss) p =
     (case source_get_next_char (ss_source s) of
        Inl (Source_exception msg) \<Rightarrow> not_well_formed msg p
      | Inl e \<Rightarrow> throw e
      | Inr (result, src) \<Rightarrow>
          if result = 0 \<and> ss_inserted s then read_sources ss (restore_source s ss p)
          else ok (result, p\<lparr>xp_sources := s\<lparr>ss_source := src\<rparr> # ss\<rparr>))"

definition xml_get_next_char :: "'d xml_parser \<Rightarrow> (unicode, 'd) xml_res" where
  "xml_get_next_char p =
     bind_res
       (case xp_buffer p of
          c # b \<Rightarrow> if c = 0 then read_sources (xp_sources p) (p\<lparr>xp_buffer := b\<rparr>) else ok (c, p\<lparr>xp_buffer := b\<rparr>)
        | [] \<Rightarrow> read_sources (xp_sources p) p) (\<lambda>(result, p).
       ok (result, p\<lparr>xp_token := append_utf8 (xp_token p) result\<rparr>))"

definition xml_retract :: "'d xml_parser \<Rightarrow> 'd xml_parser res" where
  "xml_retract p =
     (if xp_token p = [] \<or> length (xp_buffer p) \<ge> 4 then throw Assertion
      else bind_res (pop_last_char (xp_token p)) (\<lambda>(c, t). ok (p\<lparr>xp_token := t, xp_buffer := c # xp_buffer p\<rparr>)))"

definition is_char :: "rat \<Rightarrow> unicode \<Rightarrow> bool" where
  "is_char version uc = (if version = 1 then is_valid_xml_1_0_char uc else is_valid_xml_1_1_char uc)"

definition is_space :: "unicode \<Rightarrow> bool" where
  "is_space uc \<longleftrightarrow> uc = 0x20 \<or> uc = 0x09 \<or> uc = 0x0A \<or> uc = 0x0D"

definition is_space_string :: "string \<Rightarrow> bool" where
  "is_space_string s \<longleftrightarrow> s \<noteq> [] \<and> list_all (\<lambda>c. c \<in> {CHR '' '', CHR 0x09, CHR 0x0D, CHR 0x0A}) s"

definition is_referrable_char :: "rat \<Rightarrow> unicode \<Rightarrow> bool" where
  "is_referrable_char version c \<longleftrightarrow>
     (if version = 1 then c = 0x09 \<or> c = 0x0A \<or> c = 0x0D \<or> c > 0x1F \<and> c < 0xD800 else c > 0 \<and> c < 0xD800)
     \<or> c > 0xDFFF \<and> c < 0xFFFE \<or> c > 0xFFFF \<and> c < 0x110000"

text \<open>\<open>substr\<close>, and the part of a token without its first \<open>a\<close> characters and of \<open>b\<close> characters less.\<close>

definition substr_from :: "nat \<Rightarrow> string \<Rightarrow> string res" where
  "substr_from a s = (if a > length s then throw Out_of_range else ok (drop a s))"

definition inner_text :: "nat \<Rightarrow> nat \<Rightarrow> string \<Rightarrow> string res" where
  "inner_text a b s =
     bind_res (substr_from a s) (\<lambda>t. ok (if b > length s then t else take (length s - b) t))"

section \<open>The scanner for markup\<close>

datatype token_state =
    Ts_start | Ts_white_space | Ts_tag | Ts_string unicode | Ts_peref | Ts_peref_name | Ts_hash_name | Ts_name bool
  | Ts_comment_or_doctype | Ts_comment | Ts_doctype_decl | Ts_pi

text \<open>
  A round of a loop goes to a state or finds a token. The quote that opened a string and
  whether a name may be one, local variables in the code, are arguments of their states.
\<close>

datatype ('s, 'd) scanned = Goto 's "'d xml_parser" | Found xml_token "'d xml_parser"

type_synonym ('s, 'd) scan_rule = "unicode \<Rightarrow> 'd xml_parser \<Rightarrow> ('s, 'd) scanned res"

definition found_token :: "xml_token \<Rightarrow> 'd xml_parser \<Rightarrow> ('s, 'd) scanned res" where
  "found_token t p = bind_res (xml_retract p) (\<lambda>p. ok (Found t p))"

definition found_inner :: "xml_token \<Rightarrow> nat \<Rightarrow> nat \<Rightarrow> 'd xml_parser \<Rightarrow> ('s, 'd) scanned res" where
  "found_inner t a b p = bind_res (inner_text a b (xp_token p)) (\<lambda>s. ok (Found t (p\<lparr>xp_token := s\<rparr>)))"

definition back_to_state :: "'s \<Rightarrow> 'd xml_parser \<Rightarrow> ('s, 'd) scanned res" where
  "back_to_state s p = bind_res (xml_retract p) (\<lambda>p. ok (Goto s p))"

definition single_tokens :: "(char \<times> xml_token) list" where
  "single_tokens =
     [(CHR ''='', Tk_eq), (CHR ''?'', Tk_question_mark), (CHR ''>'', Tk_greater_than), (CHR ''['', Tk_open_bracket),
      (CHR '']'', Tk_close_bracket), (CHR ''('', Tk_open_paren), (CHR '')'', Tk_close_paren), (CHR ''+'', Tk_plus),
      (CHR ''|'', Tk_pipe), (CHR ''*'', Tk_asterisk), (CHR ''/'', Tk_slash), (CHR '','', Tk_comma)]"

definition isprint :: "char \<Rightarrow> bool" where
  "isprint c \<longleftrightarrow> code c \<ge> 0x20 \<and> code c < 0x7F"

definition token_start :: "(token_state, 'd) scan_rule" where
  "token_start uc p =
     (if uc = 0 then ok (Found Tk_eof p)
      else if uc = 0x20 \<or> uc = 0x09 \<or> uc = 0x0A then ok (Goto Ts_white_space p)
      else if uc = ord32 CHR ''<'' then ok (Goto Ts_tag p)
      else if uc = 0x27 \<or> uc = 0x22 then ok (Goto (Ts_string uc) p)
      else if uc = ord32 CHR ''%'' then ok (Goto Ts_peref p)
      else if uc = ord32 CHR ''#'' then ok (Goto Ts_hash_name p)
      else
        (case map_of (map (\<lambda>(c, t). (ord32 c, t)) single_tokens) uc of
           Some t \<Rightarrow> ok (Found t p)
         | None \<Rightarrow>
             if is_name_start_char uc then ok (Goto (Ts_name True) p)
             else if is_name_char uc then ok (Goto (Ts_name False) p)
             else if is_char (xp_version p) uc then ok (Found Tk_other p)
             else not_well_formed
               (''Unexpected character: '' @ (if uc < 128 \<and> isprint (chr32 uc) then [chr32 uc] else to_hex uc)) p))"

definition token_white_space :: "(token_state, 'd) scan_rule" where
  "token_white_space uc p =
     (if uc \<noteq> 0x20 \<and> uc \<noteq> 0x09 \<and> uc \<noteq> 0x0A then found_token Tk_space p else ok (Goto Ts_white_space p))"

definition token_tag :: "(token_state, 'd) scan_rule" where
  "token_tag uc p =
     (if uc = ord32 CHR ''!'' then ok (Goto Ts_comment_or_doctype p)
      else if uc = ord32 CHR ''/'' then ok (Found Tk_etag p)
      else if uc = ord32 CHR ''?'' then ok (Goto Ts_pi p)
      else found_token Tk_stag p)"

definition token_comment_or_doctype :: "(token_state, 'd) scan_rule" where
  "token_comment_or_doctype uc p =
     (if uc = ord32 CHR ''-'' then ok (Goto Ts_comment p)
      else if uc = ord32 CHR ''['' then ok (Found Tk_include_ignore p)
      else if is_name_start_char uc then ok (Goto Ts_doctype_decl p)
      else not_well_formed ''Unexpected character'' p)"

definition token_comment :: "(token_state, 'd) scan_rule" where
  "token_comment uc p =
     (if uc = ord32 CHR ''-'' then ok (Found Tk_comment p) else not_well_formed ''Invalid formatted comment'' p)"

definition token_pi :: "(token_state, 'd) scan_rule" where
  "token_pi uc p =
     (if is_name_char uc then ok (Goto Ts_pi p)
      else
        bind_res (xml_retract p) (\<lambda>p.
        bind_res (substr_from 2 (xp_token p)) (\<lambda>target.
          if target = ''xml'' then ok (Found Tk_xml_decl p)
          else if iequals target ''xml'' then
            not_well_formed ''<?XML is neither an XML declaration nor a legal processing instruction target'' p
          else ok (Found Tk_pi p))))"

definition doctype_tokens :: "(string \<times> xml_token) list" where
  "doctype_tokens =
     [(''<!DOCTYPE'', Tk_doctype), (''<!ELEMENT'', Tk_element), (''<!ATTLIST'', Tk_attlist), (''<!ENTITY'', Tk_entity),
      (''<!NOTATION'', Tk_notation)]"

definition token_doctype_decl :: "(token_state, 'd) scan_rule" where
  "token_doctype_decl uc p =
     (if is_name_char uc then ok (Goto Ts_doctype_decl p)
      else
        bind_res (xml_retract p) (\<lambda>p.
          case map_of doctype_tokens (xp_token p) of
            Some t \<Rightarrow> ok (Found t p)
          | None \<Rightarrow> not_well_formed (''invalid doctype declaration '' @ quote_text (xp_token p)) p))"

definition token_string :: "unicode \<Rightarrow> (token_state, 'd) scan_rule" where
  "token_string quote_char uc p =
     (if uc = quote_char then found_inner Tk_string 1 2 p
      else if uc = 0 then not_well_formed ''unexpected end of file, runaway std::string'' p
      else ok (Goto (Ts_string quote_char) p))"

definition hash_tokens :: "(string \<times> xml_token) list" where
  "hash_tokens = [(''#PCDATA'', Tk_pcdata), (''#FIXED'', Tk_fixed), (''#IMPLIED'', Tk_implied), (''#REQUIRED'', Tk_required)]"

definition token_hash_name :: "(token_state, 'd) scan_rule" where
  "token_hash_name uc p =
     (if is_name_char uc then ok (Goto Ts_hash_name p)
      else
        bind_res (xml_retract p) (\<lambda>p.
          case map_of hash_tokens (xp_token p) of
            Some t \<Rightarrow> ok (Found t p)
          | None \<Rightarrow> not_well_formed (''Unexpected token '' @ xp_token p) p))"

definition token_name :: "bool \<Rightarrow> (token_state, 'd) scan_rule" where
  "token_name might_be_name uc p =
     (if is_name_char uc then ok (Goto (Ts_name might_be_name) p)
      else found_token (if might_be_name then Tk_name else Tk_nmtoken) p)"

definition token_peref :: "(token_state, 'd) scan_rule" where
  "token_peref uc p = (if is_name_start_char uc then ok (Goto Ts_peref_name p) else found_token Tk_percent p)"

definition token_peref_name :: "(token_state, 'd) scan_rule" where
  "token_peref_name uc p =
     (if uc = ord32 CHR '';'' then found_inner Tk_pereference 1 2 p
      else if is_name_char uc then ok (Goto Ts_peref_name p)
      else not_well_formed ''invalid parameter entity reference'' p)"

fun token_rule :: "token_state \<Rightarrow> (token_state, 'd) scan_rule" where
  "token_rule Ts_start = token_start"
| "token_rule Ts_white_space = token_white_space"
| "token_rule Ts_tag = token_tag"
| "token_rule (Ts_string q) = token_string q"
| "token_rule Ts_peref = token_peref"
| "token_rule Ts_peref_name = token_peref_name"
| "token_rule Ts_hash_name = token_hash_name"
| "token_rule (Ts_name b) = token_name b"
| "token_rule Ts_comment_or_doctype = token_comment_or_doctype"
| "token_rule Ts_comment = token_comment"
| "token_rule Ts_doctype_decl = token_doctype_decl"
| "token_rule Ts_pi = token_pi"

fun scan_loop :: "('s \<Rightarrow> ('s, 'd) scan_rule) \<Rightarrow> nat \<Rightarrow> 's \<Rightarrow> 'd xml_parser \<Rightarrow> (xml_token \<times> 'd xml_parser) res option" where
  "scan_loop rule 0 s p = None"
| "scan_loop rule (Suc n) s p =
     (case xml_get_next_char p of
        Inl e \<Rightarrow> Some (throw e)
      | Inr (uc, p) \<Rightarrow>
          (case rule s uc p of
             Inl e \<Rightarrow> Some (throw e)
           | Inr (Found t p) \<Rightarrow> Some (ok (t, p))
           | Inr (Goto s p) \<Rightarrow> scan_loop rule n s p))"

definition xml_get_next_token :: "nat \<Rightarrow> 'd xml_parser \<Rightarrow> (xml_token \<times> 'd xml_parser) res option" where
  "xml_get_next_token n p = scan_loop token_rule n Ts_start (p\<lparr>xp_token := []\<rparr>)"

section \<open>The scanner for content\<close>

datatype content_state =
    Cs_start | Cs_tag | Cs_reference | Cs_reference_name | Cs_charref | Cs_decimal unicode | Cs_hex | Cs_hex_digits unicode
  | Cs_white_space | Cs_content | Cs_pi | Cs_comment_or_cdata | Cs_comment | Cs_cdata | Cs_cdata_name | Cs_cdata_text
  | Cs_cdata_bracket | Cs_cdata_brackets | Cs_illegal | Cs_illegal_brackets

text \<open>The value of a character reference is a 32-bit word; its digits wrap around.\<close>

definition hex_digit :: "unicode \<Rightarrow> unicode option" where
  "hex_digit uc =
     (if uc \<ge> ord32 CHR ''a'' \<and> uc \<le> ord32 CHR ''f'' then Some (uc - ord32 CHR ''a'' + 10)
      else if uc \<ge> ord32 CHR ''A'' \<and> uc \<le> ord32 CHR ''F'' then Some (uc - ord32 CHR ''A'' + 10)
      else if uc \<ge> ord32 CHR ''0'' \<and> uc \<le> ord32 CHR ''9'' then Some (uc - ord32 CHR ''0'')
      else None)"

definition dec_digit :: "unicode \<Rightarrow> unicode option" where
  "dec_digit uc = (if uc \<ge> ord32 CHR ''0'' \<and> uc \<le> ord32 CHR ''9'' then Some (uc - ord32 CHR ''0'') else None)"

definition content_start :: "(content_state, 'd) scan_rule" where
  "content_start uc p =
     (if uc = 0 then ok (Found Tk_eof p)
      else if uc = ord32 CHR ''<'' then ok (Goto Cs_tag p)
      else if uc = ord32 CHR ''&'' then ok (Goto Cs_reference p)
      else if uc = ord32 CHR '']'' then ok (Goto Cs_illegal p)
      else if uc = 0x20 \<or> uc = 0x09 \<or> uc = 0x0A \<or> uc = 0x0D then ok (Goto Cs_white_space p)
      else ok (Goto Cs_content p))"

definition content_white_space :: "(content_state, 'd) scan_rule" where
  "content_white_space uc p = (if is_space uc then ok (Goto Cs_white_space p) else found_token Tk_space p)"

definition content_content :: "(content_state, 'd) scan_rule" where
  "content_content uc p =
     (if uc = ord32 CHR '']'' then ok (Goto Cs_illegal p)
      else if uc = 0 \<or> uc = ord32 CHR ''<'' \<or> uc = ord32 CHR ''&'' then found_token Tk_content p
      else if \<not> is_referrable_char (xp_version p) uc then not_well_formed ''Illegal character in content text'' p
      else ok (Goto Cs_content p))"

definition content_tag :: "(content_state, 'd) scan_rule" where
  "content_tag uc p =
     (if uc = ord32 CHR ''/'' then ok (Found Tk_etag p)
      else if uc = ord32 CHR ''?'' then ok (Goto Cs_pi p)
      else if uc = ord32 CHR ''!'' then ok (Goto Cs_comment_or_cdata p)
      else found_token Tk_stag p)"

definition content_pi :: "(content_state, 'd) scan_rule" where
  "content_pi uc p = (if is_name_char uc then ok (Goto Cs_pi p) else found_token Tk_pi p)"

definition invalid_content :: "'d xml_parser \<Rightarrow> ('s, 'd) scanned res" where
  "invalid_content p = not_well_formed ''invalid content'' p"

definition content_comment_or_cdata :: "(content_state, 'd) scan_rule" where
  "content_comment_or_cdata uc p =
     (if uc = ord32 CHR ''-'' then ok (Goto Cs_comment p)
      else if uc = ord32 CHR ''['' then ok (Goto Cs_cdata p)
      else invalid_content p)"

definition content_comment :: "(content_state, 'd) scan_rule" where
  "content_comment uc p = (if uc = ord32 CHR ''-'' then ok (Found Tk_comment p) else invalid_content p)"

definition content_cdata :: "(content_state, 'd) scan_rule" where
  "content_cdata uc p = (if is_name_start_char uc then ok (Goto Cs_cdata_name p) else invalid_content p)"

definition content_cdata_name :: "(content_state, 'd) scan_rule" where
  "content_cdata_name uc p =
     (if uc = ord32 CHR ''['' \<and> xp_token p = ''<![CDATA['' then ok (Goto Cs_cdata_text p)
      else if is_name_char uc then ok (Goto Cs_cdata_name p)
      else invalid_content p)"

definition runaway_cdata :: "'d xml_parser \<Rightarrow> ('s, 'd) scanned res" where
  "runaway_cdata p = not_well_formed ''runaway cdata section'' p"

definition content_cdata_text :: "(content_state, 'd) scan_rule" where
  "content_cdata_text uc p =
     (if uc = ord32 CHR '']'' then ok (Goto Cs_cdata_bracket p)
      else if uc = 0 then runaway_cdata p
      else ok (Goto Cs_cdata_text p))"

definition content_cdata_bracket :: "(content_state, 'd) scan_rule" where
  "content_cdata_bracket uc p =
     (if uc = ord32 CHR '']'' then ok (Goto Cs_cdata_brackets p)
      else if uc = 0 then runaway_cdata p
      else ok (Goto Cs_cdata_text p))"

definition content_cdata_brackets :: "(content_state, 'd) scan_rule" where
  "content_cdata_brackets uc p =
     (if uc = ord32 CHR ''>'' then found_inner Tk_cdsect 9 12 p
      else if uc = 0 then runaway_cdata p
      else if uc \<noteq> ord32 CHR '']'' then ok (Goto Cs_cdata_text p)
      else ok (Goto Cs_cdata_brackets p))"

definition content_reference :: "(content_state, 'd) scan_rule" where
  "content_reference uc p =
     (if uc = ord32 CHR ''#'' then ok (Goto Cs_charref p)
      else if is_name_start_char uc then ok (Goto Cs_reference_name p)
      else not_well_formed ''stray ampersand found in content'' p)"

definition content_reference_name :: "(content_state, 'd) scan_rule" where
  "content_reference_name uc p =
     (if is_name_char uc then ok (Goto Cs_reference_name p)
      else if uc \<noteq> ord32 CHR '';'' then not_well_formed ''invalid entity found in content, missing semicolon?'' p
      else found_inner Tk_reference 1 2 p)"

definition invalid_charref :: "'d xml_parser \<Rightarrow> 'a res" where
  "invalid_charref p = not_well_formed ''invalid character reference'' p"

definition content_charref :: "(content_state, 'd) scan_rule" where
  "content_charref uc p =
     (if uc = ord32 CHR ''x'' then ok (Goto Cs_hex p)
      else (case dec_digit uc of Some d \<Rightarrow> ok (Goto (Cs_decimal d) p) | None \<Rightarrow> invalid_charref p))"

definition found_charref :: "unicode \<Rightarrow> (content_state, 'd) scan_rule" where
  "found_charref charref uc p =
     (if uc \<noteq> ord32 CHR '';'' then invalid_charref p
      else if \<not> is_referrable_char (xp_version p) charref then not_well_formed ''Illegal character in content text'' p
      else ok (Found Tk_charref (p\<lparr>xp_token := utf8 charref\<rparr>)))"

definition content_decimal :: "unicode \<Rightarrow> (content_state, 'd) scan_rule" where
  "content_decimal charref uc p =
     (case dec_digit uc of Some d \<Rightarrow> ok (Goto (Cs_decimal (charref * 10 + d)) p) | None \<Rightarrow> found_charref charref uc p)"

definition content_hex :: "(content_state, 'd) scan_rule" where
  "content_hex uc p = (case hex_digit uc of Some d \<Rightarrow> ok (Goto (Cs_hex_digits d) p) | None \<Rightarrow> invalid_charref p)"

definition content_hex_digits :: "unicode \<Rightarrow> (content_state, 'd) scan_rule" where
  "content_hex_digits charref uc p =
     (case hex_digit uc of Some d \<Rightarrow> ok (Goto (Cs_hex_digits (push_bit 4 charref + d)) p) | None \<Rightarrow> found_charref charref uc p)"

definition content_illegal :: "(content_state, 'd) scan_rule" where
  "content_illegal uc p = (if uc = ord32 CHR '']'' then ok (Goto Cs_illegal_brackets p) else back_to_state Cs_content p)"

definition content_illegal_brackets :: "(content_state, 'd) scan_rule" where
  "content_illegal_brackets uc p =
     (if uc = ord32 CHR ''>'' then
        not_well_formed (''the sequence '' @ quote_text '']]>'' @ '' is illegal in content text'') p
      else if uc \<noteq> ord32 CHR '']'' then bind_res (xml_retract p) (back_to_state Cs_content)
      else ok (Goto Cs_illegal_brackets p))"

fun content_state_rule :: "content_state \<Rightarrow> (content_state, 'd) scan_rule" where
  "content_state_rule Cs_start = content_start"
| "content_state_rule Cs_tag = content_tag"
| "content_state_rule Cs_reference = content_reference"
| "content_state_rule Cs_reference_name = content_reference_name"
| "content_state_rule Cs_charref = content_charref"
| "content_state_rule (Cs_decimal r) = content_decimal r"
| "content_state_rule Cs_hex = content_hex"
| "content_state_rule (Cs_hex_digits r) = content_hex_digits r"
| "content_state_rule Cs_white_space = content_white_space"
| "content_state_rule Cs_content = content_content"
| "content_state_rule Cs_pi = content_pi"
| "content_state_rule Cs_comment_or_cdata = content_comment_or_cdata"
| "content_state_rule Cs_comment = content_comment"
| "content_state_rule Cs_cdata = content_cdata"
| "content_state_rule Cs_cdata_name = content_cdata_name"
| "content_state_rule Cs_cdata_text = content_cdata_text"
| "content_state_rule Cs_cdata_bracket = content_cdata_bracket"
| "content_state_rule Cs_cdata_brackets = content_cdata_brackets"
| "content_state_rule Cs_illegal = content_illegal"
| "content_state_rule Cs_illegal_brackets = content_illegal_brackets"

definition content_rule :: "content_state \<Rightarrow> (content_state, 'd) scan_rule" where
  "content_rule s uc p =
     (if uc \<noteq> 0 \<and> \<not> is_char (xp_version p) uc then
        not_well_formed (''illegal character in content: '' @ quote_text (to_hex uc)) p
      else content_state_rule s uc p)"

definition xml_get_next_content :: "nat \<Rightarrow> 'd xml_parser \<Rightarrow> (xml_token \<times> 'd xml_parser) res option" where
  "xml_get_next_content n p = scan_loop content_rule n Cs_start (p\<lparr>xp_token := []\<rparr>)"

section \<open>Entities by name\<close>

definition get_general_entity :: "string \<Rightarrow> 'd xml_parser \<Rightarrow> (entity, 'd) xml_res" where
  "get_general_entity name p =
     (case List.find (\<lambda>e. en_name e = name) (xp_general_entities p) of
        None \<Rightarrow> not_well_formed (''undefined entity reference '' @ quote_text name) p
      | Some e \<Rightarrow>
          bind_res
            (if en_external e \<and> xp_standalone p
             then not_valid (''Document cannot be standalone since entity '' @ name @ '' is defined externally'') p
             else ok p) (\<lambda>p. ok (e, p)))"

definition get_parameter_entity :: "string \<Rightarrow> 'd xml_parser \<Rightarrow> entity res" where
  "get_parameter_entity name p =
     (case List.find (\<lambda>e. en_name e = name) (xp_parameter_entities p) of
        None \<Rightarrow> not_well_formed (''Undefined parameter entity '' @ quote_text (xp_token p)) p
      | Some e \<Rightarrow> ok e)"

definition get_element :: "string \<Rightarrow> 'd xml_parser \<Rightarrow> dtd_element option" where
  "get_element name p = List.find (\<lambda>e. el_name e = name) (xp_doctype p)"

section \<open>Matching tokens\<close>

definition unexpected_token :: "xml_token \<Rightarrow> 'd xml_parser \<Rightarrow> 'a res" where
  "unexpected_token t p =
     not_well_formed
       (''Error parsing XML, expected '' @ quote_text (describe_token t) @ '' but found '' @ quote_text (describe_token (xp_lookahead p))
        @ '' ('' @ quote_text (xp_token p) @ '')'') p"

text \<open>
  A parameter entity reference in a declaration is replaced by the text of the entity; the
  next token is then the first of this text.
\<close>

definition open_pereference :: "'d xml_parser \<Rightarrow> 'd xml_parser res" where
  "open_pereference p =
     bind_res (get_parameter_entity (xp_token p) p) (\<lambda>e.
       ok (push_source (\<lambda>i. parameter_entity_source i (en_replacement e) (en_path e)) True p))"

type_synonym 'd xml_op = "'d xml_parser \<Rightarrow> 'd xml_parser res option"

definition next_content :: "nat \<Rightarrow> 'd xml_op" where
  "next_content n p = seq (xml_get_next_content n p) (\<lambda>(t, p). Some (ok (p\<lparr>xp_lookahead := t\<rparr>)))"

definition next_token :: "nat \<Rightarrow> 'd xml_op" where
  "next_token n p = seq (xml_get_next_token n p) (\<lambda>(t, p). Some (ok (p\<lparr>xp_lookahead := t\<rparr>)))"

fun xml_match :: "nat \<Rightarrow> xml_token \<Rightarrow> 'd xml_op" where
  "xml_match 0 t p = None"
| "xml_match (Suc n) t p =
     (if xp_lookahead p \<noteq> t then Some (unexpected_token t p)
      else if xp_in_content p then next_content n p
      else
        seq (next_token n p) (\<lambda>p.
          if xp_lookahead p = Tk_pereference \<and> \<not> xp_in_declsep p then
            (if xp_allow_peref p then seq (Some (open_pereference p)) (xml_match n Tk_pereference)
             else Some (not_well_formed ''Invalid entity reference at this location'' p))
          else Some (ok p)))"

fun skip_spaces :: "nat \<Rightarrow> 'd xml_op" where
  "skip_spaces 0 p = None"
| "skip_spaces (Suc n) p =
     (if xp_lookahead p = Tk_space then seq (xml_match n Tk_space p) (skip_spaces n) else Some (ok p))"

definition some_space :: "nat \<Rightarrow> 'd xml_op" where
  "some_space n p = seq (xml_match n Tk_space p) (skip_spaces n)"

definition xml_eq :: "nat \<Rightarrow> 'd xml_op" where
  "xml_eq n p = seq (skip_spaces n p) (\<lambda>p. seq (xml_match n Tk_eq p) (skip_spaces n))"

section \<open>Comments and processing instructions\<close>

text \<open>These read characters; \<open>m_in_content\<close> is put back before the next token is read.\<close>

datatype comment_state = Cm_start | Cm_hyphen | Cm_hyphens

fun comment_loop :: "nat \<Rightarrow> comment_state \<Rightarrow> 'd xml_op" where
  "comment_loop 0 s p = None"
| "comment_loop (Suc n) s p =
     seq (Some (xml_get_next_char p)) (\<lambda>(ch, p).
       if ch = 0 then Some (not_well_formed ''runaway comment'' p)
       else if \<not> is_char (xp_version p) ch then
         Some (not_well_formed (''illegal character in content: '' @ quote_text (to_hex ch)) p)
       else
         (case s of
            Cm_start \<Rightarrow> comment_loop n (if ch = ord32 CHR ''-'' then Cm_hyphen else Cm_start) p
          | Cm_hyphen \<Rightarrow> comment_loop n (if ch = ord32 CHR ''-'' then Cm_hyphens else Cm_start) p
          | Cm_hyphens \<Rightarrow>
              if ch = ord32 CHR ''>'' then Some (ok p)
              else Some (not_well_formed ''double hyphen found in comment'' p)))"

definition xml_comment :: "nat \<Rightarrow> 'd xml_op" where
  "xml_comment n p =
     seq (comment_loop n Cm_start (p\<lparr>xp_token := []\<rparr>)) (\<lambda>p.
       if length (xp_token p) < 3 then Some (throw Assertion)
       else
         (let text = take (length (xp_token p) - 3) (xp_token p) in
          seq (Some (report_event (Comment_event text) (p\<lparr>xp_token := text\<rparr>))) (xml_match n Tk_comment)))"

datatype pi_state = Pi_start | Pi_data_start | Pi_data | Pi_question_mark

definition pi_space :: "unicode \<Rightarrow> bool" where
  "pi_space ch \<longleftrightarrow> ch = 0x20 \<or> ch = 0x0A \<or> ch = 0x09"

fun pi_loop :: "nat \<Rightarrow> pi_state \<Rightarrow> 'd xml_op" where
  "pi_loop 0 s p = None"
| "pi_loop (Suc n) s p =
     seq (Some (xml_get_next_char p)) (\<lambda>(ch, p).
       if ch = 0 then Some (not_well_formed ''runaway processing instruction'' p)
       else if \<not> is_char (xp_version p) ch then
         Some (not_well_formed (''illegal character in processing instruction: '' @ quote_text (to_hex ch)) p)
       else
         (case s of
            Pi_start \<Rightarrow>
              if ch = ord32 CHR ''?'' then pi_loop n Pi_question_mark p
              else if pi_space ch then pi_loop n Pi_data_start (p\<lparr>xp_token := []\<rparr>)
              else Some (not_well_formed ''a space is required before pi data'' p)
          | Pi_data_start \<Rightarrow>
              if pi_space ch then pi_loop n Pi_data_start (p\<lparr>xp_token := []\<rparr>)
              else pi_loop n (if ch = ord32 CHR ''?'' then Pi_question_mark else Pi_data) p
          | Pi_data \<Rightarrow> pi_loop n (if ch = ord32 CHR ''?'' then Pi_question_mark else Pi_data) p
          | Pi_question_mark \<Rightarrow>
              if ch = ord32 CHR ''>'' then Some (ok p)
              else pi_loop n (if ch \<noteq> ord32 CHR ''?'' then Pi_data else Pi_question_mark) p))"

definition check_pi_target :: "string \<Rightarrow> 'd xml_parser \<Rightarrow> 'd xml_parser res" where
  "check_pi_target target p =
     (if target = [] then not_well_formed ''processing instruction target missing'' p
      else if xp_validating_ns p \<and> CHR '':'' \<in> set target then
        not_well_formed ''processing instruction name should not contain a colon'' p
      else if target = ''xml'' then not_well_formed ''xml declaration are only valid as the start of the file'' p
      else if iequals target ''xml'' then
        not_well_formed ''<?XML is neither an XML declaration nor a legal processing instruction target'' p
      else ok p)"

definition xml_pi :: "nat \<Rightarrow> 'd xml_op" where
  "xml_pi n p =
     seq (Some (substr_from 2 (xp_token p))) (\<lambda>target.
     seq (Some (check_pi_target target p)) (\<lambda>p.
     seq (pi_loop n Pi_start (p\<lparr>xp_token := []\<rparr>)) (\<lambda>p.
       if length (xp_token p) < 2 then Some (throw Undefined)
       else
         (let text = take (length (xp_token p) - 2) (xp_token p) in
          seq (Some (report_event (Pi_event target text) (p\<lparr>xp_token := text\<rparr>))) (xml_match n Tk_pi)))))"

fun xml_misc :: "nat \<Rightarrow> 'd xml_op" where
  "xml_misc 0 p = None"
| "xml_misc (Suc n) p =
     (case xp_lookahead p of
        Tk_space \<Rightarrow> seq (skip_spaces n p) (xml_misc n)
      | Tk_comment \<Rightarrow> seq (xml_comment n p) (xml_misc n)
      | Tk_pi \<Rightarrow> seq (xml_pi n p) (xml_misc n)
      | _ \<Rightarrow> Some (ok p))"

end
