(* ===== verification/Xml_Value.thy ===== *)
theory Xml_Value
  imports Xml_Scanner
begin

text \<open>
  Values of the XML parser (\<open>lib-xml/src/parser.cpp\<close>): entity values, in which character
  references and parameter entities are replaced when the entity is declared, and
  attribute values, in which all references are replaced and white space is normalised.
\<close>

section \<open>Entity values\<close>

datatype value_state =
    Vs_text | Vs_ampersand | Vs_charref | Vs_decimal unicode | Vs_hex | Vs_hex_digits unicode | Vs_entity string | Vs_peref string

text \<open>The local variables of the loops: state, result and, for parameter entities, the brackets open.\<close>

record value_loop =
  vl_state :: value_state
  vl_result :: string
  vl_open :: int

definition value_goto :: "value_state \<Rightarrow> value_loop \<Rightarrow> value_loop res" where
  "value_goto s v = ok (v\<lparr>vl_state := s\<rparr>)"

definition value_add :: "string \<Rightarrow> value_loop \<Rightarrow> value_loop res" where
  "value_add t v = ok (v\<lparr>vl_state := Vs_text, vl_result := vl_result v @ t\<rparr>)"

definition illegal_charref :: "unicode \<Rightarrow> 'd xml_parser \<Rightarrow> 'a res" where
  "illegal_charref charref p = not_well_formed (''Illegal character referenced: '' @ quote_text (to_hex charref)) p"

definition value_charref :: "'d xml_parser \<Rightarrow> unicode \<Rightarrow> unicode \<Rightarrow> value_loop \<Rightarrow> value_loop res" where
  "value_charref p charref c v =
     (if c \<noteq> ord32 CHR '';'' then invalid_charref p
      else if \<not> is_referrable_char (xp_version p) charref then illegal_charref charref p
      else value_add (utf8 charref) v)"

text \<open>The states of both loops but those of plain text and of a character after an ampersand.\<close>

definition value_reference :: "'d xml_parser \<Rightarrow> unicode \<Rightarrow> value_loop \<Rightarrow> value_loop res" where
  "value_reference p c v =
     (case vl_state v of
        Vs_charref \<Rightarrow>
          if c = ord32 CHR ''x'' then value_goto Vs_hex v
          else (case dec_digit c of Some d \<Rightarrow> value_goto (Vs_decimal d) v | None \<Rightarrow> invalid_charref p)
      | Vs_decimal r \<Rightarrow>
          (case dec_digit c of Some d \<Rightarrow> value_goto (Vs_decimal (r * 10 + d)) v | None \<Rightarrow> value_charref p r c v)
      | Vs_hex \<Rightarrow> (case hex_digit c of Some d \<Rightarrow> value_goto (Vs_hex_digits d) v | None \<Rightarrow> invalid_charref p)
      | Vs_hex_digits r \<Rightarrow>
          (case hex_digit c of Some d \<Rightarrow> value_goto (Vs_hex_digits (push_bit 4 r + d)) v | None \<Rightarrow> value_charref p r c v)
      | Vs_entity name \<Rightarrow>
          if c = ord32 CHR '';'' then value_add (''&'' @ name @ '';'') v
          else if is_name_char c then value_goto (Vs_entity (append_utf8 name c)) v
          else not_well_formed ''invalid entity reference'' p
      | Vs_peref name \<Rightarrow>
          if c = ord32 CHR '';'' then bind_res (get_parameter_entity name p) (\<lambda>e. value_add (en_replacement e) v)
          else if is_name_char c then value_goto (Vs_peref (append_utf8 name c)) v
          else not_well_formed ''invalid parameter entity reference'' p
      | _ \<Rightarrow> throw Assertion)"

definition value_percent :: "'d xml_parser \<Rightarrow> value_loop \<Rightarrow> value_loop res" where
  "value_percent p v =
     (if xp_allow_peref p then value_goto (Vs_peref []) v
      else not_well_formed ''parameter entities may not occur in declarations that are not in an external subset'' p)"

definition parameter_value_step :: "'d xml_parser \<Rightarrow> unicode \<Rightarrow> value_loop \<Rightarrow> value_loop res" where
  "parameter_value_step p c v =
     (case vl_state v of
        Vs_text \<Rightarrow>
          if c = ord32 CHR ''&'' then value_goto Vs_ampersand v
          else if c = ord32 CHR ''%'' then value_percent p v
          else if c = ord32 CHR ''<'' then value_add (utf8 c) (v\<lparr>vl_open := vl_open v + 1\<rparr>)
          else if c = ord32 CHR ''>'' then value_add (utf8 c) (v\<lparr>vl_open := vl_open v - 1\<rparr>)
          else if \<not> is_char (xp_version p) c then not_well_formed ''Invalid character in entity value'' p
          else value_add (utf8 c) v
      | Vs_ampersand \<Rightarrow>
          if c = ord32 CHR ''#'' then value_goto Vs_charref v else value_add (''&'' @ utf8 c) v
      | Vs_decimal r \<Rightarrow>
          if c = ord32 CHR '';'' \<and> \<not> is_referrable_char (xp_version p) r then
            not_well_formed (''Illegal character referenced: '' @ to_hex r @ [CHR 0x27]) p
          else value_reference p c v
      | _ \<Rightarrow> value_reference p c v)"

text \<open>
  After an ampersand the loop for general entities stays in its state for a character that
  can not start a name.
\<close>

definition general_value_step :: "'d xml_parser \<Rightarrow> unicode \<Rightarrow> value_loop \<Rightarrow> value_loop res" where
  "general_value_step p c v =
     (case vl_state v of
        Vs_text \<Rightarrow>
          if c = ord32 CHR ''&'' then value_goto Vs_ampersand v
          else if c = ord32 CHR ''%'' then value_percent p v
          else if \<not> is_char (xp_version p) c then not_well_formed ''Invalid character in entity value'' p
          else value_add (utf8 c) v
      | Vs_ampersand \<Rightarrow>
          if c = ord32 CHR ''#'' then value_goto Vs_charref v
          else if is_name_start_char c then value_goto (Vs_entity (utf8 c)) v
          else ok v
      | _ \<Rightarrow> value_reference p c v)"

definition value_start :: value_loop where
  "value_start = \<lparr>vl_state = Vs_text, vl_result = [], vl_open = 0\<rparr>"

text \<open>The loop for parameter entities takes each \<open>char\<close>, which is signed, as a character.\<close>

fun parameter_value_loop :: "'d xml_parser \<Rightarrow> string \<Rightarrow> value_loop \<Rightarrow> value_loop res" where
  "parameter_value_loop p [] v = ok v"
| "parameter_value_loop p (c # s) v = bind_res (parameter_value_step p (unicode_of c) v) (parameter_value_loop p s)"

function general_value_loop :: "'d xml_parser \<Rightarrow> string \<Rightarrow> value_loop \<Rightarrow> value_loop res" where
  "general_value_loop p s v =
     (if s = [] then ok v
      else
        (case get_first_char s of
           Inl e \<Rightarrow> throw e
         | Inr (c, t) \<Rightarrow>
             (case general_value_step p c v of Inl e \<Rightarrow> throw e | Inr v \<Rightarrow> general_value_loop p t v)))"
  by pat_completeness auto
termination
  by (relation "measure (\<lambda>(_, s, _). length s)") (auto dest: get_first_char_less)

declare general_value_loop.simps [simp del]

definition parse_parameter_entity_declaration :: "string \<Rightarrow> 'd xml_parser \<Rightarrow> (string, 'd) xml_res" where
  "parse_parameter_entity_declaration s p =
     bind_res (parameter_value_loop p s value_start) (\<lambda>v.
       if vl_state v \<noteq> Vs_text then not_well_formed ''invalid reference'' p
       else bind_res (if vl_open v \<noteq> 0 then not_valid ''invalid reference'' p else ok p) (\<lambda>p. ok (vl_result v, p)))"

definition parse_general_entity_declaration :: "string \<Rightarrow> 'd xml_parser \<Rightarrow> (string, 'd) xml_res" where
  "parse_general_entity_declaration s p =
     bind_res (general_value_loop p s value_start) (\<lambda>v.
       if vl_state v \<noteq> Vs_text then not_well_formed ''invalid reference'' p else ok (vl_result v, p))"

section \<open>Attribute values\<close>

fun collapse_loop :: "bool \<Rightarrow> string \<Rightarrow> string \<times> bool" where
  "collapse_loop space [] = ([], space)"
| "collapse_loop space (c # s) =
     (if c = CHR '' '' then (case collapse_loop True s of (t, sp) \<Rightarrow> (if space then t else CHR '' '' # t, sp))
      else (case collapse_loop False s of (t, sp) \<Rightarrow> (c # t, sp)))"

definition collapse_spaces :: "string \<Rightarrow> string" where
  "collapse_spaces s = (case collapse_loop True s of (t, space) \<Rightarrow> if space \<and> t \<noteq> [] then butlast t else t)"

definition check_attribute_entity :: "entity \<Rightarrow> 'd xml_parser \<Rightarrow> 'd xml_parser res" where
  "check_attribute_entity e p =
     (if en_external e then not_well_formed ''attribute value may not contain external entity reference'' p
      else if en_externally_defined e \<and> xp_standalone p then
        not_well_formed ''document marked as standalone but an external entity is referenced'' p
      else ok p)"

text \<open>What a general entity puts on the stack of sources, with the base of the source it is used in.\<close>

definition push_entity :: "entity \<Rightarrow> 'd xml_parser \<Rightarrow> 'd xml_parser res" where
  "push_entity e p =
     bind_res (top_source p) (\<lambda>src. ok (push_source (\<lambda>i. entity_source i (en_replacement e) (ds_base src)) False p))"

definition enter_entity :: "string \<Rightarrow> 'd xml_parser \<Rightarrow> 'd xml_parser res" where
  "enter_entity name p =
     (if name \<in> set (xp_entities_on_stack p) then not_well_formed ''infinite recursion in nested entity references'' p
      else
        bind_res (get_general_entity name (p\<lparr>xp_entities_on_stack := name # xp_entities_on_stack p\<rparr>)) (\<lambda>(e, p).
        bind_res (check_attribute_entity e p) (push_entity e)))"

fun normalize_loop :: "nat \<Rightarrow> value_state \<Rightarrow> string \<Rightarrow> 'd xml_parser \<Rightarrow> (string \<times> 'd xml_parser) res option" where
  "normalize_loop 0 s result p = None"
| "normalize_loop (Suc n) s result p =
     seq (Some (xml_get_next_char p)) (\<lambda>(c, p).
       if c = 0 then
         (if s \<noteq> Vs_text then Some (not_well_formed ''invalid reference'' p)
          else seq (Some (pop_source p)) (\<lambda>p. Some (ok (result, p))))
       else if c = ord32 CHR ''<'' then Some (not_well_formed (''Attribute values may not contain '' @ quote_text ''<'' @ '' character'') p)
       else
         (case s of
            Vs_text \<Rightarrow>
              if is_space c then normalize_loop n Vs_text (result @ '' '') p
              else if c = ord32 CHR ''&'' then normalize_loop n Vs_ampersand result p
              else normalize_loop n Vs_text (append_utf8 result c) p
          | Vs_ampersand \<Rightarrow>
              if c = ord32 CHR ''#'' then normalize_loop n Vs_charref result p
              else if is_name_start_char c then normalize_loop n (Vs_entity (utf8 c)) result p
              else Some (not_well_formed ''invalid reference found in attribute value'' p)
          | Vs_entity name \<Rightarrow>
              if c = ord32 CHR '';'' then
                seq (Some (enter_entity name p)) (\<lambda>p.
                seq (normalize_loop n Vs_text [] p) (\<lambda>(replacement, p).
                  normalize_loop n Vs_text (result @ replacement) (p\<lparr>xp_entities_on_stack := tl (xp_entities_on_stack p)\<rparr>)))
              else if is_name_char c then normalize_loop n (Vs_entity (append_utf8 name c)) result p
              else Some (not_well_formed ''invalid entity reference'' p)
          | _ \<Rightarrow>
              seq (Some (value_reference p c \<lparr>vl_state = s, vl_result = result, vl_open = 0\<rparr>)) (\<lambda>v.
                normalize_loop n (vl_state v) (vl_result v) p)))"

definition normalize_attribute_value :: "nat \<Rightarrow> string \<Rightarrow> bool \<Rightarrow> 'd xml_parser \<Rightarrow> (string \<times> 'd xml_parser) res option" where
  "normalize_attribute_value n s isCDATA p =
     seq (normalize_loop n Vs_text [] (push_source (\<lambda>i. string_source i s) False p)) (\<lambda>(result, p).
     seq (Some (if xp_standalone p \<and> result \<noteq> s
                then not_valid ''Document cannot be standalone since an attribute was modified'' p else ok p)) (\<lambda>p.
       Some (ok (if isCDATA then result else collapse_spaces result, p))))"

end
