(* ===== verification/Xml_Dtd.thy ===== *)
theory Xml_Dtd
  imports Xml_Value
begin

text \<open>
  The document type declaration in the XML parser (\<open>lib-xml/src/parser.cpp\<close>): markup
  declarations, content models, entities, attribute lists, notations, parameter entity
  references and conditional sections. Saved flags are put back at the end of a
  production; after an exception the state is not used any more.
\<close>

section \<open>External identifiers\<close>

definition get_data_source :: "string \<Rightarrow> string \<Rightarrow> 'd xml_parser \<Rightarrow> (data_source option, 'd) xml_res" where
  "get_data_source pubid uri p =
     bind_res (top_source p) (\<lambda>top.
       case xp_external p (ds_base top) pubid uri of
         None \<Rightarrow> ok (None, p)
       | Some data \<Rightarrow>
           (let rest = rev uri; dir = rev (tl (dropWhile (\<lambda>c. c \<noteq> CHR ''/'') rest));
                base = (if CHR ''/'' \<notin> set uri then ds_base top
                        else if is_absolute_path dir then dir
                        else ds_base top @ ''/'' @ dir)
            in ok (Some ((stream_source (xp_next_id p) data)\<lparr>ds_base := base\<rparr>), p\<lparr>xp_next_id := xp_next_id p + 1\<rparr>)))"

text \<open>The identifiers; the token of the system identifier is still to be matched.\<close>

definition read_public_id :: "nat \<Rightarrow> 'd xml_parser \<Rightarrow> (string \<times> 'd xml_parser) res option" where
  "read_public_id n p =
     seq (xml_match n Tk_name p) (\<lambda>p.
     seq (some_space n p) (\<lambda>p.
       let pubid = xp_token p in
       seq (xml_match n Tk_string p) (\<lambda>p.
         if \<not> is_valid_public_id pubid then Some (not_well_formed ''Invalid public ID'' p) else Some (ok (pubid, p)))))"

definition read_external_names :: "nat \<Rightarrow> 'd xml_parser \<Rightarrow> ((string \<times> string) \<times> 'd xml_parser) res option" where
  "read_external_names n p =
     (if xp_token p = ''SYSTEM'' then
        seq (xml_match n Tk_name p) (\<lambda>p.
        seq (some_space n p) (\<lambda>p.
          if \<not> is_valid_system_literal (xp_token p) then Some (not_well_formed ''invalid system literal'' p)
          else Some (ok (([], xp_token p), p))))
      else if xp_token p = ''PUBLIC'' then
        seq (read_public_id n p) (\<lambda>(pubid, p). seq (some_space n p) (\<lambda>p. Some (ok ((pubid, xp_token p), p))))
      else Some (not_well_formed ''Expected external id starting with either SYSTEM or PUBLIC'' p))"

section \<open>Versions and encodings\<close>

fun version_digits :: "rat \<Rightarrow> rat \<Rightarrow> string \<Rightarrow> rat" where
  "version_digits dec result [] = result"
| "version_digits dec result (c # s) =
     (if isdigit c then version_digits (dec + 10) (result + of_nat (digit_val c) / dec) s else - 1)"

definition parse_version :: "'d xml_parser \<Rightarrow> rat res" where
  "parse_version p =
     (let t = xp_token p;
          result = (if length t \<ge> 3 \<and> t ! 0 = CHR ''1'' \<and> t ! 1 = CHR ''.'' then version_digits 10 1 (drop 2 t) else - 1)
      in if result < 1 \<or> result \<ge> 2 then not_well_formed (''Invalid version specified: '' @ quote_text t) p else ok result)"

definition text_decl_version :: "nat \<Rightarrow> 'd xml_op" where
  "text_decl_version n p =
     (if xp_token p \<noteq> ''version'' then Some (ok p)
      else
        seq (xml_match n Tk_name p) (\<lambda>p.
        seq (xml_eq n p) (\<lambda>p.
        seq (Some (parse_version p)) (\<lambda>version.
          if version > xp_version p then
            Some (not_well_formed ''Version mismatch between document and external entity'' p)
          else seq (xml_match n Tk_string p) (\<lambda>p. if xp_version p = 1 then some_space n p else skip_spaces n p)))))"

definition text_decl_encoding :: "nat \<Rightarrow> 'd xml_op" where
  "text_decl_encoding n p =
     (if xp_token p \<noteq> ''encoding'' then
        (if xp_version p = 1 then Some (not_well_formed ''encoding attribute is mandatory in text declaration'' p) else Some (ok p))
      else
        seq (xml_match n Tk_name p) (\<lambda>p.
        seq (xml_eq n p) (\<lambda>p.
        seq (xml_match n Tk_string p) (skip_spaces n))))"

definition text_decl :: "nat \<Rightarrow> 'd xml_op" where
  "text_decl n p =
     (if xp_lookahead p \<noteq> Tk_xml_decl then Some (ok p)
      else
        seq (Some (top_source p)) (\<lambda>src.
        seq (Some (if ds_encoding src = UTF8 \<and> \<not> (ds_kind src = Stream_source \<and> ds_has_bom src)
                   then change_source (set_encoding ISO88591) p else ok p)) (\<lambda>p.
        seq (xml_match n Tk_xml_decl p) (\<lambda>p.
        seq (some_space n p) (\<lambda>p.
        seq (text_decl_version n p) (\<lambda>p.
        seq (text_decl_encoding n p) (\<lambda>p.
        seq (Some (change_source (set_encoding (ds_encoding src)) p)) (\<lambda>p.
        seq (xml_match n Tk_question_mark p) (xml_match n Tk_greater_than)))))))))"

section \<open>External entities\<close>

text \<open>
  What is left of an external entity: the token and the characters put back, then those of the
  source up to the first zero.
\<close>

fun read_rest :: "nat \<Rightarrow> string \<Rightarrow> 'd xml_parser \<Rightarrow> (string \<times> 'd xml_parser) res option" where
  "read_rest 0 result p = None"
| "read_rest (Suc n) result p =
     seq (Some (top_source p)) (\<lambda>src.
     seq (Some (source_get_next_char src)) (\<lambda>(ch, src).
     seq (Some (change_source (\<lambda>_. ok src) p)) (\<lambda>p.
       if ch = 0 then Some (ok (result, p)) else read_rest n (append_utf8 result ch) p)))"

definition entity_text :: "nat \<Rightarrow> 'd xml_parser \<Rightarrow> (string \<times> 'd xml_parser) res option" where
  "entity_text n p =
     (if xp_lookahead p = Tk_eof then Some (ok ([], p))
      else read_rest n (xp_token p @ concat (map utf8 (xp_buffer p))) (p\<lparr>xp_buffer := []\<rparr>))"

definition read_external_id :: "nat \<Rightarrow> 'd xml_parser \<Rightarrow> ((string \<times> string) \<times> 'd xml_parser) res option" where
  "read_external_id n p =
     seq (read_external_names n p) (\<lambda>((pubid, uri), p).
     seq (Some (get_data_source pubid uri p)) (\<lambda>(data, p).
       case data of
         None \<Rightarrow> Some (ok (([], []), p))
       | Some src \<Rightarrow>
           seq (next_token n (push_source (\<lambda>_. src) False p)) (\<lambda>p.
           seq (text_decl n p) (\<lambda>p.
           seq (entity_text n p) (\<lambda>(result, p).
           seq (Some (pop_source p)) (\<lambda>p. Some (ok ((ds_base src, result), p)))))))) "

section \<open>Nesting\<close>

definition top_id :: "'d xml_parser \<Rightarrow> nat res" where
  "top_id p = bind_res (top_source p) (\<lambda>src. ok (ds_id src))"

definition check_nesting :: "nat \<Rightarrow> 'd xml_parser \<Rightarrow> 'd xml_parser res" where
  "check_nesting i p =
     bind_res (top_id p) (\<lambda>j. if i \<noteq> j then throw (Invalid_document ''proper nesting validation error'') else ok p)"

section \<open>Content models\<close>

definition occurrence :: "nat \<Rightarrow> content_spec \<Rightarrow> 'd xml_parser \<Rightarrow> (content_spec \<times> 'd xml_parser) res option" where
  "occurrence n spec p =
     (case xp_lookahead p of
        Tk_asterisk \<Rightarrow> seq (xml_match n Tk_asterisk p) (\<lambda>p. Some (ok (Spec_repeated spec CHR ''*'', p)))
      | Tk_plus \<Rightarrow> seq (xml_match n Tk_plus p) (\<lambda>p. Some (ok (Spec_repeated spec CHR ''+'', p)))
      | Tk_question_mark \<Rightarrow> seq (xml_match n Tk_question_mark p) (\<lambda>p. Some (ok (Spec_repeated spec CHR ''?'', p)))
      | _ \<Rightarrow> Some (ok (spec, p)))"

text \<open>
  \<open>xml_children\<close> is the list between brackets, with the flag \<open>more\<close> of \<open>contentspec\<close>, which
  is set where there is a separator.
\<close>

fun xml_cp :: "nat \<Rightarrow> 'd xml_parser \<Rightarrow> (content_spec \<times> 'd xml_parser) res option"
  and xml_children :: "nat \<Rightarrow> 'd xml_parser \<Rightarrow> ((content_spec \<times> bool) \<times> 'd xml_parser) res option"
  and cp_list :: "nat \<Rightarrow> xml_token \<Rightarrow> content_spec \<Rightarrow> 'd xml_parser \<Rightarrow> (content_spec \<times> 'd xml_parser) res option" where
  "xml_cp 0 p = None"
| "xml_cp (Suc n) p =
     seq (if xp_lookahead p = Tk_open_paren then
            seq (Some (top_id p)) (\<lambda>i.
            seq (xml_match n Tk_open_paren p) (\<lambda>p.
            seq (skip_spaces n p) (\<lambda>p.
            seq (xml_children n p) (\<lambda>((spec, _), p).
            seq (skip_spaces n p) (\<lambda>p.
            seq (Some (check_nesting i p)) (\<lambda>p.
            seq (xml_match n Tk_close_paren p) (\<lambda>p. Some (ok (spec, p)))))))))
          else
            (let name = xp_token p in seq (xml_match n Tk_name p) (\<lambda>p. Some (ok (Spec_element name, p)))))
       (\<lambda>(spec, p). occurrence n spec p)"
| "xml_children 0 p = None"
| "xml_children (Suc n) p =
     seq (xml_cp n p) (\<lambda>(spec, p).
     seq (skip_spaces n p) (\<lambda>p.
       if xp_lookahead p = Tk_comma then
         seq (cp_list n Tk_comma (Spec_seq [spec]) p) (\<lambda>(spec, p). Some (ok ((spec, True), p)))
       else if xp_lookahead p = Tk_pipe then
         seq (cp_list n Tk_pipe (Spec_choice [spec] False) p) (\<lambda>(spec, p). Some (ok ((spec, True), p)))
       else Some (ok ((spec, False), p))))"
| "cp_list 0 sep spec p = None"
| "cp_list (Suc n) sep spec p =
     seq (xml_match n sep p) (\<lambda>p.
     seq (skip_spaces n p) (\<lambda>p.
     seq (xml_cp n p) (\<lambda>(a, p).
     seq (skip_spaces n p) (\<lambda>p.
       if xp_lookahead p = sep then cp_list n sep (spec_add spec a) p else Some (ok (spec_add spec a, p))))))"

text \<open>A \<open>std::set\<close> of strings is a sorted list.\<close>

definition set_insert :: "string \<Rightarrow> string list \<Rightarrow> string list" where
  "set_insert x xs = (if x \<in> set xs then xs else insort x xs)"

fun mixed_names :: "nat \<Rightarrow> string list \<Rightarrow> 'd xml_parser \<Rightarrow> (string list \<times> 'd xml_parser) res option" where
  "mixed_names 0 seen p = None"
| "mixed_names (Suc n) seen p =
     (if xp_lookahead p \<noteq> Tk_pipe then Some (ok (seen, p))
      else
        seq (xml_match n Tk_pipe p) (\<lambda>p.
        seq (skip_spaces n p) (\<lambda>p.
        seq (Some (if xp_token p \<in> set seen
                   then not_valid ''no duplicates allowed in mixed content for element declaration'' p else ok p)) (\<lambda>p.
          let seen = set_insert (xp_token p) seen in
          seq (xml_match n Tk_name p) (\<lambda>p. seq (skip_spaces n p) (mixed_names n seen))))))"

definition mixed_spec :: "nat \<Rightarrow> 'd xml_parser \<Rightarrow> ((content_spec \<times> bool) \<times> 'd xml_parser) res option" where
  "mixed_spec n p =
     seq (xml_match n Tk_pcdata p) (\<lambda>p.
     seq (skip_spaces n p) (\<lambda>p.
     seq (mixed_names n [] p) (\<lambda>(seen, p).
       Some (ok ((foldl spec_add (Spec_choice [] True) (map Spec_element seen), seen \<noteq> []), p)))))"

definition spec_occurrence :: "nat \<Rightarrow> bool \<Rightarrow> bool \<Rightarrow> content_spec \<Rightarrow> 'd xml_parser \<Rightarrow> (content_spec \<times> 'd xml_parser) res option" where
  "spec_occurrence n mixed many spec p =
     (if xp_lookahead p = Tk_asterisk then occurrence n spec p
      else if \<not> many then Some (ok (spec, p))
      else if mixed then seq (xml_match n Tk_asterisk p) (\<lambda>p. Some (ok (Spec_repeated spec CHR ''*'', p)))
      else occurrence n spec p)"

definition contentspec :: "nat \<Rightarrow> 'd xml_parser \<Rightarrow> (content_spec \<times> 'd xml_parser) res option" where
  "contentspec n p =
     (if xp_lookahead p = Tk_name then
        (if xp_token p = ''EMPTY'' then seq (xml_match n Tk_name p) (\<lambda>p. Some (ok (Spec_empty, p)))
         else if xp_token p = ''ANY'' then seq (xml_match n Tk_name p) (\<lambda>p. Some (ok (Spec_any, p)))
         else Some (not_well_formed ''Invalid element content specification'' p))
      else
        seq (Some (top_id p)) (\<lambda>i.
        seq (xml_match n Tk_open_paren p) (\<lambda>p.
        seq (skip_spaces n p) (\<lambda>p.
          let mixed = (xp_lookahead p = Tk_pcdata) in
          seq (if mixed then mixed_spec n p else xml_children n p) (\<lambda>((spec, many), p).
          seq (skip_spaces n p) (\<lambda>p.
          seq (Some (check_nesting i p)) (\<lambda>p.
          seq (xml_match n Tk_close_paren p) (spec_occurrence n mixed many spec))))))))"

section \<open>Declarations of elements\<close>

fun update_element :: "string \<Rightarrow> (dtd_element \<Rightarrow> dtd_element) \<Rightarrow> dtd_element list \<Rightarrow> dtd_element list" where
  "update_element name f [] = []"
| "update_element name f (e # es) = (if el_name e = name then f e # es else e # update_element name f es)"

definition change_element :: "string \<Rightarrow> (dtd_element \<Rightarrow> dtd_element) \<Rightarrow> 'd xml_parser \<Rightarrow> 'd xml_parser" where
  "change_element name f p = p\<lparr>xp_doctype := update_element name f (xp_doctype p)\<rparr>"

definition find_or_add_element :: "string \<Rightarrow> bool \<Rightarrow> 'd xml_parser \<Rightarrow> 'd xml_parser" where
  "find_or_add_element name declared p =
     (if get_element name p = None then p\<lparr>xp_doctype := xp_doctype p @ [element_new name declared]\<rparr> else p)"

definition element_decl :: "nat \<Rightarrow> 'd xml_op" where
  "element_decl n p =
     seq (Some (top_id p)) (\<lambda>i.
     seq (xml_match n Tk_element p) (\<lambda>p.
     seq (some_space n p) (\<lambda>p.
       let name = xp_token p in
       if starts_with name ''xmlns:'' then Some (not_well_formed ''Element names should not start with xmlns:'' p)
       else
         seq (Some (case get_element name p of
                      None \<Rightarrow> ok (find_or_add_element name True p)
                    | Some e \<Rightarrow>
                        if el_declared e then not_valid (''duplicate element declaration for element '' @ quote_text name) p
                        else ok p)) (\<lambda>p.
         seq (xml_match n Tk_name p) (\<lambda>p.
         seq (some_space n p) (\<lambda>p.
         seq (contentspec n p) (\<lambda>(spec, p).
         seq (skip_spaces n (change_element name (set_allowed (Some spec)) p)) (\<lambda>p.
         seq (Some (check_nesting i p)) (xml_match n Tk_greater_than)))))))))"

section \<open>Declarations of entities\<close>

definition check_entity_name :: "string \<Rightarrow> 'd xml_parser \<Rightarrow> 'd xml_parser res" where
  "check_entity_name name p =
     (if xp_validating_ns p \<and> CHR '':'' \<in> set name then not_well_formed ''Entity names should not contain a colon'' p
      else if starts_with name ''xmlns:'' then not_well_formed ''Entity names should not start with xmlns:'' p
      else ok p)"

definition add_entity :: "entity \<Rightarrow> entity list \<Rightarrow> entity list" where
  "add_entity e es = (if List.find (\<lambda>f. en_name f = en_name e) es = None then es @ [e] else es)"

definition parameter_entity_decl :: "nat \<Rightarrow> 'd xml_op" where
  "parameter_entity_decl n p =
     seq (xml_match n Tk_percent p) (\<lambda>p.
     seq (some_space n p) (\<lambda>p.
       let name = xp_token p in
       seq (xml_match n Tk_name p) (\<lambda>p.
       seq (Some (check_entity_name name p)) (\<lambda>p.
       seq (some_space n p) (\<lambda>p.
       seq (if xp_lookahead p = Tk_string then
              (let s = xp_token p in
               seq (xml_match n Tk_string p) (\<lambda>p.
               seq (Some (parse_parameter_entity_declaration s p)) (\<lambda>(s, p). Some (ok (([], s), p)))))
            else seq (read_external_id n p) (\<lambda>(r, p). seq (xml_match n Tk_string p) (\<lambda>p. Some (ok (r, p))))) (\<lambda>((path, s), p).
       seq (skip_spaces n p) (\<lambda>p.
       seq (xml_match n Tk_greater_than p) (\<lambda>p.
         Some (ok (p\<lparr>xp_parameter_entities := add_entity (parameter_entity name s path) (xp_parameter_entities p)\<rparr>))))))))))"

text \<open>The name of the notation of an unparsed entity.\<close>

definition read_ndata :: "nat \<Rightarrow> 'd xml_parser \<Rightarrow> (string option \<times> 'd xml_parser) res option" where
  "read_ndata n p =
     (if xp_lookahead p \<noteq> Tk_space then Some (ok (None, p))
      else
        seq (some_space n p) (\<lambda>p.
          if xp_lookahead p = Tk_name \<and> xp_token p = ''NDATA'' then
            seq (xml_match n Tk_name p) (\<lambda>p.
            seq (some_space n p) (\<lambda>p.
              let ndata = xp_token p in seq (xml_match n Tk_name p) (\<lambda>p. Some (ok (Some ndata, p)))))
          else Some (ok (None, p))))"

definition new_general_entity :: "string \<Rightarrow> string \<Rightarrow> bool \<Rightarrow> string option \<Rightarrow> bool \<Rightarrow> entity" where
  "new_general_entity name s external ndata externally_defined =
     (general_entity name s external (ndata = None))
       \<lparr>en_ndata := (case ndata of None \<Rightarrow> [] | Some d \<Rightarrow> d), en_externally_defined := externally_defined\<rparr>"

definition general_entity_decl :: "nat \<Rightarrow> 'd xml_op" where
  "general_entity_decl n p =
     (let name = xp_token p in
      seq (xml_match n Tk_name p) (\<lambda>p.
      seq (some_space n p) (\<lambda>p.
      seq (Some (check_entity_name name p)) (\<lambda>p.
      seq (if xp_lookahead p = Tk_string then
             (let s = xp_token p in
              seq (xml_match n Tk_string p) (\<lambda>p.
              seq (Some (parse_general_entity_declaration s p)) (\<lambda>(s, p). Some (ok ((s, False, None), p)))))
           else
             seq (read_external_id n p) (\<lambda>((_, s), p).
             seq (xml_match n Tk_string p) (\<lambda>p.
             seq (read_ndata n p) (\<lambda>(ndata, p). Some (ok ((s, True, ndata), p)))))) (\<lambda>((s, external, ndata), p).
      seq (skip_spaces n p) (\<lambda>p.
      seq (xml_match n Tk_greater_than p) (\<lambda>p.
        Some (ok (p\<lparr>xp_general_entities :=
          add_entity (new_general_entity name s external ndata (xp_in_external_dtd p)) (xp_general_entities p)\<rparr>)))))))))"

definition entity_decl :: "nat \<Rightarrow> 'd xml_op" where
  "entity_decl n p =
     seq (xml_match n Tk_entity p) (\<lambda>p.
     seq (some_space n p) (\<lambda>p.
       if xp_lookahead p = Tk_percent then parameter_entity_decl n p else general_entity_decl n p))"

section \<open>Declarations of attributes\<close>

definition attribute_types :: "(string \<times> attribute_type) list" where
  "attribute_types =
     [(''CDATA'', CDATA), (''ID'', ID), (''IDREF'', IDREF), (''IDREFS'', IDREFS), (''ENTITY'', ENTITY), (''ENTITIES'', ENTITIES),
      (''NMTOKEN'', NMTOKEN), (''NMTOKENS'', NMTOKENS)]"

definition match_enum :: "bool \<Rightarrow> nat \<Rightarrow> 'd xml_op" where
  "match_enum nmtokens n p =
     (if nmtokens \<and> xp_lookahead p \<noteq> Tk_name then xml_match n Tk_nmtoken p else xml_match n Tk_name p)"

fun enum_tokens :: "nat \<Rightarrow> bool \<Rightarrow> string list \<Rightarrow> 'd xml_parser \<Rightarrow> (string list \<times> 'd xml_parser) res option" where
  "enum_tokens 0 nmtokens enums p = None"
| "enum_tokens (Suc n) nmtokens enums p =
     (if xp_lookahead p \<noteq> Tk_pipe then Some (ok (enums, p))
      else
        seq (xml_match n Tk_pipe p) (\<lambda>p.
        seq (skip_spaces n p) (\<lambda>p.
        seq (Some (if xp_token p \<in> set enums
                   then not_valid (''Duplicate token in enumerated attribute declaration ('' @ quote_text (xp_token p) @ '')'') p
                   else ok p)) (\<lambda>p.
          let enums = enums @ [xp_token p] in
          seq (match_enum nmtokens n p) (\<lambda>p. seq (skip_spaces n p) (enum_tokens n nmtokens enums))))))"

definition enumeration :: "nat \<Rightarrow> bool \<Rightarrow> 'd xml_parser \<Rightarrow> (string list \<times> 'd xml_parser) res option" where
  "enumeration n nmtokens p =
     seq (xml_match n Tk_open_paren p) (\<lambda>p.
     seq (skip_spaces n p) (\<lambda>p.
       let enums = [xp_token p] in
       seq (match_enum nmtokens n p) (\<lambda>p.
       seq (skip_spaces n p) (\<lambda>p.
       seq (enum_tokens n nmtokens enums p) (\<lambda>(enums, p).
       seq (skip_spaces n p) (\<lambda>p.
       seq (xml_match n Tk_close_paren p) (\<lambda>p. Some (ok (enums, p)))))))))"

definition attribute_decl_type :: "nat \<Rightarrow> string \<Rightarrow> 'd xml_parser \<Rightarrow> (attribute \<times> 'd xml_parser) res option" where
  "attribute_decl_type n name p =
     (if xp_lookahead p = Tk_open_paren then
        seq (enumeration n True p) (\<lambda>(enums, p). Some (ok (attribute_new name Enumerated enums, p)))
      else
        (let type = xp_token p in
         seq (xml_match n Tk_name p) (\<lambda>p.
           case map_of attribute_types type of
             Some t \<Rightarrow> Some (ok (attribute_new name t [], p))
           | None \<Rightarrow>
               if type = ''NOTATION'' then
                 seq (some_space n p) (\<lambda>p.
                 seq (enumeration n False p) (\<lambda>(notations, p). Some (ok (attribute_new name Notation notations, p))))
               else Some (not_well_formed ''invalid attribute type'' p))))"

text \<open>
  The default of an attribute. The normalised value is dropped; what is checked and kept is
  the text of the declaration.
\<close>

definition check_no_id :: "attribute \<Rightarrow> 'd xml_parser \<Rightarrow> 'd xml_parser res" where
  "check_no_id a p =
     (if at_type a = ID
      then not_valid ''the default declaration for an ID attribute declaration should be #IMPLIED or #REQUIRED'' p else ok p)"

definition default_value :: "nat \<Rightarrow> attribute_default \<Rightarrow> (string \<Rightarrow> string) \<Rightarrow> attribute \<Rightarrow> 'd xml_parser \<Rightarrow> (attribute \<times> 'd xml_parser) res option" where
  "default_value n def f a p =
     (let s = xp_token p in
      seq (normalize_attribute_value n s (at_type a = CDATA) p) (\<lambda>(_, p).
        let s = f s; (valid, v) = (if s = [] then (True, s) else validate_value a s (xp_general_entities p)) in
        seq (Some (if valid then ok p
                   else not_valid (''default value '' @ quote_text v @ '' for attribute '' @ quote_text (at_name a) @ '' is not valid'') p)) (\<lambda>p.
        seq (xml_match n Tk_string p) (\<lambda>p. Some (ok (a\<lparr>at_default := def, at_default_value := v\<rparr>, p))))))"

definition attribute_default_decl :: "nat \<Rightarrow> attribute \<Rightarrow> 'd xml_parser \<Rightarrow> (attribute \<times> 'd xml_parser) res option" where
  "attribute_default_decl n a p =
     (case xp_lookahead p of
        Tk_required \<Rightarrow>
          seq (xml_match n Tk_required p) (\<lambda>p. Some (ok (a\<lparr>at_default := Default_Required, at_default_value := []\<rparr>, p)))
      | Tk_implied \<Rightarrow>
          seq (xml_match n Tk_implied p) (\<lambda>p. Some (ok (a\<lparr>at_default := Default_Implied, at_default_value := []\<rparr>, p)))
      | Tk_fixed \<Rightarrow>
          seq (xml_match n Tk_fixed p) (\<lambda>p.
          seq (Some (check_no_id a p)) (\<lambda>p.
          seq (some_space n p) (default_value n Default_Fixed (\<lambda>s. s) a)))
      | _ \<Rightarrow>
          seq (Some (check_no_id a p)) (\<lambda>p.
          seq (Some (if xp_standalone p
                     then not_valid ''Document cannot be standalone since there is a default value for an attribute'' p else ok p))
            (default_value n Default_None collapse_spaces a)))"

definition declare_attribute :: "string \<Rightarrow> attribute \<Rightarrow> 'd xml_parser \<Rightarrow> 'd xml_parser res" where
  "declare_attribute element a p =
     bind_res
       (if at_type a = ID \<and> (case get_element element p of None \<Rightarrow> False | Some e \<Rightarrow> list_ex (\<lambda>b. at_type b = ID) (el_attlist e))
        then not_valid ''only one attribute per element can have the ID type'' p else ok p) (\<lambda>p.
       ok (change_element element (add_attribute (a\<lparr>at_external := xp_in_external_dtd p\<rparr>)) p))"

fun attribute_decls :: "nat \<Rightarrow> string \<Rightarrow> 'd xml_op" where
  "attribute_decls 0 element p = None"
| "attribute_decls (Suc n) element p =
     (if xp_lookahead p \<noteq> Tk_space then Some (ok p)
      else
        seq (some_space n p) (\<lambda>p.
          if xp_lookahead p \<noteq> Tk_name then Some (ok p)
          else
            (let name = xp_token p in
             seq (xml_match n Tk_name p) (\<lambda>p.
             seq (some_space n p) (\<lambda>p.
             seq (attribute_decl_type n name p) (\<lambda>(a, p).
             seq (some_space n p) (\<lambda>p.
             seq (attribute_default_decl n a p) (\<lambda>(a, p).
             seq (Some (declare_attribute element a p)) (attribute_decls n element)))))))))"

definition attlist_decl :: "nat \<Rightarrow> 'd xml_op" where
  "attlist_decl n p =
     seq (xml_match n Tk_attlist p) (\<lambda>p.
     seq (some_space n p) (\<lambda>p.
       let element = xp_token p in
       seq (xml_match n Tk_name p) (\<lambda>p.
       seq (attribute_decls n element (find_or_add_element element False p)) (xml_match n Tk_greater_than))))"

section \<open>Declarations of notations\<close>

definition notation_ids :: "nat \<Rightarrow> 'd xml_parser \<Rightarrow> ((string \<times> string) \<times> 'd xml_parser) res option" where
  "notation_ids n p =
     (if xp_token p = ''SYSTEM'' then
        seq (xml_match n Tk_name p) (\<lambda>p.
        seq (some_space n p) (\<lambda>p.
          let sysid = xp_token p in
          seq (xml_match n Tk_string p) (\<lambda>p.
            if \<not> is_valid_system_literal sysid then Some (not_well_formed ''invalid system literal'' p)
            else Some (ok (([], sysid), p)))))
      else if xp_token p = ''PUBLIC'' then
        seq (read_public_id n p) (\<lambda>(pubid, p).
        seq (skip_spaces n p) (\<lambda>p.
          if xp_lookahead p = Tk_string then
            (let sysid = xp_token p in seq (xml_match n Tk_string p) (\<lambda>p. Some (ok ((pubid, sysid), p))))
          else Some (ok ((pubid, []), p))))
      else Some (not_well_formed ''Expected either SYSTEM or PUBLIC'' p))"

definition notation_decl_production :: "nat \<Rightarrow> 'd xml_op" where
  "notation_decl_production n p =
     seq (xml_match n Tk_notation p) (\<lambda>p.
     seq (some_space n p) (\<lambda>p.
       let name = xp_token p in
       if xp_validating_ns p \<and> CHR '':'' \<in> set name then
         Some (not_well_formed ''Notation names should not contain a colon'' p)
       else
         seq (Some (if name \<in> set (xp_notations p) then not_valid ''notation names should be unique'' p else ok p)) (\<lambda>p.
         seq (xml_match n Tk_name (p\<lparr>xp_notations := set_insert name (xp_notations p)\<rparr>)) (\<lambda>p.
         seq (some_space n p) (\<lambda>p.
         seq (notation_ids n p) (\<lambda>((pubid, sysid), p).
         seq (skip_spaces n p) (\<lambda>p.
         seq (xml_match n Tk_greater_than p) (\<lambda>p.
           let blank = (\<lambda>c. if c = CHR 0x09 \<or> c = CHR 0x0A then CHR '' '' else c) in
           Some (report_event (Notation_declaration name (collapse_spaces sysid) (collapse_spaces (map blank pubid))) p)))))))))"

section \<open>Subsets\<close>

text \<open>Inside a declaration parameter entities may be used in the external subset only.\<close>

definition markup_decl :: "nat \<Rightarrow> 'd xml_op" where
  "markup_decl n p =
     (let saved = xp_allow_peref p; p = p\<lparr>xp_allow_peref := xp_external_subset p\<rparr> in
      seq (case xp_lookahead p of
             Tk_element \<Rightarrow> element_decl n p
           | Tk_attlist \<Rightarrow> attlist_decl n p
           | Tk_entity \<Rightarrow> entity_decl n p
           | Tk_notation \<Rightarrow> notation_decl_production n p
           | Tk_pi \<Rightarrow> xml_pi n p
           | Tk_comment \<Rightarrow> xml_comment n p
           | Tk_space \<Rightarrow> skip_spaces n p
           | _ \<Rightarrow> Some (ok p)) (\<lambda>p. Some (ok (p\<lparr>xp_allow_peref := saved\<rparr>))))"

datatype ignore_state = Ig_text | Ig_bracket | Ig_brackets | Ig_less | Ig_mark

fun ignore_loop :: "nat \<Rightarrow> ignore_state \<Rightarrow> 'd xml_op" where
  "ignore_loop 0 s p = None"
| "ignore_loop (Suc n) s p =
     seq (Some (xml_get_next_char p)) (\<lambda>(ch, p).
       if ch = 0 then Some (not_well_formed ''runaway IGNORE section'' p)
       else
         (let back = seq (Some (xml_retract p)) (ignore_loop n Ig_text) in
          case s of
            Ig_text \<Rightarrow>
              ignore_loop n (if ch = ord32 CHR '']'' then Ig_bracket else if ch = ord32 CHR ''<'' then Ig_less else Ig_text) p
          | Ig_bracket \<Rightarrow> if ch = ord32 CHR '']'' then ignore_loop n Ig_brackets p else back
          | Ig_brackets \<Rightarrow>
              if ch = ord32 CHR ''>'' then Some (ok p)
              else if ch \<noteq> ord32 CHR '']'' then back
              else ignore_loop n Ig_brackets p
          | Ig_less \<Rightarrow> if ch = ord32 CHR ''!'' then ignore_loop n Ig_mark p else back
          | Ig_mark \<Rightarrow> if ch = ord32 CHR ''['' then seq (ignore_loop n Ig_text p) (ignore_loop n Ig_text) else back))"

definition ignoresectcontents :: "nat \<Rightarrow> 'd xml_op" where
  "ignoresectcontents n p = ignore_loop n Ig_text p"

definition declsep_space :: "nat \<Rightarrow> 'd xml_op" where
  "declsep_space n p = seq (skip_spaces n (p\<lparr>xp_in_declsep := True\<rparr>)) (\<lambda>q. Some (ok (q\<lparr>xp_in_declsep := xp_in_declsep p\<rparr>)))"

text \<open>\<open>extsubset\<close> and what it calls; \<open>subset_loop\<close> is its loop.\<close>

fun extsubset :: "nat \<Rightarrow> 'd xml_op" and subset_loop :: "nat \<Rightarrow> 'd xml_op" and declsep :: "nat \<Rightarrow> 'd xml_op"
  and conditionalsect :: "nat \<Rightarrow> 'd xml_op" where
  "extsubset 0 p = None"
| "extsubset (Suc n) p =
     seq (subset_loop n (p\<lparr>xp_external_subset := True, xp_allow_peref := True\<rparr>)) (\<lambda>q.
       Some (ok (q\<lparr>xp_external_subset := xp_external_subset p, xp_allow_peref := xp_allow_peref p\<rparr>)))"
| "subset_loop 0 p = None"
| "subset_loop (Suc n) p =
     (if xp_lookahead p \<in> {Tk_element, Tk_attlist, Tk_entity, Tk_notation} then seq (markup_decl n p) (subset_loop n)
      else if xp_lookahead p = Tk_include_ignore then seq (conditionalsect n p) (subset_loop n)
      else if xp_lookahead p = Tk_pi then seq (xml_pi n p) (subset_loop n)
      else if xp_lookahead p = Tk_comment then seq (xml_comment n p) (subset_loop n)
      else if xp_lookahead p = Tk_space \<or> xp_lookahead p = Tk_pereference then seq (declsep n p) (subset_loop n)
      else Some (ok p))"
| "declsep 0 p = None"
| "declsep (Suc n) p =
     (if xp_lookahead p = Tk_pereference then
        seq (Some (get_parameter_entity (xp_token p) p)) (\<lambda>e.
        seq (xml_match n Tk_pereference (p\<lparr>xp_in_declsep := True\<rparr>)) (\<lambda>q.
        seq (next_token n (push_source (\<lambda>i. parameter_entity_source i (en_replacement e) (en_path e)) False q)) (\<lambda>q.
        seq (extsubset n q) (\<lambda>q.
        seq (xml_match n Tk_eof q) (\<lambda>q.
        seq (Some (pop_source q)) (\<lambda>q. Some (ok (q\<lparr>xp_in_declsep := xp_in_declsep p\<rparr>))))))))
      else declsep_space n p)"
| "conditionalsect 0 p = None"
| "conditionalsect (Suc n) p =
     seq (Some (top_id p)) (\<lambda>i.
     seq (xml_match n Tk_include_ignore p) (\<lambda>p.
     seq (skip_spaces n p) (\<lambda>p.
       let keyword = xp_token p in
       if keyword \<noteq> ''INCLUDE'' \<and> keyword \<noteq> ''IGNORE'' \<and> xp_lookahead p = Tk_name then
         Some (not_well_formed (''Unexpected literal '' @ quote_text keyword) p)
       else
         seq (xml_match n Tk_name p) (\<lambda>p.
         seq (Some (check_nesting i p)) (\<lambda>p.
         seq (skip_spaces n p) (\<lambda>p.
           if keyword = ''INCLUDE'' then
             seq (xml_match n Tk_open_bracket p) (\<lambda>p.
             seq (extsubset n p) (\<lambda>p.
             seq (xml_match n Tk_close_bracket p) (\<lambda>p.
             seq (xml_match n Tk_close_bracket p) (\<lambda>p.
             seq (Some (check_nesting i p)) (xml_match n Tk_greater_than)))))
           else
             seq (ignoresectcontents n p) (\<lambda>p.
             seq (Some (check_nesting i p)) (next_token n))))))))"

fun intsubset_loop :: "nat \<Rightarrow> 'd xml_op" where
  "intsubset_loop 0 p = None"
| "intsubset_loop (Suc n) p =
     (if xp_lookahead p \<in> {Tk_element, Tk_attlist, Tk_entity, Tk_notation} then seq (markup_decl n p) (intsubset_loop n)
      else if xp_lookahead p = Tk_pi then seq (xml_pi n p) (intsubset_loop n)
      else if xp_lookahead p = Tk_comment then seq (xml_comment n p) (intsubset_loop n)
      else if xp_lookahead p = Tk_space \<or> xp_lookahead p = Tk_pereference then seq (declsep n p) (intsubset_loop n)
      else Some (ok p))"

definition intsubset :: "nat \<Rightarrow> 'd xml_op" where
  "intsubset n p =
     seq (intsubset_loop n (p\<lparr>xp_internal_subset := True, xp_allow_peref := True\<rparr>)) (\<lambda>q.
       Some (ok (q\<lparr>xp_internal_subset := xp_internal_subset p, xp_allow_peref := xp_allow_peref p\<rparr>)))"

section \<open>The document type declaration\<close>

definition external_dtd :: "nat \<Rightarrow> 'd xml_parser \<Rightarrow> (data_source option \<times> 'd xml_parser) res option" where
  "external_dtd n p =
     (if xp_lookahead p \<noteq> Tk_space then Some (ok (None, p))
      else
        seq (some_space n p) (\<lambda>p.
        seq (if xp_lookahead p \<noteq> Tk_name then Some (ok (None, p))
             else
               seq (read_external_names n p) (\<lambda>((pubid, uri), p).
               seq (xml_match n Tk_string p) (\<lambda>p.
               seq (Some (get_data_source pubid uri p)) (\<lambda>(dtd, p).
               seq (Some (if xp_validating p \<and> dtd = None then not_valid (''Could not load DTD '' @ uri) p else ok p)) (\<lambda>p.
               seq (Some (report_event (Doctype_declaration (xp_root_element p) pubid uri) p)) (\<lambda>p.
                 Some (ok (dtd, p)))))))) (\<lambda>(dtd, p).
        seq (skip_spaces n p) (\<lambda>p. Some (ok (dtd, p))))))"

definition external_subset :: "nat \<Rightarrow> data_source \<Rightarrow> 'd xml_op" where
  "external_subset n dtd p =
     seq (next_token n ((push_source (\<lambda>_. dtd) False p)\<lparr>xp_external_subset := True, xp_in_external_dtd := True\<rparr>)) (\<lambda>p.
     seq (text_decl n p) (\<lambda>p.
     seq (extsubset n p) (\<lambda>p.
     seq (xml_match n Tk_eof p) (\<lambda>p.
     seq (Some (pop_source p)) (\<lambda>p. Some (ok (p\<lparr>xp_in_external_dtd := False\<rparr>)))))))"

text \<open>The notations that unparsed entities and attributes refer to.\<close>

definition used_notations :: "'d xml_parser \<Rightarrow> string list" where
  "used_notations p =
     map en_ndata (filter (\<lambda>e. \<not> en_parsed e) (xp_general_entities p))
     @ concat (map at_enum (filter (\<lambda>a. at_type a = Notation) (concat (map el_attlist (xp_doctype p)))))"

fun check_notations :: "string list \<Rightarrow> 'd xml_parser \<Rightarrow> 'd xml_parser res" where
  "check_notations [] p = ok p"
| "check_notations (x # xs) p =
     bind_res (if x \<in> set (xp_notations p) then ok p else not_valid (''Undefined NOTATION '' @ quote_text x) p) (check_notations xs)"

definition doctypedecl :: "nat \<Rightarrow> 'd xml_op" where
  "doctypedecl n p =
     seq (xml_match n Tk_doctype p) (\<lambda>p.
     seq (some_space n (p\<lparr>xp_has_dtd := True\<rparr>)) (\<lambda>p.
       let name = xp_token p in
       seq (xml_match n Tk_name p) (\<lambda>p.
       seq (external_dtd n (p\<lparr>xp_root_element := name\<rparr>)) (\<lambda>(dtd, p).
       seq (if xp_lookahead p = Tk_open_bracket then
              seq (xml_match n Tk_open_bracket p) (\<lambda>p.
              seq (intsubset n p) (\<lambda>p.
              seq (xml_match n Tk_close_bracket p) (skip_spaces n)))
            else Some (ok p)) (\<lambda>p.
       seq (case dtd of None \<Rightarrow> Some (ok p) | Some src \<Rightarrow> external_subset n src p) (\<lambda>p.
       seq (xml_match n Tk_greater_than p) (\<lambda>p.
         Some (check_notations (used_notations p) p))))))))"

end
