(* ===== verification/Xml_Parser.thy ===== *)
theory Xml_Parser
  imports Xml_Dtd
begin

text \<open>
  The productions of the XML parser (\<open>lib-xml/src/parser.cpp\<close>): the prolog, elements with
  their attributes and namespaces, content with its references, and \<open>parse\<close>. The namespaces
  of the open elements are a stack, the innermost first.
\<close>

section \<open>Namespaces\<close>

fun default_ns :: "ns_state list \<Rightarrow> string" where
  "default_ns [] = []"
| "default_ns (s # ss) = (if ns_default s = [] then default_ns ss else ns_default s)"

fun ns_for_prefix :: "string \<Rightarrow> ns_state list \<Rightarrow> string" where
  "ns_for_prefix prefix [] = []"
| "ns_for_prefix prefix (s # ss) =
     (if prefix \<in> set (ns_unbound s) then []
      else (case map_of (ns_known s) prefix of Some uri \<Rightarrow> uri | None \<Rightarrow> ns_for_prefix prefix ss))"

fun is_known_prefix :: "string \<Rightarrow> ns_state list \<Rightarrow> bool" where
  "is_known_prefix prefix [] = False"
| "is_known_prefix prefix (s # ss) =
     (prefix \<notin> set (ns_unbound s) \<and> (map_of (ns_known s) prefix \<noteq> None \<or> is_known_prefix prefix ss))"

fun is_known_uri :: "string \<Rightarrow> ns_state list \<Rightarrow> bool" where
  "is_known_uri uri [] = False"
| "is_known_uri uri (s # ss) = (list_ex (\<lambda>(_, u). u = uri) (ns_known s) \<or> is_known_uri uri ss)"

text \<open>A change of the innermost element's namespaces.\<close>

definition change_ns :: "(ns_state \<Rightarrow> ns_state) \<Rightarrow> 'd xml_parser \<Rightarrow> 'd xml_parser res" where
  "change_ns f p = (case xp_ns p of [] \<Rightarrow> throw Undefined | s # ss \<Rightarrow> ok (p\<lparr>xp_ns := f s # ss\<rparr>))"

definition set_default_ns :: "string \<Rightarrow> 'd xml_parser \<Rightarrow> 'd xml_parser res" where
  "set_default_ns uri = change_ns (\<lambda>s. s\<lparr>ns_default := uri\<rparr>)"

definition bind_ns :: "string \<Rightarrow> string \<Rightarrow> 'd xml_parser \<Rightarrow> 'd xml_parser res" where
  "bind_ns prefix uri = change_ns (\<lambda>s. s\<lparr>ns_known := (prefix, uri) # ns_known s\<rparr>)"

definition unbind_ns :: "string \<Rightarrow> 'd xml_parser \<Rightarrow> 'd xml_parser res" where
  "unbind_ns prefix = change_ns (\<lambda>s. s\<lparr>ns_unbound := prefix # ns_unbound s\<rparr>)"

section \<open>Attributes\<close>

definition xmlSpaceAttr :: attribute where
  "xmlSpaceAttr = attribute_new ''xml:space'' Enumerated [''preserve'', ''default'']"

text \<open>The declaration of an attribute: its own, or that of \<open>xml:space\<close> when not validating.\<close>

definition declared_attribute :: "dtd_element option \<Rightarrow> string \<Rightarrow> 'd xml_parser \<Rightarrow> attribute option" where
  "declared_attribute dte name p =
     (case (case dte of None \<Rightarrow> None | Some e \<Rightarrow> get_attribute name e) of
        Some a \<Rightarrow> Some a
      | None \<Rightarrow> if \<not> xp_validating p \<and> name = ''xml:space'' then Some xmlSpaceAttr else None)"

definition is_xml_space :: "dtd_element option \<Rightarrow> string \<Rightarrow> 'd xml_parser \<Rightarrow> bool" where
  "is_xml_space dte name p \<longleftrightarrow> (case dte of None \<Rightarrow> True | Some e \<Rightarrow> get_attribute name e = None) \<and> \<not> xp_validating p \<and> name = ''xml:space''"

definition namespace_attribute :: "string \<Rightarrow> bool" where
  "namespace_attribute name \<longleftrightarrow> name = ''xmlns'' \<or> starts_with name ''xmlns:''"

definition xml_namespace :: string where
  "xml_namespace = ''http://www.w3.org/XML/1998/namespace''"

definition xmlns_namespace :: string where
  "xmlns_namespace = ''http://www.w3.org/2000/xmlns/''"

definition namespace_decl :: "string \<Rightarrow> string \<Rightarrow> 'd xml_parser \<Rightarrow> 'd xml_parser res" where
  "namespace_decl name uri p =
     (let unset = (xp_version p > 1 \<and> uri = []) in
      if \<not> (unset \<or> is_valid_url uri) then not_well_formed (''Not a valid namespace URI: '' @ uri) p
      else if \<not> unset \<and> is_known_uri uri (xp_ns p) then not_well_formed (''This uri is repeated: '' @ uri) p
      else if uri = xml_namespace \<or> uri = xmlns_namespace then not_well_formed ''The xml namespace is reserved'' p
      else if length name = 5 then bind_res (set_default_ns uri p) (report_event (Start_namespace [] uri))
      else if length name = 6 then not_well_formed ''Invalid xmlns: '' p
      else
        (let prefix = drop 6 name in
         if iequals prefix ''xml'' \<or> iequals prefix ''xmlns'' then not_well_formed (prefix @ '' is a preserved prefix'') p
         else if unset then unbind_ns prefix p
         else bind_res (bind_ns prefix uri p) (report_event (Start_namespace prefix uri))))"

definition check_ids :: "attribute \<Rightarrow> string \<Rightarrow> string \<Rightarrow> 'd xml_parser \<Rightarrow> 'd xml_parser res" where
  "check_ids dta name v p =
     bind_res (if xp_validating_ns p \<and> CHR '':'' \<in> set v then not_valid ''ID attribute value should not contain a colon'' p else ok p) (\<lambda>p.
     bind_res (if v \<in> set (xp_ids p)
               then not_valid (''attribute value ('' @ quote_text v @ '') for attribute '' @ quote_text name @ '' is not unique'') p
               else ok p) (\<lambda>p.
       ok (p\<lparr>xp_ids := set_insert v (xp_ids p), xp_unresolved_ids := filter (\<lambda>x. x \<noteq> v) (xp_unresolved_ids p)\<rparr>)))"

definition refer_id :: "string \<Rightarrow> 'd xml_parser \<Rightarrow> 'd xml_parser" where
  "refer_id v p = (if v \<in> set (xp_ids p) then p else p\<lparr>xp_unresolved_ids := set_insert v (xp_unresolved_ids p)\<rparr>)"

definition check_reference :: "string \<Rightarrow> string \<Rightarrow> 'd xml_parser \<Rightarrow> 'd xml_parser res" where
  "check_reference name v p =
     (if v = [] then not_valid (''attribute value for attribute '' @ quote_text name @ '' may not be empty'') p else ok p)"

text \<open>
  The names in a value of type \<open>IDREFS\<close>. The second argument of \<open>substr\<close> is a count; the
  code passes the position of the space.
\<close>

fun refer_ids :: "nat \<Rightarrow> string \<Rightarrow> nat \<Rightarrow> 'd xml_parser \<Rightarrow> 'd xml_parser" where
  "refer_ids 0 v b p = p"
| "refer_ids (Suc n) v b p =
     (case find_char CHR '' '' (drop b v) of
        Some k \<Rightarrow> refer_ids n v (b + k + 1) (if k > 0 then refer_id (take (b + k) (drop b v)) p else p)
      | None \<Rightarrow> if b < length v then refer_id (drop b v) p else p)"

definition check_value :: "bool \<Rightarrow> attribute \<Rightarrow> string \<Rightarrow> string \<Rightarrow> 'd xml_parser \<Rightarrow> (string, 'd) xml_res" where
  "check_value xml_space dta name value p =
     (case validate_value dta value (xp_general_entities p) of (valid, v) \<Rightarrow>
        let msg = ''invalid value ('' @ quote_text v @ '') for attribute '' @ name in
        bind_res (if valid then ok p else if xml_space then not_well_formed msg p else not_valid msg p) (\<lambda>p.
        bind_res (if xp_validating p \<and> xp_standalone p \<and> at_external dta \<and> value \<noteq> v
                  then not_valid ''attribute value modified as a result of an external defined attlist declaration, which is not valid in a standalone document'' p
                  else ok p) (\<lambda>p.
        bind_res
          (case at_type dta of
             ID \<Rightarrow> check_ids dta name v p
           | IDREF \<Rightarrow> bind_res (check_reference name v p) (\<lambda>p. ok (refer_id v p))
           | IDREFS \<Rightarrow> bind_res (check_reference name v p) (\<lambda>p. ok (refer_ids (Suc (length v)) v 0 p))
           | _ \<Rightarrow> ok p) (\<lambda>p. ok (v, p)))))"

text \<open>The namespace of an attribute that is not declared; its prefix must be bound by now.\<close>

definition attribute_ns :: "string \<Rightarrow> 'd xml_parser \<Rightarrow> (string \<times> string) res" where
  "attribute_ns name p =
     (case find_char CHR '':'' name of
        None \<Rightarrow> ok ([], name)
      | Some d \<Rightarrow>
          if CHR '':'' \<in> set (drop (d + 1) name) then not_well_formed ''Multiple colons in attribute name'' p
          else if iequals (take d name) ''xml'' then ok ([], name)
          else
            (let ns = ns_for_prefix (take d name) (xp_ns p)
             in if ns = [] then not_well_formed ''Unbound attribute prefix'' p else ok (ns, drop (d + 1) name)))"

definition plain_attribute :: "dtd_element option \<Rightarrow> string \<Rightarrow> string \<Rightarrow> 'd xml_parser \<Rightarrow> (sax_attr, 'd) xml_res" where
  "plain_attribute dte name value p =
     (case declared_attribute dte name p of
        Some dta \<Rightarrow>
          bind_res (check_value (is_xml_space dte name p) dta name value p) (\<lambda>(v, p).
            ok (\<lparr>sa_name = name, sa_ns = [], sa_value = v, sa_id = name = ''xml:id'' \<or> at_type dta = ID\<rparr>, p))
      | None \<Rightarrow>
          bind_res (attribute_ns name p) (\<lambda>(ns, local).
            ok (\<lparr>sa_name = local, sa_ns = ns, sa_value = value, sa_id = name = ''xml:id''\<rparr>, p)))"

definition check_fixed :: "attribute option \<Rightarrow> string \<Rightarrow> 'd xml_parser \<Rightarrow> 'd xml_parser res" where
  "check_fixed dta value p =
     (case dta of
        Some a \<Rightarrow>
          if xp_validating p \<and> at_default a = Default_Fixed \<and> value \<noteq> at_default_value a
          then not_valid ''invalid value specified for fixed attribute'' p else ok p
      | None \<Rightarrow> ok p)"

definition one_attribute :: "nat \<Rightarrow> dtd_element option \<Rightarrow> string \<Rightarrow> 'd xml_parser \<Rightarrow> (sax_attr list \<times> 'd xml_parser) res option" where
  "one_attribute n dte name p =
     seq (xml_eq n p) (\<lambda>p.
       let dta = declared_attribute dte name p; text = xp_token p in
       seq (Some (if dta = None \<and> xp_validating p then not_valid (''undeclared attribute '' @ quote_text name) p else ok p)) (\<lambda>p.
       seq (normalize_attribute_value n text (case dta of None \<Rightarrow> True | Some a \<Rightarrow> at_type a = CDATA) p) (\<lambda>(value, p).
       seq (xml_match n Tk_string p) (\<lambda>p.
       seq (Some (check_fixed dta value p)) (\<lambda>p.
         if namespace_attribute name then seq (Some (namespace_decl name value p)) (\<lambda>p. Some (ok ([], p)))
         else seq (Some (plain_attribute dte name value p)) (\<lambda>(a, p). Some (ok ([a], p))))))))"

fun xml_attributes :: "nat \<Rightarrow> dtd_element option \<Rightarrow> string list \<Rightarrow> sax_attr list \<Rightarrow> 'd xml_parser \<Rightarrow> (sax_attr list \<times> 'd xml_parser) res option" where
  "xml_attributes 0 dte seen attrs p = None"
| "xml_attributes (Suc n) dte seen attrs p =
     (if xp_lookahead p \<noteq> Tk_space then Some (ok (attrs, p))
      else
        seq (some_space n p) (\<lambda>p.
          if xp_lookahead p \<noteq> Tk_name then Some (ok (attrs, p))
          else
            (let name = xp_token p in
             seq (xml_match n Tk_name p) (\<lambda>p.
               if name \<in> set seen then Some (not_well_formed (''multiple values for attribute '' @ quote_text name) p)
               else
                 seq (one_attribute n dte name p) (\<lambda>(a, p).
                   xml_attributes n dte (name # seen) (attrs @ a) p)))))"

text \<open>The defaults of the attributes that are missing.\<close>

definition default_ns_name :: "string \<Rightarrow> 'd xml_parser \<Rightarrow> string \<times> string" where
  "default_ns_name name p =
     (case find_char CHR '':'' name of
        None \<Rightarrow> ([], name)
      | Some d \<Rightarrow> (let ns = ns_for_prefix (take d name) (xp_ns p) in if ns = [] then ([], name) else (ns, drop (d + 1) name)))"

fun missing_attributes :: "nat \<Rightarrow> string \<Rightarrow> attribute list \<Rightarrow> sax_attr list \<Rightarrow> 'd xml_parser \<Rightarrow> (sax_attr list \<times> 'd xml_parser) res option" where
  "missing_attributes n name [] attrs p = Some (ok (attrs, p))"
| "missing_attributes n name (a # as) attrs p =
     (let present = list_ex (\<lambda>b. sa_name b = at_name a) attrs in
      if at_default a = Default_Required then
        seq (Some (if present then ok p
                   else not_valid (''missing #REQUIRED attribute '' @ quote_text (at_name a) @ '' for element '' @ quote_text name) p))
          (missing_attributes n name as attrs)
      else if at_default_value a \<noteq> [] \<and> \<not> present then
        seq (Some (if xp_validating p \<and> xp_standalone p \<and> at_external a
                   then not_valid ''default value for attribute defined in external declaration which is not allowed in a standalone document'' p
                   else ok p)) (\<lambda>p.
        seq (normalize_attribute_value n (at_default_value a) (at_type a = CDATA) p) (\<lambda>(value, p).
          let (ns, local) = default_ns_name (at_name a) p in
          missing_attributes n name as (attrs @ [\<lparr>sa_name = local, sa_ns = ns, sa_value = value, sa_id = False\<rparr>]) p))
      else missing_attributes n name as attrs p)"

definition check_element_prefix :: "string \<Rightarrow> 'd xml_parser \<Rightarrow> 'd xml_parser res" where
  "check_element_prefix name p =
     (if name \<noteq> [] \<and> hd name = CHR '':'' then not_well_formed ''Element name should not start with colon'' p
      else
        (case find_char CHR '':'' name of
           Some d \<Rightarrow>
             if is_known_prefix (take d name) (xp_ns p) then ok p
             else not_well_formed (''Unknown prefix for element '' @ name) p
         | None \<Rightarrow> ok p))"

definition element_ns :: "string \<Rightarrow> 'd xml_parser \<Rightarrow> string \<times> string" where
  "element_ns name p =
     (case find_char CHR '':'' name of
        Some d \<Rightarrow> if d > 0 then (ns_for_prefix (take d name) (xp_ns p), drop (d + 1) name) else (default_ns (xp_ns p), name)
      | None \<Rightarrow> (default_ns (xp_ns p), name))"

section \<open>Start tags\<close>

text \<open>
  A start tag up to its attributes: the name, the declaration of the element and the
  attributes sorted by name, and the validator of the parent.
\<close>

definition element_validator :: "dtd_element option \<Rightarrow> validator res" where
  "element_validator dte = validator_of_element (case dte of None \<Rightarrow> None | Some e \<Rightarrow> el_allowed e)"

record start_tag =
  st_raw :: string
  st_element :: "dtd_element option"
  st_attrs :: "sax_attr list"
  st_valid :: validator
  st_sub_valid :: validator

definition xml_start_tag :: "nat \<Rightarrow> validator \<Rightarrow> 'd xml_parser \<Rightarrow> (start_tag \<times> 'd xml_parser) res option" where
  "xml_start_tag n valid p =
     seq (xml_match n Tk_stag p) (\<lambda>p.
       let name = xp_token p in
       seq (xml_match n Tk_name p) (\<lambda>p.
       seq (Some (validator_allow name valid)) (\<lambda>(allowed, valid).
       seq (Some (if allowed then ok p else not_valid (''element '' @ quote_text name @ '' not expected at this position'') p)) (\<lambda>p.
         let dte = get_element name p in
         seq (Some (if xp_has_dtd p \<and> dte = None \<and> xp_validating p
                    then not_valid (''Element '' @ quote_text name @ '' is not defined in DTD'') p else ok p)) (\<lambda>p.
         seq (Some (element_validator dte)) (\<lambda>sub_valid.
         seq (xml_attributes n dte [] [] (p\<lparr>xp_ns := \<lparr>ns_default = [], ns_known = [], ns_unbound = []\<rparr> # xp_ns p\<rparr>)) (\<lambda>(attrs, p).
         seq (case dte of
                None \<Rightarrow> seq (Some (check_element_prefix name p)) (\<lambda>p. Some (ok (attrs, p)))
              | Some e \<Rightarrow> missing_attributes n name (el_attlist e) attrs p) (\<lambda>(attrs, p).
           Some (ok (\<lparr>st_raw = name, st_element = dte, st_attrs = sort_key sa_name attrs, st_valid = valid,
                      st_sub_valid = sub_valid\<rparr>, p))))))))))"

section \<open>Content\<close>

definition check_characters :: "content_spec_type \<Rightarrow> 'd xml_parser \<Rightarrow> 'd xml_parser res" where
  "check_characters spec p =
     (if spec = Spec_type_Empty then not_valid ''character data not allowed in EMPTY element'' p
      else if spec = Spec_type_Children \<and> xp_lookahead p = Tk_content then
        not_valid (''character data '' @ quote_text (xp_token p) @ '' not allowed in element'') p
      else ok p)"

definition check_charref :: "content_spec_type \<Rightarrow> 'd xml_parser \<Rightarrow> 'd xml_parser res" where
  "check_charref spec p =
     (if spec = Spec_type_Empty then not_valid ''data not allowed in EMPTY element'' p
      else if spec = Spec_type_Children \<and> is_space_string (xp_token p) then
        not_valid ''Element may not contain reference to space'' p
      else ok p)"

definition check_content_entity :: "entity \<Rightarrow> 'd xml_parser \<Rightarrow> 'd xml_parser res" where
  "check_content_entity e p =
     (if en_externally_defined e \<and> xp_standalone p then
        not_well_formed ''document marked as standalone but an external entity is referenced'' p
      else if \<not> en_parsed e then not_well_formed ''content has a general entity reference to an unparsed entity'' p
      else ok p)"

definition open_reference :: "'d xml_parser \<Rightarrow> (entity, 'd) xml_res" where
  "open_reference p =
     (let name = xp_token p in
      if name \<in> set (xp_entities_on_stack p) then not_well_formed ''infinite recursion of entity references'' p
      else
        bind_res (get_general_entity name (p\<lparr>xp_entities_on_stack := name # xp_entities_on_stack p\<rparr>)) (\<lambda>(e, p).
        bind_res (check_content_entity e p) (\<lambda>p. bind_res (push_entity e p) (\<lambda>p. ok (e, p)))))"

text \<open>White space at the start of an entity in an element that has element content.\<close>

definition entity_space :: "nat \<Rightarrow> content_spec_type \<Rightarrow> 'd xml_op" where
  "entity_space n spec p =
     (if xp_lookahead p = Tk_space \<and> spec = Spec_type_Children then
        (let space = xp_token p in
         seq (xml_match n Tk_space p) (\<lambda>p.
         seq (Some (if xp_lookahead p = Tk_eof then not_valid ''Element may not contain reference to space'' p else ok p)) (\<lambda>p.
           Some (report_event (Characters space) p))))
      else Some (ok p))"

definition cdata_section :: "nat \<Rightarrow> content_spec_type \<Rightarrow> 'd xml_op" where
  "cdata_section n spec p =
     seq (Some (if spec \<noteq> Spec_type_Mixed \<and> spec \<noteq> Spec_type_Any
                then not_valid (''character data '' @ quote_text (xp_token p) @ '' not allowed in element'') p else ok p)) (\<lambda>p.
     seq (Some (report_event Start_cdata p)) (\<lambda>p.
     seq (Some (report_event (Characters (xp_token p)) p)) (\<lambda>p.
     seq (Some (if is_space_string (xp_token p) \<and> spec = Spec_type_Children
                then not_valid ''Element may not contain CDATA section containing only space'' p else ok p)) (\<lambda>p.
     seq (Some (report_event End_cdata p)) (xml_match n Tk_cdsect)))))"

definition xml_end_tag :: "nat \<Rightarrow> string \<Rightarrow> 'd xml_op" where
  "xml_end_tag n raw p =
     seq (xml_match n Tk_etag (p\<lparr>xp_in_content := False\<rparr>)) (\<lambda>p.
       if xp_token p \<noteq> raw then Some (not_well_formed ''end tag does not match start tag'' p)
       else seq (xml_match n Tk_name p) (skip_spaces n))"

definition check_children :: "start_tag \<Rightarrow> validator \<Rightarrow> 'd xml_parser \<Rightarrow> 'd xml_parser res" where
  "check_children tag sub_valid p =
     (case st_element tag of
        Some e \<Rightarrow>
          if xp_validating p \<and> \<not> validator_done sub_valid
          then not_valid (''missing child elements for element '' @ quote_text (el_name e)) p else ok p
      | None \<Rightarrow> ok p)"

text \<open>
  \<open>m_in_content\<close> is false in a start tag and in an end tag, true in between, and as it was
  for what follows the element. \<open>element_body\<close> is what follows the attributes up to the last
  bracket, \<open>content_loop\<close> the loop of \<open>content\<close>.
\<close>

fun xml_element :: "nat \<Rightarrow> validator \<Rightarrow> 'd xml_parser \<Rightarrow> (validator \<times> 'd xml_parser) res option"
  and element_body :: "nat \<Rightarrow> start_tag \<Rightarrow> 'd xml_parser \<Rightarrow> (validator \<times> 'd xml_parser) res option"
  and xml_content :: "nat \<Rightarrow> validator \<Rightarrow> 'd xml_parser \<Rightarrow> (validator \<times> 'd xml_parser) res option"
  and content_loop :: "nat \<Rightarrow> validator \<Rightarrow> 'd xml_parser \<Rightarrow> (validator \<times> 'd xml_parser) res option"
  and content_reference_entity :: "nat \<Rightarrow> validator \<Rightarrow> 'd xml_parser \<Rightarrow> (validator \<times> 'd xml_parser) res option" where
  "xml_element 0 valid p = None"
| "xml_element (Suc n) valid p =
     (let in_content = xp_in_content p; ns = xp_ns p in
      seq (xml_start_tag n valid (p\<lparr>xp_in_content := False\<rparr>)) (\<lambda>(tag, p).
      seq (element_body n tag p) (\<lambda>(sub_valid, p).
      seq (xml_match n Tk_greater_than (p\<lparr>xp_in_content := in_content\<rparr>)) (\<lambda>p.
      seq (Some (check_children tag sub_valid p)) (\<lambda>p.
        Some (ok (st_valid tag, p\<lparr>xp_ns := ns\<rparr>)))))))"
| "element_body 0 tag p = None"
| "element_body (Suc n) tag p =
     (case element_ns (st_raw tag) p of (uri, name) \<Rightarrow>
        if xp_lookahead p = Tk_slash then
          seq (xml_match n Tk_slash p) (\<lambda>p.
          seq (Some (report_event (Start_element name uri (st_attrs tag)) p)) (\<lambda>p.
          seq (Some (report_event (End_element name uri) p)) (\<lambda>p. Some (ok (st_sub_valid tag, p)))))
        else
          seq (Some (report_event (Start_element name uri (st_attrs tag)) p)) (\<lambda>p.
          seq (xml_match n Tk_greater_than (p\<lparr>xp_in_content := True\<rparr>)) (\<lambda>p.
          seq (if xp_lookahead p \<noteq> Tk_etag then xml_content n (st_sub_valid tag) p else Some (ok (st_sub_valid tag, p))) (\<lambda>(sub_valid, p).
          seq (xml_end_tag n (st_raw tag) p) (\<lambda>p.
          seq (Some (report_event (End_element name uri) p)) (\<lambda>p. Some (ok (sub_valid, p))))))))"
| "xml_content 0 valid p = None"
| "xml_content (Suc n) valid p =
     seq (Some (if validator_content_spec valid = Spec_type_Empty \<and> xp_lookahead p \<noteq> Tk_etag
                then not_valid ''Content is not allowed in an element declared to be EMPTY'' p else ok p)) (content_loop n valid)"
| "content_loop 0 valid p = None"
| "content_loop (Suc n) valid p =
     (let spec = validator_content_spec valid; unchanged = (\<lambda>p. Some (ok (valid, p))) in
      seq
        (case xp_lookahead p of
           Tk_content \<Rightarrow>
             seq (Some (check_characters spec p)) (\<lambda>p.
             seq (Some (report_event (Characters (xp_token p)) p)) (\<lambda>p. seq (xml_match n Tk_content p) unchanged))
         | Tk_space \<Rightarrow>
             seq (Some (check_characters spec p)) (\<lambda>p.
             seq (Some (report_event (Characters (xp_token p)) p)) (\<lambda>p. seq (xml_match n Tk_space p) unchanged))
         | Tk_charref \<Rightarrow>
             seq (Some (check_charref spec p)) (\<lambda>p.
             seq (Some (report_event (Characters (xp_token p)) p)) (\<lambda>p. seq (xml_match n Tk_charref p) unchanged))
         | Tk_reference \<Rightarrow> content_reference_entity n valid p
         | Tk_stag \<Rightarrow> xml_element n valid p
         | Tk_pi \<Rightarrow> seq (xml_pi n p) unchanged
         | Tk_comment \<Rightarrow> seq (xml_comment n p) unchanged
         | Tk_cdsect \<Rightarrow> seq (cdata_section n spec p) unchanged
         | _ \<Rightarrow> Some (unexpected_token Tk_content p)) (\<lambda>(valid, p).
        if xp_lookahead p \<noteq> Tk_etag \<and> xp_lookahead p \<noteq> Tk_eof then content_loop n valid p else Some (ok (valid, p))))"
| "content_reference_entity 0 valid p = None"
| "content_reference_entity (Suc n) valid p =
     seq (Some (open_reference p)) (\<lambda>(e, q).
     seq (next_content n q) (\<lambda>q.
     seq (entity_space n (validator_content_spec valid) (q\<lparr>xp_in_external_dtd := en_externally_defined e\<rparr>)) (\<lambda>q.
     seq (if xp_lookahead q \<noteq> Tk_eof then xml_content n valid q else Some (ok (valid, q))) (\<lambda>(valid, q).
       if xp_lookahead q \<noteq> Tk_eof then
         Some (not_well_formed ''entity reference should be a valid content production'' q)
       else
         seq (Some (pop_source q)) (\<lambda>q.
         seq (xml_match n Tk_reference q) (\<lambda>q.
           Some (ok (valid, q\<lparr>xp_entities_on_stack := tl (xp_entities_on_stack q), xp_in_external_dtd := xp_in_external_dtd p\<rparr>))))))))"

section \<open>The prolog\<close>

definition decl_encodings :: "(string \<times> encoding_type) list" where
  "decl_encodings = [(''US-ASCII'', ASCII), (''ISO-8859-1'', ISO88591), (''UTF-8'', UTF8)]"

definition encoding_decl :: "nat \<Rightarrow> encoding_type \<Rightarrow> 'd xml_parser \<Rightarrow> (encoding_type \<times> 'd xml_parser) res option" where
  "encoding_decl n encoding p =
     (if xp_token p \<noteq> ''encoding'' then Some (ok (encoding, p))
      else
        seq (xml_match n Tk_name p) (\<lambda>p.
        seq (xml_eq n p) (\<lambda>p.
          let name = map toupper (xp_token p); p = p\<lparr>xp_token := name\<rparr> in
          seq (Some (top_source p)) (\<lambda>src.
          seq (Some (case map_of decl_encodings name of
                       Some enc \<Rightarrow> ok enc
                     | None \<Rightarrow>
                         if name \<noteq> ''UTF-16'' then not_well_formed (''Unsupported encoding value '' @ quote_text name) p
                         else if ds_encoding src \<noteq> UTF16LE \<and> ds_encoding src \<noteq> UTF16BE then
                           not_well_formed ''Inconsistent encoding attribute in XML declaration'' p
                         else ok (ds_encoding src))) (\<lambda>encoding.
          seq (xml_match n Tk_string p) (\<lambda>p.
          seq (skip_spaces n p) (\<lambda>p. Some (ok (encoding, p)))))))))"

definition standalone_decl :: "nat \<Rightarrow> 'd xml_op" where
  "standalone_decl n p =
     (if xp_token p \<noteq> ''standalone'' then Some (ok p)
      else
        seq (xml_match n Tk_name p) (\<lambda>p.
        seq (xml_eq n p) (\<lambda>p.
          if xp_token p \<noteq> ''yes'' \<and> xp_token p \<noteq> ''no'' then
            Some (not_well_formed ''Invalid XML declaration, standalone value should be either yes or no'' p)
          else
            seq (xml_match n Tk_string (p\<lparr>xp_standalone := xp_token p = ''yes''\<rparr>)) (skip_spaces n))))"

definition xml_decl :: "nat \<Rightarrow> 'd xml_op" where
  "xml_decl n p =
     (if xp_lookahead p \<noteq> Tk_xml_decl then
        seq (Some (top_source p)) (\<lambda>src. Some (ok (p\<lparr>xp_encoding := ds_encoding src\<rparr>)))
      else
        seq (Some (if xp_encoding p = UTF8 then change_source (set_encoding ASCII) p else ok p)) (\<lambda>p.
        seq (xml_match n Tk_xml_decl p) (\<lambda>p.
        seq (some_space n p) (\<lambda>p.
          if xp_token p \<noteq> ''version'' then Some (not_well_formed ''expected a version attribute in XML declaration'' p)
          else
            seq (xml_match n Tk_name p) (\<lambda>p.
            seq (xml_eq n p) (\<lambda>p.
            seq (Some (parse_version p)) (\<lambda>version.
            seq (Some (change_source (\<lambda>src. ok (src\<lparr>ds_version := version\<rparr>)) (p\<lparr>xp_version := version\<rparr>))) (\<lambda>p.
            seq (xml_match n Tk_string p) (\<lambda>p.
            seq (if xp_lookahead p = Tk_space then
                   seq (some_space n p) (\<lambda>p.
                   seq (encoding_decl n (xp_encoding p) p) (\<lambda>(encoding, p).
                   seq (standalone_decl n p) (\<lambda>p. Some (ok (encoding, p)))))
                 else Some (ok (xp_encoding p, p))) (\<lambda>(encoding, p).
            seq (Some (change_source (set_encoding encoding) (p\<lparr>xp_encoding := encoding\<rparr>))) (\<lambda>p.
            seq (xml_match n Tk_question_mark p) (\<lambda>p.
            seq (xml_match n Tk_greater_than p) (\<lambda>p.
              Some (report_event (Xml_declaration (xp_standalone p) (xp_version p)) p))))))))))))))"

definition xml_prolog :: "nat \<Rightarrow> 'd xml_op" where
  "xml_prolog n p =
     seq (xml_decl n p) (\<lambda>p.
     seq (xml_misc n p) (\<lambda>p.
       if xp_lookahead p = Tk_doctype then seq (doctypedecl n p) (xml_misc n)
       else Some (if xp_validating p then not_valid ''document type declaration is missing'' p else ok p)))"

section \<open>Documents\<close>

definition predefined_entities :: "entity list" where
  "predefined_entities =
     map (\<lambda>(name, s). general_entity name s False True)
       [(''lt'', ''&#60;''), (''gt'', ''&#62;''), (''amp'', ''&#38;''), (''apos'', ''&#39;''), (''quot'', ''&#34;'')]"

definition new_parser ::
  "(xml_event \<Rightarrow> 'd \<Rightarrow> 'd res) \<Rightarrow> (string \<Rightarrow> string \<Rightarrow> string \<Rightarrow> string option) \<Rightarrow> string \<Rightarrow> 'd \<Rightarrow> 'd xml_parser" where
  "new_parser handler external data user =
     (let p = \<lparr>xp_handler = handler, xp_external = external, xp_user = user, xp_validating = True, xp_validating_ns = False,
                xp_has_dtd = False, xp_lookahead = Tk_eof, xp_token = [], xp_sources = [], xp_buffer = [], xp_version = 1,
                xp_encoding = fst (guess_encoding data), xp_standalone = False, xp_external_subset = False,
                xp_internal_subset = False, xp_allow_peref = False, xp_in_declsep = False, xp_in_external_dtd = False,
                xp_in_content = False, xp_entities_on_stack = [], xp_ns = [], xp_root_element = [],
                xp_parameter_entities = [], xp_general_entities = predefined_entities, xp_doctype = [], xp_notations = [],
                xp_ids = [], xp_unresolved_ids = [], xp_next_id = 0\<rparr>
      in push_source (\<lambda>i. stream_source i data) False p)"

fun join_comma :: "string list \<Rightarrow> string" where
  "join_comma [] = []"
| "join_comma [x] = x"
| "join_comma (x # y # xs) = x @ '', '' @ join_comma (y # xs)"

definition xml_parse :: "nat \<Rightarrow> bool \<Rightarrow> bool \<Rightarrow> 'd xml_op" where
  "xml_parse n validate validate_ns p =
     seq (next_token n (p\<lparr>xp_validating := validate, xp_validating_ns := validate_ns\<rparr>)) (\<lambda>p.
     seq (xml_prolog n p) (\<lambda>p.
       let e = get_element (xp_root_element p) p in
       seq (Some (if xp_has_dtd p \<and> e = None \<and> xp_validating p
                  then not_valid (''Element '' @ quote_text (xp_root_element p) @ '' is not defined in DTD'') p else ok p)) (\<lambda>p.
       seq (Some (validator_new (if e = None then Spec_any else Spec_element (xp_root_element p)))) (\<lambda>valid.
       seq (xml_element n valid p) (\<lambda>(_, p).
       seq (xml_misc n p) (\<lambda>p.
         if xp_lookahead p \<noteq> Tk_eof then Some (not_well_formed ''garbage at end of file'' p)
         else
           Some (if xp_unresolved_ids p = [] then ok p
                 else not_valid (''document contains references to the following undefined ID'' @ [CHR 0x27] @ ''s: ''
                                 @ quote_text (join_comma (xp_unresolved_ids p))) p)))))))"

text \<open>A client that records what is reported.\<close>

definition record_event :: "xml_event \<Rightarrow> xml_event list \<Rightarrow> xml_event list res" where
  "record_event e es = ok (es @ [e])"

definition parse_events :: "nat \<Rightarrow> bool \<Rightarrow> (string \<Rightarrow> string \<Rightarrow> string \<Rightarrow> string option) \<Rightarrow> string \<Rightarrow> xml_event list res option" where
  "parse_events n validate external data =
     seq (xml_parse n validate False (new_parser record_event external data [])) (\<lambda>p. Some (ok (xp_user p)))"

end
