(* ===== verification/Xml_Document.thy ===== *)
theory Xml_Document
  imports Xml_Write Xml_Parser
begin

text \<open>
  The document (\<open>document.cpp\<close>, \<open>zeep/xml/document.hpp\<close>): the handlers that build the tree from
  what the parser reports, and the output of a document. The element that is being built,
  \<open>m_cur\<close>, and its ancestors up to the document are a stack, the innermost first; behind the
  document there is nothing, as its parent is null. Files and external entities are not
  modelled.
\<close>

section \<open>State\<close>

record doc_type =
  dt_root :: string
  dt_pubid :: string
  dt_dtd :: string

record notation_decl =
  nt_name :: string
  nt_sysid :: string
  nt_pubid :: string

record open_element =
  oe_qname :: string
  oe_attributes :: "xml_attr list"
  oe_nodes :: "xml_node list"

record document =
  doc_validating :: bool
  doc_validating_ns :: bool
  doc_preserve_cdata :: bool
  doc_cur :: "open_element list"
  doc_in_cdata :: bool
  doc_namespaces :: "(string \<times> string) list"
  doc_doctype :: doc_type
  doc_notations :: "notation_decl list"
  doc_root_size_at_first_notation :: nat
  doc_has_xml_decl :: bool
  doc_standalone :: bool
  doc_version :: rat
  doc_wrap_prolog :: bool
  doc_write_doctype :: bool
  doc_write_xml_decl :: bool
  doc_fmt :: format_info

definition new_document :: document where
  "new_document = \<lparr>doc_validating = False, doc_validating_ns = False, doc_preserve_cdata = False, doc_cur = [\<lparr>oe_qname = [], oe_attributes = [], oe_nodes = []\<rparr>], doc_in_cdata = False, doc_namespaces = [],
     doc_doctype = \<lparr>dt_root = [], dt_pubid = [], dt_dtd = []\<rparr>, doc_notations = [], doc_root_size_at_first_notation = 0,
     doc_has_xml_decl = False, doc_standalone = False, doc_version = 1, doc_wrap_prolog = True, doc_write_doctype = False,
     doc_write_xml_decl = False, doc_fmt = default_format\<rparr>"

section \<open>Handlers\<close>

definition doc_chain :: "document \<Rightarrow> ancestors" where
  "doc_chain d = map oe_attributes (doc_cur d)"

text \<open>A change of the element \<open>m_cur\<close>; a null pointer is undefined.\<close>

definition change_cur :: "(open_element \<Rightarrow> open_element res) \<Rightarrow> document \<Rightarrow> document res" where
  "change_cur f d =
     (case doc_cur d of
        [] \<Rightarrow> throw Undefined
      | e # es \<Rightarrow> bind_res (f e) (\<lambda>e. ok (d\<lparr>doc_cur := e # es\<rparr>)))"

definition XmlDeclHandler :: "bool \<Rightarrow> rat \<Rightarrow> document \<Rightarrow> document" where
  "XmlDeclHandler standalone version d =
     d\<lparr>doc_has_xml_decl := True, doc_standalone := standalone, doc_version := version,
       doc_fmt := (doc_fmt d)\<lparr>fi_version := version\<rparr>\<rparr>"

definition element_qname :: "string \<Rightarrow> string \<Rightarrow> document \<Rightarrow> string res" where
  "element_qname name uri d =
     (if uri = [] then ok name
      else
        (case (case List.find (\<lambda>(prefix, u). u = uri) (doc_namespaces d) of
                 Some (prefix, _) \<Rightarrow> Some prefix
               | None \<Rightarrow> prefix_for_namespace (doc_chain d) uri) of
           None \<Rightarrow> throw (Zeep_exception (''namespace not found: '' @ uri))
         | Some prefix \<Rightarrow> ok (prefixed prefix name)))"

text \<open>\<open>emplace_back\<close> of an element; a document takes only one.\<close>

definition open_child :: "string \<Rightarrow> document \<Rightarrow> document res" where
  "open_child qname d =
     (case doc_cur d of
        [] \<Rightarrow> throw Undefined
      | [doc] \<Rightarrow>
          if \<exists>n \<in> set (oe_nodes doc). is_element n then throw (Zeep_exception ''Cannot add a node to a non-empty document'')
          else ok (d\<lparr>doc_cur := [\<lparr>oe_qname = qname, oe_attributes = [], oe_nodes = []\<rparr>, doc]\<rparr>)
      | es \<Rightarrow> ok (d\<lparr>doc_cur := \<lparr>oe_qname = qname, oe_attributes = [], oe_nodes = []\<rparr> # es\<rparr>))"

definition declare_namespaces :: "(string \<times> string) list \<Rightarrow> xml_attr list \<Rightarrow> xml_attr list" where
  "declare_namespaces nss as =
     foldl (\<lambda>as (prefix, uri). emplace_attr (attr (if prefix = [] then ''xmlns'' else ''xmlns:'' @ prefix) uri) as) as nss"

fun add_attributes :: "ancestors \<Rightarrow> sax_attr list \<Rightarrow> xml_attr list \<Rightarrow> xml_attr list res" where
  "add_attributes up [] as = ok as"
| "add_attributes up (a # atts) as =
     bind_res
       (if sa_ns a = [] then ok (sa_name a)
        else (case prefix_for_namespace (as # up) (sa_ns a) of
                None \<Rightarrow> throw (Zeep_exception (''namespace not found: '' @ sa_ns a))
              | Some p \<Rightarrow> ok (prefixed p (sa_name a)))) (\<lambda>qname.
     add_attributes up atts (emplace_attr \<lparr>at_qname = qname, at_value = sa_value a, at_id = sa_id a\<rparr> as))"

definition StartElementHandler :: "string \<Rightarrow> string \<Rightarrow> sax_attr list \<Rightarrow> document \<Rightarrow> document res" where
  "StartElementHandler name uri atts d =
     bind_res (element_qname name uri d) (\<lambda>qname.
     bind_res (open_child qname d) (\<lambda>d.
     bind_res (change_cur (\<lambda>e.
         bind_res (add_attributes (tl (doc_chain d)) atts (declare_namespaces (doc_namespaces d) (oe_attributes e))) (\<lambda>as.
           ok (e\<lparr>oe_attributes := as\<rparr>))) d) (\<lambda>d.
       ok (d\<lparr>doc_namespaces := []\<rparr>))))"

text \<open>
  \<open>EndElementHandler\<close> goes to the parent. The child is in the parent's list from the start;
  here it is put there when it is complete.
\<close>

definition EndElementHandler :: "document \<Rightarrow> document res" where
  "EndElementHandler d =
     (if doc_in_cdata d then throw (Zeep_exception ''CDATA section not closed'')
      else
        (case doc_cur d of
           [] \<Rightarrow> throw Undefined
         | [doc] \<Rightarrow> ok (d\<lparr>doc_cur := []\<rparr>)
         | e # p # es \<Rightarrow>
             ok (d\<lparr>doc_cur := p\<lparr>oe_nodes := oe_nodes p @ [Xelement (oe_qname e) (oe_attributes e) (oe_nodes e)]\<rparr> # es\<rparr>)))"

text \<open>Between the start and the end of a CDATA section its node is the last of \<open>m_cur\<close>.\<close>

definition append_cdata :: "string \<Rightarrow> open_element \<Rightarrow> open_element res" where
  "append_cdata s e =
     (case rev (oe_nodes e) of
        Xcdata t # rs \<Rightarrow> ok (e\<lparr>oe_nodes := rev rs @ [Xcdata (t @ s)]\<rparr>)
      | _ \<Rightarrow> throw Undefined)"

definition CharacterDataHandler :: "string \<Rightarrow> document \<Rightarrow> document res" where
  "CharacterDataHandler s d =
     (if doc_in_cdata d then change_cur (append_cdata s) d
      else change_cur (\<lambda>e. ok (e\<lparr>oe_nodes := add_text s (oe_nodes e)\<rparr>)) d)"

definition add_node :: "xml_node \<Rightarrow> document \<Rightarrow> document res" where
  "add_node n d = change_cur (\<lambda>e. ok (e\<lparr>oe_nodes := oe_nodes e @ [n]\<rparr>)) d"

definition ProcessingInstructionHandler :: "string \<Rightarrow> string \<Rightarrow> document \<Rightarrow> document res" where
  "ProcessingInstructionHandler target s d = add_node (Xpi target s) d"

definition CommentHandler :: "string \<Rightarrow> document \<Rightarrow> document res" where
  "CommentHandler s d = add_node (Xcomment s) d"

definition StartCdataSectionHandler :: "document \<Rightarrow> document res" where
  "StartCdataSectionHandler d = bind_res (add_node (Xcdata []) d) (\<lambda>d. ok (d\<lparr>doc_in_cdata := True\<rparr>))"

definition EndCdataSectionHandler :: "document \<Rightarrow> document" where
  "EndCdataSectionHandler d = d\<lparr>doc_in_cdata := False\<rparr>"

definition StartNamespaceDeclHandler :: "string \<Rightarrow> string \<Rightarrow> document \<Rightarrow> document" where
  "StartNamespaceDeclHandler prefix uri d = d\<lparr>doc_namespaces := doc_namespaces d @ [(prefix, uri)]\<rparr>"

definition DoctypeDeclHandler :: "string \<Rightarrow> string \<Rightarrow> string \<Rightarrow> document \<Rightarrow> document" where
  "DoctypeDeclHandler root_name publicId uri d = d\<lparr>doc_doctype := \<lparr>dt_root = root_name, dt_pubid = publicId, dt_dtd = uri\<rparr>\<rparr>"

text \<open>A notation goes in front of the first whose name is not smaller.\<close>

fun insert_notation :: "notation_decl \<Rightarrow> notation_decl list \<Rightarrow> notation_decl list" where
  "insert_notation n [] = [n]"
| "insert_notation n (m # ms) = (if nt_name n \<le> nt_name m then n # m # ms else m # insert_notation n ms)"

definition document_nodes :: "document \<Rightarrow> xml_node list" where
  "document_nodes d = (case rev (doc_cur d) of [] \<Rightarrow> [] | doc # _ \<Rightarrow> oe_nodes doc)"

definition NotationDeclHandler :: "string \<Rightarrow> string \<Rightarrow> string \<Rightarrow> document \<Rightarrow> document" where
  "NotationDeclHandler name sysid pubid d =
     (let d = (if doc_notations d = [] then d\<lparr>doc_root_size_at_first_notation := length (document_nodes d)\<rparr> else d)
      in d\<lparr>doc_notations := insert_notation \<lparr>nt_name = name, nt_sysid = sysid, nt_pubid = pubid\<rparr> (doc_notations d)\<rparr>)"

section \<open>What the parser reports\<close>

text \<open>Without \<open>preserve_cdata\<close> there is no handler for CDATA sections, and never one for what is not valid.\<close>

fun handle_event :: "xml_event \<Rightarrow> document \<Rightarrow> document res" where
  "handle_event (Xml_declaration standalone version) d = ok (XmlDeclHandler standalone version d)"
| "handle_event (Doctype_declaration root_name publicId uri) d = ok (DoctypeDeclHandler root_name publicId uri d)"
| "handle_event (Notation_declaration name sysid pubid) d = ok (NotationDeclHandler name sysid pubid d)"
| "handle_event (Start_namespace prefix uri) d = ok (StartNamespaceDeclHandler prefix uri d)"
| "handle_event (Start_element name uri atts) d = StartElementHandler name uri atts d"
| "handle_event (End_element name uri) d = EndElementHandler d"
| "handle_event (Characters s) d = CharacterDataHandler s d"
| "handle_event Start_cdata d = (if doc_preserve_cdata d then StartCdataSectionHandler d else ok d)"
| "handle_event End_cdata d = ok (if doc_preserve_cdata d then EndCdataSectionHandler d else d)"
| "handle_event (Comment_event s) d = CommentHandler s d"
| "handle_event (Pi_event target s) d = ProcessingInstructionHandler target s d"
| "handle_event (Invalidation msg) d = ok d"

fun handle_events :: "xml_event list \<Rightarrow> document \<Rightarrow> document res" where
  "handle_events [] d = ok d"
| "handle_events (e # es) d = bind_res (handle_event e d) (handle_events es)"

text \<open>
  \<open>document::parse\<close>: the parser calls the handlers, and at its end \<open>m_cur\<close> is the document.
  \<open>build_document\<close> does this for events that are given.
\<close>

definition check_cur :: "document \<Rightarrow> document res" where
  "check_cur d = (if length (doc_cur d) = 1 then ok d else throw Assertion)"

definition build_document :: "xml_event list \<Rightarrow> document \<Rightarrow> document res" where
  "build_document es d = bind_res (handle_events es d) check_cur"

definition parse_document ::
  "nat \<Rightarrow> (string \<Rightarrow> string \<Rightarrow> string \<Rightarrow> string option) \<Rightarrow> string \<Rightarrow> document \<Rightarrow> document res option" where
  "parse_document n external data d =
     seq (xml_parse n (doc_validating d) (doc_validating_ns d) (new_parser handle_event external data d)) (\<lambda>p.
       Some (check_cur (xp_user p)))"

section \<open>Output\<close>

text \<open>The version with one decimal.\<close>

definition version_text :: "rat \<Rightarrow> string" where
  "version_text v =
     (let tenths = nat (round (v * 10)) in nat_to_string (tenths div 10) @ ''.'' @ nat_to_string (tenths mod 10))"

definition write_xml_decl :: "document \<Rightarrow> string" where
  "write_xml_decl d =
     (if doc_version d > 1 \<or> doc_write_xml_decl d then
        ''<?xml version='' @ [CHR 0x22] @ version_text (doc_version d) @ [CHR 0x22]
        @ (if doc_standalone d then '' standalone='' @ [CHR 0x22] @ ''yes'' @ [CHR 0x22] else [])
        @ ''?>'' @ (if doc_wrap_prolog d then new_line else [])
      else [])"

definition quoted :: "string \<Rightarrow> string" where
  "quoted s = [CHR 0x27] @ s @ [CHR 0x27]"

definition write_notation :: "notation_decl \<Rightarrow> string" where
  "write_notation n =
     ''<!NOTATION '' @ nt_name n
     @ (if nt_pubid n \<noteq> [] then '' PUBLIC '' @ quoted (nt_pubid n) @ (if nt_sysid n \<noteq> [] then '' '' @ quoted (nt_sysid n) else [])
        else '' SYSTEM '' @ quoted (nt_sysid n))
     @ ''>'' @ new_line"

definition write_doctype :: "document \<Rightarrow> string" where
  "write_doctype d =
     (if doc_notations d \<noteq> [] \<or> doc_write_doctype d then
        ''<!DOCTYPE '' @ (case List.find is_element (document_nodes d) of None \<Rightarrow> [] | Some n \<Rightarrow> get_qname n)
        @ (if doc_write_doctype d \<and> dt_dtd (doc_doctype d) \<noteq> [] then
             (if dt_pubid (doc_doctype d) = [] then '' SYSTEM '' @ [CHR 0x22]
              else '' PUBLIC '' @ [CHR 0x22] @ dt_pubid (doc_doctype d) @ [CHR 0x22] @ '' '' @ [CHR 0x22])
             @ dt_dtd (doc_doctype d) @ [CHR 0x22]
           else [])
        @ (if doc_notations d \<noteq> [] then '' ['' @ new_line @ concat (map write_notation (doc_notations d)) @ '']'' else [])
        @ ''>'' @ new_line
      else [])"

definition write_document :: "document \<Rightarrow> format_info \<Rightarrow> string res" where
  "write_document d fmt =
     bind_res (write_nodes (document_nodes d) fmt) (\<lambda>body. ok (write_xml_decl d @ write_doctype d @ body))"

definition is_html5 :: "document \<Rightarrow> bool res" where
  "is_html5 d =
     (if dt_root (doc_doctype d) \<noteq> ''html'' then ok False
      else
        (case document_nodes d of
           [] \<Rightarrow> throw Undefined
         | n # _ \<Rightarrow> ok (local_name (get_qname n) = ''html'' \<and> dt_pubid (doc_doctype d) = [] \<and> dt_dtd (doc_doctype d) = ''about:legacy-compat'')))"

end
