(* ===== verification/Xml_Client.thy ===== *)
theory Xml_Client
  imports Xml_Document
begin

text \<open>
  What the client of the XML parser can rely on. The locale \<open>parser_client\<close> is the contract of
  a relation between states of the parser that only depends on the client's part: it
  holds where that part is the same, over every report that is not of an element, and
  over an element from its start to its end. Every production keeps such a relation.
\<close>

section \<open>Results\<close>

definition yields :: "('a \<Rightarrow> bool) \<Rightarrow> 'a res option \<Rightarrow> bool" where
  "yields P r \<longleftrightarrow> (\<forall>x. r = Some (ok x) \<longrightarrow> P x)"

lemma yields_simps [simp]: "yields P None" "yields P (Some (throw e))" "yields P (Some (ok x)) \<longleftrightarrow> P x"
  by (simp_all add: yields_def)

lemma yields_seq: "yields Q r \<Longrightarrow> (\<And>x. Q x \<Longrightarrow> yields P (f x)) \<Longrightarrow> yields P (seq r f)"
  by (auto simp: yields_def seq_def split: option.splits sum.splits)

lemma yields_seq_any: "(\<And>x. yields P (f x)) \<Longrightarrow> yields P (seq r f)"
  by (rule yields_seq [of "\<lambda>_. True"]) (simp_all add: yields_def)

text \<open>The results that are no states of the parser.\<close>

lemmas yields_pure =
  yields_seq_any [where 'a = string] yields_seq_any [where 'a = data_source] yields_seq_any [where 'a = nat]
  yields_seq_any [where 'a = rat] yields_seq_any [where 'a = entity] yields_seq_any [where 'a = "unicode \<times> string"]
  yields_seq_any [where 'a = "unicode \<times> data_source"] yields_seq_any [where 'a = value_loop] yields_seq_any [where 'a = validator]
  yields_seq_any [where 'a = "bool \<times> validator"] yields_seq_any [where 'a = encoding_type]
  yields_seq_any [where 'a = "string \<times> string"]

lemma bind_as_seq: "Some (bind_res r f) = seq (Some r) (\<lambda>x. Some (f x))"
  by (cases r) (simp_all add: seq_simps)

lemma seq_assoc: "seq (seq r f) g = seq r (\<lambda>x. seq (f x) g)"
  by (simp add: seq_def split: option.split sum.split)

lemma yields_not_well_formed [simp]: "yields P (Some (not_well_formed msg p))"
  by (simp add: not_well_formed_def)

lemma seq_not_well_formed [simp]: "yields P (seq (Some (not_well_formed msg p)) f)"
  by (simp add: not_well_formed_def seq_simps)

lemma Some_if: "Some (if c then a else b) = (if c then Some a else Some b)"
  by simp

lemma yields_if: "(c \<Longrightarrow> yields P r) \<Longrightarrow> (\<not> c \<Longrightarrow> yields P s) \<Longrightarrow> yields P (if c then r else s)"
  by simp

section \<open>The contract\<close>

fun element_event :: "xml_event \<Rightarrow> bool" where
  "element_event (Start_element name uri attrs) = True"
| "element_event (End_element name uri) = True"
| "element_event _ = False"

locale parser_client =
  fixes keep :: "'d xml_parser \<Rightarrow> 'd xml_parser \<Rightarrow> bool"
  assumes same: "xp_handler q = xp_handler p \<Longrightarrow> xp_user q = xp_user p \<Longrightarrow> keep p q"
    and trans: "keep p q \<Longrightarrow> keep q r \<Longrightarrow> keep p r"
    and report: "\<not> element_event e \<Longrightarrow> report_event e p = ok q \<Longrightarrow> keep p q"
    and element: "report_event (Start_element name uri attrs) p = ok q \<Longrightarrow> keep q r \<Longrightarrow>
      report_event (End_element name uri) r = ok s \<Longrightarrow> keep p s"
begin

lemma same_keeps: "keep p0 p \<Longrightarrow> xp_handler q = xp_handler p \<Longrightarrow> xp_user q = xp_user p \<Longrightarrow> keep p0 q"
  using same trans by blast

lemma keep_updates [simp]:
  "keep p0 (p\<lparr>xp_token := t\<rparr>) = keep p0 p" "keep p0 (p\<lparr>xp_lookahead := l\<rparr>) = keep p0 p"
  "keep p0 (p\<lparr>xp_sources := ss\<rparr>) = keep p0 p" "keep p0 (p\<lparr>xp_buffer := b\<rparr>) = keep p0 p"
  "keep p0 (p\<lparr>xp_next_id := i\<rparr>) = keep p0 p" "keep p0 (p\<lparr>xp_in_content := c\<rparr>) = keep p0 p"
  "keep p0 (p\<lparr>xp_entities_on_stack := es\<rparr>) = keep p0 p" "keep p0 (p\<lparr>xp_version := v\<rparr>) = keep p0 p"
  "keep p0 (p\<lparr>xp_encoding := enc\<rparr>) = keep p0 p" "keep p0 (p\<lparr>xp_standalone := c\<rparr>) = keep p0 p"
  "keep p0 (p\<lparr>xp_allow_peref := c\<rparr>) = keep p0 p" "keep p0 (p\<lparr>xp_in_declsep := c\<rparr>) = keep p0 p"
  "keep p0 (p\<lparr>xp_external_subset := c\<rparr>) = keep p0 p" "keep p0 (p\<lparr>xp_internal_subset := c\<rparr>) = keep p0 p"
  "keep p0 (p\<lparr>xp_in_external_dtd := c\<rparr>) = keep p0 p" "keep p0 (p\<lparr>xp_has_dtd := c\<rparr>) = keep p0 p"
  "keep p0 (p\<lparr>xp_root_element := t\<rparr>) = keep p0 p" "keep p0 (p\<lparr>xp_doctype := els\<rparr>) = keep p0 p"
  "keep p0 (p\<lparr>xp_parameter_entities := ents\<rparr>) = keep p0 p" "keep p0 (p\<lparr>xp_general_entities := ents\<rparr>) = keep p0 p"
  "keep p0 (p\<lparr>xp_notations := ids\<rparr>) = keep p0 p" "keep p0 (p\<lparr>xp_ids := ids\<rparr>) = keep p0 p"
  "keep p0 (p\<lparr>xp_unresolved_ids := ids\<rparr>) = keep p0 p" "keep p0 (p\<lparr>xp_ns := ns\<rparr>) = keep p0 p"
  "keep p0 (p\<lparr>xp_validating := c\<rparr>) = keep p0 p" "keep p0 (p\<lparr>xp_validating_ns := c\<rparr>) = keep p0 p"
  by (auto elim: same_keeps)

lemma kept_seq: "yields (keep p0) r \<Longrightarrow> (\<And>q. keep p0 q \<Longrightarrow> yields P (f q)) \<Longrightarrow> yields P (seq r f)"
  by (rule yields_seq)

lemma kept_seq_pair:
  "yields (\<lambda>(x, q). keep p0 q) r \<Longrightarrow> (\<And>x q. keep p0 q \<Longrightarrow> yields P (f (x, q))) \<Longrightarrow> yields P (seq r f)"
  by (rule yields_seq [where Q = "\<lambda>(x, q). keep p0 q"]) auto

lemma kept_report: "keep p0 p \<Longrightarrow> \<not> element_event e \<Longrightarrow> yields (keep p0) (Some (report_event e p))"
  using report trans unfolding yields_def by blast

lemma kept_not_valid: "keep p0 p \<Longrightarrow> yields (keep p0) (Some (not_valid msg p))"
  by (simp add: not_valid_def kept_report)

section \<open>The scanner\<close>

lemma kept_read_sources: "keep p0 p \<Longrightarrow> yields (\<lambda>(c, q). keep p0 q) (Some (read_sources ss p))"
  by (induction ss p rule: read_sources.induct) (auto simp: restore_source_def split: sum.split exn.split)

lemma kept_next_char: "keep p0 p \<Longrightarrow> yields (\<lambda>(c, q). keep p0 q) (Some (xml_get_next_char p))"
  unfolding xml_get_next_char_def bind_as_seq
  by (rule kept_seq_pair) (auto split: list.split intro: kept_read_sources)

lemma kept_retract: "keep p0 p \<Longrightarrow> yields (keep p0) (Some (xml_retract p))"
  by (auto simp: xml_retract_def bind_as_seq split: prod.split intro!: yields_pure)

lemmas kept_scan = kept_next_char kept_retract kept_read_sources

lemma kept_rule_token:
  "keep p0 p \<Longrightarrow> yields (\<lambda>r. case r of Goto s q \<Rightarrow> keep p0 q | Found t q \<Rightarrow> keep p0 q) (Some (token_rule s uc p))"
  by (cases s)
    (auto simp: token_start_def token_white_space_def token_tag_def token_string_def token_peref_def token_peref_name_def
      token_hash_name_def token_name_def token_comment_or_doctype_def token_comment_def token_doctype_decl_def token_pi_def
      found_token_def found_inner_def bind_as_seq Some_if split: option.split intro!: kept_seq [OF kept_retract] yields_pure)

lemma kept_rule_content:
  "keep p0 p \<Longrightarrow> yields (\<lambda>r. case r of Goto s q \<Rightarrow> keep p0 q | Found t q \<Rightarrow> keep p0 q) (Some (content_rule s uc p))"
  by (cases s)
    (auto simp: content_rule_def content_start_def content_tag_def content_reference_def content_reference_name_def content_charref_def
      content_decimal_def content_hex_def content_hex_digits_def content_white_space_def content_content_def content_pi_def
      content_comment_or_cdata_def content_comment_def content_cdata_def content_cdata_name_def content_cdata_text_def
      content_cdata_bracket_def content_cdata_brackets_def content_illegal_def content_illegal_brackets_def invalid_content_def
      runaway_cdata_def invalid_charref_def found_charref_def back_to_state_def found_token_def found_inner_def bind_as_seq Some_if
      split: option.split intro!: kept_seq [OF kept_retract] yields_pure)

lemma kept_scan_loop:
  assumes "\<And>s uc p. keep p0 p \<Longrightarrow> yields (\<lambda>r. case r of Goto s q \<Rightarrow> keep p0 q | Found t q \<Rightarrow> keep p0 q) (Some (rule s uc p))"
  shows "keep p0 p \<Longrightarrow> yields (\<lambda>(t, q). keep p0 q) (scan_loop rule n s p)"
proof (induction n arbitrary: s p)
  case (Suc n)
  show ?case
  proof (cases "xml_get_next_char p")
    case (Inr cq)
    then obtain uc q where q: "xml_get_next_char p = ok (uc, q)" "keep p0 q"
      using kept_next_char [OF Suc.prems] by (cases cq) auto
    then show ?thesis
      using assms [of q s uc] Suc.IH by (auto split: sum.split scanned.split)
  qed simp
qed simp

lemma kept_next_token: "keep p0 p \<Longrightarrow> yields (keep p0) (next_token n p)"
  unfolding next_token_def xml_get_next_token_def
  by (rule kept_seq_pair [OF kept_scan_loop]) (auto intro: kept_rule_token)

lemma kept_next_content: "keep p0 p \<Longrightarrow> yields (keep p0) (next_content n p)"
  unfolding next_content_def xml_get_next_content_def
  by (rule kept_seq_pair [OF kept_scan_loop]) (auto intro: kept_rule_content)

lemma kept_push [simp]: "keep p0 (push_source src inserted p) = keep p0 p"
  by (simp add: push_source_def)

lemma kept_pop: "keep p0 p \<Longrightarrow> yields (keep p0) (Some (pop_source p))"
  by (simp add: pop_source_def restore_source_def split: list.split)

lemma kept_change_source: "keep p0 p \<Longrightarrow> yields (keep p0) (Some (change_source f p))"
  by (simp add: change_source_def bind_as_seq split: list.split) (auto intro: yields_pure)

lemma kept_match: "keep p0 p \<Longrightarrow> yields (keep p0) (xml_match n t p)"
  by (induction n t p rule: xml_match.induct)
    (auto simp: unexpected_token_def open_pereference_def bind_as_seq seq_assoc seq_simps
      intro!: kept_next_content kept_seq [OF kept_next_token] yields_pure)

lemma kept_skip_spaces: "keep p0 p \<Longrightarrow> yields (keep p0) (skip_spaces n p)"
  by (induction n p rule: skip_spaces.induct) (auto intro!: kept_seq [OF kept_match])

lemma kept_some_space: "keep p0 p \<Longrightarrow> yields (keep p0) (some_space n p)"
  by (simp add: some_space_def kept_seq [OF kept_match] kept_skip_spaces)

lemma kept_eq: "keep p0 p \<Longrightarrow> yields (keep p0) (xml_eq n p)"
  by (simp add: xml_eq_def kept_seq [OF kept_match] kept_seq [OF kept_skip_spaces] kept_skip_spaces)

lemmas kept_tokens = kept_match kept_skip_spaces kept_some_space kept_eq kept_next_token kept_next_content
  kept_seq [OF kept_match] kept_seq [OF kept_skip_spaces] kept_seq [OF kept_some_space] kept_seq [OF kept_eq]
  kept_seq [OF kept_next_token] kept_seq [OF kept_next_content] kept_seq_pair [OF kept_next_char] kept_seq [OF kept_retract]
  kept_seq [OF kept_pop] kept_pop kept_seq [OF kept_change_source] kept_change_source kept_seq [OF kept_not_valid] kept_not_valid
  kept_seq [OF kept_report] kept_report

lemma kept_comment_loop: "keep p0 p \<Longrightarrow> yields (keep p0) (comment_loop n s p)"
proof (induction n arbitrary: s p)
  case (Suc n)
  show ?case using Suc.prems by (auto split: comment_state.split intro!: kept_tokens Suc.IH)
qed simp

lemma kept_comment: "keep p0 p \<Longrightarrow> yields (keep p0) (xml_comment n p)"
  by (auto simp: xml_comment_def Let_def intro!: kept_seq [OF kept_comment_loop] kept_tokens)

lemma kept_pi_loop: "keep p0 p \<Longrightarrow> yields (keep p0) (pi_loop n s p)"
proof (induction n arbitrary: s p)
  case (Suc n)
  show ?case using Suc.prems by (auto split: pi_state.split intro!: kept_tokens Suc.IH)
qed simp

lemma kept_check_pi_target: "keep p0 p \<Longrightarrow> yields (keep p0) (Some (check_pi_target target p))"
  by (simp add: check_pi_target_def)

lemma kept_pi: "keep p0 p \<Longrightarrow> yields (keep p0) (xml_pi n p)"
  by (auto simp: xml_pi_def Let_def intro!: kept_seq [OF kept_check_pi_target] kept_seq [OF kept_pi_loop] yields_pure kept_tokens)

lemma kept_misc: "keep p0 p \<Longrightarrow> yields (keep p0) (xml_misc n p)"
  by (induction n p rule: xml_misc.induct)
    (auto split: xml_token.split intro!: kept_seq [OF kept_comment] kept_seq [OF kept_pi] kept_tokens)

lemma kept_general_entity: "keep p0 p \<Longrightarrow> yields (\<lambda>(e, q). keep p0 q) (Some (get_general_entity name p))"
  by (auto simp: get_general_entity_def bind_as_seq Some_if seq_simps split: option.split intro!: kept_tokens)

section \<open>Values\<close>

lemma kept_parameter_value: "keep p0 p \<Longrightarrow> yields (\<lambda>(s, q). keep p0 q) (Some (parse_parameter_entity_declaration s p))"
  by (auto simp: parse_parameter_entity_declaration_def bind_as_seq Some_if seq_simps intro!: yields_pure kept_tokens)

lemma kept_general_value: "keep p0 p \<Longrightarrow> yields (\<lambda>(s, q). keep p0 q) (Some (parse_general_entity_declaration s p))"
  by (auto simp: parse_general_entity_declaration_def bind_as_seq Some_if seq_simps intro!: yields_pure)

lemma kept_push_entity: "keep p0 p \<Longrightarrow> yields (keep p0) (Some (push_entity e p))"
  by (auto simp: push_entity_def bind_as_seq intro!: yields_pure)

lemma kept_enter_entity: "keep p0 p \<Longrightarrow> yields (keep p0) (Some (enter_entity name p))"
  by (auto simp: enter_entity_def check_attribute_entity_def bind_as_seq Some_if seq_simps
      intro!: kept_seq_pair [OF kept_general_entity] kept_push_entity)

lemma kept_normalize_loop: "keep p0 p \<Longrightarrow> yields (\<lambda>(v, q). keep p0 q) (normalize_loop n s result p)"
proof (induction n arbitrary: s result p)
  case (Suc n)
  show ?case
    using Suc.prems
    by (auto split: value_state.split intro!: kept_tokens kept_seq [OF kept_enter_entity] kept_seq_pair [OF Suc.IH] Suc.IH yields_pure)
qed simp

lemma kept_normalize: "keep p0 p \<Longrightarrow> yields (\<lambda>(v, q). keep p0 q) (normalize_attribute_value n s isCDATA p)"
  by (auto simp: normalize_attribute_value_def Some_if seq_simps intro!: kept_seq_pair [OF kept_normalize_loop] kept_tokens)

section \<open>The document type declaration\<close>

lemma kept_data_source: "keep p0 p \<Longrightarrow> yields (\<lambda>(s, q). keep p0 q) (Some (get_data_source pubid uri p))"
  by (auto simp: get_data_source_def bind_as_seq Let_def split: option.split intro!: yields_pure)

lemma kept_public_id: "keep p0 p \<Longrightarrow> yields (\<lambda>(s, q). keep p0 q) (read_public_id n p)"
  by (auto simp: read_public_id_def Let_def intro!: kept_tokens)

lemma kept_external_names: "keep p0 p \<Longrightarrow> yields (\<lambda>(s, q). keep p0 q) (read_external_names n p)"
  by (auto simp: read_external_names_def intro!: kept_tokens kept_seq_pair [OF kept_public_id])

lemma kept_text_decl: "keep p0 p \<Longrightarrow> yields (keep p0) (text_decl n p)"
proof -
  have v: "\<And>p. keep p0 p \<Longrightarrow> yields (keep p0) (text_decl_version n p)"
    by (auto simp: text_decl_version_def intro!: yields_pure kept_tokens)
  have e: "\<And>p. keep p0 p \<Longrightarrow> yields (keep p0) (text_decl_encoding n p)"
    by (auto simp: text_decl_encoding_def intro!: kept_tokens)
  assume "keep p0 p"
  then show ?thesis
    by (auto simp: text_decl_def Some_if seq_simps intro!: kept_seq [OF v] kept_seq [OF e] yields_pure kept_tokens)
qed

lemma kept_read_rest: "keep p0 p \<Longrightarrow> yields (\<lambda>(s, q). keep p0 q) (read_rest n result p)"
proof (induction n arbitrary: result p)
  case (Suc n)
  show ?case using Suc.prems by (auto intro!: yields_pure kept_tokens Suc.IH)
qed simp

lemma kept_entity_text: "keep p0 p \<Longrightarrow> yields (\<lambda>(s, q). keep p0 q) (entity_text n p)"
  by (auto simp: entity_text_def intro!: kept_read_rest)

lemma kept_external_id: "keep p0 p \<Longrightarrow> yields (\<lambda>(s, q). keep p0 q) (read_external_id n p)"
  by (auto simp: read_external_id_def split: option.split intro!: kept_seq_pair [OF kept_external_names] kept_seq_pair [OF kept_data_source]
      kept_seq [OF kept_text_decl] kept_seq_pair [OF kept_entity_text] kept_tokens)

lemma kept_check_nesting: "keep p0 p \<Longrightarrow> yields (keep p0) (Some (check_nesting i p))"
  by (auto simp: check_nesting_def bind_as_seq Some_if intro!: yields_pure)

lemma kept_occurrence: "keep p0 p \<Longrightarrow> yields (\<lambda>(s, q). keep p0 q) (occurrence n spec p)"
  by (auto simp: occurrence_def split: xml_token.split intro!: kept_tokens)

lemma kept_cp:
  "keep p0 p \<Longrightarrow> yields (\<lambda>(s, q). keep p0 q) (xml_cp n p)"
  "keep p0 p \<Longrightarrow> yields (\<lambda>(s, q). keep p0 q) (xml_children n p)"
  "keep p0 p \<Longrightarrow> yields (\<lambda>(s, q). keep p0 q) (cp_list n sep spec p)"
proof (induction n arbitrary: p sep spec)
  case (Suc n)
  note steps = kept_seq_pair [OF Suc.IH(1)] kept_seq_pair [OF Suc.IH(2)] kept_seq_pair [OF Suc.IH(3)] Suc.IH(3) kept_occurrence kept_occurrence [unfolded split_beta]
    kept_seq [OF kept_check_nesting] yields_pure kept_tokens
  { case 1 then show ?case by (auto simp: Let_def seq_assoc seq_simps split_beta intro!: steps) }
  { case 2 then show ?case by (auto intro!: steps) }
  { case 3 then show ?case by (auto intro!: steps) }
qed simp_all

lemma kept_mixed_names: "keep p0 p \<Longrightarrow> yields (\<lambda>(s, q). keep p0 q) (mixed_names n seen p)"
proof (induction n arbitrary: seen p)
  case (Suc n)
  show ?case using Suc.prems by (auto simp: Let_def Some_if seq_simps intro!: kept_tokens Suc.IH)
qed simp

lemma kept_contentspec: "keep p0 p \<Longrightarrow> yields (\<lambda>(s, q). keep p0 q) (contentspec n p)"
  by (auto simp: contentspec_def spec_occurrence_def mixed_spec_def Let_def seq_assoc seq_simps split_beta
      intro!: kept_seq_pair [OF kept_mixed_names] kept_seq_pair [OF kept_cp(2)] kept_seq [OF kept_check_nesting] kept_occurrence
        yields_pure kept_tokens)

lemma keep_find_or_add [simp]: "keep p0 (find_or_add_element name declared p) = keep p0 p"
  by (simp add: find_or_add_element_def)

lemma keep_change_element [simp]: "keep p0 (change_element name f p) = keep p0 p"
  by (simp add: change_element_def)

lemma kept_element_decl: "keep p0 p \<Longrightarrow> yields (keep p0) (element_decl n p)"
  by (auto simp: element_decl_def Let_def Some_if seq_simps split: option.split
      intro!: kept_seq_pair [OF kept_contentspec] kept_seq [OF kept_check_nesting] yields_pure kept_tokens)

lemma kept_check_entity_name: "keep p0 p \<Longrightarrow> yields (keep p0) (Some (check_entity_name name p))"
  by (simp add: check_entity_name_def)

lemma kept_parameter_entity_decl: "keep p0 p \<Longrightarrow> yields (keep p0) (parameter_entity_decl n p)"
  by (auto simp: parameter_entity_decl_def Let_def seq_assoc seq_simps split_beta
      intro!: kept_seq [OF kept_check_entity_name] kept_seq_pair [OF kept_parameter_value] kept_seq_pair [OF kept_external_id] kept_tokens)

lemma kept_ndata: "keep p0 p \<Longrightarrow> yields (\<lambda>(s, q). keep p0 q) (read_ndata n p)"
  by (auto simp: read_ndata_def Let_def intro!: kept_tokens)

lemma kept_general_entity_decl: "keep p0 p \<Longrightarrow> yields (keep p0) (general_entity_decl n p)"
  by (auto simp: general_entity_decl_def Let_def seq_assoc seq_simps split_beta
      intro!: kept_seq [OF kept_check_entity_name] kept_seq_pair [OF kept_general_value] kept_seq_pair [OF kept_external_id]
        kept_seq_pair [OF kept_ndata] kept_tokens)

lemma kept_entity_decl: "keep p0 p \<Longrightarrow> yields (keep p0) (entity_decl n p)"
  by (auto simp: entity_decl_def intro!: kept_parameter_entity_decl kept_general_entity_decl kept_tokens)

lemma kept_match_enum: "keep p0 p \<Longrightarrow> yields (keep p0) (match_enum nmtokens n p)"
  by (simp add: match_enum_def kept_match)

lemma kept_enum_tokens: "keep p0 p \<Longrightarrow> yields (\<lambda>(s, q). keep p0 q) (enum_tokens n nmtokens enums p)"
proof (induction n arbitrary: enums p)
  case (Suc n)
  show ?case using Suc.prems
    by (auto simp: Let_def Some_if seq_simps intro!: kept_seq [OF kept_match_enum] kept_tokens Suc.IH)
qed simp

lemma kept_enumeration: "keep p0 p \<Longrightarrow> yields (\<lambda>(s, q). keep p0 q) (enumeration n nmtokens p)"
  by (auto simp: enumeration_def Let_def intro!: kept_seq [OF kept_match_enum] kept_seq_pair [OF kept_enum_tokens] kept_tokens)

lemma kept_attribute_type: "keep p0 p \<Longrightarrow> yields (\<lambda>(s, q). keep p0 q) (attribute_decl_type n name p)"
  by (auto simp: attribute_decl_type_def Let_def split: option.split intro!: kept_seq_pair [OF kept_enumeration] kept_tokens)

lemma kept_check_no_id: "keep p0 p \<Longrightarrow> yields (keep p0) (Some (check_no_id a p))"
  by (simp add: check_no_id_def kept_not_valid)

lemma kept_default_value: "keep p0 p \<Longrightarrow> yields (\<lambda>(s, q). keep p0 q) (default_value n def f a p)"
  by (auto simp: default_value_def Let_def Some_if seq_simps split: prod.split intro!: kept_seq_pair [OF kept_normalize] kept_tokens)

lemma kept_attribute_default: "keep p0 p \<Longrightarrow> yields (\<lambda>(s, q). keep p0 q) (attribute_default_decl n a p)"
  by (cases "xp_lookahead p")
    (auto simp: attribute_default_decl_def Some_if seq_simps intro!: kept_seq [OF kept_check_no_id] kept_default_value kept_tokens)

lemma kept_declare_attribute: "keep p0 p \<Longrightarrow> yields (keep p0) (Some (declare_attribute element a p))"
  by (auto simp: declare_attribute_def bind_as_seq Some_if seq_simps intro!: kept_tokens)

lemma kept_attribute_decls: "keep p0 p \<Longrightarrow> yields (keep p0) (attribute_decls n element p)"
proof (induction n arbitrary: p)
  case (Suc n)
  show ?case using Suc.prems
    by (auto simp: Let_def intro!: kept_seq_pair [OF kept_attribute_type] kept_seq_pair [OF kept_attribute_default]
        kept_seq [OF kept_declare_attribute] kept_tokens Suc.IH)
qed simp

lemma kept_attlist_decl: "keep p0 p \<Longrightarrow> yields (keep p0) (attlist_decl n p)"
  by (auto simp: attlist_decl_def Let_def intro!: kept_seq [OF kept_attribute_decls] kept_tokens)

lemma kept_notation_ids: "keep p0 p \<Longrightarrow> yields (\<lambda>(s, q). keep p0 q) (notation_ids n p)"
  by (auto simp: notation_ids_def Let_def intro!: kept_seq_pair [OF kept_public_id] kept_tokens)

lemma kept_notation_decl: "keep p0 p \<Longrightarrow> yields (keep p0) (notation_decl_production n p)"
  by (auto simp: notation_decl_production_def Let_def Some_if seq_simps intro!: kept_seq_pair [OF kept_notation_ids] kept_tokens)

lemma kept_markup_decl: "keep p0 p \<Longrightarrow> yields (keep p0) (markup_decl n p)"
  unfolding markup_decl_def Let_def
  by (rule kept_seq)
    (auto split: xml_token.split intro!: kept_element_decl kept_attlist_decl kept_entity_decl kept_notation_decl kept_pi kept_comment kept_tokens)

lemma kept_ignore_loop: "keep p0 p \<Longrightarrow> yields (keep p0) (ignore_loop n s p)"
proof (induction n arbitrary: s p)
  case (Suc n)
  show ?case using Suc.prems
    by (auto simp: Let_def split: ignore_state.split intro!: kept_seq [OF Suc.IH] kept_tokens Suc.IH)
qed simp

lemma kept_subsets:
  "keep p0 p \<Longrightarrow> yields (keep p0) (extsubset n p)"
  "keep p0 p \<Longrightarrow> yields (keep p0) (subset_loop n p)"
  "keep p0 p \<Longrightarrow> yields (keep p0) (declsep n p)"
  "keep p0 p \<Longrightarrow> yields (keep p0) (conditionalsect n p)"
proof (induction n arbitrary: p)
  case (Suc n)
  note steps = kept_seq [OF Suc.IH(1)] kept_seq [OF Suc.IH(2)] kept_seq [OF Suc.IH(3)] kept_seq [OF Suc.IH(4)] Suc.IH(2)
    kept_seq [OF kept_markup_decl] kept_seq [OF kept_pi] kept_seq [OF kept_comment] kept_seq [OF kept_ignore_loop]
    kept_seq [OF kept_check_nesting] yields_pure kept_tokens
  { case 1 then show ?case by (auto intro!: steps) }
  { case 2 then show ?case by (auto intro!: steps) }
  { case 3 then show ?case by (auto simp: declsep_space_def intro!: steps) }
  { case 4 then show ?case by (auto simp: Let_def ignoresectcontents_def intro!: steps) }
qed simp_all

lemma kept_intsubset: "keep p0 p \<Longrightarrow> yields (keep p0) (intsubset n p)"
proof -
  have l: "keep p0 p \<Longrightarrow> yields (keep p0) (intsubset_loop n p)" for p
  proof (induction n arbitrary: p)
    case (Suc n)
    show ?case using Suc.prems
      by (auto intro!: kept_seq [OF kept_subsets(3)] kept_seq [OF kept_markup_decl] kept_seq [OF kept_pi] kept_seq [OF kept_comment] Suc.IH)
  qed simp
  assume "keep p0 p"
  then show ?thesis by (auto simp: intsubset_def intro!: kept_seq [OF l])
qed

lemma kept_external_dtd: "keep p0 p \<Longrightarrow> yields (\<lambda>(s, q). keep p0 q) (external_dtd n p)"
  by (auto simp: external_dtd_def seq_assoc Some_if seq_simps split_beta
      intro!: kept_seq_pair [OF kept_external_names] kept_seq_pair [OF kept_data_source] kept_tokens)

lemma kept_external_subset: "keep p0 p \<Longrightarrow> yields (keep p0) (external_subset n dtd p)"
  by (auto simp: external_subset_def intro!: kept_seq [OF kept_text_decl] kept_seq [OF kept_subsets(1)] kept_tokens)

lemma kept_check_notations: "keep p0 p \<Longrightarrow> yields (keep p0) (Some (check_notations xs p))"
  by (induction xs arbitrary: p) (auto simp: bind_as_seq Some_if seq_simps intro!: kept_tokens)

lemma kept_doctypedecl: "keep p0 p \<Longrightarrow> yields (keep p0) (doctypedecl n p)"
  by (auto simp: doctypedecl_def Let_def seq_assoc seq_simps split: option.split
      intro!: kept_seq_pair [OF kept_external_dtd] kept_seq [OF kept_intsubset] kept_seq [OF kept_external_subset] kept_check_notations
        kept_tokens)

section \<open>Elements\<close>

lemma kept_change_ns: "keep p0 p \<Longrightarrow> yields (keep p0) (Some (change_ns f p))"
  by (simp add: change_ns_def split: list.split)

lemma kept_namespace_decl: "keep p0 p \<Longrightarrow> yields (keep p0) (Some (namespace_decl name uri p))"
  unfolding namespace_decl_def Let_def set_default_ns_def bind_ns_def unbind_ns_def Some_if bind_as_seq
  by (intro yields_if yields_not_well_formed kept_seq [OF kept_change_ns] kept_change_ns kept_report) simp_all

lemma keep_refer_id [simp]: "keep p0 (refer_id v p) = keep p0 p"
  by (simp add: refer_id_def)

lemma keep_refer_ids [simp]: "keep p0 (refer_ids n v b p) = keep p0 p"
  by (induction n v b p rule: refer_ids.induct) (auto split: option.split)

lemma kept_check_ids: "keep p0 p \<Longrightarrow> yields (keep p0) (Some (check_ids dta name v p))"
  unfolding check_ids_def Some_if bind_as_seq
  by (intro kept_seq [of p0]) (auto intro!: kept_tokens)

lemma kept_check_reference: "keep p0 p \<Longrightarrow> yields (keep p0) (Some (check_reference name v p))"
  by (simp add: check_reference_def kept_not_valid)

lemma kept_check_value: "keep p0 p \<Longrightarrow> yields (\<lambda>(s, q). keep p0 q) (Some (check_value xml_space dta name v p))"
proof -
  have t: "yields (keep p0) (Some (case at_type dta of ID \<Rightarrow> check_ids dta name w q
      | IDREF \<Rightarrow> bind_res (check_reference name w q) (\<lambda>p. ok (refer_id w p))
      | IDREFS \<Rightarrow> bind_res (check_reference name w q) (\<lambda>p. ok (refer_ids (Suc (length w)) w 0 p)) | _ \<Rightarrow> ok q))"
    if "keep p0 q" for w q
    using that by (cases "at_type dta") (auto simp: bind_as_seq simp del: refer_ids.simps intro!: kept_check_ids kept_seq [OF kept_check_reference])
  assume p: "keep p0 p"
  obtain valid w where w: "validate_value dta v (xp_general_entities p) = (valid, w)" by fastforce
  show ?thesis
    unfolding check_value_def w Let_def prod.case bind_as_seq
    using p by (intro kept_seq [of p0] t) (simp_all add: kept_not_valid)
qed

lemma kept_plain_attribute: "keep p0 p \<Longrightarrow> yields (\<lambda>(s, q). keep p0 q) (Some (plain_attribute dte name v p))"
  by (auto simp: plain_attribute_def bind_as_seq split: option.split intro!: kept_seq_pair [OF kept_check_value] yields_pure)

lemma kept_check_fixed: "keep p0 p \<Longrightarrow> yields (keep p0) (Some (check_fixed dta v p))"
  by (auto simp: check_fixed_def split: option.split intro!: kept_tokens)

lemma kept_one_attribute: "keep p0 p \<Longrightarrow> yields (\<lambda>(s, q). keep p0 q) (one_attribute n dte name p)"
  by (auto simp: one_attribute_def Let_def Some_if seq_simps
      intro!: kept_seq_pair [OF kept_normalize] kept_seq [OF kept_check_fixed] kept_seq [OF kept_namespace_decl]
        kept_seq_pair [OF kept_plain_attribute] kept_tokens)

lemma kept_attributes: "keep p0 p \<Longrightarrow> yields (\<lambda>(s, q). keep p0 q) (xml_attributes n dte seen attrs p)"
proof (induction n arbitrary: seen attrs p)
  case (Suc n)
  show ?case using Suc.prems by (auto simp: Let_def intro!: kept_seq_pair [OF kept_one_attribute] kept_tokens Suc.IH)
qed simp

lemma kept_missing: "keep p0 p \<Longrightarrow> yields (\<lambda>(s, q). keep p0 q) (missing_attributes n name as attrs p)"
  by (induction as arbitrary: attrs p)
    (auto simp: Let_def Some_if seq_simps split: prod.split intro!: kept_seq_pair [OF kept_normalize] kept_tokens)

lemma kept_check_prefix: "keep p0 p \<Longrightarrow> yields (keep p0) (Some (check_element_prefix name p))"
  by (simp add: check_element_prefix_def split: option.split)

lemma kept_start_tag: "keep p0 p \<Longrightarrow> yields (\<lambda>(s, q). keep p0 q) (xml_start_tag n valid p)"
  by (auto simp: xml_start_tag_def Let_def seq_assoc Some_if seq_simps split: option.split
      intro!: kept_seq_pair [OF kept_attributes] kept_seq_pair [OF kept_missing] kept_seq [OF kept_check_prefix] yields_pure kept_tokens)

lemma kept_check_characters: "keep p0 p \<Longrightarrow> yields (keep p0) (Some (check_characters spec p))"
  by (simp add: check_characters_def kept_not_valid)

lemma kept_check_charref: "keep p0 p \<Longrightarrow> yields (keep p0) (Some (check_charref spec p))"
  by (simp add: check_charref_def kept_not_valid)

lemma kept_open_reference: "keep p0 p \<Longrightarrow> yields (\<lambda>(e, q). keep p0 q) (Some (open_reference p))"
  by (auto simp: open_reference_def check_content_entity_def Let_def bind_as_seq Some_if seq_simps
      intro!: kept_seq_pair [OF kept_general_entity] kept_seq [OF kept_push_entity])

lemma kept_entity_space: "keep p0 p \<Longrightarrow> yields (keep p0) (entity_space n spec p)"
  by (auto simp: entity_space_def Let_def Some_if seq_simps intro!: kept_tokens)

lemma kept_cdata: "keep p0 p \<Longrightarrow> yields (keep p0) (cdata_section n spec p)"
  by (auto simp: cdata_section_def Some_if seq_simps intro!: kept_tokens)

lemma kept_element_reports:
  assumes "keep p0 p" "report_event (Start_element name uri attrs) p = ok q" "keep q r" "report_event (End_element name uri) r = ok s"
  shows "keep p0 s"
  using assms element trans by blast

lemma kept_end_tag: "keep p0 p \<Longrightarrow> yields (keep p0) (xml_end_tag n raw p)"
  by (auto simp: xml_end_tag_def intro!: kept_tokens)

lemma kept_check_children: "keep p0 p \<Longrightarrow> yields (keep p0) (Some (check_children tag v p))"
  by (auto simp: check_children_def split: option.split intro!: kept_tokens)

text \<open>Between the reports of an element the relation is to the state after the first.\<close>

lemma kept_start_element:
  assumes "keep p0 p"
    and "\<And>q. report_event (Start_element name uri attrs) p = ok q \<Longrightarrow> keep q q \<Longrightarrow> yields P (f q)"
  shows "yields P (seq (Some (report_event (Start_element name uri attrs) p)) f)"
  using assms(2) same by (cases "report_event (Start_element name uri attrs) p") (auto simp: seq_simps)

lemma kept_end_element:
  assumes "report_event (Start_element name uri attrs) p = ok q" "keep p0 p" "keep q r"
    and "\<And>s. keep p0 s \<Longrightarrow> yields P (f s)"
  shows "yields P (seq (Some (report_event (End_element name uri) r)) f)"
  using kept_element_reports [OF assms(2,1,3)] assms(4)
  by (cases "report_event (End_element name uri) r") (auto simp: seq_simps)

lemma kept_elements:
  "keep p0 p \<Longrightarrow> yields (\<lambda>(v, q). keep p0 q) (xml_element n valid p)"
  "keep p0 p \<Longrightarrow> yields (\<lambda>(v, q). keep p0 q) (element_body n tag p)"
  "keep p0 p \<Longrightarrow> yields (\<lambda>(v, q). keep p0 q) (xml_content n valid p)"
  "keep p0 p \<Longrightarrow> yields (\<lambda>(v, q). keep p0 q) (content_loop n valid p)"
  "keep p0 p \<Longrightarrow> yields (\<lambda>(v, q). keep p0 q) (content_reference_entity n valid p)"
proof (induction n arbitrary: p0 p valid tag)
  case (Suc n)
  { case 1
    then show ?case
      by (auto simp: Let_def intro!: kept_seq_pair [OF kept_start_tag] kept_seq_pair [OF Suc.IH(2)] kept_seq [OF kept_check_children]
          kept_tokens) }
  { case 2
    show ?case
    proof (cases "element_ns (st_raw tag) p")
      case (Pair uri name)
      show ?thesis
      proof (cases "xp_lookahead p = Tk_slash")
        case True
        show ?thesis
          unfolding element_body.simps Pair prod.case if_P [OF True]
          by (rule kept_seq [OF kept_match [OF 2]], rule kept_start_element, assumption, rule kept_end_element, assumption+) simp
      next
        case False
        show ?thesis
          unfolding element_body.simps Pair prod.case if_not_P [OF False]
          apply (rule kept_start_element [OF 2])
          subgoal for q
            by (rule kept_seq [of q], simp add: kept_match, rule kept_seq_pair [of q])
              (auto intro!: Suc.IH(3) kept_seq [OF kept_end_tag] kept_end_element [OF _ 2])
          done
      qed
    qed }
  { case 3
    then show ?case by (auto simp: Some_if seq_simps intro!: Suc.IH(4) kept_tokens) }
  { case 4
    note steps = kept_seq [OF kept_check_characters] kept_seq [OF kept_check_charref] kept_seq [OF kept_pi] kept_seq [OF kept_comment]
      kept_seq [OF kept_cdata] Suc.IH(1) Suc.IH(5) kept_tokens
    show ?case
      unfolding content_loop.simps Let_def
      by (rule kept_seq_pair)
        (use 4 in \<open>auto simp: unexpected_token_def split: xml_token.split intro!: steps Suc.IH(4)\<close>) }
  { case 5
    then show ?case
      by (auto simp: Some_if seq_simps intro!: kept_seq_pair [OF kept_open_reference] kept_seq [OF kept_entity_space]
          kept_seq_pair [OF Suc.IH(3)] kept_tokens) }
qed simp_all

section \<open>Documents\<close>

lemma kept_xml_decl: "keep p0 p \<Longrightarrow> yields (keep p0) (xml_decl n p)"
proof -
  have e: "yields (\<lambda>(enc, q). keep p0 q) (encoding_decl n enc q)" if "keep p0 q" for enc q
    using that by (auto simp: encoding_decl_def Let_def intro!: kept_tokens yields_pure)
  have s: "yields (keep p0) (standalone_decl n q)" if "keep p0 q" for q
    using that by (auto simp: standalone_decl_def intro!: kept_tokens)
  assume "keep p0 p"
  then show ?thesis
    by (auto simp: xml_decl_def Some_if seq_assoc seq_simps split_beta intro!: kept_seq_pair [OF e] kept_seq [OF s] yields_pure kept_tokens)
qed

lemma kept_prolog: "keep p0 p \<Longrightarrow> yields (keep p0) (xml_prolog n p)"
  by (auto simp: xml_prolog_def Some_if intro!: kept_seq [OF kept_xml_decl] kept_seq [OF kept_misc] kept_seq [OF kept_doctypedecl]
      kept_misc kept_tokens)

theorem kept_parse: "yields (keep p) (xml_parse n validate validate_ns p)"
proof -
  have "keep p p" by (simp add: same)
  then show ?thesis
    by (auto simp: xml_parse_def Let_def Some_if seq_simps
        intro!: kept_seq [OF kept_prolog] kept_seq_pair [OF kept_elements(1)] kept_seq [OF kept_misc] yields_pure kept_tokens)
qed

end

section \<open>Nesting\<close>

fun nest_step :: "xml_event \<Rightarrow> (string \<times> string) list \<Rightarrow> (string \<times> string) list option" where
  "nest_step (Start_element name uri attrs) st = Some ((name, uri) # st)"
| "nest_step (End_element name uri) [] = None"
| "nest_step (End_element name uri) (x # st) = (if x = (name, uri) then Some st else None)"
| "nest_step e st = Some st"

fun nest_all :: "xml_event list \<Rightarrow> (string \<times> string) list \<Rightarrow> (string \<times> string) list option" where
  "nest_all [] st = Some st"
| "nest_all (e # es) st = (case nest_step e st of None \<Rightarrow> None | Some st \<Rightarrow> nest_all es st)"

lemma nest_all_append: "nest_all (es @ fs) st = (case nest_all es st of None \<Rightarrow> None | Some st \<Rightarrow> nest_all fs st)"
  by (induction es arbitrary: st) (auto split: option.split)

lemma nest_other: "\<not> element_event e \<Longrightarrow> nest_step e st = Some st"
  by (cases e) simp_all

definition nested_since :: "xml_event list xml_parser \<Rightarrow> xml_event list xml_parser \<Rightarrow> bool" where
  "nested_since p q \<longleftrightarrow> xp_handler q = xp_handler p \<and>
     (xp_handler p = record_event \<longrightarrow> (\<exists>es. xp_user q = xp_user p @ es \<and> (\<forall>st. nest_all es st = Some st)))"

lemma report_recorded:
  "report_event e p = ok q \<Longrightarrow> xp_handler q = xp_handler p \<and> (xp_handler p = record_event \<longrightarrow> xp_user q = xp_user p @ [e])"
  by (auto simp: report_event_def record_event_def bind_res_eq_ok)

lemma nested_reports:
  assumes "xp_user q = xp_user p @ es" "\<forall>st. nest_all es st = Some st" "xp_user r = xp_user q @ fs" "\<forall>st. nest_all fs st = Some st"
  shows "\<exists>gs. xp_user r = xp_user p @ gs \<and> (\<forall>st. nest_all gs st = Some st)"
  using assms by (intro exI [of _ "es @ fs"]) (simp add: nest_all_append)

interpretation nesting: parser_client nested_since
proof
  fix p q :: "xml_event list xml_parser"
  show "xp_handler q = xp_handler p \<Longrightarrow> xp_user q = xp_user p \<Longrightarrow> nested_since p q"
    by (auto simp: nested_since_def intro!: exI [of _ "[]"])
next
  fix p q r :: "xml_event list xml_parser"
  show "nested_since p q \<Longrightarrow> nested_since q r \<Longrightarrow> nested_since p r"
    by (auto simp: nested_since_def nest_all_append intro: nested_reports)
next
  fix e and p q :: "xml_event list xml_parser"
  assume "\<not> element_event e" "report_event e p = ok q"
  with report_recorded [of e p q] show "nested_since p q"
    by (auto simp: nested_since_def nest_other intro!: exI [of _ "[e]"])
next
  fix name uri attrs and p q r s :: "xml_event list xml_parser"
  assume a: "report_event (Start_element name uri attrs) p = ok q" "nested_since q r" "report_event (End_element name uri) r = ok s"
  note reports = report_recorded [OF a(1)] report_recorded [OF a(3)]
  show "nested_since p s"
  proof (cases "xp_handler p = record_event")
    case True
    then obtain es where "xp_user r = xp_user q @ es" "\<forall>st. nest_all es st = Some st"
      using a(2) reports by (auto simp: nested_since_def)
    with True reports a(2) show ?thesis
      by (auto simp: nested_since_def nest_all_append
          intro!: exI [of _ "Start_element name uri attrs # es @ [End_element name uri]"])
  qed (use reports a(2) in \<open>auto simp: nested_since_def\<close>)
qed

text \<open>
  C39. Whatever the input, with and without validation, the elements that a successful
  parse reports are well nested: every end has the name and the namespace of the
  latest start that is open, and none is left open.
\<close>

theorem parsed_events_nested:
  assumes "parse_events n validate external data = Some (ok es)"
  shows "nest_all es [] = Some []"
proof -
  obtain q where q: "xml_parse n validate False (new_parser record_event external data []) = Some (ok q)" "es = xp_user q"
    using assms by (auto simp: parse_events_def seq_def split: option.splits sum.splits)
  then have "nested_since (new_parser record_event external data []) q"
    using nesting.kept_parse [of "new_parser record_event external data []" n validate False] by (simp add: yields_def)
  then show ?thesis
    using q(2) by (auto simp: nested_since_def new_parser_def push_source_def)
qed

section \<open>Building a document\<close>

definition same_depth :: "document xml_parser \<Rightarrow> document xml_parser \<Rightarrow> bool" where
  "same_depth p q \<longleftrightarrow> xp_handler q = xp_handler p \<and>
     (xp_handler p = handle_event \<longrightarrow> length (doc_cur (xp_user q)) = length (doc_cur (xp_user p)))"

lemma change_cur_depth: "change_cur f d = ok d' \<Longrightarrow> length (doc_cur d') = length (doc_cur d)"
  by (auto simp: change_cur_def bind_res_eq_ok split: list.splits)

lemma handled_depth:
  assumes "handle_event e d = ok d'" "\<not> element_event e"
  shows "length (doc_cur d') = length (doc_cur d)"
  using assms
  by (cases e)
    (auto simp: XmlDeclHandler_def DoctypeDeclHandler_def NotationDeclHandler_def Let_def StartNamespaceDeclHandler_def
      CharacterDataHandler_def StartCdataSectionHandler_def EndCdataSectionHandler_def CommentHandler_def
      ProcessingInstructionHandler_def add_node_def bind_res_eq_ok dest!: change_cur_depth split: if_splits)

lemma open_child_depth: "open_child q d = ok d' \<Longrightarrow> length (doc_cur d') = Suc (length (doc_cur d)) \<and> doc_cur d \<noteq> []"
  by (cases "doc_cur d") (auto simp: open_child_def split: list.splits if_splits)

lemma started_depth:
  assumes "StartElementHandler name uri atts d = ok d'"
  shows "length (doc_cur d') = Suc (length (doc_cur d)) \<and> doc_cur d \<noteq> []"
proof -
  obtain q d1 f d2 where "open_child q d = ok d1" "change_cur f d1 = ok d2" "d' = d2\<lparr>doc_namespaces := []\<rparr>"
    using assms unfolding StartElementHandler_def bind_res_eq_ok by blast
  with open_child_depth [of q d d1] change_cur_depth [of f d1 d2] show ?thesis by simp
qed

lemma ended_depth: "EndElementHandler d = ok d' \<Longrightarrow> length (doc_cur d') = length (doc_cur d) - 1"
  by (auto simp: EndElementHandler_def split: if_splits list.splits)

lemma report_handled: "report_event e p = ok q \<Longrightarrow> xp_handler q = xp_handler p \<and> xp_handler p e (xp_user p) = ok (xp_user q)"
  by (auto simp: report_event_def bind_res_eq_ok)

interpretation building: parser_client same_depth
proof
  fix e and p q :: "document xml_parser"
  assume "\<not> element_event e" "report_event e p = ok q"
  with report_handled [of e p q] handled_depth [of e "xp_user p" "xp_user q"] show "same_depth p q"
    by (auto simp: same_depth_def)
next
  fix name uri attrs and p q r s :: "document xml_parser"
  assume a: "report_event (Start_element name uri attrs) p = ok q" "same_depth q r" "report_event (End_element name uri) r = ok s"
  show "same_depth p s"
  proof (cases "xp_handler p = handle_event")
    case True
    with a report_handled [OF a(1)] report_handled [OF a(3)] started_depth [of name uri attrs "xp_user p" "xp_user q"]
      ended_depth [of "xp_user r" "xp_user s"]
    show ?thesis by (auto simp: same_depth_def)
  qed (use a report_handled [OF a(1)] report_handled [OF a(3)] in \<open>auto simp: same_depth_def\<close>)
qed (auto simp: same_depth_def)

text \<open>
  C40. When a document is read, the element that is being built is the document again
  at the end: the assertion that closes \<open>document::parse\<close> holds after every parse that
  succeeds.
\<close>

theorem document_parse_ends_at_document:
  assumes "length (doc_cur d) = 1"
  shows "parse_document n external data d =
    seq (xml_parse n (doc_validating d) (doc_validating_ns d) (new_parser handle_event external data d)) (\<lambda>p. Some (ok (xp_user p)))"
proof -
  have "same_depth (new_parser handle_event external data d) p"
    if "xml_parse n (doc_validating d) (doc_validating_ns d) (new_parser handle_event external data d) = Some (ok p)" for p
    using building.kept_parse [of "new_parser handle_event external data d" n "doc_validating d" "doc_validating_ns d"] that
    by (simp add: yields_def)
  then show ?thesis
    using assms
    by (auto simp: parse_document_def check_cur_def seq_def same_depth_def new_parser_def push_source_def
        split: option.split sum.split)
qed

definition no_entities :: "string \<Rightarrow> string \<Rightarrow> string \<Rightarrow> string option" where
  "no_entities base pubid sysid = None"

lemma small_parse: "parse_events 12 False no_entities ''<a>b</a>'' = Some (ok [Start_element ''a'' [] [], Characters ''b'', End_element ''a'' []])"
  by code_simp

lemma small_document:
  "parse_document 12 no_entities ''<a>b</a>'' new_document = Some (ok (new_document\<lparr>doc_cur := [\<lparr>oe_qname = [], oe_attributes = [], oe_nodes = [Xelement ''a'' [] [Xtext ''b'']]\<rparr>]\<rparr>))"
  by code_simp

theorem parsed_events_nested_witness:
  "nest_all [Start_element ''a'' [] [], Characters ''b'', End_element ''a'' []] [] = Some []"
  by (rule parsed_events_nested [OF small_parse])

theorem document_parse_ends_at_document_witness:
  "parse_document 12 no_entities ''<a>b</a>'' new_document =
     seq (xml_parse 12 False False (new_parser handle_event no_entities ''<a>b</a>'' new_document)) (\<lambda>p. Some (ok (xp_user p)))"
  using document_parse_ends_at_document [of new_document 12 no_entities "''<a>b</a>''"] by (simp add: new_document_def)

end
