(* ===== verification/Node_List.thy ===== *)
theory Node_List
  imports Prelude
begin

text \<open>
  The child list of an XML element (\<open>zeep/xml/node.hpp\<close>, \<open>node.cpp\<close>): nodes that point to
  their parent and to both neighbours, with a head and a tail in the element. Nodes are
  cells of an explicit heap; a cell that is missing was deleted, reading it is undefined.
  Loops over the pointers take fuel. The operations refine those on a list of addresses.
\<close>

section \<open>Nodes\<close>

type_synonym addr = nat

datatype node_kind = Element_node | Text_node | Cdata_node | Comment_node | Pi_node | Attribute_node

record cell =
  c_kind :: node_kind
  c_parent :: "addr option"
  c_next :: "addr option"
  c_prev :: "addr option"

type_synonym heap = "addr \<Rightarrow> cell option"

definition read_cell :: "heap \<Rightarrow> addr \<Rightarrow> cell res" where
  "read_cell h a = (case h a of None \<Rightarrow> throw Undefined | Some c \<Rightarrow> ok c)"

definition modify :: "addr \<Rightarrow> (cell \<Rightarrow> cell) \<Rightarrow> heap \<Rightarrow> heap res" where
  "modify a f h = bind_res (read_cell h a) (\<lambda>c. ok (h(a \<mapsto> f c)))"

definition modify_some :: "addr option \<Rightarrow> (cell \<Rightarrow> cell) \<Rightarrow> heap \<Rightarrow> heap res" where
  "modify_some p f h = (case p of None \<Rightarrow> ok h | Some a \<Rightarrow> modify a f h)"

definition lift_res :: "'a res \<Rightarrow> 'a res option" where
  "lift_res r = Some r"

text \<open>\<open>insert_sibling\<close>: from this node on, look for the one in front of \<open>before\<close>.\<close>

fun last_before :: "nat \<Rightarrow> heap \<Rightarrow> addr option \<Rightarrow> addr \<Rightarrow> (addr \<times> cell) res option" where
  "last_before 0 h before_node p = None"
| "last_before (Suc k) h before_node p =
     (case h p of
        None \<Rightarrow> Some (throw Undefined)
      | Some c \<Rightarrow>
          (case c_next c of
             Some q \<Rightarrow> if Some q \<noteq> before_node then last_before k h before_node q else Some (ok (p, c))
           | None \<Rightarrow> Some (ok (p, c))))"

definition insert_sibling :: "nat \<Rightarrow> addr \<Rightarrow> addr \<Rightarrow> addr option \<Rightarrow> heap \<Rightarrow> heap res option" where
  "insert_sibling k this n before_node h =
     seq (last_before k h before_node this) (\<lambda>(p, c).
       if c_next c \<noteq> before_node \<and> before_node \<noteq> None then
         Some (throw (Zeep_exception ''before argument in insert_sibling is not valid''))
       else lift_res
         (bind_res (read_cell h this) (\<lambda>t.
          bind_res (modify p (\<lambda>c. c\<lparr>c_next := Some n\<rparr>) h) (\<lambda>h.
          bind_res (modify n (\<lambda>c. c\<lparr>c_prev := Some p, c_parent := c_parent t, c_next := before_node\<rparr>) h) (\<lambda>h.
            modify_some before_node (\<lambda>c. c\<lparr>c_prev := Some n\<rparr>) h)))))"

section \<open>The list and its iterators\<close>

record node_list =
  nl_element :: addr
  nl_head :: "addr option"
  nl_tail :: "addr option"

definition empty_list :: "addr \<Rightarrow> node_list" where
  "empty_list e = \<lparr>nl_element = e, nl_head = None, nl_tail = None\<rparr>"

text \<open>An iterator of a list; the container it points to is the list the operations are given.\<close>

record node_iterator =
  it_current :: "addr option"
  it_at_end :: bool

definition list_end :: node_iterator where
  "list_end = \<lparr>it_current = None, it_at_end = True\<rparr>"

text \<open>The constructor that takes a node, used by \<open>find\<close>, \<open>insert_impl\<close> and \<open>erase_impl\<close>.\<close>

definition iterator_at :: "addr option \<Rightarrow> node_iterator" where
  "iterator_at p = \<lparr>it_current = p, it_at_end = True\<rparr>"

text \<open>Iterators over the elements (\<open>els\<close>) skip the other nodes.\<close>

fun skip_to :: "nat \<Rightarrow> bool \<Rightarrow> heap \<Rightarrow> addr option \<Rightarrow> addr option res option" where
  "skip_to 0 els h p = None"
| "skip_to (Suc k) els h p =
     (case p of
        None \<Rightarrow> Some (ok None)
      | Some a \<Rightarrow>
          if \<not> els then Some (ok p)
          else
            (case h a of
               None \<Rightarrow> Some (throw Undefined)
             | Some c \<Rightarrow> if c_kind c = Element_node then Some (ok p) else skip_to k els h (c_next c)))"

definition list_begin :: "nat \<Rightarrow> bool \<Rightarrow> heap \<Rightarrow> node_list \<Rightarrow> node_iterator res option" where
  "list_begin k els h l =
     seq (skip_to k els h (nl_head l)) (\<lambda>p. Some (ok \<lparr>it_current = p, it_at_end = (p = None)\<rparr>))"

definition it_next :: "nat \<Rightarrow> bool \<Rightarrow> heap \<Rightarrow> node_list \<Rightarrow> node_iterator \<Rightarrow> node_iterator res option" where
  "it_next k els h l it =
     seq (case it_current it of
            None \<Rightarrow> Some (ok (if it_at_end it then None else nl_head l))
          | Some a \<Rightarrow> seq (lift_res (read_cell h a)) (\<lambda>c. skip_to k els h (c_next c))) (\<lambda>p.
       Some (ok \<lparr>it_current = p, it_at_end = (p = None)\<rparr>))"

fun back_to :: "nat \<Rightarrow> bool \<Rightarrow> heap \<Rightarrow> addr option \<Rightarrow> addr option res option" where
  "back_to 0 els h p = None"
| "back_to (Suc k) els h p =
     (case p of
        None \<Rightarrow> Some (ok None)
      | Some a \<Rightarrow>
          (case h a of
             None \<Rightarrow> Some (throw Undefined)
           | Some c \<Rightarrow>
               (case c_prev c of
                  None \<Rightarrow> Some (ok None)
                | Some b \<Rightarrow>
                    (case h b of
                       None \<Rightarrow> Some (throw Undefined)
                     | Some d \<Rightarrow> if els \<and> c_kind d \<noteq> Element_node then back_to k els h (Some b) else Some (ok (Some b))))))"

definition it_prev :: "nat \<Rightarrow> bool \<Rightarrow> heap \<Rightarrow> node_list \<Rightarrow> node_iterator \<Rightarrow> node_iterator res option" where
  "it_prev k els h l it =
     (if it_at_end it then Some (ok \<lparr>it_current = nl_tail l, it_at_end = False\<rparr>)
      else seq (back_to k els h (it_current it)) (\<lambda>p. Some (ok (it\<lparr>it_current := p\<rparr>))))"

text \<open>\<open>operator*\<close> casts to the type of the iterator; a null reference is undefined.\<close>

definition it_deref :: "bool \<Rightarrow> heap \<Rightarrow> node_iterator \<Rightarrow> addr res" where
  "it_deref els h it =
     (case it_current it of
        None \<Rightarrow> throw Undefined
      | Some a \<Rightarrow> bind_res (read_cell h a) (\<lambda>c. if els \<and> c_kind c \<noteq> Element_node then throw Undefined else ok a))"

definition list_front :: "nat \<Rightarrow> bool \<Rightarrow> heap \<Rightarrow> node_list \<Rightarrow> addr res option" where
  "list_front k els h l = seq (list_begin k els h l) (\<lambda>it. lift_res (it_deref els h it))"

definition list_back :: "nat \<Rightarrow> bool \<Rightarrow> heap \<Rightarrow> node_list \<Rightarrow> addr res option" where
  "list_back k els h l = seq (it_prev k els h l list_end) (\<lambda>it. lift_res (it_deref els h it))"

text \<open>A loop over the list, which gives the nodes it visits.\<close>

fun visit :: "nat \<Rightarrow> bool \<Rightarrow> heap \<Rightarrow> node_list \<Rightarrow> node_iterator \<Rightarrow> addr list res option" where
  "visit 0 els h l it = None"
| "visit (Suc k) els h l it =
     (if it = list_end then Some (ok [])
      else
        seq (lift_res (it_deref els h it)) (\<lambda>a.
        seq (it_next k els h l it) (\<lambda>it.
        seq (visit k els h l it) (\<lambda>as. Some (ok (a # as))))))"

definition list_nodes :: "nat \<Rightarrow> bool \<Rightarrow> heap \<Rightarrow> node_list \<Rightarrow> addr list res option" where
  "list_nodes k els h l = seq (list_begin k els h l) (visit k els h l)"

section \<open>Changing the list\<close>

definition insert_impl :: "nat \<Rightarrow> node_list \<Rightarrow> node_iterator \<Rightarrow> addr \<Rightarrow> heap \<Rightarrow> (node_iterator \<times> node_list \<times> heap) res option" where
  "insert_impl k l pos n h =
     seq (lift_res (read_cell h n)) (\<lambda>c.
       if c_next c \<noteq> None \<or> c_prev c \<noteq> None then Some (throw Assertion)
       else if c_parent c \<noteq> None then
         Some (throw (Zeep_exception ''attempt to add a node that already has a parent or siblings''))
       else
         (let h = h(n \<mapsto> c\<lparr>c_parent := Some (nl_element l)\<rparr>) in
          seq (case it_current pos of
                 None \<Rightarrow>
                   (case nl_head l of
                      None \<Rightarrow> Some (ok (l\<lparr>nl_head := Some n, nl_tail := Some n\<rparr>, h))
                    | Some _ \<Rightarrow>
                        (case nl_tail l of
                           None \<Rightarrow> Some (throw Undefined)
                         | Some t \<Rightarrow> seq (insert_sibling k t n None h) (\<lambda>h. Some (ok (l\<lparr>nl_tail := Some n\<rparr>, h)))))
               | Some p \<Rightarrow>
                   (case nl_head l of
                      None \<Rightarrow> Some (throw Assertion)
                    | Some a \<Rightarrow>
                        if p = a then
                          seq (lift_res (modify n (\<lambda>c. c\<lparr>c_next := Some a\<rparr>) h)) (\<lambda>h.
                          seq (lift_res (modify a (\<lambda>c. c\<lparr>c_prev := Some n\<rparr>) h)) (\<lambda>h. Some (ok (l\<lparr>nl_head := Some n\<rparr>, h))))
                        else seq (insert_sibling k a n (Some p) h) (\<lambda>h. Some (ok (l, h))))) (\<lambda>(l, h).
            Some (ok (iterator_at (Some n), l, h)))))"

text \<open>\<open>delete n\<close> removes the cell; the destructor has no siblings left to delete.\<close>

definition erase_head :: "addr \<Rightarrow> node_list \<Rightarrow> heap \<Rightarrow> (node_iterator \<times> node_list \<times> heap) res" where
  "erase_head n l h =
     bind_res (read_cell h n) (\<lambda>c.
     bind_res (modify_some (c_next c) (\<lambda>c. c\<lparr>c_prev := None\<rparr>) h) (\<lambda>h.
       ok (iterator_at (c_next c),
           l\<lparr>nl_head := c_next c, nl_tail := (if c_next c = None then None else nl_tail l)\<rparr>, h(n := None))))"

fun find_before :: "nat \<Rightarrow> heap \<Rightarrow> addr \<Rightarrow> addr option \<Rightarrow> addr option res option" where
  "find_before 0 h n p = None"
| "find_before (Suc k) h n p =
     (case p of
        None \<Rightarrow> Some (ok None)
      | Some a \<Rightarrow>
          (case h a of
             None \<Rightarrow> Some (throw Undefined)
           | Some c \<Rightarrow> if c_next c \<noteq> Some n then find_before k h n (c_next c) else Some (ok (Some a))))"

definition erase_other :: "nat \<Rightarrow> addr \<Rightarrow> node_list \<Rightarrow> heap \<Rightarrow> (node_iterator \<times> node_list \<times> heap) res option" where
  "erase_other k n l h =
     seq (lift_res (read_cell h n)) (\<lambda>c.
     seq (find_before k h n (nl_head l)) (\<lambda>p.
       case p of
         None \<Rightarrow> Some (throw (Zeep_exception ''remove for a node not found in the list''))
       | Some a \<Rightarrow> lift_res
           (bind_res (modify a (\<lambda>d. d\<lparr>c_next := c_next c\<rparr>) h) (\<lambda>h.
            bind_res (modify_some (c_next c) (\<lambda>d. d\<lparr>c_prev := Some a\<rparr>) h) (\<lambda>h.
              ok (iterator_at (c_next c), if nl_tail l = Some n then l\<lparr>nl_tail := c_prev c\<rparr> else l, h(n := None)))))))"

definition erase_impl :: "nat \<Rightarrow> node_list \<Rightarrow> node_iterator \<Rightarrow> heap \<Rightarrow> (node_iterator \<times> node_list \<times> heap) res option" where
  "erase_impl k l pos h =
     (if pos = list_end then Some (ok (pos, l, h))
      else
        (case it_current pos of
           None \<Rightarrow> Some (throw Undefined)
         | Some n \<Rightarrow>
             seq (lift_res (read_cell h n)) (\<lambda>c.
               if c_parent c \<noteq> Some (nl_element l) then
                 Some (throw (Zeep_exception ''attempt to remove node whose parent is invalid''))
               else if nl_head l = Some n then lift_res (erase_head n l h)
               else erase_other k n l h)))"

text \<open>\<open>delete m_head\<close>: the destructor of the head deletes its siblings, then the head goes.\<close>

fun delete_siblings :: "nat \<Rightarrow> addr \<Rightarrow> heap \<Rightarrow> heap res option" where
  "delete_siblings 0 a h = None"
| "delete_siblings (Suc k) a h =
     seq (lift_res (read_cell h a)) (\<lambda>c.
       case c_next c of
         None \<Rightarrow> Some (ok h)
       | Some n \<Rightarrow>
           seq (lift_res (read_cell h n)) (\<lambda>d.
             delete_siblings k a ((h(a \<mapsto> c\<lparr>c_next := c_next d\<rparr>))(n := None))))"

definition list_clear :: "nat \<Rightarrow> node_list \<Rightarrow> heap \<Rightarrow> (node_list \<times> heap) res option" where
  "list_clear k l h =
     seq (case nl_head l of
            None \<Rightarrow> Some (ok h)
          | Some a \<Rightarrow> seq (delete_siblings k a h) (\<lambda>h. Some (ok (h(a := None))))) (\<lambda>h.
       Some (ok (l\<lparr>nl_head := None, nl_tail := None\<rparr>, h)))"

definition set_parents :: "addr \<Rightarrow> addr list \<Rightarrow> heap \<Rightarrow> heap res" where
  "set_parents e as h = foldl (\<lambda>r a. bind_res r (modify a (\<lambda>c. c\<lparr>c_parent := Some e\<rparr>))) (ok h) as"

definition list_swap :: "nat \<Rightarrow> node_list \<Rightarrow> node_list \<Rightarrow> heap \<Rightarrow> (node_list \<times> node_list \<times> heap) res option" where
  "list_swap k l l' h =
     (let m = l\<lparr>nl_head := nl_head l', nl_tail := nl_tail l'\<rparr>;
          m' = l'\<lparr>nl_head := nl_head l, nl_tail := nl_tail l\<rparr>
      in
      seq (list_nodes k False h m) (\<lambda>as.
      seq (lift_res (set_parents (nl_element m) as h)) (\<lambda>h.
      seq (list_nodes k False h m') (\<lambda>bs.
      seq (lift_res (set_parents (nl_element m') bs h)) (\<lambda>h.
        Some (ok (m, m', h)))))))"

section \<open>The check of the pointers\<close>

text \<open>The loops that look for a cycle give the node they stop at.\<close>

fun chase :: "nat \<Rightarrow> (cell \<Rightarrow> addr option) \<Rightarrow> heap \<Rightarrow> addr \<Rightarrow> addr option \<Rightarrow> addr option res option" where
  "chase 0 step h this p = None"
| "chase (Suc k) step h this p =
     (case p of
        None \<Rightarrow> Some (ok None)
      | Some a \<Rightarrow>
          (case h a of
             None \<Rightarrow> Some (throw Undefined)
           | Some c \<Rightarrow> if step c = Some this then Some (ok p) else chase k step h this (step c)))"

definition check_back :: "(cell \<Rightarrow> addr option) \<Rightarrow> heap \<Rightarrow> addr option \<Rightarrow> addr \<Rightarrow> string \<Rightarrow> unit res" where
  "check_back step h p this msg =
     (case p of
        None \<Rightarrow> ok ()
      | Some a \<Rightarrow> bind_res (read_cell h a) (\<lambda>c. if step c = Some this then ok () else throw (Zeep_exception msg)))"

text \<open>The search for a node in the list of its parent; \<open>owned\<close> gives the list of an element.\<close>

fun find_node :: "nat \<Rightarrow> heap \<Rightarrow> addr \<Rightarrow> addr option \<Rightarrow> bool res option" where
  "find_node 0 h this p = None"
| "find_node (Suc k) h this p =
     (case p of
        None \<Rightarrow> Some (ok False)
      | Some a \<Rightarrow>
          if a = this then Some (ok True)
          else seq (lift_res (read_cell h a)) (\<lambda>c. find_node k h this (c_next c)))"

fun validate :: "nat \<Rightarrow> (addr \<Rightarrow> node_list) \<Rightarrow> heap \<Rightarrow> addr \<Rightarrow> unit res option" where
  "validate 0 owned h this = None"
| "validate (Suc k) owned h this =
     seq (lift_res (read_cell h this)) (\<lambda>c.
     seq (case c_parent c of
            None \<Rightarrow> Some (ok True)
          | Some e \<Rightarrow> if c_kind c = Element_node then find_node k h this (nl_head (owned e)) else Some (ok True)) (\<lambda>known.
     if \<not> known then Some (throw (Zeep_exception ''validation error: parent does not know node''))
     else
       seq (lift_res (check_back c_prev h (c_next c) this ''validation error: m_next->m_prev != this'')) (\<lambda>_.
       seq (lift_res (check_back c_next h (c_prev c) this ''validation error: m_prev->m_next != this'')) (\<lambda>_.
       seq (chase k c_next h this (Some this)) (\<lambda>n.
         if n = Some this then Some (throw (Zeep_exception ''cycle in node list''))
         else
           seq (chase k c_prev h this (Some this)) (\<lambda>n.
             if n = Some this then Some (throw (Zeep_exception ''cycle in node list''))
             else (case c_next c of None \<Rightarrow> Some (ok ()) | Some q \<Rightarrow> validate k owned h q)))))))"

section \<open>The list the pointers represent\<close>

definition first_of :: "addr list \<Rightarrow> addr option \<Rightarrow> addr option" where
  "first_of xs q = (case xs of [] \<Rightarrow> q | x # _ \<Rightarrow> Some x)"

definition last_of :: "addr option \<Rightarrow> addr list \<Rightarrow> addr option" where
  "last_of p xs = (if xs = [] then p else Some (last xs))"

text \<open>The nodes \<open>xs\<close> are linked, from the one after \<open>p\<close> to the one before \<open>q\<close>.\<close>

fun linked :: "heap \<Rightarrow> addr \<Rightarrow> addr option \<Rightarrow> addr list \<Rightarrow> addr option \<Rightarrow> bool" where
  "linked h e p [] q = True"
| "linked h e p (x # xs) q =
     (case h x of
        None \<Rightarrow> False
      | Some c \<Rightarrow> c_parent c = Some e \<and> c_prev c = p \<and> c_next c = first_of xs q \<and> linked h e (Some x) xs q)"

definition represents :: "heap \<Rightarrow> node_list \<Rightarrow> addr list \<Rightarrow> bool" where
  "represents h l xs \<longleftrightarrow>
     distinct xs \<and> linked h (nl_element l) None xs None \<and> nl_head l = first_of xs None \<and> nl_tail l = last_of None xs"

lemma first_of_simps [simp]: "first_of [] q = q" "first_of (x # xs) q = Some x"
  by (simp_all add: first_of_def)

lemma last_of_simps [simp]: "last_of p [] = p" "last_of p (x # xs) = last_of (Some x) xs" "last_of p (xs @ ys) = last_of (last_of p xs) ys"
  by (auto simp: last_of_def)

lemma first_of_append [simp]: "first_of (xs @ ys) q = first_of xs (first_of ys q)"
  by (cases xs) simp_all

lemma first_of_mem: "first_of xs q = Some y \<Longrightarrow> y \<in> set xs \<or> q = Some y"
  by (cases xs) auto

lemma linked_append [simp]:
  "linked h e p (xs @ ys) q \<longleftrightarrow> linked h e p xs (first_of ys q) \<and> linked h e (last_of p xs) ys q"
  by (induction xs arbitrary: p) (auto split: option.splits)

lemma linked_other [simp]: "a \<notin> set xs \<Longrightarrow> linked (h(a := c)) e p xs q = linked h e p xs q"
  by (induction xs arbitrary: p) (auto split: option.splits)

lemma linked_dom: "linked h e p xs q \<Longrightarrow> x \<in> set xs \<Longrightarrow> \<exists>c. h x = Some c \<and> c_parent c = Some e"
  by (induction xs arbitrary: p) (auto split: option.splits)

lemma linked_ConsD:
  "linked h e p (x # xs) q \<Longrightarrow> \<exists>c. h x = Some c \<and> c_parent c = Some e \<and> c_prev c = p \<and> c_next c = first_of xs q \<and> linked h e (Some x) xs q"
  by (auto split: option.splits)

lemma modify_ok: "h a = Some c \<Longrightarrow> modify a f h = ok (h(a \<mapsto> f c))"
  by (simp add: modify_def read_cell_def)

lemma read_ok: "h a = Some c \<Longrightarrow> read_cell h a = ok c"
  by (simp add: read_cell_def)

text \<open>Insertion behind \<open>xs\<close>, in front of \<open>ys\<close>.\<close>

lemma last_before_found:
  assumes "linked h e p (xs @ [x]) q" "q \<noteq> first_of (xs @ [x]) q" "\<forall>y \<in> set (xs @ [x]). q \<noteq> Some y" "length xs < k"
  shows "\<exists>c. last_before k h q (the (first_of (xs @ [x]) q)) = Some (ok (x, c)) \<and> h x = Some c \<and> c_next c = q"
  using assms
proof (induction xs arbitrary: p k)
  case Nil
  then obtain m where "k = Suc m" by (cases k) simp_all
  then show ?case using Nil by (auto split: option.splits)
next
  case (Cons y xs)
  then obtain m where k: "k = Suc m" "length xs < m" by (cases k) simp_all
  obtain c where c: "h y = Some c" "c_next c = first_of (xs @ [x]) q" "linked h e (Some y) (xs @ [x]) q"
    using linked_ConsD [of h e p y "xs @ [x]" q] Cons.prems(1) by auto
  obtain z where z: "first_of (xs @ [x]) q = Some z" "z \<in> set (xs @ [x])" by (cases xs) auto
  with Cons.IH [OF c(3), of m] Cons.prems k c show ?case by auto
qed
lemma linked_cong: "(\<And>a. a \<in> set xs \<Longrightarrow> h a = h' a) \<Longrightarrow> linked h e p xs q = linked h' e p xs q"
  by (induction xs arbitrary: p) (auto split: option.splits)

lemma last_split: "xs \<noteq> [] \<Longrightarrow> \<exists>ws w. xs = ws @ [w]"
  by (metis append_butlast_last_id)

lemma linked_next: "linked h e p (xs @ [x]) q \<Longrightarrow> linked (h(x \<mapsto> (the (h x))\<lparr>c_next := q'\<rparr>)) e p (xs @ [x]) q'"
  if "x \<notin> set xs"
  using that by (auto split: option.splits)

lemma linked_prev: "linked h e p (y # ys) q \<Longrightarrow> y \<notin> set ys \<Longrightarrow> linked (h(y \<mapsto> (the (h y))\<lparr>c_prev := p'\<rparr>)) e p' (y # ys) q"
  by (auto split: option.splits)

lemma modify_some_first:
  assumes "linked h e p ys q" "q = None" "distinct ys"
  shows "\<exists>h'. modify_some (first_of ys q) (\<lambda>c. c\<lparr>c_prev := p'\<rparr>) h = ok h' \<and> linked h' e p' ys q
    \<and> (\<forall>a. a \<notin> set ys \<longrightarrow> h' a = h a)"
proof (cases ys)
  case Nil
  then show ?thesis using assms(2) by (simp add: modify_some_def)
next
  case (Cons y zs)
  obtain c where c: "h y = Some c" using linked_ConsD [of h e p y zs q] assms(1) Cons by auto
  then have "linked (h(y \<mapsto> c\<lparr>c_prev := p'\<rparr>)) e p' ys q" using linked_prev [of h e p y zs q p'] assms(1,3) Cons by simp
  then show ?thesis using Cons c by (auto simp: modify_some_def modify_ok)
qed

definition fresh :: "heap \<Rightarrow> addr \<Rightarrow> bool" where
  "fresh h n \<longleftrightarrow> (case h n of None \<Rightarrow> False | Some c \<Rightarrow> c_parent c = None \<and> c_next c = None \<and> c_prev c = None)"

text \<open>What \<open>insert_sibling\<close> does when its search ends at \<open>w\<close>, the last of \<open>ws @ [w]\<close>.\<close>

lemma insert_sibling_between:
  assumes "linked h e None (ws @ [w]) (first_of ys None)" "linked h e (Some w) ys None" "distinct (ws @ [w] @ ys)"
    and "h n = Some c" "n \<notin> set (ws @ [w] @ ys)" "h this = Some t" "c_parent t = Some e"
    and "last_before k h (first_of ys None) this = Some (ok (w, d))" "h w = Some d"
  shows "\<exists>h'. insert_sibling k this n (first_of ys None) h = Some (ok h') \<and> linked h' e None (ws @ [w] @ [n] @ ys) None
    \<and> (\<forall>a. a \<notin> set (ws @ [w] @ [n] @ ys) \<longrightarrow> h' a = h a)"
proof -
  let ?q = "first_of ys None"
  let ?h1 = "h(w \<mapsto> d\<lparr>c_next := Some n\<rparr>)"
  let ?c = "c\<lparr>c_prev := Some w, c_parent := Some e, c_next := ?q\<rparr>"
  let ?h2 = "?h1(n \<mapsto> ?c)"
  have next_w: "c_next d = ?q" using assms(1,9) by simp
  have "linked ?h2 e (Some w) ys None" using assms(2,3,5) by simp
  then obtain h' where h': "modify_some ?q (\<lambda>c. c\<lparr>c_prev := Some n\<rparr>) ?h2 = ok h'" "linked h' e (Some n) ys None"
    "\<forall>a. a \<notin> set ys \<longrightarrow> h' a = ?h2 a"
    using modify_some_first [of ?h2 e "Some w" ys None "Some n"] assms(3) by auto
  have "modify w (\<lambda>c. c\<lparr>c_next := Some n\<rparr>) h = ok ?h1" using assms(9) by (rule modify_ok)
  moreover have "modify n (\<lambda>c. c\<lparr>c_prev := Some w, c_parent := c_parent t, c_next := ?q\<rparr>) ?h1 = ok ?h2"
    using modify_ok [of ?h1 n c] assms(4,5,7) by auto
  ultimately have "insert_sibling k this n ?q h = Some (ok h')"
    using assms(6,8) h'(1) next_w by (simp add: insert_sibling_def seq_simps lift_res_def read_ok)
  moreover have "linked h' e None (ws @ [w] @ [n] @ ys) None"
  proof -
    have "linked ?h1 e None (ws @ [w]) (Some n)" using linked_next [OF _ assms(1), of "Some n"] assms(3,9) by simp
    then have l: "linked ?h2 e None (ws @ [w]) (Some n)" using assms(5) by (subst linked_other) auto
    have same: "h' a = ?h2 a" if "a \<in> set (ws @ [w, n])" for a using h'(3) that assms(3,5) by auto
    have "linked h' e None (ws @ [w]) (Some n)" using l linked_cong [of "ws @ [w]" h' ?h2] same by simp
    moreover have "linked h' e (Some w) ([n] @ ys) None" using same [of n] h'(2) by simp
    ultimately have "linked h' e None ((ws @ [w]) @ [n] @ ys) None"
      by (simp only: linked_append [of _ _ _ "ws @ [w]"] first_of_append [of "[n]"] first_of_simps last_of_simps)
    then show ?thesis by simp
  qed
  moreover have "\<forall>a. a \<notin> set (ws @ [w] @ [n] @ ys) \<longrightarrow> h' a = h a" using h'(3) by simp
  ultimately show ?thesis by blast
qed
lemma first_not_self: "y \<notin> set xs \<Longrightarrow> xs \<noteq> [] \<Longrightarrow> Some y \<noteq> first_of xs q"
  by (cases xs) auto

lemma insert_refines:
  assumes "represents h l (xs @ ys)" "h n = Some c" "fresh h n" "n \<notin> set (xs @ ys)" "length (xs @ ys) < k"
    and "it_current pos = first_of ys None"
  shows "\<exists>l' h'. insert_impl k l pos n h = Some (ok (iterator_at (Some n), l', h')) \<and> represents h' l' (xs @ [n] @ ys)
    \<and> nl_element l' = nl_element l \<and> (\<forall>a. a \<notin> set (xs @ [n] @ ys) \<longrightarrow> h' a = h a)"
proof -
  let ?e = "nl_element l"
  define c1 where "c1 = c\<lparr>c_parent := Some ?e\<rparr>"
  define h1 where "h1 = h(n \<mapsto> c1)"
  have c: "c_parent c = None" "c_next c = None" "c_prev c = None" using assms(2,3) by (simp_all add: fresh_def)
  have d: "distinct (xs @ ys)" and l: "linked h1 ?e None xs (first_of ys None)" "linked h1 ?e (last_of None xs) ys None"
    and ends: "nl_head l = first_of (xs @ ys) None" "nl_tail l = last_of None (xs @ ys)"
    using assms(1,4) by (simp_all add: represents_def h1_def)
  note step = insert_impl_def seq_simps lift_res_def read_ok [of h n c, OF assms(2)] c
  have result: ?thesis if "insert_impl k l pos n h = Some (ok (iterator_at (Some n), l', h'))" "represents h' l' (xs @ [n] @ ys)"
    "nl_element l' = nl_element l" "\<forall>a. a \<notin> set (xs @ [n] @ ys) \<longrightarrow> h' a = h a" for l' h'
    using that by blast
  consider (empty) "xs = []" "ys = []" | (at_front) y zs where "xs = []" "ys = y # zs"
    | (at_back) ws w where "xs = ws @ [w]" "ys = []" | (middle) ws w y zs where "xs = ws @ [w]" "ys = y # zs"
    using last_split [of xs] by (cases ys; cases "xs = []") auto
  then show ?thesis
  proof cases
    case empty
    then show ?thesis using assms(6) ends c
      by (auto simp: step represents_def h1_def c1_def intro!: exI)
  next
    case at_front
    obtain d where d1: "h y = Some d" "c_prev d = None" "linked h1 ?e (Some y) zs None" "c_next d = first_of zs None" "c_parent d = Some ?e"
      using linked_ConsD [of h1 ?e None y zs None] l(2) at_front assms(4) by (auto simp: h1_def)
    have ne: "y \<noteq> n" using assms(4) at_front by auto
    let ?h' = "h(n \<mapsto> c1\<lparr>c_next := Some y\<rparr>, y \<mapsto> d\<lparr>c_prev := Some n\<rparr>)"
    have "insert_impl k l pos n h = Some (ok (iterator_at (Some n), l\<lparr>nl_head := Some n\<rparr>, ?h'))"
      using assms(6) ends at_front c ne d1(1) by (simp add: step modify_ok c1_def Let_def)
    moreover have "represents ?h' (l\<lparr>nl_head := Some n\<rparr>) (n # ys)"
      using d assms(4) at_front ends d1 ne c by (auto simp: represents_def c1_def h1_def)
    ultimately show ?thesis using at_front by (intro result [of "l\<lparr>nl_head := Some n\<rparr>" ?h']) auto
  next
    case at_back
    obtain t where t: "h1 w = Some t" "c_next t = None" "c_parent t = Some ?e" using l(1) at_back by (auto split: option.splits)
    obtain m where k: "k = Suc m" using assms(5) by (cases k) simp_all
    have lb: "last_before k h1 (first_of [] None) w = Some (ok (w, t))" using t by (simp add: k)
    obtain h' where h': "insert_sibling k w n None h1 = Some (ok h')" "linked h' ?e None (ws @ [w] @ [n] @ []) None"
      "\<forall>a. a \<notin> set (ws @ [w] @ [n] @ []) \<longrightarrow> h' a = h1 a"
      using insert_sibling_between [of h1 ?e ws w "[]" n c1 w t k t] l d assms(4) at_back t lb by (auto simp: h1_def)
    have "insert_impl k l pos n h = Some (ok (iterator_at (Some n), l\<lparr>nl_tail := Some n\<rparr>, h'))"
      using assms(6) ends at_back c h'(1) by (cases ws) (simp_all add: step h1_def c1_def Let_def)
    moreover have "represents h' (l\<lparr>nl_tail := Some n\<rparr>) (xs @ [n] @ ys)"
      using d assms(4) at_back ends h'(2) by (auto simp: represents_def)
    moreover have "\<forall>a. a \<notin> set (xs @ [n] @ ys) \<longrightarrow> h' a = h a" using h'(3) at_back by (auto simp: h1_def)
    ultimately show ?thesis by (intro result [of "l\<lparr>nl_tail := Some n\<rparr>" h']) auto
  next
    case middle
    obtain a where a: "first_of xs None = Some a" "a \<in> set xs" using middle by (cases ws) auto
    have ay: "a \<noteq> y" using a d middle by auto
    obtain t where t: "h1 a = Some t" "c_parent t = Some ?e" using linked_dom [OF l(1) a(2)] by auto
    have fa: "first_of (ws @ [w]) (Some y) = Some a" using a(1) middle by (cases ws) simp_all
    obtain e where e: "last_before k h1 (Some y) a = Some (ok (w, e))" "h1 w = Some e"
      using last_before_found [of h1 ?e None ws w "Some y" k] l(1) middle d assms(5) fa ay by auto
    obtain h' where h': "insert_sibling k a n (Some y) h1 = Some (ok h')" "linked h' ?e None (ws @ [w] @ [n] @ ys) None"
      "\<forall>a. a \<notin> set (ws @ [w] @ [n] @ ys) \<longrightarrow> h' a = h1 a"
      using insert_sibling_between [of h1 ?e ws w ys n c1 a t k e] l d assms(4) middle t e by (auto simp: h1_def)
    have "nl_head l = Some a" using ends(1) a(1) middle by (cases ws) simp_all
    then have "insert_impl k l pos n h = Some (ok (iterator_at (Some n), l, h'))"
      using assms(6) middle c h'(1) ay by (simp add: step h1_def c1_def Let_def)
    moreover have "represents h' l (xs @ [n] @ ys)"
      using d assms(4) middle ends h'(2) by (cases ws) (auto simp: represents_def)
    moreover have "\<forall>a. a \<notin> set (xs @ [n] @ ys) \<longrightarrow> h' a = h a" using h'(3) middle by (auto simp: h1_def)
    ultimately show ?thesis by (intro result [of l h']) auto
  qed
qed
text \<open>Removal of the node between \<open>xs\<close> and \<open>ys\<close>.\<close>

lemma find_before_found:
  assumes "linked h e p (xs @ [x]) (Some n)" "n \<notin> set (xs @ [x])" "length xs < k"
  shows "find_before k h n (first_of (xs @ [x]) None) = Some (ok (Some x))"
  using assms
proof (induction xs arbitrary: p k)
  case Nil
  then obtain m where "k = Suc m" by (cases k) simp_all
  then show ?case using Nil by (auto split: option.splits)
next
  case (Cons y xs)
  then obtain m where k: "k = Suc m" "length xs < m" by (cases k) simp_all
  obtain c where c: "h y = Some c" "c_next c = first_of (xs @ [x]) (Some n)" "linked h e (Some y) (xs @ [x]) (Some n)"
    using linked_ConsD [of h e p y "xs @ [x]" "Some n"] Cons.prems(1) by auto
  obtain z where z: "first_of (xs @ [x]) q = Some z" "z \<in> set (xs @ [x])" for q by (cases xs) auto
  have "c_next c \<noteq> Some n" "c_next c = first_of (xs @ [x]) None" using c(2) z Cons.prems(2) by (cases xs, auto)+
  with Cons.IH [OF c(3), of m] Cons.prems k c show ?case by auto
qed

lemma erase_refines:
  assumes "represents h l (xs @ [n] @ ys)" "length (xs @ [n] @ ys) < k" "it_current pos = Some n"
  shows "\<exists>l' h'. erase_impl k l pos h = Some (ok (iterator_at (first_of ys None), l', h')) \<and> represents h' l' (xs @ ys)
    \<and> nl_element l' = nl_element l \<and> h' n = None \<and> (\<forall>a. a \<notin> set (xs @ [n] @ ys) \<longrightarrow> h' a = h a)"
proof -
  let ?e = "nl_element l"
  have result: ?thesis if "erase_impl k l pos h = Some (ok (iterator_at (first_of ys None), l', h'))" "represents h' l' (xs @ ys)"
    "nl_element l' = nl_element l" "h' n = None" "\<forall>a. a \<notin> set (xs @ [n] @ ys) \<longrightarrow> h' a = h a" for l' h'
    using that by blast
  have d: "distinct (xs @ [n] @ ys)" and l: "linked h ?e None xs (Some n)" "linked h ?e (Some n) ys None"
    and ends: "nl_head l = first_of (xs @ [n] @ ys) None" "nl_tail l = last_of None (xs @ [n] @ ys)"
    using assms(1) by (auto simp: represents_def split: option.splits)
  obtain c where c: "h n = Some c" "c_parent c = Some ?e" "c_prev c = last_of None xs" "c_next c = first_of ys None"
    using assms(1) by (auto simp: represents_def split: option.splits)
  have pos: "pos \<noteq> list_end" using assms(3) by (auto simp: list_end_def)
  note step = erase_impl_def pos assms(3) seq_simps lift_res_def read_ok [of h n c, OF c(1)] c(2)
  show ?thesis
  proof (cases "xs = []")
    case True
    obtain h1 where h1: "modify_some (first_of ys None) (\<lambda>c. c\<lparr>c_prev := None\<rparr>) h = ok h1" "linked h1 ?e None ys None"
      "\<forall>a. a \<notin> set ys \<longrightarrow> h1 a = h a"
      using modify_some_first [of h ?e "Some n" ys None None] l(2) d by auto
    let ?l = "l\<lparr>nl_head := first_of ys None, nl_tail := (if first_of ys None = None then None else nl_tail l)\<rparr>"
    have "erase_impl k l pos h = Some (ok (iterator_at (first_of ys None), ?l, h1(n := None)))"
      using True ends h1(1) c(4) by (simp add: step erase_head_def read_ok [of h n c, OF c(1)])
    moreover have "represents (h1(n := None)) ?l (xs @ ys)"
      using True d ends h1(2) linked_other [of n ys h1 None ?e None None]
      by (cases ys) (auto simp: represents_def simp del: linked.simps linked_other)
    ultimately show ?thesis using h1(3) by (intro result [of ?l "h1(n := None)"]) auto
  next
    case False
    then obtain ws w where ws: "xs = ws @ [w]" using last_split by blast
    have wn: "w \<noteq> n" "w \<notin> set ys" "n \<notin> set xs" using d ws by auto
    have f: "find_before k h n (nl_head l) = Some (ok (Some w))"
      using find_before_found [of h ?e None ws w n k] l(1) ws d assms(2) ends(1) by simp
    obtain t where t: "h w = Some t" using l(1) ws by (auto split: option.splits)
    let ?h1 = "h(w \<mapsto> t\<lparr>c_next := first_of ys None\<rparr>)"
    have w1: "linked ?h1 ?e None xs (first_of ys None)"
      using linked_next [of w ws h ?e None "Some n" "first_of ys None"] l(1) ws d t by simp
    obtain h2 where h2: "modify_some (first_of ys None) (\<lambda>c. c\<lparr>c_prev := Some w\<rparr>) ?h1 = ok h2" "linked h2 ?e (Some w) ys None"
      "\<forall>a. a \<notin> set ys \<longrightarrow> h2 a = ?h1 a"
      using modify_some_first [of ?h1 ?e "Some n" ys None "Some w"] l(2) d ws by auto
    let ?l = "if nl_tail l = Some n then l\<lparr>nl_tail := c_prev c\<rparr> else l"
    have head: "nl_head l \<noteq> Some n" using ends(1) wn(3) ws by (cases ws) auto
    have "erase_impl k l pos h = Some (ok (iterator_at (first_of ys None), ?l, h2(n := None)))"
      using head f t h2(1) c(4) by (simp add: step erase_other_def modify_ok read_ok [of h n c, OF c(1)])
    moreover have "linked h2 ?e None xs (first_of ys None)"
    proof -
      have "h2 a = ?h1 a" if "a \<in> set xs" for a using h2(3) that d by auto
      from linked_cong [of xs h2 ?h1, OF this] show ?thesis using w1 by simp
    qed
    then have "linked h2 ?e None (xs @ ys) None" using h2(2) unfolding linked_append by (simp add: ws del: linked_append linked.simps)
    then have l2: "linked (h2(n := None)) ?e None (xs @ ys) None" using d linked_other [of n "xs @ ys" h2 None ?e None None] by simp
    have "nl_tail ?l = last_of None (xs @ ys)"
    proof (cases "ys = []")
      case True
      then show ?thesis using ends(2) c(3) by simp
    next
      case False
      then obtain vs v where "ys = vs @ [v]" using last_split by blast
      then show ?thesis using ends(2) d by auto
    qed
    then have "represents (h2(n := None)) ?l (xs @ ys)"
      using d ends(1) l2 ws by (cases ws) (simp_all add: represents_def del: linked.simps linked_append)
    moreover have "\<forall>a. a \<notin> set (xs @ [n] @ ys) \<longrightarrow> (h2(n := None)) a = h a" using h2(3) ws by auto
    ultimately show ?thesis by (intro result [of ?l "h2(n := None)"]) auto
  qed
qed
section \<open>Iteration\<close>

definition shown :: "bool \<Rightarrow> heap \<Rightarrow> addr \<Rightarrow> bool" where
  "shown els h a \<longleftrightarrow> (els \<longrightarrow> (case h a of None \<Rightarrow> False | Some c \<Rightarrow> c_kind c = Element_node))"

lemma skip_linked:
  "linked h e p xs None \<Longrightarrow> length xs < k \<Longrightarrow>
    skip_to k els h (first_of xs None) = Some (ok (first_of (dropWhile (\<lambda>a. \<not> shown els h a) xs) None))"
proof (induction xs arbitrary: p k)
  case Nil
  then obtain m where "k = Suc m" by (cases k) simp_all
  then show ?case by simp
next
  case (Cons x xs)
  then obtain m where k: "k = Suc m" "length xs < m" by (cases k) simp_all
  obtain c where c: "h x = Some c" "c_next c = first_of xs None" "linked h e (Some x) xs None"
    using linked_ConsD [OF Cons.prems(1)] by auto
  show ?case using Cons.IH [OF c(3) k(2)] c k by (cases els; cases "c_kind c = Element_node") (simp_all add: shown_def)
qed

lemma visit_linked:
  "linked h e p xs None \<Longrightarrow> length xs < k \<Longrightarrow> ys = dropWhile (\<lambda>a. \<not> shown els h a) xs \<Longrightarrow>
    visit k els h l \<lparr>it_current = first_of ys None, it_at_end = (first_of ys None = None)\<rparr> = Some (ok (filter (shown els h) xs))"
proof (induction xs arbitrary: p k ys)
  case Nil
  then obtain m where "k = Suc m" by (cases k) simp_all
  then show ?case using Nil by (simp add: list_end_def)
next
  case (Cons x xs)
  then obtain m where k: "k = Suc m" "length xs < m" by (cases k) simp_all
  obtain c where c: "h x = Some c" "c_next c = first_of xs None" "linked h e (Some x) xs None"
    using linked_ConsD [OF Cons.prems(1)] by auto
  show ?case
  proof (cases "shown els h x")
    case True
    have "it_deref els h \<lparr>it_current = Some x, it_at_end = False\<rparr> = ok x"
      using True c(1) by (simp add: it_deref_def shown_def read_cell_def)
    then show ?thesis
      using Cons.IH [OF c(3) k(2) refl] Cons.prems(3) True c k skip_linked [OF c(3) k(2), of els]
      by (simp add: list_end_def lift_res_def seq_simps it_next_def read_cell_def)
  next
    case False
    then show ?thesis using Cons.IH [OF c(3), of k ys] Cons.prems k by simp
  qed
qed

lemma iteration_visits:
  assumes "represents h l xs" "length xs < k"
  shows "list_nodes k els h l = Some (ok (filter (shown els h) xs))"
proof -
  have l: "linked h (nl_element l) None xs None" "nl_head l = first_of xs None" using assms(1) by (simp_all add: represents_def)
  show ?thesis
    using skip_linked [OF l(1) assms(2), of els] visit_linked [OF l(1) assms(2) refl, of els l] l(2)
    by (simp add: list_nodes_def list_begin_def seq_simps)
qed

text \<open>
  The end of a list of elements is left for its tail, which need not be an element: the last
  element is then not found.
\<close>

lemma back_of_elements:
  assumes "nl_tail l = Some a" "h a = Some c" "c_kind c \<noteq> Element_node"
  shows "list_back k True h l = Some (throw Undefined)"
  using assms by (simp add: list_back_def it_prev_def list_end_def seq_simps lift_res_def it_deref_def read_cell_def)

text \<open>An iterator made from a node, which insertion returns, goes back to the tail.\<close>

lemma back_from_found: "it_prev k els h l (iterator_at p) = Some (ok \<lparr>it_current = nl_tail l, it_at_end = False\<rparr>)"
  by (simp add: it_prev_def iterator_at_def)

section \<open>Removing all nodes\<close>

lemma delete_siblings_linked:
  "linked h e p as None \<Longrightarrow> h a = Some c \<Longrightarrow> c_next c = first_of as None \<Longrightarrow> distinct (a # as) \<Longrightarrow> length as < k \<Longrightarrow>
    \<exists>h'. delete_siblings k a h = Some (ok h') \<and> (\<forall>x. x \<noteq> a \<longrightarrow> h' x = (if x \<in> set as then None else h x))"
proof (induction as arbitrary: p k h c)
  case Nil
  then obtain m where "k = Suc m" by (cases k) simp_all
  then show ?case using Nil by (simp add: lift_res_def read_cell_def seq_simps)
next
  case (Cons b as)
  then obtain m where k: "k = Suc m" "length as < m" by (cases k) simp_all
  obtain d where d: "h b = Some d" "c_next d = first_of as None" "linked h e (Some b) as None"
    using linked_ConsD [OF Cons.prems(1)] by auto
  define h1 where "h1 = (h(a \<mapsto> c\<lparr>c_next := c_next d\<rparr>))(b := None)"
  have "linked h1 e (Some b) as None" using d(3) Cons.prems(4) by (simp add: h1_def)
  moreover have "h1 a = Some (c\<lparr>c_next := c_next d\<rparr>)" using Cons.prems(4) by (simp add: h1_def)
  ultimately obtain h' where h': "delete_siblings m a h1 = Some (ok h')" "\<forall>x. x \<noteq> a \<longrightarrow> h' x = (if x \<in> set as then None else h1 x)"
    using Cons.IH [of h1 "Some b" "c\<lparr>c_next := c_next d\<rparr>" m] Cons.prems(4) d(2) k(2) by auto
  have "delete_siblings k a h = Some (ok h')"
    using Cons.prems(2,3) d(1) k(1) h'(1) by (simp add: lift_res_def read_cell_def seq_simps h1_def)
  moreover have "h' x = (if x \<in> set (b # as) then None else h x)" if "x \<noteq> a" for x using h'(2) that by (simp add: h1_def)
  ultimately show ?case by blast
qed

lemma clear_refines:
  assumes "represents h l xs" "length xs < k"
  shows "\<exists>h'. list_clear k l h = Some (ok (l\<lparr>nl_head := None, nl_tail := None\<rparr>, h'))
    \<and> represents h' (l\<lparr>nl_head := None, nl_tail := None\<rparr>) [] \<and> (\<forall>a. h' a = (if a \<in> set xs then None else h a))"
proof (cases xs)
  case Nil
  then show ?thesis using assms by (simp add: list_clear_def represents_def seq_simps)
next
  case (Cons a as)
  obtain c where c: "h a = Some c" "c_next c = first_of as None" "linked h (nl_element l) (Some a) as None"
    using assms(1) Cons linked_ConsD [of h "nl_element l" None a as None] by (auto simp: represents_def)
  have "distinct (a # as)" "nl_head l = Some a" using assms(1) Cons by (simp_all add: represents_def)
  with delete_siblings_linked [OF c(3,1,2), of k] assms(2) Cons show ?thesis
    by (auto simp: list_clear_def seq_simps represents_def)
qed

section \<open>Validation\<close>

lemma find_node_linked: "linked h e p xs None \<Longrightarrow> x \<in> set xs \<Longrightarrow> length xs < k \<Longrightarrow> find_node k h x (first_of xs None) = Some (ok True)"
proof (induction xs arbitrary: p k)
  case (Cons y xs)
  then obtain m where k: "k = Suc m" "length xs < m" by (cases k) simp_all
  obtain c where c: "h y = Some c" "c_next c = first_of xs None" "linked h e (Some y) xs None"
    using linked_ConsD [OF Cons.prems(1)] by auto
  show ?case using Cons.IH [OF c(3) _ k(2)] Cons.prems(2) c(1,2) k(1) by (auto simp: lift_res_def read_cell_def seq_simps)
qed simp

lemma chase_next: "linked h e p xs None \<Longrightarrow> x \<notin> set xs \<Longrightarrow> length xs < k \<Longrightarrow> chase k c_next h x (first_of xs None) = Some (ok None)"
proof (induction xs arbitrary: p k)
  case Nil
  then obtain m where "k = Suc m" by (cases k) simp_all
  then show ?case by simp
next
  case (Cons y xs)
  then obtain m where k: "k = Suc m" "length xs < m" by (cases k) simp_all
  obtain c where c: "h y = Some c" "c_next c = first_of xs None" "linked h e (Some y) xs None"
    using linked_ConsD [OF Cons.prems(1)] by auto
  then have "c_next c \<noteq> Some x" using Cons.prems(2) by (cases xs) auto
  then show ?case using Cons.IH [OF c(3) _ k(2)] Cons.prems(2) c(1,2) k(1) by auto
qed

lemma chase_prev: "linked h e None xs q \<Longrightarrow> x \<notin> set xs \<Longrightarrow> length xs < k \<Longrightarrow> chase k c_prev h x (last_of None xs) = Some (ok None)"
proof (induction xs arbitrary: q k rule: rev_induct)
  case Nil
  then obtain m where "k = Suc m" by (cases k) simp_all
  then show ?case by simp
next
  case (snoc y xs)
  then obtain m where k: "k = Suc m" "length xs < m" by (cases k) simp_all
  obtain c where c: "h y = Some c" "c_prev c = last_of None xs" "linked h e None xs (Some y)"
    using snoc.prems(1) by (auto split: option.splits)
  then have "c_prev c \<noteq> Some x" using snoc.prems(2) by (auto simp: last_of_def split: if_splits)
  then show ?case using snoc.IH [OF c(3) _ k(2)] snoc.prems(2) c(1,2) k(1) by auto
qed

lemma check_back_next: "linked h e (Some x) ys None \<Longrightarrow> check_back c_prev h (first_of ys None) x msg = ok ()"
  by (cases ys) (auto simp: check_back_def read_cell_def split: option.splits)

lemma check_back_prev: "linked h e None xs (Some x) \<Longrightarrow> check_back c_next h (last_of None xs) x msg = ok ()"
  by (cases xs rule: rev_cases) (auto simp: check_back_def read_cell_def split: option.splits)

lemma validate_step:
  assumes "represents h l (xs @ x # ys)" "owned (nl_element l) = l" "length (xs @ x # ys) < m"
  shows "validate (Suc m) owned h x = (case first_of ys None of None \<Rightarrow> Some (ok ()) | Some q \<Rightarrow> validate m owned h q)"
proof -
  let ?e = "nl_element l"
  have lk: "linked h ?e None (xs @ x # ys) None" "distinct (xs @ x # ys)" "nl_head l = first_of (xs @ x # ys) None"
    using assms(1) by (simp_all only: represents_def)
  then have xs: "linked h ?e None xs (Some x)" and x: "linked h ?e (last_of None xs) (x # ys) None" by simp_all
  obtain c where c: "h x = Some c" "c_parent c = Some ?e" "c_prev c = last_of None xs" "c_next c = first_of ys None" "linked h ?e (Some x) ys None"
    using linked_ConsD [OF x] by auto
  have "find_node m h x (nl_head l) = Some (ok True)" using find_node_linked [OF lk(1), of x m] assms(3) lk(3) by simp
  moreover obtain m' where m': "m = Suc m'" "length ys < m'" "length xs < m'" using assms(3) by (cases m) simp_all
  have "first_of ys None \<noteq> Some x" using lk(2) by (cases ys) auto
  then have "chase m c_next h x (Some x) = Some (ok None)" using chase_next [OF c(5) _ m'(2), of x] c(1,4) m'(1) lk(2) by simp
  moreover have "last_of None xs \<noteq> Some x" using lk(2) by (auto simp: last_of_def)
  then have "chase m c_prev h x (Some x) = Some (ok None)" using chase_prev [OF xs _ m'(3)] c(1,3) m'(1) lk(2) by simp
  ultimately show ?thesis
    using c(1,2,3,4) assms(2) check_back_next [OF c(5)] check_back_prev [OF xs]
    by (simp add: lift_res_def read_cell_def seq_simps)
qed

lemma validate_linked:
  "represents h l (xs @ x # ys) \<Longrightarrow> owned (nl_element l) = l \<Longrightarrow> length (xs @ x # ys) + length ys + 1 < k \<Longrightarrow>
    validate k owned h x = Some (ok ())"
proof (induction ys arbitrary: xs x k)
  case Nil
  then obtain m where k: "k = Suc m" by (cases k) simp_all
  show ?case using validate_step [of h l xs x "[]" owned m] Nil.prems k by simp
next
  case (Cons y ys)
  then obtain m where k: "k = Suc m" by (cases k) simp_all
  have "validate m owned h y = Some (ok ())"
    using Cons.prems k by (intro Cons.IH [of "xs @ [x]" y]) simp_all
  then show ?case using validate_step [of h l xs x "y # ys" owned m] Cons.prems k by simp
qed

text \<open>
  A cycle of two nodes is not noticed: the check stops at the other node, and goes round for
  ever.
\<close>

definition two_cycle :: heap where
  "two_cycle = [1 \<mapsto> \<lparr>c_kind = Text_node, c_parent = None, c_next = Some 2, c_prev = Some 2\<rparr>,
                2 \<mapsto> \<lparr>c_kind = Text_node, c_parent = None, c_next = Some 1, c_prev = Some 1\<rparr>]"

lemma two_cycle_cells: "x = 1 \<or> x = 2 \<Longrightarrow> \<exists>c. two_cycle x = Some c \<and> c_parent c = None \<and> c_next c = Some (3 - x) \<and> c_prev c = Some (3 - x)"
  by (auto simp: two_cycle_def)

lemma chase_two_cycle:
  assumes "x = 1 \<or> x = 2" "step = c_next \<or> step = c_prev"
  shows "chase k step two_cycle x (Some x) \<in> {None, Some (ok (Some (3 - x)))}"
proof -
  have y: "3 - x = 1 \<or> 3 - x = 2" "3 - (3 - x) = x" "3 - x \<noteq> x" using assms(1) by auto
  show ?thesis using two_cycle_cells [OF assms(1)] two_cycle_cells [OF y(1)] y(2,3) assms(2)
    by (cases k; cases "k - 1") auto
qed

lemma validate_two_cycle: "x = 1 \<or> x = 2 \<Longrightarrow> validate k owned two_cycle x = None"
proof (induction k arbitrary: x)
  case (Suc k)
  have y: "3 - x = 1 \<or> 3 - x = 2" "3 - (3 - x) = x" "3 - x \<noteq> x" using Suc.prems by auto
  obtain c d where c: "two_cycle x = Some c" "c_parent c = None" "c_next c = Some (3 - x)" "c_prev c = Some (3 - x)"
    "two_cycle (3 - x) = Some d" "c_next d = Some x" "c_prev d = Some x"
    using two_cycle_cells [OF Suc.prems] two_cycle_cells [OF y(1)] y(2) by auto
  consider "chase k c_next two_cycle x (Some x) = None" | "chase k c_prev two_cycle x (Some x) = None"
    "chase k c_next two_cycle x (Some x) = Some (ok (Some (3 - x)))"
    | "chase k c_next two_cycle x (Some x) = Some (ok (Some (3 - x)))" "chase k c_prev two_cycle x (Some x) = Some (ok (Some (3 - x)))"
    using chase_two_cycle [OF Suc.prems, of c_next k] chase_two_cycle [OF Suc.prems, of c_prev k] by auto
  then show ?case
    using c y(3) Suc.IH [OF y(1)] by cases (simp_all add: lift_res_def read_cell_def check_back_def seq_simps)
qed simp
section \<open>Properties\<close>

definition two_texts :: heap where
  "two_texts = [1 \<mapsto> \<lparr>c_kind = Text_node, c_parent = Some 0, c_next = Some 2, c_prev = None\<rparr>,
                2 \<mapsto> \<lparr>c_kind = Element_node, c_parent = Some 0, c_next = None, c_prev = Some 1\<rparr>,
                3 \<mapsto> \<lparr>c_kind = Comment_node, c_parent = None, c_next = None, c_prev = None\<rparr>]"

definition two_list :: node_list where
  "two_list = \<lparr>nl_element = 0, nl_head = Some 1, nl_tail = Some 2\<rparr>"

lemma two_list: "represents two_texts two_list [1, 2]"
  by (simp add: represents_def two_texts_def two_list_def)

text \<open>
  C32. Insertion of a node without parent and siblings, at any position of a list, puts it
  there: the pointers afterwards represent the list with the node inserted, and no other
  node is touched.
\<close>

theorem list_insert_refines:
  assumes "represents h l (xs @ ys)" "h n = Some c" "fresh h n" "n \<notin> set (xs @ ys)" "length (xs @ ys) < k"
    and "it_current pos = first_of ys None"
  shows "\<exists>l' h'. insert_impl k l pos n h = Some (ok (iterator_at (Some n), l', h')) \<and> represents h' l' (xs @ [n] @ ys)
    \<and> nl_element l' = nl_element l \<and> (\<forall>a. a \<notin> set (xs @ [n] @ ys) \<longrightarrow> h' a = h a)"
  by (rule insert_refines [OF assms])

theorem list_insert_refines_witness:
  "\<exists>l' h'. insert_impl 3 two_list (iterator_at (Some 2)) 3 two_texts = Some (ok (iterator_at (Some 3), l', h'))
    \<and> represents h' l' [1, 3, 2]"
proof -
  have "represents two_texts two_list ([1] @ [2])" using two_list by simp
  moreover have "fresh two_texts 3" "3 \<notin> set ([1] @ [2 :: addr])" "length ([1] @ [2 :: addr]) < 3"
    "it_current (iterator_at (Some 2)) = first_of [2] None"
    by (simp_all add: fresh_def two_texts_def iterator_at_def)
  moreover have "two_texts 3 = Some \<lparr>c_kind = Comment_node, c_parent = None, c_next = None, c_prev = None\<rparr>"
    by (simp add: two_texts_def)
  ultimately show ?thesis using list_insert_refines [of two_texts two_list "[1]" "[2]" 3 _ 3 "iterator_at (Some 2)"] by auto
qed

text \<open>
  C33. Removal of a node from a list takes it out of the list, deletes it, gives the position
  of the node behind it and touches no node outside the list.
\<close>

theorem list_erase_refines:
  assumes "represents h l (xs @ [n] @ ys)" "length (xs @ [n] @ ys) < k" "it_current pos = Some n"
  shows "\<exists>l' h'. erase_impl k l pos h = Some (ok (iterator_at (first_of ys None), l', h')) \<and> represents h' l' (xs @ ys)
    \<and> nl_element l' = nl_element l \<and> h' n = None \<and> (\<forall>a. a \<notin> set (xs @ [n] @ ys) \<longrightarrow> h' a = h a)"
  by (rule erase_refines [OF assms])

theorem list_erase_refines_witness:
  "\<exists>l' h'. erase_impl 3 two_list (iterator_at (Some 1)) two_texts = Some (ok (iterator_at (Some 2), l', h'))
    \<and> represents h' l' [2]"
  using list_erase_refines [of two_texts two_list "[]" 1 "[2]" 3 "iterator_at (Some 1)"] two_list
  by (auto simp: iterator_at_def)

text \<open>
  A loop over a list visits its nodes in order, and one over the elements visits those
  that are elements.
\<close>

lemma list_iteration_visits:
  assumes "represents h l xs" "length xs < k"
  shows "list_nodes k els h l = Some (ok (filter (shown els h) xs))"
  by (rule iteration_visits [OF assms])

lemma list_iteration_visits_witness: "list_nodes 3 True two_texts two_list = Some (ok [2])"
  using list_iteration_visits [OF two_list, of 3 True] by (simp add: shown_def two_texts_def)

text \<open>
  C34. The check of the pointers never returns on a cycle of two nodes, although it looks for
  cycles: it only notices a node that is its own neighbour.
\<close>

theorem validate_misses_cycle: "validate k owned two_cycle 1 = None"
  by (rule validate_two_cycle) simp

end
