(* ===== verification/Spec2Isabelle.thy ===== *)
theory Spec2Isabelle
  imports Prelude Unicode_Support Char_Class Codec Hash Mac Http_Header Http_Request Http_Reply Http_Parser Http_Wire Http_Server Json_Element Json_Parser Json_Roundtrip Doctype Glob Http_Uri Controllers Security Format El_Reference Xml_Client Node_List
begin

text \<open>
  libzeep is a C++ library for web applications: an HTTP server, a JSON value and its
  parser, and an XML library. This development models its core as HOL functions,
  translated from \<open>src/\<close>, and proves what makes them correct.

  Parts and theories.

  \<^item> \<^verbatim>\<open>Prelude\<close>: results (\<open>'a res\<close> is an exception or a value; failed assertions and
    undefined behaviour are exceptions of their own), characters, decimal and
    hexadecimal numbers, and list lemmas.
  \<^item> \<^verbatim>\<open>Unicode_Support\<close> (\<open>zeep/unicode-support.hpp\<close>): UTF-8 \<open>append\<close>,
    \<open>get_first_char\<close>, \<open>pop_last_char\<close>, \<open>iequals\<close>, \<open>to_hex\<close>. Code points are 32-bit words.
    Reading and removing undo appending.
  \<^item> \<^verbatim>\<open>Char_Class\<close> (\<open>lib-xml/src/character-classification.cpp\<close>): the XML character classes.
  \<^item> \<^verbatim>\<open>Codec\<close>, \<^verbatim>\<open>Hash\<close>, \<^verbatim>\<open>Mac\<close> (\<open>lib-http/src/crypto.cpp\<close>): base64, base64url,
    hexadecimal and URL encoding with their round trips; MD5, SHA-1 and SHA-256 over
    32-bit words with the block buffer of \<open>hash_base\<close>, which refines the
    Merkle-Damgard iteration however the input is cut; HMAC and PBKDF2, which refine
    the definitions of RFC 2104 and RFC 8018. The locales \<open>streaming\<close>,
    \<open>hash_function\<close>, \<open>prf_stream\<close> and \<open>hmac_key\<close> are the contracts between these layers.
  \<^item> \<^verbatim>\<open>Http_Header\<close>, \<^verbatim>\<open>Http_Request\<close>, \<^verbatim>\<open>Http_Reply\<close> (\<open>request.cpp\<close>, \<open>reply.cpp\<close>): the
    messages as records, their headers, parameters and cookies, and the buffers they
    are written to, streamed replies in chunks of \<open>data_to_buffers\<close> included.
  \<^item> \<^verbatim>\<open>Http_Parser\<close> (\<open>message-parser.cpp\<close>): the request and the reply parser as machines
    that take one character at a time; the member function pointer \<open>m_parser\<close> is the
    datatype \<open>parser_fn\<close>. \<^verbatim>\<open>Http_Wire\<close> proves that what \<open>to_buffers\<close> writes is what the
    parsers read.
  \<^item> \<^verbatim>\<open>Http_Server\<close> (\<open>server.cpp\<close>, \<open>connection.cpp\<close>): \<open>handle_request\<close> with its validator,
    controllers and error handlers as arguments, and the connection as a step relation
    \<open>conn_step\<close> of completed reads and writes, with its invariant and the order of
    pipelined replies.
  \<^item> \<^verbatim>\<open>Json_Element\<close>, \<^verbatim>\<open>Json_Parser\<close>, \<^verbatim>\<open>Json_Roundtrip\<close> (\<open>lib-json/src\<close>): the JSON value
    with its access, comparison, arithmetic and serialisation; the tokenizer, one
    definition per state of its switch, and the recursive parser; the round trip. The
    type \<open>double\<close> and its operations are the argument \<open>float_ops\<close>.

  \<^item> \<^verbatim>\<open>Http_Uri\<close> (\<open>request.cpp\<close>): the parts of a URI, paths in normal form, and
    \<open>get_parameter_ex\<close> with multipart content.
  \<^item> \<^verbatim>\<open>Glob\<close> (\<open>glob.cpp\<close>): the matcher for paths. \<^verbatim>\<open>Security\<close> (\<open>security.cpp\<close>,
    \<open>security.hpp\<close>): stored passwords, users, access rules and the signed token in the cookie
    of a request. \<^verbatim>\<open>Controllers\<close> (\<open>controller.cpp\<close>, \<open>html-controller.cpp\<close>,
    \<open>rest-controller.cpp\<close>): prefixes and dispatch.
  \<^item> \<^verbatim>\<open>Doctype\<close> (\<open>doctype.cpp\<close>): content models, the states of the validator that follows
    one, attribute value checks, and the element and entity records of a DTD.

  \<^item> \<^verbatim>\<open>Format\<close> (\<open>format.cpp\<close>): decimal digits of a number, rounding and layout.
  \<^item> \<^verbatim>\<open>El_Lexer\<close>, \<^verbatim>\<open>El_Scope\<close>, \<^verbatim>\<open>El_Interp\<close> (\<open>el-processing.cpp\<close>): the expression language of
    the templates: its tokenizer, one rule per state; the chain of scopes and the utility
    objects; the recursive descent that evaluates while it parses, with templates, links
    and fragments. \<^verbatim>\<open>El_Reference\<close> gives expressions as trees with a meaning and a text,
    and proves that the interpreter computes the meaning from the text.

  \<^item> \<^verbatim>\<open>Node_List\<close> (\<open>zeep/xml/node.hpp\<close>, \<open>node.cpp\<close>): the doubly linked lists of XML nodes
    and their iterators over a store of cells, which refine insertion and deletion in a
    list. \<^verbatim>\<open>Xml_Node\<close>, \<^verbatim>\<open>Xml_Write\<close> (\<open>node.cpp\<close>): elements as trees over such lists, with
    attributes, namespaces, equality and content, and their output. \<^verbatim>\<open>Xml_Document\<close>
    (\<open>document.cpp\<close>): the handlers that build a document from what the parser reports.
  \<^item> \<^verbatim>\<open>Xml_Source\<close>, \<^verbatim>\<open>Xml_Scanner\<close>, \<^verbatim>\<open>Xml_Value\<close>, \<^verbatim>\<open>Xml_Dtd\<close>, \<^verbatim>\<open>Xml_Parser\<close>
    (\<open>parser.cpp\<close>): the XML parser. Sources of characters in five encodings; the state of
    \<open>parser_imp\<close> with its stack of sources, and the two scanners, one rule per state; the
    replacement of references in entity and attribute values; the declarations of a
    DTD; namespaces, elements and content. The client is one handler of events with a
    state of its own, the loader of external entities a function. \<^verbatim>\<open>Xml_Client\<close> is the
    contract of that client, which every production keeps: what is reported is well
    nested, and the handlers of a document end where they started.

  This theory ends with what spans some of them: access rules against controllers.

  Fuel. Loops that consume their input are structural or have a measure. The JSON
  tokenizer can loop for ever (theorem \<open>json_exponent_hangs\<close>), so it and the parser take
  fuel and return \<open>None\<close> when it runs out; \<open>json_roundtrip\<close> states the fuel, linear in the
  length of the text, that is enough. The tokenizer of the expression language needs at
  most one round more than three for the characters left (\<open>el_lexer_returns\<close>), the
  interpreter a multiple of the size of the expression (\<open>need\<close>), but literal substitution
  may not return (\<open>literal_substitution_never_returns\<close>).

  Not modelled. Sockets, threads, processes, logging and files; what only calls the
  operating system or an external library (\<open>daemon.cpp\<close>, \<open>preforked-server.cpp\<close>);
  templates that generate serialisers from types (\<open>serialize.hpp\<close>, \<open>serializer.hpp\<close>); the
  XPath and the template processors, which remain to be added; the
  date utility of the expression language; SOAP controllers and embedded resources.
\<close>

section \<open>The access rules and the paths of the controllers\<close>

definition normal_name :: "string \<Rightarrow> bool" where
  "normal_name w \<longleftrightarrow> w \<noteq> [] \<and> w \<noteq> ''.'' \<and> w \<noteq> ''..'' \<and> (\<forall>c \<in> set w. c \<notin> set ''/?'' \<and> c \<noteq> CHR 0x00)"

lemma join_path_Cons: "ws \<noteq> [] \<Longrightarrow> join_path (w # ws) = w @ ''/'' @ join_path ws"
  by (cases ws) simp_all

lemma join_path_chars: "list_all normal_name ws \<Longrightarrow> c \<in> set (join_path ws) \<Longrightarrow> c \<noteq> CHR ''?'' \<and> c \<noteq> CHR 0x00"
  by (induction ws rule: join_path.induct) (auto simp: normal_name_def)

lemma join_path_hd_last:
  assumes "list_all normal_name ws" "ws \<noteq> []"
  shows "join_path ws \<noteq> [] \<and> hd (join_path ws) \<noteq> CHR ''/'' \<and> last (join_path ws) \<noteq> CHR ''/''"
  using assms by (induction ws rule: join_path.induct) (auto simp: normal_name_def hd_append)

lemma split_on_slash: "list_all normal_name ws \<Longrightarrow> ws \<noteq> [] \<Longrightarrow> split_on (\<lambda>c. c = CHR ''/'') (join_path ws) = ws"
proof (induction ws rule: join_path.induct)
  case (2 w)
  then show ?case using split_on_none [of w] by (auto simp: normal_name_def)
next
  case (3 w v vs)
  then have "\<forall>x \<in> set w. x \<noteq> CHR ''/''" by (auto simp: normal_name_def)
  with 3 show ?case by (simp add: split_on_append)
qed simp

lemma foldl_normal_step: "list_all normal_name ws \<Longrightarrow> foldl (normal_step rooted) ns ws = ns @ ws"
  by (induction ws arbitrary: ns) (auto simp: normal_name_def)

lemma normal_names_keep: "list_all normal_name ws \<Longrightarrow> filter (\<lambda>w. w \<noteq> []) ws = ws \<and> (ws \<noteq> [] \<longrightarrow> last ws \<notin> {''.'', ''..''})"
  by (induction ws) (auto simp: normal_name_def)

lemma lexically_normal_join:
  assumes "list_all normal_name ws" "ws \<noteq> []"
  shows "lexically_normal (join_path ws) = join_path ws"
    and "lexically_normal (CHR ''/'' # join_path ws) = CHR ''/'' # join_path ws"
  using join_path_hd_last [OF assms] split_on_slash [OF assms] foldl_normal_step [OF assms(1)] normal_names_keep [OF assms(1)] assms(2)
  by (auto simp: lexically_normal_def path_names_def Let_def)

lemma match_uri_path:
  assumes "list_all normal_name ws" "ws \<noteq> []"
  shows "match_uri (CHR ''/'' # join_path ws) = Some ([], join_path ws, [])"
    and "match_uri (CHR ''/'' # CHR ''/'' # join_path ws) = Some ([], CHR ''/'' # join_path ws, [])"
proof -
  have c: "\<forall>c \<in> set (join_path ws). c \<noteq> CHR ''?''" using join_path_chars [OF assms(1)] by blast
  then have d: "takeWhile (\<lambda>c. c \<noteq> CHR ''?'') (join_path ws) = join_path ws" "dropWhile (\<lambda>c. c \<noteq> CHR ''?'') (join_path ws) = []"
    by simp_all
  have n: "\<And>t. \<not> istarts_with (CHR ''/'' # t) ''http:'' \<and> \<not> istarts_with (CHR ''/'' # t) ''https:''"
    by (simp add: istarts_with_def tolower_def isupper_def)
  show "match_uri (CHR ''/'' # join_path ws) = Some ([], join_path ws, [])"
    using n by (simp add: d match_uri_def match_tail_def Let_def)
  show "match_uri (CHR ''/'' # CHR ''/'' # join_path ws) = Some ([], CHR ''/'' # join_path ws, [])"
    using n by (simp add: d match_uri_def match_tail_def Let_def)
qed

lemma same_char_slash: "same_char (CHR ''/'') op \<Longrightarrow> op = CHR ''/'' \<or> op = CHR 0x5C"
proof (cases "isupper op")
  case True
  then have "code (tolower op) = code op + 32" "code op \<ge> 65"
    by (auto simp: tolower_def isupper_def)
  then have "tolower op \<noteq> CHR ''/''" by auto
  moreover assume "same_char (CHR ''/'') op"
  ultimately show ?thesis by (auto simp: same_char_def tolower_def [of "CHR ''/''"] isupper_def)
next
  case False
  moreover assume "same_char (CHR ''/'') op"
  ultimately show ?thesis by (auto simp: same_char_def tolower_def isupper_def)
qed

lemma strip_slashes_twice: "strip_slashes (CHR ''/'' # CHR ''/'' # t) = strip_slashes (CHR ''/'' # t)"
  by simp

text \<open>
  C27. Rules are matched with the path as it was written, while controllers strip extra
  slashes. With a second slash at the start of the URI a request is not subject to the rule
  for a directory, but reaches the same controller with the same path.
\<close>

theorem extra_slash_bypasses_rule:
  assumes ws: "ws \<noteq> []" "list_all normal_name ws"
    and dir: "plain_pattern (d # dir)" "d \<noteq> CHR ''/''" "d \<noteq> CHR 0x5C"
    and uri: "rq_uri req = ''/'' @ join_path ws"
  shows "\<exists>path path'. get_path req = ok path \<and> get_path (req\<lparr>rq_uri := ''//'' @ join_path ws\<rparr>) = ok path'
    \<and> rules_allow path' roles (\<lparr>rl_pattern = ''/'' @ (d # dir) @ ''/'', rl_roles = secret\<rparr> # rules) dflt = rules_allow path' roles rules dflt
    \<and> path_matches_prefix prefix path' = path_matches_prefix prefix path
    \<and> get_prefixless_path prefix (req\<lparr>rq_uri := ''//'' @ join_path ws\<rparr>) = get_prefixless_path prefix req"
proof -
  let ?p = "CHR ''/'' # join_path ws" and ?r = "req\<lparr>rq_uri := ''//'' @ join_path ws\<rparr>"
  have p: "get_path req = ok ?p" "get_path ?r = ok (CHR ''/'' # ?p)"
    using uri match_uri_path [OF ws(2,1)] lexically_normal_join [OF ws(2,1)] by (simp_all add: get_path_def)
  have "\<forall>c \<in> set (CHR ''/'' # ?p). c \<noteq> CHR 0x00" using join_path_chars [OF ws(2)] by auto
  moreover have "plain_pattern (''/'' @ d # dir)" using dir(1) by (auto simp: plain_pattern_def)
  ultimately have "glob_match (CHR ''/'' # ?p) ((''/'' @ d # dir) @ ''/'')
      = ok (\<exists>u v. CHR ''/'' # ?p = u @ v \<and> list_all2 same_char u ((''/'' @ d # dir) @ ''/''))"
    by (intro glob_below)
  moreover have "\<not> (\<exists>u v. CHR ''/'' # ?p = u @ v \<and> list_all2 same_char u ((''/'' @ d # dir) @ ''/''))"
    using same_char_slash [of d] dir(2,3) by (auto simp: list_all2_Cons2 Cons_eq_append_conv)
  ultimately have g: "glob_match (CHR ''/'' # ?p) (''/'' @ (d # dir) @ ''/'') = ok False" by simp
  have "path_matches_prefix prefix (CHR ''/'' # ?p) = path_matches_prefix prefix ?p"
    by (simp add: path_matches_prefix_def)
  moreover have "get_prefixless_path prefix ?r = get_prefixless_path prefix req"
    using p by (simp add: get_prefixless_path_def)
  ultimately show ?thesis using p g by (intro exI [of _ ?p] exI [of _ "CHR ''/'' # ?p"]) simp
qed

theorem extra_slash_bypasses_rule_witness:
  "rules_allow ''//admin/x'' [] [\<lparr>rl_pattern = ''/admin/'', rl_roles = [''ADMIN'']\<rparr>] True = ok True
   \<and> path_matches_prefix ''/admin'' ''//admin/x''"
proof -
  let ?q = "request_new ''GET'' ''/admin/x'' (1, 1) [] []"
  have d: "plain_pattern ''admin''" by (simp add: plain_pattern_def)
  have ws: "[''admin'', ''x''] \<noteq> []" "list_all normal_name [''admin'', ''x'']" by (simp_all add: normal_name_def)
  note t = extra_slash_bypasses_rule [OF ws d _ _, of ?q "[]" "[''ADMIN'']" "[]" True "''/admin''"]
  have u: "get_path ?q = ok ''/admin/x''" "get_path (?q\<lparr>rq_uri := ''//admin/x''\<rparr>) = ok ''//admin/x''"
    using match_uri_path [OF ws(2,1)] lexically_normal_join [OF ws(2,1)] by (simp_all add: get_path_def request_new_def)
  have q: "rq_uri ?q = ''/'' @ join_path [''admin'', ''x'']" by (simp add: request_new_def)
  show ?thesis using t [OF _ _ q] u by (auto simp: path_matches_prefix_def)
qed

end
